(* ===== verification/Prelude.thy ===== *)
theory Prelude
  imports Main "HOL-Library.AList" "HOL-Library.Multiset" "HOL-Library.Word"
begin

text \<open>
  Shared vocabulary of the development: the machine types, Rust's \<open>Result\<close> as a sum,
  \<open>HashMap\<close> as an association list where its iteration order is observable and as a partial
  function where it is not, and the bucket operations (\<open>entry(k).or_default().push(v)\<close>,
  \<open>retain\<close>-then-remove-if-empty) that every secondary index of the code is built from.
\<close>

section \<open>Types\<close>

type_synonym byte = "8 word"
type_synonym u16 = "16 word"
type_synonym u32 = "32 word"
type_synonym u64 = "64 word"
type_synonym i64 = "64 word"
type_synonym uuid = "128 word"
type_synonym ('k, 'v) hash_map = "('k \<times> 'v) list"

named_theorems bucket_simps \<open>lookup laws of the bucket operations\<close>
named_theorems res_simps \<open>evaluation of the \<open>Result\<close> combinators\<close>

section \<open>Results\<close>

abbreviation Err :: "'e \<Rightarrow> 'e + 'a" where
  "Err \<equiv> Inl"

abbreviation Ok :: "'a \<Rightarrow> 'e + 'a" where
  "Ok \<equiv> Inr"

definition and_then :: "'e + 'a \<Rightarrow> ('a \<Rightarrow> 'e + 'b) \<Rightarrow> 'e + 'b" where
  "and_then r f = (case r of Inl e \<Rightarrow> Inl e | Inr a \<Rightarrow> f a)"

definition map_err :: "('e \<Rightarrow> 'f) \<Rightarrow> 'e + 'a \<Rightarrow> 'f + 'a" where
  "map_err f r = (case r of Inl e \<Rightarrow> Inl (f e) | Inr a \<Rightarrow> Inr a)"

definition map_ok :: "('a \<Rightarrow> 'b) \<Rightarrow> 'e + 'a \<Rightarrow> 'e + 'b" where
  "map_ok f r = (case r of Inl e \<Rightarrow> Inl e | Inr a \<Rightarrow> Inr (f a))"

definition ok_or :: "'e \<Rightarrow> 'a option \<Rightarrow> 'e + 'a" where
  "ok_or e x = (case x of None \<Rightarrow> Inl e | Some a \<Rightarrow> Inr a)"

lemma and_then_simps [simp, res_simps]:
  "and_then (Inl e) f = Inl e"
  "and_then (Inr a) f = f a"
  by (simp_all add: and_then_def)

lemma map_err_simps [simp, res_simps]:
  "map_err g (Inl e) = Inl (g e)"
  "map_err g (Inr a) = Inr a"
  by (simp_all add: map_err_def)

lemma map_ok_simps [simp, res_simps]:
  "map_ok h (Inl e) = Inl e"
  "map_ok h (Inr a) = Inr (h a)"
  by (simp_all add: map_ok_def)

lemma ok_or_simps [simp, res_simps]:
  "ok_or e None = Inl e"
  "ok_or e (Some a) = Inr a"
  by (simp_all add: ok_or_def)

lemma and_then_Ok_iff: "and_then r f = Inr b \<longleftrightarrow> (\<exists>a. r = Inr a \<and> f a = Inr b)"
  by (cases r) simp_all

lemma and_then_Err_iff:
  "and_then r f = Inl e \<longleftrightarrow> r = Inl e \<or> (\<exists>a. r = Inr a \<and> f a = Inl e)"
  by (cases r) simp_all

section \<open>Hash maps whose iteration order is observable\<close>

text \<open>
  A \<open>HashMap\<close> that the code iterates (\<open>keys\<close>, \<open>values\<close>, \<open>retain\<close>) is an association list with
  distinct keys; the list order stands for the iteration order, which the code never relies
  on, so every theorem below speaks of it only up to permutation.
\<close>

definition hm_wf :: "('k, 'v) hash_map \<Rightarrow> bool" where
  "hm_wf m \<longleftrightarrow> distinct (map fst m)"

definition hm_collect :: "('k \<times> 'v) list \<Rightarrow> ('k, 'v) hash_map" where
  "hm_collect kvs = foldl (\<lambda>m (k, v). AList.update k v m) [] kvs"

lemma hm_wf_update [simp]: "hm_wf m \<Longrightarrow> hm_wf (AList.update k v m)"
  by (simp add: hm_wf_def distinct_update)

lemma hm_wf_delete [simp]: "hm_wf m \<Longrightarrow> hm_wf (AList.delete k m)"
  by (simp add: hm_wf_def distinct_delete)

lemma hm_wf_Nil [simp]: "hm_wf []"
  by (simp add: hm_wf_def)

lemma hm_collect_snoc:
  "hm_collect (kvs @ [(k, v)]) = AList.update k v (hm_collect kvs)"
  by (simp add: hm_collect_def)

lemma hm_wf_collect [simp]: "hm_wf (hm_collect kvs)"
  by (induction kvs rule: rev_induct) (auto simp: hm_collect_snoc, simp add: hm_collect_def)

lemma map_of_hm_collect: "map_of (hm_collect kvs) k = map_of (rev kvs) k"
proof (induction kvs rule: rev_induct)
  case Nil
  then show ?case by (simp add: hm_collect_def)
next
  case (snoc kv kvs)
  then show ?case by (cases kv) (simp add: hm_collect_snoc update_conv')
qed

lemma alist_update_new: "k \<notin> fst ` set m \<Longrightarrow> AList.update k v m = m @ [(k, v)]"
  by (induction m) auto

lemma hm_collect_distinct:
  "distinct (map fst kvs) \<Longrightarrow> hm_collect kvs = kvs"
proof (induction kvs rule: rev_induct)
  case Nil
  then show ?case by (simp add: hm_collect_def)
next
  case (snoc kv kvs)
  then show ?case
    by (cases kv) (auto simp: hm_collect_snoc alist_update_new)
qed

section \<open>Buckets of a secondary index\<close>

definition bucket :: "('k \<rightharpoonup> 'v list) \<Rightarrow> 'k \<Rightarrow> 'v list" where
  "bucket m k = (case m k of None \<Rightarrow> [] | Some vs \<Rightarrow> vs)"

definition bucket_push :: "'k \<Rightarrow> 'v \<Rightarrow> ('k \<rightharpoonup> 'v list) \<Rightarrow> ('k \<rightharpoonup> 'v list)" where
  "bucket_push k v m = m(k \<mapsto> bucket m k @ [v])"

definition bucket_push_new :: "'k \<Rightarrow> 'v \<Rightarrow> ('k \<rightharpoonup> 'v list) \<Rightarrow> ('k \<rightharpoonup> 'v list)" where
  "bucket_push_new k v m =
     (if v \<in> set (bucket m k) then m(k \<mapsto> bucket m k) else m(k \<mapsto> bucket m k @ [v]))"

definition bucket_drop :: "'k \<Rightarrow> 'v \<Rightarrow> ('k \<rightharpoonup> 'v list) \<Rightarrow> ('k \<rightharpoonup> 'v list)" where
  "bucket_drop k v m =
     (case m k of
        None \<Rightarrow> m
      | Some vs \<Rightarrow> (let vs' = filter (\<lambda>w. w \<noteq> v) vs in if vs' = [] then m(k := None) else m(k \<mapsto> vs')))"

lemma bucket_empty [simp, bucket_simps]: "bucket Map.empty k = []"
  by (simp add: bucket_def)

lemma bucket_bucket_push [bucket_simps]:
  "bucket (bucket_push k v m) k' = (if k' = k then bucket m k @ [v] else bucket m k')"
  by (simp add: bucket_def bucket_push_def)

lemma bucket_bucket_push_new [bucket_simps]:
  "bucket (bucket_push_new k v m) k' =
     (if k' = k \<and> v \<notin> set (bucket m k) then bucket m k @ [v] else bucket m k')"
  by (auto simp: bucket_def bucket_push_new_def split: option.splits)

lemma bucket_bucket_drop [bucket_simps]:
  "bucket (bucket_drop k v m) k' =
     (if k' = k then filter (\<lambda>w. w \<noteq> v) (bucket m k) else bucket m k')"
  by (auto simp: bucket_def bucket_drop_def Let_def split: option.splits)

text \<open>No bucket is stored empty: what \<open>bucket.is_empty()\<close> then \<open>remove\<close> keeps true.\<close>

definition no_empty_bucket :: "('k \<rightharpoonup> 'v list) \<Rightarrow> bool" where
  "no_empty_bucket m \<longleftrightarrow> (\<forall>k. m k \<noteq> Some [])"

lemma no_empty_bucket_intros [simp, intro]:
  "no_empty_bucket Map.empty"
  "no_empty_bucket m \<Longrightarrow> no_empty_bucket (bucket_push k v m)"
  "no_empty_bucket m \<Longrightarrow> no_empty_bucket (bucket_push_new k v m)"
  "no_empty_bucket m \<Longrightarrow> no_empty_bucket (bucket_drop k v m)"
  by (auto simp: no_empty_bucket_def bucket_push_def bucket_push_new_def bucket_drop_def
      bucket_def Let_def split: option.splits)

section \<open>Lists\<close>

text \<open>\<open>iter_mut().find(p)\<close> followed by an assignment through the reference.\<close>

fun set_first :: "('a \<Rightarrow> bool) \<Rightarrow> ('a \<Rightarrow> 'a) \<Rightarrow> 'a list \<Rightarrow> 'a list" where
  "set_first p f [] = []"
| "set_first p f (x # xs) = (if p x then f x # xs else x # set_first p f xs)"

lemma set_first_nth:
  "k < length xs \<Longrightarrow> p (xs ! k) \<Longrightarrow> \<forall>j<k. \<not> p (xs ! j) \<Longrightarrow> set_first p f xs = xs[k := f (xs ! k)]"
proof (induction xs arbitrary: k)
  case Nil
  then show ?case by simp
next
  case (Cons x xs)
  show ?case
  proof (cases k)
    case 0
    with Cons.prems show ?thesis by simp
  next
    case (Suc n)
    from Cons.prems(3) Suc have "\<not> p x" "\<forall>j<n. \<not> p (xs ! j)" by auto
    with Cons Suc show ?thesis by simp
  qed
qed

text \<open>\<open>iter().position(p)\<close>.\<close>

fun position :: "('a \<Rightarrow> bool) \<Rightarrow> 'a list \<Rightarrow> nat option" where
  "position p [] = None"
| "position p (x # xs) = (if p x then Some 0 else map_option Suc (position p xs))"

lemma position_Some:
  "position p xs = Some i \<Longrightarrow> i < length xs \<and> p (xs ! i) \<and> (\<forall>j<i. \<not> p (xs ! j))"
proof (induction xs arbitrary: i)
  case Nil
  then show ?case by simp
next
  case (Cons x xs)
  show ?case
  proof (cases "p x")
    case True
    with Cons.prems show ?thesis by simp
  next
    case False
    with Cons.prems obtain k where k: "position p xs = Some k" "i = Suc k" by auto
    with Cons.IH [OF k(1)] False show ?thesis by (auto simp: less_Suc_eq_0_disj)
  qed
qed

lemma position_None: "position p xs = None \<longleftrightarrow> (\<forall>x \<in> set xs. \<not> p x)"
  by (induction xs) auto

text \<open>Association by a key function, as \<open>iter().find(|r| r.id == id)\<close> reads it.\<close>

definition keyed :: "('a \<Rightarrow> 'k) \<Rightarrow> 'a list \<Rightarrow> ('k \<rightharpoonup> 'a)" where
  "keyed f xs = map_of (map (\<lambda>x. (f x, x)) xs)"

lemma keyed_Nil [simp]: "keyed f [] = Map.empty"
  by (simp add: keyed_def)

lemma keyed_Cons [simp]: "keyed f (x # xs) = (keyed f xs)(f x \<mapsto> x)"
  by (simp add: keyed_def)

lemma keyed_find: "keyed f xs k = List.find (\<lambda>x. f x = k) xs"
  by (induction xs) auto

lemma dom_keyed: "dom (keyed f xs) = f ` set xs"
  by (simp add: keyed_def dom_map_of_conv_image_fst image_image)

lemma keyed_SomeD: "keyed f xs k = Some x \<Longrightarrow> x \<in> set xs \<and> f x = k"
  by (induction xs) (auto split: if_splits)

lemma keyed_distinct:
  "distinct (map f xs) \<Longrightarrow> x \<in> set xs \<Longrightarrow> keyed f xs (f x) = Some x"
  by (induction xs) (auto dest: keyed_SomeD simp: rev_image_eqI)

lemma keyed_snoc: "keyed f xs (f x) = None \<Longrightarrow> keyed f (xs @ [x]) = (keyed f xs)(f x \<mapsto> x)"
  by (auto simp: keyed_def map_add_def fun_eq_iff split: option.splits)

lemma keyed_fresh: "f x \<notin> f ` set xs \<Longrightarrow> keyed f xs (f x) = None"
  using dom_keyed [of f xs] by (auto simp: domIff)

lemma keyed_rev:
  assumes "distinct (map f xs)"
  shows "map_of (rev (map (\<lambda>x. (f x, x)) xs)) = keyed f xs"
proof -
  have "distinct (map fst (map (\<lambda>x. (f x, x)) xs))"
    using assms by (simp add: comp_def)
  then have "map_of (rev (map (\<lambda>x. (f x, x)) xs)) = map_of (map (\<lambda>x. (f x, x)) xs)"
    by (subst map_of_inject_set) (simp_all add: rev_map [symmetric])
  then show ?thesis
    by (simp add: keyed_def)
qed

lemma distinct_map_nthD:
  "distinct (map f xs) \<Longrightarrow> f (xs ! a) = f (xs ! b) \<Longrightarrow> a < length xs \<Longrightarrow> b < length xs \<Longrightarrow> a = b"
  using nth_eq_iff_index_eq [of "map f xs" a b] by simp

lemma image_set_nth: "i \<in> f ` set xs \<longleftrightarrow> (\<exists>j < length xs. f (xs ! j) = i)"
  by (auto simp: set_conv_nth)

lemma map_of_only:
  assumes "(k, v) \<in> set xs" "\<And>w. (k, w) \<in> set xs \<Longrightarrow> w = v"
  shows "map_of xs k = Some v"
proof (cases "map_of xs k")
  case None
  with assms(1) show ?thesis by (auto simp: map_of_eq_None_iff rev_image_eqI)
next
  case (Some w)
  with assms(2) [OF map_of_SomeD [OF Some]] show ?thesis by simp
qed

lemma map_of_foldl_update:
  "map_of (foldl (\<lambda>m x. AList.update (f x) (g x) m) m xs) k =
     (case map_of (rev (map (\<lambda>x. (f x, g x)) xs)) k of None \<Rightarrow> map_of m k | Some v \<Rightarrow> Some v)"
  by (induction xs rule: rev_induct) (auto simp: update_conv')

lemma hm_wf_foldl_update: "hm_wf m \<Longrightarrow> hm_wf (foldl (\<lambda>m x. AList.update (f x) (g x) m) m xs)"
  by (induction xs rule: rev_induct) auto

end
