(* ===== verification/Dog_Spec.thy ===== *)
theory Dog_Spec
  imports Prelude
begin

text \<open>
  The record and the store contract of the \<open>Dog\<close> line: \<open>src/record.rs\<close>, the \<open>DogStore\<close> trait
  and \<open>StoreError\<close> of \<open>src/store/mod.rs\<close>. The trait is the locale \<open>dog_store\<close>: its
  operations, and laws that refine each to an abstract view (the records by id, their order,
  the littermate lists). Every backend of the code interprets it on its own operations.
\<close>

section \<open>Records and errors\<close>

record dog =
  dog_id :: uuid
  breed :: string
  age :: u32

datatype store_error = StoreNotFound uuid | StoreDurability string

section \<open>The abstract view\<close>

record dog_view =
  v_order :: "uuid list"
  v_dogs :: "uuid \<rightharpoonup> dog"
  v_nbrs :: "uuid \<Rightarrow> uuid list"

definition view_ok :: "dog_view \<Rightarrow> bool" where
  "view_ok v \<longleftrightarrow> distinct (v_order v) \<and> dom (v_dogs v) = set (v_order v) \<and>
     (\<forall>i d. v_dogs v i = Some d \<longrightarrow> dog_id d = i)"

definition spec_update :: "dog_view \<Rightarrow> uuid \<Rightarrow> u32 \<Rightarrow> store_error + dog_view" where
  "spec_update v i a =
     (case v_dogs v i of
        None \<Rightarrow> Err (StoreNotFound i)
      | Some d \<Rightarrow> Ok (v\<lparr>v_dogs := (v_dogs v)(i \<mapsto> d\<lparr>age := a\<rparr>)\<rparr>))"

definition spec_scan :: "dog_view \<Rightarrow> u32 multiset" where
  "spec_scan v = image_mset (\<lambda>i. age (the (v_dogs v i))) (mset (v_order v))"

definition spec_same_breed :: "dog_view \<Rightarrow> uuid \<Rightarrow> uuid list" where
  "spec_same_breed v i =
     (case v_dogs v i of
        None \<Rightarrow> []
      | Some d \<Rightarrow> filter (\<lambda>j. j \<noteq> i \<and> map_option breed (v_dogs v j) = Some (breed d)) (v_order v))"

text \<open>The list of littermates an edge list gives, in edge order.\<close>

definition edge_nbrs :: "(uuid \<times> uuid) list \<Rightarrow> uuid \<Rightarrow> uuid list" where
  "edge_nbrs es i = List.map_filter (\<lambda>(a, b). if a = i then Some b else if b = i then Some a else None) es"

definition mk_view :: "dog list \<Rightarrow> (uuid \<times> uuid) list \<Rightarrow> dog_view" where
  "mk_view rs es = \<lparr>v_order = map dog_id rs, v_dogs = keyed dog_id rs, v_nbrs = edge_nbrs es\<rparr>"

text \<open>What the callers of every constructor supply: distinct ids and no self-loop.\<close>

definition input_ok :: "dog list \<Rightarrow> (uuid \<times> uuid) list \<Rightarrow> bool" where
  "input_ok rs es \<longleftrightarrow> distinct (map dog_id rs) \<and> (\<forall>(a, b) \<in> set es. a \<noteq> b)"

lemma view_ok_mk_view: "input_ok rs es \<Longrightarrow> view_ok (mk_view rs es)"
  by (auto simp: view_ok_def mk_view_def input_ok_def dom_keyed dest: keyed_SomeD)

lemma spec_update_ok:
  assumes "view_ok v" and "spec_update v i a = Inr v'"
  shows "view_ok v'"
proof -
  from assms(2) obtain d where d: "v_dogs v i = Some d"
    and v': "v' = v\<lparr>v_dogs := (v_dogs v)(i \<mapsto> d\<lparr>age := a\<rparr>)\<rparr>"
    by (auto simp: spec_update_def split: option.splits)
  from assms(1) domI [of "v_dogs v", OF d] have "i \<in> set (v_order v)"
    by (simp add: view_ok_def)
  with assms(1) d show ?thesis
    by (simp add: view_ok_def v' insert_absorb)
qed

lemma edge_nbrs_Nil [simp]: "edge_nbrs [] i = []"
  by (simp add: edge_nbrs_def)

lemma edge_nbrs_snoc:
  "edge_nbrs (es @ [(a, b)]) i =
     edge_nbrs es i @ (if a = i then [b] else if b = i then [a] else [])"
  by (simp add: edge_nbrs_def List.map_filter_def)

section \<open>The store contract\<close>

locale dog_store =
  fixes invar :: "'s \<Rightarrow> bool"
    and view :: "'s \<Rightarrow> dog_view"
    and get :: "'s \<Rightarrow> uuid \<Rightarrow> dog option"
    and scan_ages :: "'s \<Rightarrow> u32 list"
    and update_age :: "'s \<Rightarrow> uuid \<Rightarrow> u32 \<Rightarrow> store_error + 's"
    and same_breed :: "'s \<Rightarrow> uuid \<Rightarrow> uuid list"
    and neighbors :: "'s \<Rightarrow> uuid \<Rightarrow> uuid list"
  assumes view_wf: "invar s \<Longrightarrow> view_ok (view s)"
    and get_view: "invar s \<Longrightarrow> get s i = v_dogs (view s) i"
    and scan_view: "invar s \<Longrightarrow> mset (scan_ages s) = spec_scan (view s)"
    and update_view: "invar s \<Longrightarrow> map_ok view (update_age s i a) = spec_update (view s) i a"
    and update_invar: "invar s \<Longrightarrow> update_age s i a = Inr s' \<Longrightarrow> invar s'"
    and same_breed_view: "invar s \<Longrightarrow> same_breed s i = spec_same_breed (view s) i"
    and neighbors_view: "invar s \<Longrightarrow> neighbors s i = v_nbrs (view s) i"
begin

text \<open>A client's sequence of \<open>update_age\<close> calls; a refused call leaves the store as it was.\<close>

fun run :: "'s \<Rightarrow> (uuid \<times> u32) list \<Rightarrow> 's" where
  "run s [] = s"
| "run s ((i, a) # us) = run (case update_age s i a of Inl _ \<Rightarrow> s | Inr s' \<Rightarrow> s') us"

lemma update_cases:
  assumes "invar s"
  obtains (miss) "v_dogs (view s) i = None" "update_age s i a = Inl (StoreNotFound i)"
  | (hit) d s' where "v_dogs (view s) i = Some d" "update_age s i a = Inr s'" "invar s'"
      "view s' = (view s)\<lparr>v_dogs := (v_dogs (view s))(i \<mapsto> d\<lparr>age := a\<rparr>)\<rparr>"
proof (cases "v_dogs (view s) i")
  case None
  with update_view [OF assms, of i a] show ?thesis
    by (intro miss) (cases "update_age s i a"; simp add: spec_update_def)+
next
  case (Some d)
  with update_view [OF assms, of i a] obtain s' where s': "update_age s i a = Inr s'"
    "view s' = (view s)\<lparr>v_dogs := (v_dogs (view s))(i \<mapsto> d\<lparr>age := a\<rparr>)\<rparr>"
    by (cases "update_age s i a") (auto simp: spec_update_def)
  with Some update_invar [OF assms s'(1)] show ?thesis by (intro hit)
qed

lemma get_update_same:
  assumes "invar s" and "update_age s i a = Inr s'"
  shows "get s' i = map_option (\<lambda>d. d\<lparr>age := a\<rparr>) (get s i)"
  using assms by (cases rule: update_cases [of s i a]) (auto simp: get_view assms)

lemma get_update_other:
  assumes "invar s" and "update_age s i a = Inr s'" and "j \<noteq> i"
  shows "get s' j = get s j"
  using assms by (cases rule: update_cases [of s i a]) (auto simp: get_view assms)

lemma run_invar: "invar s \<Longrightarrow> invar (run s us)"
proof (induction us arbitrary: s)
  case Nil
  then show ?case by simp
next
  case (Cons u us)
  obtain i a where u: "u = (i, a)" by (cases u)
  from Cons.prems show ?case
    by (cases rule: update_cases [of s i a]) (auto simp: u intro: Cons.IH Cons.prems)
qed

end

text \<open>The same run over abstract views, and the simulation between the two.\<close>

fun spec_run :: "dog_view \<Rightarrow> (uuid \<times> u32) list \<Rightarrow> dog_view" where
  "spec_run v [] = v"
| "spec_run v ((i, a) # us) = spec_run (case spec_update v i a of Inl _ \<Rightarrow> v | Inr v' \<Rightarrow> v') us"

context dog_store
begin

lemma run_view: "invar s \<Longrightarrow> view (run s us) = spec_run (view s) us"
proof (induction us arbitrary: s)
  case Nil
  then show ?case by simp
next
  case (Cons u us)
  obtain i a where u: "u = (i, a)" by (cases u)
  from Cons.prems show ?case
    by (cases rule: update_cases [of s i a]) (auto simp: u Cons.IH Cons.prems spec_update_def)
qed

text \<open>What a client can observe of a store is a function of the abstract view.\<close>

lemma observe_run:
  assumes "invar s" and "view s = v"
  shows "get (run s us) i = v_dogs (spec_run v us) i"
    and "mset (scan_ages (run s us)) = spec_scan (spec_run v us)"
    and "same_breed (run s us) i = spec_same_breed (spec_run v us) i"
    and "neighbors (run s us) i = v_nbrs (spec_run v us) i"
  using assms run_invar [OF assms(1)] run_view [OF assms(1)]
  by (simp_all add: get_view scan_view same_breed_view neighbors_view)

end

lemma spec_run_frame:
  "v_nbrs (spec_run v us) = v_nbrs v" "v_order (spec_run v us) = v_order v"
  by (induction v us rule: spec_run.induct)
    (auto simp: spec_update_def split: option.splits)

text \<open>The last accepted write to an id is the age a later read returns.\<close>

lemma spec_run_age:
  "map_option age (v_dogs (spec_run v us) i) =
     (case v_dogs v i of None \<Rightarrow> None | Some d \<Rightarrow> Some (last (age d # map snd (filter (\<lambda>u. fst u = i) us))))"
proof (induction v us rule: spec_run.induct)
  case (1 v)
  then show ?case by (simp split: option.splits)
next
  case (2 v j a us)
  then show ?case by (auto simp: spec_update_def split: option.splits)
qed

end
