(* ===== verification/Dog_Rows.thy ===== *)
theory Dog_Rows
  imports Dog_Spec
begin

text \<open>
  The row-oriented and column-oriented backends, \<open>src/store/aos.rs\<close> (\<open>AosStore\<close>) and
  \<open>src/store/soa.rs\<close> (\<open>SoaStore\<close>), each an interpretation of \<open>dog_store\<close>.
\<close>

section \<open>AosStore\<close>

record aos_store =
  aos_records :: "dog list"
  aos_edges :: "(uuid \<times> uuid) list"

definition aos_new :: "dog list \<Rightarrow> (uuid \<times> uuid) list \<Rightarrow> aos_store" where
  "aos_new rs es = \<lparr>aos_records = rs, aos_edges = es\<rparr>"

definition aos_get :: "aos_store \<Rightarrow> uuid \<Rightarrow> dog option" where
  "aos_get s i = List.find (\<lambda>r. dog_id r = i) (aos_records s)"

definition aos_scan_ages :: "aos_store \<Rightarrow> u32 list" where
  "aos_scan_ages s = map age (aos_records s)"

definition aos_update_age :: "aos_store \<Rightarrow> uuid \<Rightarrow> u32 \<Rightarrow> store_error + aos_store" where
  "aos_update_age s i a =
     (case List.find (\<lambda>r. dog_id r = i) (aos_records s) of
        None \<Rightarrow> Err (StoreNotFound i)
      | Some _ \<Rightarrow>
          Ok (s\<lparr>aos_records := set_first (\<lambda>r. dog_id r = i) (\<lambda>r. r\<lparr>age := a\<rparr>) (aos_records s)\<rparr>))"

definition aos_same_breed :: "aos_store \<Rightarrow> uuid \<Rightarrow> uuid list" where
  "aos_same_breed s i =
     (case List.find (\<lambda>r. dog_id r = i) (aos_records s) of
        None \<Rightarrow> []
      | Some target \<Rightarrow>
          map dog_id (filter (\<lambda>r. dog_id r \<noteq> i \<and> breed r = breed target) (aos_records s)))"

definition aos_neighbors :: "aos_store \<Rightarrow> uuid \<Rightarrow> uuid list" where
  "aos_neighbors s i =
     List.map_filter (\<lambda>(a, b). if a = i then Some b else if b = i then Some a else None) (aos_edges s)"

definition aos_invar :: "aos_store \<Rightarrow> bool" where
  "aos_invar s \<longleftrightarrow> distinct (map dog_id (aos_records s))"

definition aos_view :: "aos_store \<Rightarrow> dog_view" where
  "aos_view s = mk_view (aos_records s) (aos_edges s)"

lemma keyed_set_first:
  "(\<And>r. dog_id (f r) = dog_id r) \<Longrightarrow>
   keyed dog_id (set_first (\<lambda>r. dog_id r = i) f rs) =
     (case keyed dog_id rs i of None \<Rightarrow> keyed dog_id rs | Some r \<Rightarrow> (keyed dog_id rs)(i \<mapsto> f r))"
  by (induction rs) (auto simp: fun_eq_iff split: option.splits)

lemma map_id_set_first:
  "(\<And>r. dog_id (f r) = dog_id r) \<Longrightarrow> map dog_id (set_first p f rs) = map dog_id rs"
  by (induction rs) auto

lemma keyed_breed_filter:
  assumes "distinct (map dog_id rs)"
  shows "filter (\<lambda>j. j \<noteq> i \<and> map_option breed (keyed dog_id rs j) = Some b) (map dog_id rs) =
     map dog_id (filter (\<lambda>r. dog_id r \<noteq> i \<and> breed r = b) rs)"
  using assms by (auto simp: filter_map comp_def keyed_distinct intro!: filter_cong arg_cong [where f = "map dog_id"])

lemma keyed_ages:
  "distinct (map dog_id rs) \<Longrightarrow> map (\<lambda>i. age (the (keyed dog_id rs i))) (map dog_id rs) = map age rs"
  by (simp add: keyed_distinct)

interpretation aos: dog_store aos_invar aos_view aos_get aos_scan_ages aos_update_age
  aos_same_breed aos_neighbors
proof unfold_locales
  fix s i a s'
  assume inv: "aos_invar s"
  then have d: "distinct (map dog_id (aos_records s))" by (simp add: aos_invar_def)
  show "view_ok (aos_view s)"
    using d by (auto simp: view_ok_def aos_view_def mk_view_def dom_keyed dest: keyed_SomeD)
  show "aos_get s i = v_dogs (aos_view s) i"
    by (simp add: aos_get_def aos_view_def mk_view_def keyed_find)
  show "mset (aos_scan_ages s) = spec_scan (aos_view s)"
    using arg_cong [OF keyed_ages [OF d], of mset]
    by (simp add: aos_scan_ages_def aos_view_def mk_view_def spec_scan_def multiset.map_comp comp_def)
  show "map_ok aos_view (aos_update_age s i a) = spec_update (aos_view s) i a"
    by (auto simp: aos_update_age_def aos_view_def mk_view_def spec_update_def keyed_find [symmetric]
        keyed_set_first map_id_set_first split: option.splits)
  show "aos_update_age s i a = Inr s' \<Longrightarrow> aos_invar s'"
    using d by (auto simp: aos_update_age_def aos_invar_def map_id_set_first split: option.splits)
  show "aos_same_breed s i = spec_same_breed (aos_view s) i"
  proof (cases "keyed dog_id (aos_records s) i")
    case None
    then show ?thesis
      by (simp add: aos_same_breed_def spec_same_breed_def aos_view_def mk_view_def keyed_find [symmetric])
  next
    case (Some t)
    with keyed_breed_filter [OF d, of i "breed t"] show ?thesis
      by (simp add: aos_same_breed_def spec_same_breed_def aos_view_def mk_view_def keyed_find [symmetric])
  qed
  show "aos_neighbors s i = v_nbrs (aos_view s) i"
    by (simp add: aos_neighbors_def aos_view_def mk_view_def edge_nbrs_def)
qed

lemma aos_new_ok: "input_ok rs es \<Longrightarrow> aos_invar (aos_new rs es) \<and> aos_view (aos_new rs es) = mk_view rs es"
  by (simp add: aos_invar_def aos_new_def aos_view_def input_ok_def)

section \<open>SoaStore\<close>

record soa_store =
  soa_ids :: "uuid list"
  soa_breeds :: "string list"
  soa_ages :: "u32 list"
  soa_edges :: "(uuid \<times> uuid) list"

definition soa_new :: "dog list \<Rightarrow> (uuid \<times> uuid) list \<Rightarrow> soa_store" where
  "soa_new rs es = foldl
     (\<lambda>s r. s\<lparr>soa_ids := soa_ids s @ [dog_id r], soa_breeds := soa_breeds s @ [breed r],
             soa_ages := soa_ages s @ [age r]\<rparr>)
     \<lparr>soa_ids = [], soa_breeds = [], soa_ages = [], soa_edges = es\<rparr> rs"

definition soa_position_of :: "soa_store \<Rightarrow> uuid \<Rightarrow> nat option" where
  "soa_position_of s i = position (\<lambda>j. j = i) (soa_ids s)"

definition soa_get :: "soa_store \<Rightarrow> uuid \<Rightarrow> dog option" where
  "soa_get s i =
     (case soa_position_of s i of
        None \<Rightarrow> None
      | Some p \<Rightarrow> Some \<lparr>dog_id = soa_ids s ! p, breed = soa_breeds s ! p, age = soa_ages s ! p\<rparr>)"

definition soa_scan_ages :: "soa_store \<Rightarrow> u32 list" where
  "soa_scan_ages s = soa_ages s"

definition soa_update_age :: "soa_store \<Rightarrow> uuid \<Rightarrow> u32 \<Rightarrow> store_error + soa_store" where
  "soa_update_age s i a =
     (case soa_position_of s i of
        None \<Rightarrow> Err (StoreNotFound i)
      | Some p \<Rightarrow> Ok (s\<lparr>soa_ages := (soa_ages s)[p := a]\<rparr>))"

definition soa_same_breed :: "soa_store \<Rightarrow> uuid \<Rightarrow> uuid list" where
  "soa_same_breed s i =
     (case soa_position_of s i of
        None \<Rightarrow> []
      | Some p \<Rightarrow>
          map (\<lambda>k. soa_ids s ! k)
            (filter (\<lambda>k. soa_ids s ! k \<noteq> i \<and> soa_breeds s ! k = soa_breeds s ! p) [0..<length (soa_ids s)]))"

definition soa_neighbors :: "soa_store \<Rightarrow> uuid \<Rightarrow> uuid list" where
  "soa_neighbors s i =
     List.map_filter (\<lambda>(a, b). if a = i then Some b else if b = i then Some a else None) (soa_edges s)"

text \<open>The three columns always have one length, so no indexed read is out of range.\<close>

definition soa_invar :: "soa_store \<Rightarrow> bool" where
  "soa_invar s \<longleftrightarrow> distinct (soa_ids s) \<and> length (soa_breeds s) = length (soa_ids s) \<and>
     length (soa_ages s) = length (soa_ids s)"

definition soa_rows :: "soa_store \<Rightarrow> dog list" where
  "soa_rows s = map (\<lambda>k. \<lparr>dog_id = soa_ids s ! k, breed = soa_breeds s ! k, age = soa_ages s ! k\<rparr>)
     [0..<length (soa_ids s)]"

definition soa_view :: "soa_store \<Rightarrow> dog_view" where
  "soa_view s = mk_view (soa_rows s) (soa_edges s)"

lemma soa_position_in_range:
  "soa_invar s \<Longrightarrow> soa_position_of s i = Some p \<Longrightarrow>
     p < length (soa_ids s) \<and> p < length (soa_breeds s) \<and> p < length (soa_ages s) \<and> soa_ids s ! p = i"
  unfolding soa_position_of_def soa_invar_def by (auto dest: position_Some)

lemma soa_rows_ids [simp]: "map dog_id (soa_rows s) = soa_ids s"
  by (simp add: soa_rows_def comp_def map_nth)

lemma soa_get_keyed: "soa_invar s \<Longrightarrow> soa_get s i = keyed dog_id (soa_rows s) i"
proof (cases "soa_position_of s i")
  case None
  then have "i \<notin> dog_id ` set (soa_rows s)"
    by (simp add: soa_position_of_def position_None flip: set_map) blast
  then show ?thesis
    using None by (simp add: soa_get_def dom_keyed [symmetric] domIff)
next
  case (Some p)
  assume inv: "soa_invar s"
  from soa_position_in_range [OF inv Some]
  have p: "p < length (soa_ids s)" "soa_ids s ! p = i" by auto
  then have "soa_rows s ! p \<in> set (soa_rows s)" "dog_id (soa_rows s ! p) = i"
    by (auto simp: soa_rows_def)
  moreover from inv have "distinct (map dog_id (soa_rows s))" by (simp add: soa_invar_def)
  ultimately have "keyed dog_id (soa_rows s) i = Some (soa_rows s ! p)"
    using keyed_distinct [of dog_id "soa_rows s" "soa_rows s ! p"] by simp
  with Some p show ?thesis by (simp add: soa_get_def soa_rows_def)
qed

lemma soa_rows_update:
  assumes "soa_invar s" "soa_position_of s i = Some p"
  shows "soa_rows (s\<lparr>soa_ages := (soa_ages s)[p := a]\<rparr>) =
     set_first (\<lambda>r. dog_id r = i) (\<lambda>r. r\<lparr>age := a\<rparr>) (soa_rows s)"
proof -
  from assms soa_position_in_range [OF assms] show ?thesis
    by (subst set_first_nth [of p])
      (auto simp: soa_rows_def soa_position_of_def soa_invar_def dest: position_Some intro!: nth_equalityI
        simp: nth_list_update)
qed

interpretation soa: dog_store soa_invar soa_view soa_get soa_scan_ages soa_update_age
  soa_same_breed soa_neighbors
proof unfold_locales
  fix s i a s'
  assume inv: "soa_invar s"
  then have d: "distinct (map dog_id (soa_rows s))" by (simp add: soa_invar_def)
  show "view_ok (soa_view s)"
    using d by (auto simp: view_ok_def soa_view_def mk_view_def dom_keyed simp flip: set_map dest: keyed_SomeD)
  show "soa_get s i = v_dogs (soa_view s) i"
    using inv by (simp add: soa_get_keyed soa_view_def mk_view_def)
  have "map age (soa_rows s) = soa_ages s"
    using inv by (simp add: soa_rows_def soa_invar_def comp_def) (metis map_nth)
  then show "mset (soa_scan_ages s) = spec_scan (soa_view s)"
    using arg_cong [OF keyed_ages [OF d], of mset] by (simp add: soa_scan_ages_def soa_view_def
        mk_view_def spec_scan_def)
  show "map_ok soa_view (soa_update_age s i a) = spec_update (soa_view s) i a"
  proof (cases "soa_position_of s i")
    case None
    then have "keyed dog_id (soa_rows s) i = None"
      using inv by (simp add: soa_get_keyed [symmetric] soa_get_def)
    with None show ?thesis
      by (simp add: soa_update_age_def soa_view_def mk_view_def spec_update_def)
  next
    case (Some p)
    then obtain d where "keyed dog_id (soa_rows s) i = Some d"
      using inv by (simp add: soa_get_keyed [symmetric] soa_get_def)
    moreover have "soa_ids (s\<lparr>soa_ages := (soa_ages s)[p := a]\<rparr>) = soa_ids s" by simp
    ultimately show ?thesis
      using Some inv by (simp add: soa_update_age_def soa_view_def mk_view_def spec_update_def
          soa_rows_update keyed_set_first map_id_set_first)
  qed
  show "soa_update_age s i a = Inr s' \<Longrightarrow> soa_invar s'"
    using inv by (auto simp: soa_update_age_def soa_invar_def split: option.splits)
  show "soa_same_breed s i = spec_same_breed (soa_view s) i"
  proof (cases "soa_position_of s i")
    case None
    then have "keyed dog_id (soa_rows s) i = None"
      using inv by (simp add: soa_get_keyed [symmetric] soa_get_def)
    with None show ?thesis
      by (simp add: soa_same_breed_def spec_same_breed_def soa_view_def mk_view_def)
  next
    case (Some p)
    then have k: "keyed dog_id (soa_rows s) i =
        Some \<lparr>dog_id = soa_ids s ! p, breed = soa_breeds s ! p, age = soa_ages s ! p\<rparr>"
      using inv by (simp add: soa_get_keyed [symmetric] soa_get_def)
    have "spec_same_breed (soa_view s) i =
        map dog_id (filter (\<lambda>r. dog_id r \<noteq> i \<and> breed r = soa_breeds s ! p) (soa_rows s))"
      using keyed_breed_filter [OF d, of i "soa_breeds s ! p"] k
      by (simp add: spec_same_breed_def soa_view_def mk_view_def)
    with Some show ?thesis
      by (simp add: soa_same_breed_def soa_rows_def filter_map comp_def)
  qed
  show "soa_neighbors s i = v_nbrs (soa_view s) i"
    by (simp add: soa_neighbors_def soa_view_def mk_view_def edge_nbrs_def)
qed

lemma soa_new_columns:
  "soa_ids (soa_new rs es) = map dog_id rs \<and> soa_breeds (soa_new rs es) = map breed rs \<and>
   soa_ages (soa_new rs es) = map age rs \<and> soa_edges (soa_new rs es) = es"
  by (induction rs rule: rev_induct) (simp_all add: soa_new_def)

lemma soa_new_ok: "input_ok rs es \<Longrightarrow> soa_invar (soa_new rs es) \<and> soa_view (soa_new rs es) = mk_view rs es"
proof -
  have "soa_rows (soa_new rs es) = rs"
    by (auto simp: soa_rows_def soa_new_columns intro!: nth_equalityI)
  then show "input_ok rs es \<Longrightarrow> ?thesis"
    by (simp add: soa_invar_def soa_new_columns input_ok_def soa_view_def)
qed

end
