(* ===== verification/Dog_Canonical.thy ===== *)
theory Dog_Canonical
  imports Dog_Rows
begin

text \<open>
  The index-backed stores: \<open>src/store/canonical.rs\<close> (\<open>CanonicalStore\<close>) and
  \<open>src/store/canonical_cached.rs\<close> (\<open>CanonicalCachedStore\<close>, which adds a dense age column and
  a position index that every update writes through). Both interpret \<open>dog_store\<close>. The panics
  of the cached store (\<open>expect\<close>, \<open>age_cache[position]\<close>) are the value \<open>None\<close>, and are proved
  unreachable.
\<close>

section \<open>The index-building loops\<close>

definition build_breed_index :: "dog list \<Rightarrow> (string \<rightharpoonup> uuid list)" where
  "build_breed_index rs = foldl (\<lambda>m r. bucket_push (breed r) (dog_id r) m) Map.empty rs"

definition build_adjacency_index :: "(uuid \<times> uuid) list \<Rightarrow> (uuid \<rightharpoonup> uuid list)" where
  "build_adjacency_index es =
     foldl (\<lambda>m (a, b). bucket_push b a (bucket_push a b m)) Map.empty es"

lemma bucket_build_breed_index:
  "bucket (build_breed_index rs) b = map dog_id (filter (\<lambda>r. breed r = b) rs)"
  by (induction rs rule: rev_induct) (auto simp: build_breed_index_def bucket_simps)

lemma bucket_build_adjacency_index:
  "\<forall>(a, b) \<in> set es. a \<noteq> b \<Longrightarrow> bucket (build_adjacency_index es) i = edge_nbrs es i"
proof (induction es rule: rev_induct)
  case Nil
  then show ?case by (simp add: build_adjacency_index_def)
next
  case (snoc e es)
  obtain a b where e: "e = (a, b)" by (cases e)
  from snoc have IH: "bucket (build_adjacency_index es) i = edge_nbrs es i" and ne: "a \<noteq> b"
    by (auto simp: e)
  have "bucket (build_adjacency_index (es @ [e])) i =
      bucket (bucket_push b a (bucket_push a b (build_adjacency_index es))) i"
    by (simp add: build_adjacency_index_def e)
  then show ?case
    using IH ne by (auto simp: bucket_simps edge_nbrs_snoc e)
qed

section \<open>CanonicalStore\<close>

record canonical_store =
  can_records :: "(uuid, dog) hash_map"
  can_breed_index :: "string \<rightharpoonup> uuid list"
  can_adjacency_index :: "uuid \<rightharpoonup> uuid list"

definition can_new :: "dog list \<Rightarrow> (uuid \<times> uuid) list \<Rightarrow> canonical_store" where
  "can_new rs es =
     \<lparr>can_records = hm_collect (map (\<lambda>r. (dog_id r, r)) rs),
      can_breed_index = build_breed_index rs,
      can_adjacency_index = build_adjacency_index es\<rparr>"

definition can_get :: "canonical_store \<Rightarrow> uuid \<Rightarrow> dog option" where
  "can_get s i = map_of (can_records s) i"

definition can_scan_ages :: "canonical_store \<Rightarrow> u32 list" where
  "can_scan_ages s = map (\<lambda>(_, r). age r) (can_records s)"

definition can_update_age :: "canonical_store \<Rightarrow> uuid \<Rightarrow> u32 \<Rightarrow> store_error + canonical_store" where
  "can_update_age s i a =
     (case map_of (can_records s) i of
        None \<Rightarrow> Err (StoreNotFound i)
      | Some r \<Rightarrow> Ok (s\<lparr>can_records := AList.update i (r\<lparr>age := a\<rparr>) (can_records s)\<rparr>))"

definition can_same_breed :: "canonical_store \<Rightarrow> uuid \<Rightarrow> uuid list" where
  "can_same_breed s i =
     (case map_of (can_records s) i of
        None \<Rightarrow> []
      | Some target \<Rightarrow>
          (case can_breed_index s (breed target) of
             None \<Rightarrow> []
           | Some ids \<Rightarrow> filter (\<lambda>j. j \<noteq> i) ids))"

definition can_neighbors :: "canonical_store \<Rightarrow> uuid \<Rightarrow> uuid list" where
  "can_neighbors s i = (case can_adjacency_index s i of None \<Rightarrow> [] | Some ids \<Rightarrow> ids)"

text \<open>The records are keyed by their own id and the breed index agrees with them.\<close>

definition breed_indexed :: "(uuid, dog) hash_map \<Rightarrow> (string \<rightharpoonup> uuid list) \<Rightarrow> bool" where
  "breed_indexed recs ix \<longleftrightarrow> hm_wf recs \<and> (\<forall>(k, r) \<in> set recs. dog_id r = k) \<and>
     (\<forall>b. bucket ix b = map fst (filter (\<lambda>(_, r). breed r = b) recs))"

definition can_invar :: "canonical_store \<Rightarrow> bool" where
  "can_invar s \<longleftrightarrow> breed_indexed (can_records s) (can_breed_index s)"

definition can_view :: "canonical_store \<Rightarrow> dog_view" where
  "can_view s = \<lparr>v_order = map fst (can_records s), v_dogs = map_of (can_records s),
     v_nbrs = bucket (can_adjacency_index s)\<rparr>"

lemma breed_indexed_view_ok:
  "breed_indexed recs ix \<Longrightarrow>
     view_ok \<lparr>v_order = map fst recs, v_dogs = map_of recs, v_nbrs = f\<rparr>"
  by (auto simp: breed_indexed_def view_ok_def hm_wf_def dom_map_of_conv_image_fst dest!: map_of_SomeD)

lemma update_in_place:
  "k \<in> fst ` set m \<Longrightarrow> distinct (map fst m) \<Longrightarrow>
     AList.update k v m = map (\<lambda>(j, w). (j, if j = k then v else w)) m"
  by (induction m) (auto simp: rev_image_eqI intro!: map_idI [symmetric])

lemma breed_indexed_update:
  assumes ok: "breed_indexed recs ix" and hit: "map_of recs i = Some r"
  shows "breed_indexed (AList.update i (r\<lparr>age := a\<rparr>) recs) ix"
    and "map fst (AList.update i (r\<lparr>age := a\<rparr>) recs) = map fst recs"
proof -
  from hit have mem: "(i, r) \<in> set recs" by (rule map_of_SomeD)
  then have dom: "i \<in> fst ` set recs" by force
  from ok have wf: "distinct (map fst recs)" by (simp add: breed_indexed_def hm_wf_def)
  have upd: "AList.update i (r\<lparr>age := a\<rparr>) recs =
      map (\<lambda>(j, w). (j, if j = i then r\<lparr>age := a\<rparr> else w)) recs"
    by (rule update_in_place [OF dom wf])
  have same: "w = r" if "(i, w) \<in> set recs" for w
    using that mem wf by (metis eq_key_imp_eq_value)
  have flt: "map fst (filter (\<lambda>(_, w). breed w = b) (AList.update i (r\<lparr>age := a\<rparr>) recs)) =
      map fst (filter (\<lambda>(_, w). breed w = b) recs)" for b
    unfolding upd using same
    by (auto simp: filter_map comp_def case_prod_beta intro!: arg_cong [where f = "map fst"] filter_cong)
  show keys: "map fst (AList.update i (r\<lparr>age := a\<rparr>) recs) = map fst recs"
    by (simp add: upd comp_def case_prod_beta)
  have "\<forall>(k, w) \<in> set (AList.update i (r\<lparr>age := a\<rparr>) recs). dog_id w = k"
    using ok mem by (auto simp: upd breed_indexed_def)
  with ok wf keys flt show "breed_indexed (AList.update i (r\<lparr>age := a\<rparr>) recs) ix"
    by (simp add: breed_indexed_def hm_wf_def)
qed

lemma breed_bucket_lookup:
  assumes "breed_indexed recs ix" and "map_of recs i = Some t"
  shows "(case ix (breed t) of None \<Rightarrow> [] | Some ids \<Rightarrow> filter (\<lambda>j. j \<noteq> i) ids) =
     filter (\<lambda>j. j \<noteq> i \<and> map_option breed (map_of recs j) = Some (breed t)) (map fst recs)"
proof -
  from assms(1) have wf: "distinct (map fst recs)"
    and b: "bucket ix (breed t) = map fst (filter (\<lambda>(_, r). breed r = breed t) recs)"
    by (simp_all add: breed_indexed_def hm_wf_def)
  have "(case ix (breed t) of None \<Rightarrow> [] | Some ids \<Rightarrow> filter (\<lambda>j. j \<noteq> i) ids) =
      filter (\<lambda>j. j \<noteq> i) (bucket ix (breed t))"
    by (simp add: bucket_def split: option.splits)
  also have "\<dots> = map fst (filter (\<lambda>(j, r). j \<noteq> i \<and> breed r = breed t) recs)"
    by (simp add: b case_prod_unfold filter_map comp_def conj_commute)
  also have "\<dots> = map fst (filter (\<lambda>(j, r). j \<noteq> i \<and> map_option breed (map_of recs j) = Some (breed t)) recs)"
    using map_of_is_SomeI [OF wf] by (intro arg_cong [where f = "map fst"] filter_cong) force+
  also have "\<dots> = filter (\<lambda>j. j \<noteq> i \<and> map_option breed (map_of recs j) = Some (breed t)) (map fst recs)"
    by (simp add: filter_map comp_def case_prod_unfold)
  finally show ?thesis .
qed

lemma mset_record_ages:
  assumes "hm_wf recs"
  shows "mset (map (\<lambda>(_, r). age r) recs) =
     spec_scan \<lparr>v_order = map fst recs, v_dogs = map_of recs, v_nbrs = f\<rparr>"
proof -
  have "map (\<lambda>(_, r). age r) recs = map (\<lambda>i. age (the (map_of recs i))) (map fst recs)"
    using assms by (auto simp: hm_wf_def)
  then show ?thesis
    unfolding spec_scan_def by (metis dog_view.select_convs(1,2) mset_map)
qed

interpretation can: dog_store can_invar can_view can_get can_scan_ages can_update_age
  can_same_breed can_neighbors
proof unfold_locales
  fix s i a s'
  assume "can_invar s"
  then have ok: "breed_indexed (can_records s) (can_breed_index s)" by (simp add: can_invar_def)
  then have wf: "hm_wf (can_records s)" by (simp add: breed_indexed_def)
  show "view_ok (can_view s)"
    unfolding can_view_def by (rule breed_indexed_view_ok [OF ok])
  show "can_get s i = v_dogs (can_view s) i"
    by (simp add: can_get_def can_view_def)
  show "mset (can_scan_ages s) = spec_scan (can_view s)"
    unfolding can_scan_ages_def can_view_def by (rule mset_record_ages [OF wf])
  show "map_ok can_view (can_update_age s i a) = spec_update (can_view s) i a"
    using breed_indexed_update(2) [OF ok]
    by (auto simp: can_update_age_def can_view_def spec_update_def update_conv' split: option.splits)
  show "can_update_age s i a = Inr s' \<Longrightarrow> can_invar s'"
    using breed_indexed_update(1) [OF ok]
    by (auto simp: can_update_age_def can_invar_def split: option.splits)
  show "can_same_breed s i = spec_same_breed (can_view s) i"
  proof (cases "map_of (can_records s) i")
    case (Some t)
    with breed_bucket_lookup [OF ok Some] show ?thesis
      by (simp add: can_same_breed_def spec_same_breed_def can_view_def)
  qed (simp add: can_same_breed_def spec_same_breed_def can_view_def)
  show "can_neighbors s i = v_nbrs (can_view s) i"
    by (simp add: can_neighbors_def can_view_def bucket_def)
qed

lemma collected_records:
  assumes "distinct (map dog_id rs)"
  shows "hm_collect (map (\<lambda>r. (dog_id r, r)) rs) = map (\<lambda>r. (dog_id r, r)) rs"
    and "map_of (hm_collect (map (\<lambda>r. (dog_id r, r)) rs)) = keyed dog_id rs"
    and "breed_indexed (hm_collect (map (\<lambda>r. (dog_id r, r)) rs)) (build_breed_index rs)"
proof -
  show c: "hm_collect (map (\<lambda>r. (dog_id r, r)) rs) = map (\<lambda>r. (dog_id r, r)) rs"
    using assms by (intro hm_collect_distinct) (simp add: comp_def)
  show "map_of (hm_collect (map (\<lambda>r. (dog_id r, r)) rs)) = keyed dog_id rs"
    by (simp add: c keyed_def)
  show "breed_indexed (hm_collect (map (\<lambda>r. (dog_id r, r)) rs)) (build_breed_index rs)"
    using assms by (auto simp: breed_indexed_def hm_wf_def c bucket_build_breed_index filter_map comp_def)
qed

lemma can_new_ok:
  assumes "input_ok rs es"
  shows "can_invar (can_new rs es)" and "can_view (can_new rs es) = mk_view rs es"
proof -
  from assms have d: "distinct (map dog_id rs)" and ne: "\<forall>(a, b) \<in> set es. a \<noteq> b"
    by (simp_all add: input_ok_def)
  show "can_invar (can_new rs es)"
    using collected_records(3) [OF d] by (simp add: can_invar_def can_new_def)
  show "can_view (can_new rs es) = mk_view rs es"
    using collected_records(1,2) [OF d] bucket_build_adjacency_index [OF ne]
    by (simp add: can_view_def can_new_def mk_view_def comp_def fun_eq_iff)
qed

section \<open>CanonicalCachedStore\<close>

record cached_store = canonical_store +
  cc_age_cache :: "u32 list"
  cc_position_index :: "uuid \<rightharpoonup> nat"

definition cc_new :: "dog list \<Rightarrow> (uuid \<times> uuid) list \<Rightarrow> cached_store" where
  "cc_new rs es =
     (let (ix, cache, pos) =
        foldl (\<lambda>(ix, cache, pos) (p, r).
            (bucket_push (breed r) (dog_id r) ix, cache @ [age r], pos(dog_id r \<mapsto> p)))
          (Map.empty, [], Map.empty) (enumerate 0 rs)
      in \<lparr>can_records = hm_collect (map (\<lambda>r. (dog_id r, r)) rs),
          can_breed_index = ix,
          can_adjacency_index = build_adjacency_index es,
          cc_age_cache = cache,
          cc_position_index = pos\<rparr>)"

definition cc_get :: "cached_store \<Rightarrow> uuid \<Rightarrow> dog option" where
  "cc_get s i = map_of (can_records s) i"

definition cc_scan_ages :: "cached_store \<Rightarrow> u32 list" where
  "cc_scan_ages s = cc_age_cache s"

text \<open>\<open>None\<close> is a panic: a missing position (\<open>expect\<close>) or a position past the end of the cache.\<close>

definition cc_update_age :: "cached_store \<Rightarrow> uuid \<Rightarrow> u32 \<Rightarrow> (store_error + cached_store) option" where
  "cc_update_age s i a =
     (case map_of (can_records s) i of
        None \<Rightarrow> Some (Err (StoreNotFound i))
      | Some r \<Rightarrow>
          (let s = s\<lparr>can_records := AList.update i (r\<lparr>age := a\<rparr>) (can_records s)\<rparr> in
           case cc_position_index s i of
             None \<Rightarrow> None
           | Some p \<Rightarrow>
               (if p < length (cc_age_cache s)
                then Some (Ok (s\<lparr>cc_age_cache := (cc_age_cache s)[p := a]\<rparr>)) else None)))"

definition cc_same_breed :: "cached_store \<Rightarrow> uuid \<Rightarrow> uuid list" where
  "cc_same_breed s i =
     (case map_of (can_records s) i of
        None \<Rightarrow> []
      | Some target \<Rightarrow>
          (case can_breed_index s (breed target) of
             None \<Rightarrow> []
           | Some ids \<Rightarrow> filter (\<lambda>j. j \<noteq> i) ids))"

definition cc_neighbors :: "cached_store \<Rightarrow> uuid \<Rightarrow> uuid list" where
  "cc_neighbors s i = (case can_adjacency_index s i of None \<Rightarrow> [] | Some ids \<Rightarrow> ids)"

text \<open>The write-through invariant: position \<open>p\<close> of the cache holds the age of record \<open>p\<close>.\<close>

definition cc_invar :: "cached_store \<Rightarrow> bool" where
  "cc_invar s \<longleftrightarrow> breed_indexed (can_records s) (can_breed_index s) \<and>
     cc_age_cache s = map (\<lambda>(_, r). age r) (can_records s) \<and>
     (\<forall>p < length (can_records s). cc_position_index s (fst (can_records s ! p)) = Some p)"

definition cc_view :: "cached_store \<Rightarrow> dog_view" where
  "cc_view s = \<lparr>v_order = map fst (can_records s), v_dogs = map_of (can_records s),
     v_nbrs = bucket (can_adjacency_index s)\<rparr>"

lemma update_at_position:
  assumes "distinct (map fst m)" and "p < length m" and "fst (m ! p) = k"
  shows "AList.update k v m = m[p := (k, v)]"
  using assms by (induction m arbitrary: p) (auto simp: nth_Cons split: nat.splits)

lemma cc_update_cases:
  assumes inv: "cc_invar s"
  shows "cc_update_age s i a =
     (case map_of (can_records s) i of
        None \<Rightarrow> Some (Err (StoreNotFound i))
      | Some r \<Rightarrow> Some (Ok (s\<lparr>can_records := AList.update i (r\<lparr>age := a\<rparr>) (can_records s),
            cc_age_cache := map (\<lambda>(_, r). age r) (AList.update i (r\<lparr>age := a\<rparr>) (can_records s))\<rparr>)))"
proof (cases "map_of (can_records s) i")
  case None
  then show ?thesis by (simp add: cc_update_age_def)
next
  case (Some r)
  from inv have wf: "distinct (map fst (can_records s))"
    and cache: "cc_age_cache s = map (\<lambda>(_, r). age r) (can_records s)"
    by (simp_all add: cc_invar_def breed_indexed_def hm_wf_def)
  from Some have "(i, r) \<in> set (can_records s)" by (rule map_of_SomeD)
  then obtain p where p: "p < length (can_records s)" "can_records s ! p = (i, r)"
    by (auto simp: in_set_conv_nth)
  with inv have pos: "cc_position_index s i = Some p"
    by (auto simp: cc_invar_def)
  have "AList.update i (r\<lparr>age := a\<rparr>) (can_records s) = (can_records s)[p := (i, r\<lparr>age := a\<rparr>)]"
    using wf p by (intro update_at_position) simp_all
  with Some pos p(1) cache show ?thesis
    by (simp add: cc_update_age_def map_update)
qed

lemma cc_update_never_panics: "cc_invar s \<Longrightarrow> cc_update_age s i a \<noteq> None"
  by (simp add: cc_update_cases split: option.splits)

lemma cc_update_invar:
  assumes inv: "cc_invar s" and upd: "cc_update_age s i a = Some (Inr s')"
  shows "cc_invar s'"
proof -
  from upd obtain r where r: "map_of (can_records s) i = Some r"
    and s': "s' = s\<lparr>can_records := AList.update i (r\<lparr>age := a\<rparr>) (can_records s),
      cc_age_cache := map (\<lambda>(_, r). age r) (AList.update i (r\<lparr>age := a\<rparr>) (can_records s))\<rparr>"
    by (auto simp: cc_update_cases [OF inv] split: option.splits)
  from inv have ok: "breed_indexed (can_records s) (can_breed_index s)"
    and pos: "\<forall>p < length (can_records s). cc_position_index s (map fst (can_records s) ! p) = Some p"
    by (simp_all add: cc_invar_def)
  let ?m = "AList.update i (r\<lparr>age := a\<rparr>) (can_records s)"
  note keys = breed_indexed_update(2) [OF ok r, of a]
  then have len: "length ?m = length (can_records s)" by (metis length_map)
  have "\<forall>p < length ?m. cc_position_index s (map fst ?m ! p) = Some p"
    unfolding keys len by (rule pos)
  with breed_indexed_update(1) [OF ok r, of a] show ?thesis
    by (simp add: cc_invar_def s')
qed

interpretation cc: dog_store cc_invar cc_view cc_get cc_scan_ages
  "\<lambda>s i a. the (cc_update_age s i a)" cc_same_breed cc_neighbors
proof unfold_locales
  fix s i a s'
  assume inv: "cc_invar s"
  then have ok: "breed_indexed (can_records s) (can_breed_index s)" by (simp add: cc_invar_def)
  then have wf: "hm_wf (can_records s)" by (simp add: breed_indexed_def)
  show "view_ok (cc_view s)"
    unfolding cc_view_def by (rule breed_indexed_view_ok [OF ok])
  show "cc_get s i = v_dogs (cc_view s) i"
    by (simp add: cc_get_def cc_view_def)
  have "cc_age_cache s = map (\<lambda>(_, r). age r) (can_records s)"
    using inv by (simp add: cc_invar_def)
  then show "mset (cc_scan_ages s) = spec_scan (cc_view s)"
    unfolding cc_scan_ages_def cc_view_def by (simp only: mset_record_ages [OF wf])
  show "map_ok cc_view (the (cc_update_age s i a)) = spec_update (cc_view s) i a"
    using breed_indexed_update(2) [OF ok]
    by (auto simp: cc_update_cases [OF inv] cc_view_def spec_update_def update_conv' split: option.splits)
  show "the (cc_update_age s i a) = Inr s' \<Longrightarrow> cc_invar s'"
    using cc_update_invar [OF inv, of i a s'] cc_update_never_panics [OF inv, of i a] by auto
  show "cc_same_breed s i = spec_same_breed (cc_view s) i"
  proof (cases "map_of (can_records s) i")
    case (Some t)
    with breed_bucket_lookup [OF ok Some] show ?thesis
      by (simp add: cc_same_breed_def spec_same_breed_def cc_view_def)
  qed (simp add: cc_same_breed_def spec_same_breed_def cc_view_def)
  show "cc_neighbors s i = v_nbrs (cc_view s) i"
    by (simp add: cc_neighbors_def cc_view_def bucket_def)
qed

lemma cc_new_loop:
  "foldl (\<lambda>(ix, cache, pos) (p, r).
      (bucket_push (breed r) (dog_id r) ix, cache @ [age r], pos(dog_id r \<mapsto> p)))
    (Map.empty, [], Map.empty) (enumerate 0 rs) =
   (build_breed_index rs, map age rs, map_of (rev (map (\<lambda>(p, r). (dog_id r, p)) (enumerate 0 rs))))"
  by (induction rs rule: rev_induct)
    (simp_all add: build_breed_index_def enumerate_append_eq)

lemma enumerated_position:
  assumes "distinct (map dog_id rs)" and "p < length rs"
  shows "map_of (rev (map (\<lambda>(p, r). (dog_id r, p)) (enumerate 0 rs))) (dog_id (rs ! p)) = Some p"
proof -
  let ?kvs = "map (\<lambda>(p, r). (dog_id r, p)) (enumerate 0 rs)"
  have k: "map fst ?kvs = map dog_id rs"
    by (simp add: comp_def case_prod_beta) (metis list.map_comp map_snd_enumerate comp_apply map_cong)
  have "distinct (map fst (rev ?kvs))"
    using assms(1) by (simp only: rev_map [symmetric] k distinct_rev)
  moreover have "(dog_id (rs ! p), p) \<in> set (rev ?kvs)"
    using assms(2) by (force simp: in_set_enumerate_eq)
  ultimately show ?thesis by (rule map_of_is_SomeI)
qed

lemma cc_new_ok:
  assumes "input_ok rs es"
  shows "cc_invar (cc_new rs es)" and "cc_view (cc_new rs es) = mk_view rs es"
proof -
  from assms have d: "distinct (map dog_id rs)" and ne: "\<forall>(a, b) \<in> set es. a \<noteq> b"
    by (simp_all add: input_ok_def)
  show "cc_invar (cc_new rs es)"
    using collected_records(3) [OF d] enumerated_position [OF d]
    by (simp add: cc_invar_def cc_new_def cc_new_loop collected_records(1) [OF d] comp_def)
  show "cc_view (cc_new rs es) = mk_view rs es"
    using collected_records(1,2) [OF d] bucket_build_adjacency_index [OF ne]
    by (simp add: cc_view_def cc_new_def cc_new_loop mk_view_def comp_def fun_eq_iff)
qed

end
