(* ===== verification/Bytes.thy ===== *)
theory Bytes
  imports Prelude
begin

unbundle bit_operations_syntax

text \<open>
  Fixed-width byte codecs: \<open>to_le_bytes\<close>/\<open>from_le_bytes\<close> at any machine width, and the trait
  \<open>MmapFieldValue\<close> of \<open>src/generic/mmap_field.rs\<close> as a record of its three items
  (\<open>BYTE_WIDTH\<close>, \<open>write_le\<close>, \<open>read_le\<close>), with the locale \<open>mmap_field_value\<close> for the laws every
  impl has to satisfy and its interpretation on the impls for \<open>u32\<close>, \<open>i64\<close> and \<open>Uuid\<close>.
\<close>

section \<open>Little-endian bytes of a machine word\<close>

fun le_bytes :: "nat \<Rightarrow> 'a::len word \<Rightarrow> byte list" where
  "le_bytes 0 w = []"
| "le_bytes (Suc n) w = ucast w # le_bytes n (drop_bit 8 w)"

fun le_word :: "byte list \<Rightarrow> 'a::len word" where
  "le_word [] = 0"
| "le_word (b # bs) = ucast b OR push_bit 8 (le_word bs)"

lemma length_le_bytes [simp]: "length (le_bytes n w) = n"
  by (induction n arbitrary: w) simp_all

lemma le_word_le_bytes: "le_word (le_bytes n w) = take_bit (8 * n) w"
proof (induction n arbitrary: w)
  case 0
  then show ?case by simp
next
  case (Suc n)
  have "ucast (ucast w :: byte) OR push_bit 8 (take_bit (8 * n) (drop_bit 8 w)) = take_bit (8 * Suc n) w"
    by (rule bit_word_eqI) (auto simp: bit_simps)
  with Suc show ?case by simp
qed

lemma le_word_le_bytes_full:
  "LENGTH('a) \<le> 8 * n \<Longrightarrow> le_word (le_bytes n w) = (w :: 'a::len word)"
  by (simp add: le_word_le_bytes take_bit_word_eq_self)

lemma bit_le_word: "bit (le_word bs :: 'a::len word) k \<Longrightarrow> k < 8 * length bs"
proof (induction bs arbitrary: k)
  case (Cons b bs)
  then show ?case
    by (cases "k < 8") (auto simp: bit_simps dest: Cons.IH bit_imp_le_length)
qed simp

lemma le_bytes_le_word:
  "8 * length bs \<le> LENGTH('a) \<Longrightarrow> le_bytes (length bs) (le_word bs :: 'a::len word) = bs"
proof (induction bs)
  case (Cons b bs)
  let ?w = "le_word bs :: 'a word"
  have "drop_bit 8 (ucast b OR push_bit 8 ?w) = ?w"
  proof (rule bit_word_eqI)
    fix k assume "k < LENGTH('a)"
    show "bit (drop_bit 8 (ucast b OR push_bit 8 ?w)) k = bit ?w k"
      using Cons.prems bit_le_word [of bs k, where 'a = 'a] by (auto simp: bit_simps dest: bit_imp_le_length)
  qed
  moreover have "ucast (ucast b OR push_bit 8 ?w) = b"
    using Cons.prems by (intro bit_word_eqI) (auto simp: bit_simps)
  ultimately show ?case using Cons by simp
qed simp

section \<open>The \<open>MmapFieldValue\<close> trait\<close>

record 'v field_codec =
  byte_width :: nat
  write_le :: "'v \<Rightarrow> byte list"
  read_le :: "byte list \<Rightarrow> 'v"

definition u32_field :: "u32 field_codec" where
  "u32_field = \<lparr>byte_width = 4, write_le = le_bytes 4, read_le = le_word\<rparr>"

definition i64_field :: "i64 field_codec" where
  "i64_field = \<lparr>byte_width = 8, write_le = le_bytes 8, read_le = le_word\<rparr>"

text \<open>\<open>Uuid::as_bytes\<close> and \<open>from_bytes\<close>: the sixteen bytes in field order, most significant first.\<close>

definition uuid_field :: "uuid field_codec" where
  "uuid_field = \<lparr>byte_width = 16, write_le = \<lambda>u. rev (le_bytes 16 u), read_le = \<lambda>bs. le_word (rev bs)\<rparr>"

definition codec_lawful :: "'v field_codec \<Rightarrow> bool" where
  "codec_lawful c \<longleftrightarrow> 0 < byte_width c \<and>
     (\<forall>v. length (write_le c v) = byte_width c \<and> read_le c (write_le c v) = v) \<and>
     (\<forall>bs. length bs = byte_width c \<longrightarrow> write_le c (read_le c bs) = bs)"

locale mmap_field_value =
  fixes c :: "'v field_codec"
  assumes width_pos: "0 < byte_width c"
    and write_width: "length (write_le c v) = byte_width c"
    and read_write: "read_le c (write_le c v) = v"
    and write_read: "length bs = byte_width c \<Longrightarrow> write_le c (read_le c bs) = bs"
begin

lemma lawful: "codec_lawful c"
  using width_pos by (simp add: codec_lawful_def write_width read_write write_read)

lemma write_inject: "write_le c v = write_le c w \<Longrightarrow> v = w"
  by (metis read_write)

end

interpretation u32_f: mmap_field_value u32_field
proof
  fix v :: u32 and bs :: "byte list"
  show "read_le u32_field (write_le u32_field v) = v"
    by (simp add: u32_field_def le_word_le_bytes_full)
  show "length bs = byte_width u32_field \<Longrightarrow> write_le u32_field (read_le u32_field bs) = bs"
    using le_bytes_le_word [of bs, where 'a = 32] by (simp add: u32_field_def)
qed (simp_all add: u32_field_def)

interpretation i64_f: mmap_field_value i64_field
proof
  fix v :: i64 and bs :: "byte list"
  show "read_le i64_field (write_le i64_field v) = v"
    by (simp add: i64_field_def le_word_le_bytes_full)
  show "length bs = byte_width i64_field \<Longrightarrow> write_le i64_field (read_le i64_field bs) = bs"
    using le_bytes_le_word [of bs, where 'a = 64] by (simp add: i64_field_def)
qed (simp_all add: i64_field_def)

interpretation uuid_f: mmap_field_value uuid_field
proof
  fix v :: uuid and bs :: "byte list"
  show "read_le uuid_field (write_le uuid_field v) = v"
    by (simp add: uuid_field_def le_word_le_bytes_full)
  show "length bs = byte_width uuid_field \<Longrightarrow> write_le uuid_field (read_le uuid_field bs) = bs"
    using le_bytes_le_word [of "rev bs", where 'a = 128] by (simp add: uuid_field_def)
qed (simp_all add: uuid_field_def)

section \<open>Ranges of bytes\<close>

text \<open>\<open>&bytes[start..start + n]\<close>, and \<open>bytes.get(start..start + n)\<close>.\<close>

definition bytes_at :: "nat \<Rightarrow> nat \<Rightarrow> 'a list \<Rightarrow> 'a list" where
  "bytes_at start n xs = take n (drop start xs)"

definition get_bytes_at :: "nat \<Rightarrow> nat \<Rightarrow> 'a list \<Rightarrow> 'a list option" where
  "get_bytes_at start n xs = (if start + n \<le> length xs then Some (bytes_at start n xs) else None)"

text \<open>\<open>bytes[start..start + src.len()].copy_from_slice(src)\<close>.\<close>

definition splice :: "nat \<Rightarrow> 'a list \<Rightarrow> 'a list \<Rightarrow> 'a list" where
  "splice start src xs = take start xs @ src @ drop (start + length src) xs"

lemma length_splice [simp]:
  "start + length src \<le> length xs \<Longrightarrow> length (splice start src xs) = length xs"
  by (simp add: splice_def)

lemma length_bytes_at [simp]: "start + n \<le> length xs \<Longrightarrow> length (bytes_at start n xs) = n"
  by (simp add: bytes_at_def)

lemma nth_splice:
  "start + length src \<le> length xs \<Longrightarrow> k < length xs \<Longrightarrow>
     splice start src xs ! k = (if start \<le> k \<and> k < start + length src then src ! (k - start) else xs ! k)"
  by (auto simp: splice_def nth_append min_def)

lemma nth_bytes_at: "start + n \<le> length xs \<Longrightarrow> k < n \<Longrightarrow> bytes_at start n xs ! k = xs ! (start + k)"
  by (simp add: bytes_at_def)

lemma bytes_at_splice_same:
  "start + length src \<le> length xs \<Longrightarrow> bytes_at start (length src) (splice start src xs) = src"
  by (simp add: bytes_at_def splice_def)

lemma bytes_at_splice_disjoint:
  assumes "start + length src \<le> length xs" "s + n \<le> length xs"
    and "s + n \<le> start \<or> start + length src \<le> s"
  shows "bytes_at s n (splice start src xs) = bytes_at s n xs"
  using assms by (intro nth_equalityI) (auto simp: nth_bytes_at nth_splice)

lemma bytes_at_append:
  "start + n \<le> length xs \<Longrightarrow> bytes_at start n (xs @ ys) = bytes_at start n xs"
  by (simp add: bytes_at_def)

lemma bytes_at_append_right: "bytes_at (length xs) n (xs @ ys) = take n ys"
  by (simp add: bytes_at_def)

lemma bytes_at_past: "length xs \<le> start \<Longrightarrow> bytes_at start n (xs @ ys) = bytes_at (start - length xs) n ys"
  by (simp add: bytes_at_def)

section \<open>Arrays of equal-width chunks\<close>

lemma bytes_at_skip [simp]: "bytes_at (length h + k) n (h @ xs) = bytes_at k n xs"
  by (simp add: bytes_at_def)

lemma splice_skip [simp]: "splice (length h + k) src (h @ xs) = h @ splice k src xs"
  by (simp add: splice_def)

lemma bytes_at_left: "k + n \<le> length xs \<Longrightarrow> bytes_at k n (xs @ ys) = bytes_at k n xs"
  by (simp add: bytes_at_def)

lemma splice_left: "k + length src \<le> length xs \<Longrightarrow> splice k src (xs @ ys) = splice k src xs @ ys"
  by (simp add: splice_def)

lemma bytes_at_concat:
  "\<forall>c \<in> set cs. length c = w \<Longrightarrow> p < length cs \<Longrightarrow> k + n \<le> w \<Longrightarrow>
     bytes_at (p * w + k) n (concat cs) = bytes_at k n (cs ! p)"
proof (induction cs arbitrary: p)
  case (Cons c cs)
  show ?case
  proof (cases p)
    case 0
    with Cons.prems show ?thesis by (simp add: bytes_at_left)
  next
    case (Suc q)
    have "bytes_at (p * w + k) n (concat (c # cs)) = bytes_at (length c + (q * w + k)) n (c @ concat cs)"
      using Cons.prems Suc by (simp add: add.assoc)
    with Cons Suc show ?thesis by (simp only: bytes_at_skip) simp
  qed
qed simp

lemma splice_concat:
  "\<forall>c \<in> set cs. length c = w \<Longrightarrow> p < length cs \<Longrightarrow> k + length src \<le> w \<Longrightarrow>
     splice (p * w + k) src (concat cs) = concat (cs[p := splice k src (cs ! p)])"
proof (induction cs arbitrary: p)
  case (Cons c cs)
  show ?case
  proof (cases p)
    case 0
    with Cons.prems show ?thesis by (simp add: splice_left)
  next
    case (Suc q)
    have "splice (p * w + k) src (concat (c # cs)) = splice (length c + (q * w + k)) src (c @ concat cs)"
      using Cons.prems Suc by (simp add: add.assoc)
    with Cons Suc show ?thesis by (simp only: splice_skip) simp
  qed
qed simp

lemma length_concat_chunks: "\<forall>c \<in> set cs. length c = w \<Longrightarrow> length (concat cs) = length cs * w"
  by (induction cs) simp_all

fun chunks :: "nat \<Rightarrow> nat \<Rightarrow> 'a list \<Rightarrow> 'a list list" where
  "chunks w 0 xs = []"
| "chunks w (Suc n) xs = take w xs # chunks w n (drop w xs)"

lemma chunks_props:
  "length xs = n * w \<Longrightarrow>
     concat (chunks w n xs) = xs \<and> length (chunks w n xs) = n \<and> (\<forall>c \<in> set (chunks w n xs). length c = w)"
proof (induction n arbitrary: xs)
  case (Suc n)
  then have "length (drop w xs) = n * w" by simp
  from Suc.IH [OF this] Suc.prems show ?case by simp
qed simp

end
