(* ===== verification/Durability.thy ===== *)
theory Durability
  imports Bytes Dog_Canonical
begin

text \<open>
  What every durable component shares (\<open>src/durability/mod.rs\<close>, \<open>src/codec.rs\<close>): the error type,
  the \<open>bincode\<close> codec as a parameter of the model, length-prefixed frames, the write-ahead log
  of age updates with its torn-tail reader, and the in-memory state the log is replayed into.
\<close>

section \<open>Errors\<close>

text \<open>The causes \<open>RecordBlobUnreadable\<close> formats into its message, as constructors.\<close>

datatype blob_cause =
    CannotReadFile
  | NotABlob
  | BlobVersionMismatch u32 u32
  | TooShortForTag
  | SchemaTagMismatch u64 u64
  | FingerprintMismatch u64 u64
  | BodyDoesNotDecode
  | EntryDoesNotDecode nat
  | TombstoneDoesNotDecode nat
  | UnknownEntryKind nat byte
  | OtherCause string

datatype durability_error =
    DurIo
  | DurSerde
  | DurStore store_error
  | DurEngine string
  | InvalidMagic
  | SchemaVersionMismatch u32 u32
  | RecordBlobUnreadable blob_cause
  | SlotWidthMismatch nat nat

text \<open>\<open>From<DurabilityError> for StoreError\<close>; the message text is a parameter (\<open>Display\<close>).\<close>

definition store_error_from :: "(durability_error \<Rightarrow> string) \<Rightarrow> durability_error \<Rightarrow> store_error" where
  "store_error_from to_string e = (case e of DurStore se \<Rightarrow> se | _ \<Rightarrow> StoreDurability (to_string e))"

section \<open>The serialisation codec\<close>

text \<open>
  \<open>bincode\<close> is a third-party crate: \<open>encode\<close> and \<open>decode\<close> are parameters. What the code relies on
  is that what was encoded decodes to the same value.
\<close>

record 'a bincode =
  bc_encode :: "'a \<Rightarrow> byte list option"
  bc_decode :: "byte list \<Rightarrow> 'a option"

definition bincode_roundtrip :: "'a bincode \<Rightarrow> bool" where
  "bincode_roundtrip c \<longleftrightarrow> (\<forall>v bs. bc_encode c v = Some bs \<longrightarrow> bc_decode c bs = Some v)"

lemma bincode_roundtripD: "bincode_roundtrip c \<Longrightarrow> bc_encode c v = Some bs \<Longrightarrow> bc_decode c bs = Some v"
  by (simp add: bincode_roundtrip_def)

section \<open>Length-prefixed frames\<close>

definition put_frame :: "byte list \<Rightarrow> byte list" where
  "put_frame payload = le_bytes 4 (of_nat (length payload) :: u32) @ payload"

text \<open>
  The reader's step. The code keeps an offset into the file; here the argument is the rest of
  the file from that offset on.
\<close>

definition take_frame :: "byte list \<Rightarrow> (byte list \<times> byte list) option" where
  "take_frame bs =
     (if length bs < 4 then None
      else (let n = unat (le_word (take 4 bs) :: u32); rest = drop 4 bs in
            if length rest < n then None else Some (take n rest, drop n rest)))"

lemma take_frame_shrinks: "take_frame bs = Some (p, r) \<Longrightarrow> length r < length bs"
  by (auto simp: take_frame_def Let_def split: if_splits)

lemma take_4_put_frame: "take 4 (put_frame p @ r) = le_bytes 4 (of_nat (length p) :: u32)"
  by (simp add: put_frame_def)

lemma frame_length_word:
  "length p < 2 ^ 32 \<Longrightarrow> unat (le_word (le_bytes 4 (of_nat (length p) :: u32)) :: u32) = length p"
  by (simp add: le_word_le_bytes_full unat_of_nat)

lemma take_frame_put [simp]:
  assumes "length p < 2 ^ 32"
  shows "take_frame (put_frame p @ r) = Some (p, r)"
proof -
  have "drop 4 (put_frame p @ r) = p @ r" by (simp add: put_frame_def)
  moreover have "\<not> length (put_frame p @ r) < 4" by (simp add: put_frame_def)
  ultimately show ?thesis
    unfolding take_frame_def by (simp only: take_4_put_frame frame_length_word [OF assms] Let_def) simp
qed

text \<open>A frame cut short anywhere is not a frame.\<close>

lemma take_frame_torn:
  assumes "length p < 2 ^ 32" and "k < length (put_frame p)"
  shows "take_frame (take k (put_frame p)) = None"
proof (cases "k < 4")
  case True
  then have "length (take k (put_frame p)) < 4" by simp
  then show ?thesis by (simp only: take_frame_def if_True)
next
  case False
  define b where "b = take k (put_frame p)"
  from False have "take 4 b = le_bytes 4 (of_nat (length p) :: u32)"
    by (simp add: b_def put_frame_def min_def)
  then have "unat (le_word (take 4 b) :: u32) = length p"
    by (simp only: frame_length_word [OF assms(1)])
  moreover have "length (drop 4 b) < length p"
    using assms(2) False by (simp add: b_def put_frame_def)
  ultimately have "take_frame b = None" by (simp add: take_frame_def Let_def)
  then show ?thesis by (simp add: b_def)
qed

section \<open>The write-ahead log\<close>

record wal_entry =
  wal_seq :: u64
  wal_id :: uuid
  wal_age :: u32

text \<open>\<open>bytes.len() as u32\<close> wraps; \<open>put_frame\<close> takes the length modulo \<open>2^32\<close> as the cast does.\<close>

definition append_wal_entry :: "wal_entry bincode \<Rightarrow> byte list \<Rightarrow> wal_entry \<Rightarrow> durability_error + byte list" where
  "append_wal_entry c log e =
     (case bc_encode c e of None \<Rightarrow> Err DurSerde | Some bs \<Rightarrow> Ok (log @ put_frame bs))"

function wal_entries_from :: "wal_entry bincode \<Rightarrow> byte list \<Rightarrow> durability_error + wal_entry list" where
  "wal_entries_from c bs =
     (case take_frame bs of
        None \<Rightarrow> Ok []
      | Some (p, r) \<Rightarrow>
          (case bc_decode c p of
             None \<Rightarrow> Err DurSerde
           | Some e \<Rightarrow> map_ok (Cons e) (wal_entries_from c r)))"
  by pat_completeness auto
termination
  by (relation "measure (\<lambda>(c, bs). length bs)") (auto dest: take_frame_shrinks)

declare wal_entries_from.simps [simp del]

text \<open>A missing file reads as no entries.\<close>

definition read_wal_entries :: "wal_entry bincode \<Rightarrow> byte list option \<Rightarrow> durability_error + wal_entry list" where
  "read_wal_entries c file = (case file of None \<Rightarrow> Ok [] | Some bs \<Rightarrow> wal_entries_from c bs)"

fun append_wal_entries :: "wal_entry bincode \<Rightarrow> byte list \<Rightarrow> wal_entry list \<Rightarrow> durability_error + byte list" where
  "append_wal_entries c log [] = Ok log"
| "append_wal_entries c log (e # es) =
     and_then (append_wal_entry c log e) (\<lambda>log'. append_wal_entries c log' es)"

definition encodes_small :: "'a bincode \<Rightarrow> 'a \<Rightarrow> bool" where
  "encodes_small c v \<longleftrightarrow> (\<exists>bs. bc_encode c v = Some bs \<and> length bs < 2 ^ 32)"

lemma wal_entries_from_frame:
  assumes "bincode_roundtrip c" "bc_encode c e = Some bs" "length bs < 2 ^ 32"
  shows "wal_entries_from c (put_frame bs @ r) = map_ok (Cons e) (wal_entries_from c r)"
  using assms by (subst wal_entries_from.simps) (simp add: bincode_roundtripD)

lemma append_wal_entries_Ok:
  "\<forall>e \<in> set es. encodes_small c e \<Longrightarrow>
     append_wal_entries c log es = Ok (log @ concat (map (\<lambda>e. put_frame (the (bc_encode c e))) es))"
  by (induction es arbitrary: log) (auto simp: append_wal_entry_def encodes_small_def)

lemma wal_entries_from_concat:
  assumes "bincode_roundtrip c" and "\<forall>e \<in> set es. encodes_small c e"
  shows "wal_entries_from c (concat (map (\<lambda>e. put_frame (the (bc_encode c e))) es) @ r) =
     map_ok ((@) es) (wal_entries_from c r)"
  using assms(2)
proof (induction es)
  case Nil
  then show ?case by (cases "wal_entries_from c r") simp_all
next
  case (Cons e es)
  then obtain bs where "bc_encode c e = Some bs" "length bs < 2 ^ 32"
    by (auto simp: encodes_small_def)
  with Cons wal_entries_from_frame [OF assms(1)] show ?case
    by (cases "wal_entries_from c r") simp_all
qed

lemma wal_torn_tail_empty:
  assumes "encodes_small c e" and "bc_encode c e = Some bs" and "k < length (put_frame bs)"
  shows "wal_entries_from c (take k (put_frame bs)) = Ok []"
  using assms by (subst wal_entries_from.simps) (simp add: encodes_small_def take_frame_torn)

section \<open>\<open>CanonicalCachedState\<close>\<close>

text \<open>
  The log's replay target: the same fields as \<open>CanonicalCachedStore\<close>, whose record type it
  shares here. Its \<open>update_age\<close> answers \<open>NotFound\<close> where the store's panics on a missing
  position; an out-of-range position still panics (\<open>None\<close>).
\<close>

definition ccs_new :: "dog list \<Rightarrow> (uuid \<times> uuid) list \<Rightarrow> cached_store" where
  "ccs_new rs es = cc_new rs es"

definition ccs_update_age :: "cached_store \<Rightarrow> uuid \<Rightarrow> u32 \<Rightarrow> (store_error + cached_store) option" where
  "ccs_update_age s i a =
     (case map_of (can_records s) i of
        None \<Rightarrow> Some (Err (StoreNotFound i))
      | Some r \<Rightarrow>
          (let s = s\<lparr>can_records := AList.update i (r\<lparr>age := a\<rparr>) (can_records s)\<rparr> in
           case cc_position_index s i of
             None \<Rightarrow> Some (Err (StoreNotFound i))
           | Some p \<Rightarrow>
               (if p < length (cc_age_cache s)
                then Some (Ok (s\<lparr>cc_age_cache := (cc_age_cache s)[p := a]\<rparr>)) else None)))"

lemma ccs_update_eq: "cc_invar s \<Longrightarrow> ccs_update_age s i a = cc_update_age s i a"
  using cc_update_never_panics [of s i a]
  by (auto simp: ccs_update_age_def cc_update_age_def Let_def split: option.splits)

end
