(* ===== verification/Wal_Store.thy ===== *)
theory Wal_Store
  imports Durability
begin

text \<open>
  The write-ahead-log store \<open>WalFsyncStore\<close> of \<open>src/durability/wal_fsync.rs\<close> (\<open>WalBufferedStore\<close> of
  \<open>wal_buffered.rs\<close> runs the same steps without the fsync). A store holds its in-memory state and
  the contents of its two files; a crash keeps the files only, and \<open>open\<close> is what the next
  process sees.
\<close>

section \<open>Replay\<close>

text \<open>\<open>None\<close> is a panic inside \<open>update_age\<close>; \<open>?\<close> on an unknown id is an error of \<open>open\<close>.\<close>

fun replay :: "cached_store \<Rightarrow> wal_entry list \<Rightarrow> (durability_error + cached_store) option" where
  "replay st [] = Some (Ok st)"
| "replay st (e # es) =
     (case ccs_update_age st (wal_id e) (wal_age e) of
        None \<Rightarrow> None
      | Some (Inl err) \<Rightarrow> Some (Err (DurStore err))
      | Some (Inr st') \<Rightarrow> replay st' es)"

definition known :: "cached_store \<Rightarrow> uuid \<Rightarrow> bool" where
  "known s i \<longleftrightarrow> i \<in> fst ` set (can_records s)"

text \<open>The effect of an accepted update, and of a sequence of them, in closed form.\<close>

definition set_age :: "cached_store \<Rightarrow> (uuid \<Rightarrow> u32 \<Rightarrow> u32) \<Rightarrow> cached_store" where
  "set_age s f = s\<lparr>can_records := map (\<lambda>(j, r). (j, r\<lparr>age := f j (age r)\<rparr>)) (can_records s),
     cc_age_cache := map (\<lambda>(j, r). f j (age r)) (can_records s)\<rparr>"

definition last_age :: "wal_entry list \<Rightarrow> uuid \<Rightarrow> u32 \<Rightarrow> u32" where
  "last_age es j a = last (a # map wal_age (filter (\<lambda>e. wal_id e = j) es))"

lemma last_age_simps:
  "last_age [] = (\<lambda>j a. a)"
  "last_age (e # es) = (\<lambda>j a. last_age es j (if j = wal_id e then wal_age e else a))"
  by (auto simp: last_age_def fun_eq_iff)

lemma last_age_record:
  "last_age (\<lparr>wal_seq = q, wal_id = i, wal_age = b\<rparr> # es) = (\<lambda>j a. last_age es j (if j = i then b else a))"
  by (auto simp: last_age_def fun_eq_iff)

lemma last_age_append: "last_age (es @ es') = (\<lambda>j a. last_age es' j (last_age es j a))"
  by (auto simp: last_age_def fun_eq_iff)

lemma last_age_idem: "last_age es j (last_age es j a) = last_age es j a"
  by (simp add: last_age_def)

lemma set_age_compose: "set_age (set_age s f) g = set_age s (\<lambda>j a. g j (f j a))"
  by (simp add: set_age_def case_prod_unfold comp_def)

lemma set_age_id: "cc_invar s \<Longrightarrow> set_age s (\<lambda>j a. a) = s"
  by (auto simp: set_age_def cc_invar_def case_prod_unfold intro!: cached_store.equality map_idI)

lemma known_set_age [simp]: "known (set_age s f) i = known s i"
  by (force simp: known_def set_age_def)

lemma ccs_update_known:
  assumes inv: "cc_invar s" and k: "known s i"
  shows "ccs_update_age s i a = Some (Inr (set_age s (\<lambda>j b. if j = i then a else b)))"
    and "cc_invar (set_age s (\<lambda>j b. if j = i then a else b))"
proof -
  from inv have wf: "distinct (map fst (can_records s))"
    by (simp add: cc_invar_def breed_indexed_def hm_wf_def)
  from k obtain r where r: "map_of (can_records s) i = Some r"
    by (metis known_def map_of_eq_None_iff not_None_eq)
  then have mem: "(i, r) \<in> set (can_records s)" by (rule map_of_SomeD)
  have same: "w = r" if "(i, w) \<in> set (can_records s)" for w
    using that mem wf by (metis eq_key_imp_eq_value)
  have "AList.update i (r\<lparr>age := a\<rparr>) (can_records s) =
      map (\<lambda>(j, w). (j, if j = i then r\<lparr>age := a\<rparr> else w)) (can_records s)"
    by (rule update_in_place) (use k wf in \<open>auto simp: known_def\<close>)
  also have "\<dots> = map (\<lambda>(j, w). (j, w\<lparr>age := if j = i then a else age w\<rparr>)) (can_records s)"
    using same by auto
  finally have recs: "AList.update i (r\<lparr>age := a\<rparr>) (can_records s) =
      map (\<lambda>(j, w). (j, w\<lparr>age := if j = i then a else age w\<rparr>)) (can_records s)" .
  then show upd: "ccs_update_age s i a = Some (Inr (set_age s (\<lambda>j b. if j = i then a else b)))"
    by (simp add: ccs_update_eq [OF inv] cc_update_cases [OF inv] r set_age_def comp_def case_prod_unfold)
  from upd have "cc_update_age s i a = Some (Inr (set_age s (\<lambda>j b. if j = i then a else b)))"
    by (simp add: ccs_update_eq [OF inv])
  then show "cc_invar (set_age s (\<lambda>j b. if j = i then a else b))"
    by (rule cc_update_invar [OF inv])
qed

lemma ccs_update_unknown:
  "cc_invar s \<Longrightarrow> \<not> known s i \<Longrightarrow> ccs_update_age s i a = Some (Inl (StoreNotFound i))"
  by (simp add: ccs_update_eq cc_update_age_def known_def map_of_eq_None_iff [THEN iffD2])

lemma replay_known:
  assumes "cc_invar s" and "\<forall>e \<in> set es. known s (wal_id e)"
  shows "replay s es = Some (Inr (set_age s (last_age es)))" and "cc_invar (set_age s (last_age es))"
proof -
  have "replay s es = Some (Inr (set_age s (last_age es))) \<and> cc_invar (set_age s (last_age es))"
    using assms
  proof (induction es arbitrary: s)
    case Nil
    then show ?case by (simp add: last_age_simps set_age_id)
  next
    case (Cons e es)
    let ?s = "set_age s (\<lambda>j b. if j = wal_id e then wal_age e else b)"
    from Cons.prems have k: "known s (wal_id e)" by simp
    note u = ccs_update_known [OF Cons.prems(1) k, of "wal_age e"]
    have "set_age ?s (last_age es) = set_age s (last_age (e # es))"
      unfolding set_age_compose by (simp add: last_age_simps)
    with Cons.IH [OF u(2)] Cons.prems u(1) show ?case by simp
  qed
  then show "replay s es = Some (Inr (set_age s (last_age es)))" and "cc_invar (set_age s (last_age es))"
    by auto
qed

lemma replay_append:
  "replay s (es @ es') = (case replay s es of Some (Inr s') \<Rightarrow> replay s' es' | r \<Rightarrow> r)"
  by (induction es arbitrary: s) (auto split: option.splits sum.splits)

section \<open>\<open>WalFsyncStore\<close>\<close>

record wal_store =
  ws_state :: cached_store
  ws_base :: "byte list option"
  ws_wal :: "byte list"
  ws_next_seq :: u64

text \<open>\<open>create\<close> truncates the log; the base snapshot of the directory, if any, stays.\<close>

definition wal_create :: "dog list \<Rightarrow> (uuid \<times> uuid) list \<Rightarrow> byte list option \<Rightarrow> wal_store" where
  "wal_create rs es base =
     \<lparr>ws_state = ccs_new rs es, ws_base = base, ws_wal = [], ws_next_seq = 0\<rparr>"

definition wal_open :: "wal_entry bincode \<Rightarrow> cached_store bincode \<Rightarrow> dog list \<Rightarrow> (uuid \<times> uuid) list \<Rightarrow>
    byte list option \<Rightarrow> byte list option \<Rightarrow> (durability_error + wal_store) option" where
  "wal_open ce cs rs es base wal =
     (case (case base of
              Some bytes \<Rightarrow> (case bc_decode cs bytes of None \<Rightarrow> Err DurSerde | Some st \<Rightarrow> Ok st)
            | None \<Rightarrow> Ok (ccs_new rs es)) of
        Inl e \<Rightarrow> Some (Err e)
      | Inr st \<Rightarrow>
          (case read_wal_entries ce wal of
             Inl e \<Rightarrow> Some (Err e)
           | Inr entries \<Rightarrow>
               (case replay st entries of
                  None \<Rightarrow> None
                | Some (Inl e) \<Rightarrow> Some (Err e)
                | Some (Inr st') \<Rightarrow>
                    Some (Ok \<lparr>ws_state = st', ws_base = base,
                       ws_wal = (case wal of None \<Rightarrow> [] | Some bs \<Rightarrow> bs),
                       ws_next_seq = (if entries = [] then 0 else wal_seq (last entries) + 1)\<rparr>))))"

text \<open>The first file write of a checkpoint, and the truncation that completes it.\<close>

definition wal_write_base :: "cached_store bincode \<Rightarrow> wal_store \<Rightarrow> durability_error + wal_store" where
  "wal_write_base cs s =
     (case bc_encode cs (ws_state s) of
        None \<Rightarrow> Err DurSerde
      | Some bytes \<Rightarrow> Ok (s\<lparr>ws_base := Some bytes\<rparr>))"

definition wal_checkpoint :: "cached_store bincode \<Rightarrow> wal_store \<Rightarrow> durability_error + wal_store" where
  "wal_checkpoint cs s = and_then (wal_write_base cs s) (\<lambda>s'. Ok (s'\<lparr>ws_wal := []\<rparr>))"

text \<open>The log is appended to before the state is touched; a refused id leaves its entry behind.\<close>

definition wal_update_age :: "(durability_error \<Rightarrow> string) \<Rightarrow> wal_entry bincode \<Rightarrow> wal_store \<Rightarrow> uuid \<Rightarrow> u32 \<Rightarrow>
    (wal_store \<times> (store_error + unit)) option" where
  "wal_update_age to_string ce s i a =
     (case append_wal_entry ce (ws_wal s) \<lparr>wal_seq = ws_next_seq s, wal_id = i, wal_age = a\<rparr> of
        Inl e \<Rightarrow> Some (s, Err (store_error_from to_string e))
      | Inr log \<Rightarrow>
          (let s = s\<lparr>ws_wal := log, ws_next_seq := ws_next_seq s + 1\<rparr> in
           case ccs_update_age (ws_state s) i a of
             None \<Rightarrow> None
           | Some (Inl e) \<Rightarrow> Some (s, Err e)
           | Some (Inr st) \<Rightarrow> Some (s\<lparr>ws_state := st\<rparr>, Ok ())))"

text \<open>What recovery needs of the codecs: round trips, and entries below the \<open>u32\<close> length prefix.\<close>

definition wal_codecs_ok :: "wal_entry bincode \<Rightarrow> cached_store bincode \<Rightarrow> bool" where
  "wal_codecs_ok ce cs \<longleftrightarrow> bincode_roundtrip ce \<and> bincode_roundtrip cs \<and> (\<forall>e. encodes_small ce e)"

text \<open>The state the next process finds: the base snapshot, or the caller's data set.\<close>

definition base_state :: "cached_store bincode \<Rightarrow> dog list \<Rightarrow> (uuid \<times> uuid) list \<Rightarrow> wal_store \<Rightarrow> cached_store option" where
  "base_state cs rs es s =
     (case ws_base s of None \<Rightarrow> Some (ccs_new rs es) | Some bytes \<Rightarrow> bc_decode cs bytes)"

definition recoverable :: "wal_entry bincode \<Rightarrow> cached_store bincode \<Rightarrow> dog list \<Rightarrow> (uuid \<times> uuid) list \<Rightarrow>
    wal_store \<Rightarrow> bool" where
  "recoverable ce cs rs es s \<longleftrightarrow>
     (\<exists>st log. base_state cs rs es s = Some st \<and> cc_invar st \<and>
        append_wal_entries ce [] log = Inr (ws_wal s) \<and>
        (\<forall>e \<in> set log. known st (wal_id e)) \<and> ws_state s = set_age st (last_age log))"

lemma append_wal_entries_snoc:
  "append_wal_entries c log (es @ [e]) = and_then (append_wal_entries c log es) (\<lambda>l. append_wal_entry c l e)"
proof (induction es arbitrary: log)
  case Nil
  then show ?case by (cases "append_wal_entry c log e") simp_all
next
  case (Cons a es)
  then show ?case by (cases "append_wal_entry c log a") simp_all
qed

lemma read_appended:
  assumes "bincode_roundtrip c" "\<forall>e. encodes_small c e" "append_wal_entries c [] log = Inr bs"
  shows "wal_entries_from c (bs @ r) = map_ok ((@) log) (wal_entries_from c r)"
  using assms wal_entries_from_concat [OF assms(1), of log r] by (simp add: append_wal_entries_Ok)

lemma wal_entries_from_Nil: "wal_entries_from c [] = Ok []"
  by (subst wal_entries_from.simps) (simp add: take_frame_def)

lemma wal_create_recoverable:
  "input_ok rs es \<Longrightarrow> recoverable ce cs rs es (wal_create rs es None)"
  unfolding recoverable_def wal_create_def
  by (intro exI [of _ "ccs_new rs es"] exI [of _ "[]"])
    (simp add: base_state_def ccs_new_def cc_new_ok last_age_simps set_age_id)

lemma wal_update_recoverable:
  assumes "recoverable ce cs rs es s" and "wal_codecs_ok ce cs" and "known (ws_state s) i"
  obtains s' where "wal_update_age ts ce s i a = Some (s', Inr ())" "recoverable ce cs rs es s'"
    "ws_state s' = set_age (ws_state s) (\<lambda>j b. if j = i then a else b)"
proof -
  from assms(1) obtain st log where r: "base_state cs rs es s = Some st" "cc_invar st"
    "append_wal_entries ce [] log = Inr (ws_wal s)" "\<forall>e \<in> set log. known st (wal_id e)"
    "ws_state s = set_age st (last_age log)"
    by (auto simp: recoverable_def)
  let ?e = "\<lparr>wal_seq = ws_next_seq s, wal_id = i, wal_age = a\<rparr>"
  let ?st = "set_age (ws_state s) (\<lambda>j b. if j = i then a else b)"
  from assms(2) obtain bs where bs: "bc_encode ce ?e = Some bs"
    by (metis wal_codecs_ok_def encodes_small_def)
  from replay_known(2) [OF r(2,4)] r(5) have inv: "cc_invar (ws_state s)" by simp
  let ?s = "s\<lparr>ws_wal := ws_wal s @ put_frame bs, ws_next_seq := ws_next_seq s + 1, ws_state := ?st\<rparr>"
  have "wal_update_age ts ce s i a = Some (?s, Inr ())"
    by (simp add: wal_update_age_def append_wal_entry_def bs ccs_update_known(1) [OF inv assms(3)])
  moreover have "append_wal_entries ce [] (log @ [?e]) = Inr (ws_wal ?s)"
    by (simp add: append_wal_entries_snoc r(3) append_wal_entry_def bs)
  then have "recoverable ce cs rs es ?s"
    unfolding recoverable_def
    by (intro exI [of _ st] exI [of _ "log @ [?e]"])
      (use r assms(3) in \<open>auto simp: base_state_def last_age_append last_age_record last_age_simps(1) set_age_compose\<close>)
  ultimately show ?thesis by (intro that [of ?s]) simp_all
qed

lemma wal_open_recovers:
  assumes "recoverable ce cs rs es s" and "wal_codecs_ok ce cs"
    and tail: "wal_entries_from ce tail = Ok []"
  shows "\<exists>s'. wal_open ce cs rs es (ws_base s) (Some (ws_wal s @ tail)) = Some (Inr s') \<and>
     ws_state s' = ws_state s"
proof -
  from assms(1) obtain st log where r: "base_state cs rs es s = Some st" "cc_invar st"
    "append_wal_entries ce [] log = Inr (ws_wal s)" "\<forall>e \<in> set log. known st (wal_id e)"
    "ws_state s = set_age st (last_age log)"
    by (auto simp: recoverable_def)
  have "read_wal_entries ce (Some (ws_wal s @ tail)) = Inr log"
    using read_appended [OF _ _ r(3), of tail] assms(2) tail
    by (simp add: read_wal_entries_def wal_codecs_ok_def)
  moreover have "(case ws_base s of Some bytes \<Rightarrow> (case bc_decode cs bytes of None \<Rightarrow> Err DurSerde | Some st \<Rightarrow> Ok st)
      | None \<Rightarrow> Ok (ccs_new rs es)) = Inr st"
    using r(1) by (auto simp: base_state_def split: option.splits)
  ultimately show ?thesis
    using replay_known(1) [OF r(2,4)] by (simp add: wal_open_def r(5))
qed

text \<open>Between the two writes of a checkpoint the old log is replayed over the new base: no change.\<close>

lemma wal_write_base_recoverable:
  assumes "recoverable ce cs rs es s" and "wal_codecs_ok ce cs" and "wal_write_base cs s = Inr s'"
  shows "recoverable ce cs rs es s'" and "ws_state s' = ws_state s"
proof -
  from assms(1) obtain st log where r: "base_state cs rs es s = Some st" "cc_invar st"
    "append_wal_entries ce [] log = Inr (ws_wal s)" "\<forall>e \<in> set log. known st (wal_id e)"
    "ws_state s = set_age st (last_age log)"
    by (auto simp: recoverable_def)
  from assms(3) obtain bytes where b: "bc_encode cs (ws_state s) = Some bytes" "s' = s\<lparr>ws_base := Some bytes\<rparr>"
    by (auto simp: wal_write_base_def split: option.splits)
  then have "base_state cs rs es s' = Some (ws_state s)"
    using assms(2) by (simp add: base_state_def wal_codecs_ok_def bincode_roundtripD)
  moreover have "cc_invar (ws_state s)" using replay_known(2) [OF r(2,4)] r(5) by simp
  moreover have "set_age (ws_state s) (last_age log) = ws_state s"
    by (simp add: r(5) set_age_compose last_age_idem)
  ultimately show "recoverable ce cs rs es s'"
    unfolding recoverable_def
    by (intro exI [of _ "ws_state s"] exI [of _ log]) (use r b in simp)
  show "ws_state s' = ws_state s" by (simp add: b(2))
qed

lemma wal_checkpoint_recoverable:
  assumes "recoverable ce cs rs es s" and "wal_codecs_ok ce cs" and "wal_checkpoint cs s = Inr s'"
  shows "recoverable ce cs rs es s'" and "ws_state s' = ws_state s"
proof -
  from assms(3) obtain t where t: "wal_write_base cs s = Inr t" "s' = t\<lparr>ws_wal := []\<rparr>"
    by (auto simp: wal_checkpoint_def and_then_Ok_iff)
  note w = wal_write_base_recoverable [OF assms(1,2) t(1)]
  from w(1) obtain st log where r: "base_state cs rs es t = Some st" "cc_invar st"
    "\<forall>e \<in> set log. known st (wal_id e)" "ws_state t = set_age st (last_age log)"
    by (auto simp: recoverable_def)
  from t(1) have "base_state cs rs es s' = Some (ws_state s')"
    using assms(2) by (auto simp: wal_write_base_def t(2) base_state_def wal_codecs_ok_def
        bincode_roundtripD split: option.splits)
  moreover have "cc_invar (ws_state s')" using replay_known(2) [OF r(2,3)] r(4) t(2) by simp
  ultimately show "recoverable ce cs rs es s'"
    unfolding recoverable_def
    by (intro exI [of _ "ws_state s'"] exI [of _ "[]"])
      (simp add: t(2) last_age_simps set_age_id)
  show "ws_state s' = ws_state s" using w(2) by (simp add: t(2))
qed

section \<open>Runs\<close>

datatype wal_op = WUpdate uuid u32 | WCheckpoint

text \<open>A client's calls in order; a failing call leaves the store as it was, a panic ends the run.\<close>

fun wal_run :: "(durability_error \<Rightarrow> string) \<Rightarrow> wal_entry bincode \<Rightarrow> cached_store bincode \<Rightarrow> wal_store \<Rightarrow>
    wal_op list \<Rightarrow> wal_store option" where
  "wal_run ts ce cs s [] = Some s"
| "wal_run ts ce cs s (WUpdate i a # ops) =
     (case wal_update_age ts ce s i a of None \<Rightarrow> None | Some (s', _) \<Rightarrow> wal_run ts ce cs s' ops)"
| "wal_run ts ce cs s (WCheckpoint # ops) =
     (case wal_checkpoint cs s of Inl _ \<Rightarrow> wal_run ts ce cs s ops | Inr s' \<Rightarrow> wal_run ts ce cs s' ops)"

definition ops_known :: "cached_store \<Rightarrow> wal_op list \<Rightarrow> bool" where
  "ops_known s ops \<longleftrightarrow> (\<forall>op \<in> set ops. case op of WUpdate i a \<Rightarrow> known s i | WCheckpoint \<Rightarrow> True)"

definition op_entries :: "wal_op list \<Rightarrow> wal_entry list" where
  "op_entries ops = List.map_filter (\<lambda>op. case op of
      WUpdate i a \<Rightarrow> Some \<lparr>wal_seq = 0, wal_id = i, wal_age = a\<rparr> | WCheckpoint \<Rightarrow> None) ops"

lemma op_entries_simps [simp]:
  "op_entries [] = []"
  "op_entries (WUpdate i a # ops) = \<lparr>wal_seq = 0, wal_id = i, wal_age = a\<rparr> # op_entries ops"
  "op_entries (WCheckpoint # ops) = op_entries ops"
  by (simp_all add: op_entries_def List.map_filter_def)

lemma wal_run_recoverable:
  assumes "recoverable ce cs rs es s" "wal_codecs_ok ce cs" "ops_known (ws_state s) ops" "cc_invar (ws_state s)"
  shows "\<exists>s'. wal_run ts ce cs s ops = Some s' \<and> recoverable ce cs rs es s' \<and>
     ws_state s' = set_age (ws_state s) (last_age (op_entries ops))"
  using assms
proof (induction ops arbitrary: s)
  case Nil
  then show ?case by (simp add: last_age_simps set_age_id)
next
  case (Cons op ops)
  show ?case
  proof (cases op)
    case (WUpdate i a)
    with Cons.prems have k: "known (ws_state s) i" by (simp add: ops_known_def)
    obtain s' where s': "wal_update_age ts ce s i a = Some (s', Inr ())" "recoverable ce cs rs es s'"
      "ws_state s' = set_age (ws_state s) (\<lambda>j b. if j = i then a else b)"
      by (rule wal_update_recoverable [OF Cons.prems(1,2) k])
    have "cc_invar (ws_state s')" "ops_known (ws_state s') ops"
      using ccs_update_known(2) [OF Cons.prems(4) k] Cons.prems(3)
      by (auto simp: s'(3) ops_known_def split: wal_op.splits)
    from Cons.IH [OF s'(2) Cons.prems(2) this(2,1)] show ?thesis
      by (simp add: WUpdate s'(1,3) set_age_compose last_age_record)
  next
    case WCheckpoint
    with Cons.prems have k: "ops_known (ws_state s) ops" by (simp add: ops_known_def)
    show ?thesis
    proof (cases "wal_checkpoint cs s")
      case (Inl e)
      with WCheckpoint Cons.IH [OF Cons.prems(1,2) k Cons.prems(4)] show ?thesis by simp
    next
      case (Inr s')
      note c = wal_checkpoint_recoverable [OF Cons.prems(1,2) Inr]
      with Cons.IH [OF c(1) Cons.prems(2)] k Cons.prems(4) WCheckpoint Inr show ?thesis by simp
    qed
  qed
qed

section \<open>Recovery\<close>

text \<open>C17. Crash recovery of the write-ahead log. After any sequence of age updates of known ids and
  checkpoints on a freshly created store, and with any torn entry at the end of the log, \<open>open\<close>
  succeeds and finds exactly the in-memory state the dead process had, in which each dog has
  the age of the last update made to it. No call of the run panics.\<close>

theorem wal_recovery:
  assumes "input_ok rs es" and "wal_codecs_ok ce cs" and "ops_known (ccs_new rs es) ops"
    and "k < length (put_frame (the (bc_encode ce e)))"
  shows "\<exists>s s'. wal_run ts ce cs (wal_create rs es None) ops = Some s \<and>
     wal_open ce cs rs es (ws_base s) (Some (ws_wal s @ take k (put_frame (the (bc_encode ce e))))) = Some (Inr s') \<and>
     ws_state s' = ws_state s \<and> ws_state s = set_age (ccs_new rs es) (last_age (op_entries ops))"
proof -
  have inv: "cc_invar (ccs_new rs es)" using assms(1) by (simp add: ccs_new_def cc_new_ok)
  have st: "ws_state (wal_create rs es None) = ccs_new rs es" by (simp add: wal_create_def)
  obtain s where s: "wal_run ts ce cs (wal_create rs es None) ops = Some s" "recoverable ce cs rs es s"
    "ws_state s = set_age (ccs_new rs es) (last_age (op_entries ops))"
    using wal_run_recoverable [OF wal_create_recoverable [OF assms(1)] assms(2), of ops ts] assms(3) inv
    unfolding st by blast
  from assms(2) obtain bs where bs: "bc_encode ce e = Some bs" "encodes_small ce e"
    by (metis wal_codecs_ok_def encodes_small_def)
  have "wal_entries_from ce (take k (put_frame (the (bc_encode ce e)))) = Ok []"
    using wal_torn_tail_empty [OF bs(2,1)] assms(4) bs(1) by simp
  from wal_open_recovers [OF s(2) assms(2) this] s show ?thesis by blast
qed

text \<open>A codec pair to instantiate the parameters with: entries as fixed-width fields, one state.\<close>

definition demo_entry_codec :: "wal_entry bincode" where
  "demo_entry_codec =
     \<lparr>bc_encode = \<lambda>e. Some (le_bytes 8 (wal_seq e) @ le_bytes 16 (wal_id e) @ le_bytes 4 (wal_age e)),
      bc_decode = \<lambda>bs. if length bs = 28
        then Some \<lparr>wal_seq = le_word (take 8 bs), wal_id = le_word (take 16 (drop 8 bs)),
                   wal_age = le_word (drop 24 bs)\<rparr>
        else None\<rparr>"

definition demo_state_codec :: "cached_store \<Rightarrow> cached_store bincode" where
  "demo_state_codec s = \<lparr>bc_encode = \<lambda>t. if t = s then Some [1] else None, bc_decode = \<lambda>_. Some s\<rparr>"

lemma demo_codecs_ok: "wal_codecs_ok demo_entry_codec (demo_state_codec s)"
  by (auto simp: wal_codecs_ok_def bincode_roundtrip_def encodes_small_def demo_entry_codec_def
      demo_state_codec_def le_word_le_bytes_full split: if_splits)

theorem wal_recovery_witness:
  "\<exists>s s'. wal_run (\<lambda>_. []) demo_entry_codec (demo_state_codec (ccs_new [\<lparr>dog_id = 1, breed = ''lab'', age = 3\<rparr>] []))
       (wal_create [\<lparr>dog_id = 1, breed = ''lab'', age = 3\<rparr>] [] None) [WCheckpoint, WUpdate 1 5] = Some s \<and>
     wal_open demo_entry_codec (demo_state_codec (ccs_new [\<lparr>dog_id = 1, breed = ''lab'', age = 3\<rparr>] []))
       [\<lparr>dog_id = 1, breed = ''lab'', age = 3\<rparr>] [] (ws_base s)
       (Some (ws_wal s @ take 9 (put_frame (the (bc_encode demo_entry_codec \<lparr>wal_seq = 1, wal_id = 1, wal_age = 6\<rparr>))))) = Some (Inr s') \<and>
     ws_state s' = ws_state s \<and>
     ws_state s = set_age (ccs_new [\<lparr>dog_id = 1, breed = ''lab'', age = 3\<rparr>] [])
       (last_age (op_entries [WCheckpoint, WUpdate 1 5]))"
  by (rule wal_recovery [OF _ demo_codecs_ok])
    (simp_all add: input_ok_def ops_known_def known_def ccs_new_def cc_new_def hm_collect_def
      demo_entry_codec_def put_frame_def)

text \<open>C24. An update of an unknown id is refused with \<open>NotFound\<close>, but its entry has already been
  appended to the log: an \<open>open\<close> of the files as that refused call left them, with the records
  and edges the store was created from, replays the entry and fails with the same error. The
  failed open writes nothing, so it stays that way until the process that is still running
  checkpoints.\<close>

theorem wal_refused_update_blocks_open:
  assumes "recoverable ce cs rs es s" and "wal_codecs_ok ce cs" and "\<not> known (ws_state s) i"
  shows "\<exists>s'. wal_update_age ts ce s i a = Some (s', Inl (StoreNotFound i)) \<and>
     wal_open ce cs rs es (ws_base s') (Some (ws_wal s')) = Some (Inl (DurStore (StoreNotFound i)))"
proof -
  from assms(1) obtain st log where r: "base_state cs rs es s = Some st" "cc_invar st"
    "append_wal_entries ce [] log = Inr (ws_wal s)" "\<forall>e \<in> set log. known st (wal_id e)"
    "ws_state s = set_age st (last_age log)"
    by (auto simp: recoverable_def)
  let ?e = "\<lparr>wal_seq = ws_next_seq s, wal_id = i, wal_age = a\<rparr>"
  from assms(2) obtain bs where bs: "bc_encode ce ?e = Some bs" "length bs < 2 ^ 32" and rt: "bincode_roundtrip ce"
    by (metis wal_codecs_ok_def encodes_small_def)
  note u = ccs_update_unknown [OF _ assms(3), of a]
  from replay_known(2) [OF r(2,4)] r(5) have inv: "cc_invar (ws_state s)" by simp
  let ?s = "s\<lparr>ws_wal := ws_wal s @ put_frame bs, ws_next_seq := ws_next_seq s + 1\<rparr>"
  have upd: "wal_update_age ts ce s i a = Some (?s, Inl (StoreNotFound i))"
    by (simp add: wal_update_age_def append_wal_entry_def bs u [OF inv])
  have "wal_entries_from ce (put_frame bs) = Inr [?e]"
    using wal_entries_from_frame [OF rt bs, of "[]"] by (simp add: wal_entries_from_Nil)
  then have rd: "read_wal_entries ce (Some (ws_wal ?s)) = Inr (log @ [?e])"
    using read_appended [OF rt _ r(3), of "put_frame bs"] assms(2)
    by (simp add: read_wal_entries_def wal_codecs_ok_def)
  have "replay st (log @ [?e]) = Some (Inl (DurStore (StoreNotFound i)))"
    using replay_known(1) [OF r(2,4)] u [OF inv] by (simp add: replay_append r(5))
  moreover have "(case ws_base s of Some bytes \<Rightarrow> (case bc_decode cs bytes of None \<Rightarrow> Err DurSerde | Some st \<Rightarrow> Ok st)
      | None \<Rightarrow> Ok (ccs_new rs es)) = Inr st"
    using r(1) by (auto simp: base_state_def split: option.splits)
  ultimately have "wal_open ce cs rs es (ws_base ?s) (Some (ws_wal ?s)) = Some (Inl (DurStore (StoreNotFound i)))"
    using rd by (simp add: wal_open_def)
  with upd show ?thesis by blast
qed

theorem wal_refused_update_blocks_open_witness:
  "\<exists>s'. wal_update_age (\<lambda>_. []) demo_entry_codec (wal_create [\<lparr>dog_id = 1, breed = ''lab'', age = 3\<rparr>] [] None) 9 4 =
       Some (s', Inl (StoreNotFound 9)) \<and>
     wal_open demo_entry_codec (demo_state_codec (ccs_new [] [])) [\<lparr>dog_id = 1, breed = ''lab'', age = 3\<rparr>] []
       (ws_base s') (Some (ws_wal s')) = Some (Inl (DurStore (StoreNotFound 9)))"
  by (rule wal_refused_update_blocks_open [OF wal_create_recoverable demo_codecs_ok])
    (simp_all add: input_ok_def known_def wal_create_def ccs_new_def cc_new_def hm_collect_def)

end
