(* ===== verification/Blob.thy ===== *)
theory Blob
  imports Durability
begin

text \<open>
  The companion-file formats: the shared 20-byte header and FNV-1a hash of
  \<open>src/durability/record_blob.rs\<close>, the schema-tagged 28-byte header and the record blob of
  \<open>src/generic/record_blob.rs\<close>, and the edge blob of \<open>src/generic/edge_blob.rs\<close>, which is the same
  format over id pairs under its own magic.
\<close>

section \<open>FNV-1a\<close>

definition fnv_offset_basis :: u64 where
  "fnv_offset_basis = 0xcbf29ce484222325"

definition fnv_prime :: u64 where
  "fnv_prime = 0x00000100000001b3"

definition fnv_update :: "u64 \<Rightarrow> byte list \<Rightarrow> u64" where
  "fnv_update h bytes = foldl (\<lambda>h b. (h XOR ucast b) * fnv_prime) h bytes"

definition fnv1a64 :: "byte list \<Rightarrow> u64" where
  "fnv1a64 bytes = fnv_update fnv_offset_basis bytes"

text \<open>Streaming the encoding in any chunking gives the hash of the whole.\<close>

lemma fnv_update_chunks: "foldl fnv_update h parts = fnv_update h (concat parts)"
  by (induction parts arbitrary: h) (simp_all add: fnv_update_def)

section \<open>The shared header\<close>

definition blob_header_len :: nat where
  "blob_header_len = 8 + 4 + 8"

definition encode_image :: "byte list \<Rightarrow> u32 \<Rightarrow> u64 \<Rightarrow> byte list \<Rightarrow> byte list" where
  "encode_image magic version fingerprint body =
     magic @ le_bytes 4 version @ le_bytes 8 fingerprint @ body"

definition parse_header :: "byte list \<Rightarrow> byte list \<Rightarrow> u32 \<Rightarrow> blob_cause + u64" where
  "parse_header bytes magic expected_version =
     (if length bytes < blob_header_len \<or> bytes_at 0 (length magic) bytes \<noteq> magic then Err NotABlob
      else (let found = le_word (bytes_at 8 4 bytes) in
        if found \<noteq> expected_version then Err (BlobVersionMismatch found expected_version)
        else Ok (le_word (bytes_at 12 8 bytes))))"

lemma bytes_at_8_4: "length m = 8 \<Longrightarrow> bytes_at 8 4 (m @ le_bytes 4 v @ r) = le_bytes 4 v"
  by (simp add: bytes_at_def)

lemma bytes_at_12_8: "length m = 8 \<Longrightarrow> bytes_at 12 8 (m @ le_bytes 4 v @ le_bytes 8 f @ r) = le_bytes 8 f"
  by (simp add: bytes_at_def)

lemma parse_encode_image:
  assumes "length magic = 8"
  shows "parse_header (encode_image magic version fp body) magic v =
     (if version = v then Ok fp else Err (BlobVersionMismatch version v))"
  using assms
  by (simp add: parse_header_def encode_image_def blob_header_len_def bytes_at_8_4 bytes_at_12_8
      le_word_le_bytes_full Let_def) (simp add: bytes_at_def)

lemma parse_header_take:
  "blob_header_len \<le> n \<Longrightarrow> length magic = 8 \<Longrightarrow> parse_header (take n bytes) magic v = parse_header bytes magic v"
  by (auto simp: parse_header_def blob_header_len_def bytes_at_def min_def Let_def drop_take)

lemma parse_header_Ok_header:
  assumes "parse_header bytes magic v = Inr fp" and "length magic = 8"
  shows "take blob_header_len bytes = magic @ le_bytes 4 v @ le_bytes 8 fp"
proof -
  from assms have len: "20 \<le> length bytes" and m: "take 8 bytes = magic"
    and ver: "le_word (bytes_at 8 4 bytes) = v" and f: "le_word (bytes_at 12 8 bytes) = fp"
    by (auto simp: parse_header_def blob_header_len_def bytes_at_def Let_def split: if_splits)
  have "bytes_at 8 4 bytes = le_bytes 4 v"
    using le_bytes_le_word [of "bytes_at 8 4 bytes", where 'a = 32] len ver by simp
  moreover have "bytes_at 12 8 bytes = le_bytes 8 fp"
    using le_bytes_le_word [of "bytes_at 12 8 bytes", where 'a = 64] len f by simp
  moreover have "take 20 bytes = take 8 bytes @ bytes_at 8 4 bytes @ bytes_at 12 8 bytes"
    using take_add [of 8 12 bytes] take_add [of 4 8 "drop 8 bytes"] by (simp add: bytes_at_def)
  ultimately show ?thesis using m by (simp add: blob_header_len_def)
qed

section \<open>The tagged header\<close>

definition tagged_header_len :: nat where
  "tagged_header_len = blob_header_len + 8"

text \<open>A schema tag is the UTF-8 text the type declares, here its bytes.\<close>

definition tag_hash :: "byte list \<Rightarrow> u64" where
  "tag_hash tag = fnv1a64 tag"

definition encode_tagged_image :: "byte list \<Rightarrow> u32 \<Rightarrow> u64 \<Rightarrow> byte list \<Rightarrow> byte list \<Rightarrow> byte list" where
  "encode_tagged_image magic version fingerprint tag body =
     encode_image magic version fingerprint [] @ le_bytes 8 (tag_hash tag) @ body"

definition parse_tagged_header :: "byte list \<Rightarrow> byte list \<Rightarrow> u32 \<Rightarrow> byte list \<Rightarrow> blob_cause + u64" where
  "parse_tagged_header bytes magic expected_version expected_tag =
     and_then (parse_header bytes magic expected_version) (\<lambda>fingerprint.
       if length bytes < tagged_header_len then Err TooShortForTag
       else (let found = le_word (bytes_at blob_header_len 8 bytes) in
         if found \<noteq> tag_hash expected_tag then Err (SchemaTagMismatch (tag_hash expected_tag) found)
         else Ok fingerprint))"

lemma length_tagged_image [simp]:
  "length magic = 8 \<Longrightarrow> length (encode_tagged_image magic v f tag body) = tagged_header_len + length body"
  by (simp add: encode_tagged_image_def encode_image_def tagged_header_len_def blob_header_len_def)

lemma parse_encode_tagged:
  assumes "length magic = 8"
  shows "parse_tagged_header (encode_tagged_image magic version fp tag body) magic v tag' =
     (if version \<noteq> v then Err (BlobVersionMismatch version v)
      else if tag_hash tag \<noteq> tag_hash tag' then Err (SchemaTagMismatch (tag_hash tag') (tag_hash tag))
      else Ok fp)"
proof -
  let ?rest = "le_bytes 8 (tag_hash tag) @ body"
  have im: "encode_tagged_image magic version fp tag body = encode_image magic version fp ?rest"
    by (simp add: encode_tagged_image_def encode_image_def)
  have "bytes_at blob_header_len 8 (encode_image magic version fp ?rest) = le_bytes 8 (tag_hash tag)"
    using assms by (simp add: bytes_at_def encode_image_def blob_header_len_def)
  then have w: "(le_word (bytes_at blob_header_len 8 (encode_image magic version fp ?rest)) :: u64) = tag_hash tag"
    by (simp add: le_word_le_bytes_full)
  have len: "\<not> length (encode_image magic version fp ?rest) < tagged_header_len"
    using assms by (simp add: encode_image_def tagged_header_len_def blob_header_len_def)
  show ?thesis
    unfolding parse_tagged_header_def im parse_encode_image [OF assms] w Let_def using len by simp
qed

lemma drop_tagged_image:
  "length magic = 8 \<Longrightarrow> drop tagged_header_len (encode_tagged_image magic v f tag body) = body"
  by (simp add: encode_tagged_image_def encode_image_def tagged_header_len_def blob_header_len_def)

section \<open>The record blob and the edge blob\<close>

definition genblob_magic :: "byte list" where
  "genblob_magic = map (of_nat \<circ> of_char) ''GENBLOB'' @ [0]"

definition genedge_magic :: "byte list" where
  "genedge_magic = map (of_nat \<circ> of_char) ''GENEDGE'' @ [0]"

definition genblob_version :: u32 where "genblob_version = 2"

definition genedge_version :: u32 where "genedge_version = 2"

lemma magic_lengths [simp]: "length genblob_magic = 8" "length genedge_magic = 8"
  by (simp_all add: genblob_magic_def genedge_magic_def)

lemma magics_distinct: "genblob_magic \<noteq> genedge_magic"
  by (simp add: genblob_magic_def genedge_magic_def)

text \<open>
  \<open>fingerprint\<close>, \<open>encode\<close>, \<open>is_current_at\<close> and \<open>read\<close>, over a file's contents (\<open>None\<close> when it cannot
  be read). The two blob modules are the same text but for the magic and the element type, so
  each pair is one definition taking them as arguments.
\<close>

definition tagged_fingerprint :: "'a bincode \<Rightarrow> 'a \<Rightarrow> durability_error + u64" where
  "tagged_fingerprint c v = map_ok fnv1a64 (ok_or DurSerde (bc_encode c v))"

definition tagged_encode :: "byte list \<Rightarrow> u32 \<Rightarrow> byte list \<Rightarrow> 'a bincode \<Rightarrow> 'a \<Rightarrow> durability_error + byte list" where
  "tagged_encode magic version tag c v =
     map_ok (\<lambda>body. encode_tagged_image magic version (fnv1a64 body) tag body) (ok_or DurSerde (bc_encode c v))"

definition tagged_is_current :: "byte list \<Rightarrow> u32 \<Rightarrow> byte list \<Rightarrow> 'a bincode \<Rightarrow> 'a \<Rightarrow> byte list option \<Rightarrow> bool" where
  "tagged_is_current magic version tag c v file =
     (case file of
        None \<Rightarrow> False
      | Some bytes \<Rightarrow>
          tagged_header_len \<le> length bytes \<and>
          (case tagged_fingerprint c v of
             Inl _ \<Rightarrow> False
           | Inr fp \<Rightarrow> parse_tagged_header (take tagged_header_len bytes) magic version tag = Ok fp))"

definition tagged_read :: "byte list \<Rightarrow> u32 \<Rightarrow> byte list \<Rightarrow> 'a bincode \<Rightarrow> byte list option \<Rightarrow> durability_error + 'a" where
  "tagged_read magic version tag c file =
     map_err RecordBlobUnreadable
       (and_then (ok_or CannotReadFile file) (\<lambda>bytes.
        and_then (parse_tagged_header bytes magic version tag) (\<lambda>claimed.
        (let body = drop tagged_header_len bytes; actual = fnv1a64 body in
         if actual \<noteq> claimed then Err (FingerprintMismatch claimed actual)
         else ok_or BodyDoesNotDecode (bc_decode c body)))))"

definition record_blob_encode :: "byte list \<Rightarrow> 'r list bincode \<Rightarrow> 'r list \<Rightarrow> durability_error + byte list" where
  "record_blob_encode = tagged_encode genblob_magic genblob_version"

definition record_blob_read :: "byte list \<Rightarrow> 'r list bincode \<Rightarrow> byte list option \<Rightarrow> durability_error + 'r list" where
  "record_blob_read = tagged_read genblob_magic genblob_version"

definition record_blob_is_current :: "byte list \<Rightarrow> 'r list bincode \<Rightarrow> 'r list \<Rightarrow> byte list option \<Rightarrow> bool" where
  "record_blob_is_current = tagged_is_current genblob_magic genblob_version"

definition edge_blob_encode :: "byte list \<Rightarrow> ('id \<times> 'id) list bincode \<Rightarrow> ('id \<times> 'id) list \<Rightarrow> durability_error + byte list" where
  "edge_blob_encode = tagged_encode genedge_magic genedge_version"

definition edge_blob_read :: "byte list \<Rightarrow> ('id \<times> 'id) list bincode \<Rightarrow> byte list option \<Rightarrow> durability_error + ('id \<times> 'id) list" where
  "edge_blob_read = tagged_read genedge_magic genedge_version"

definition edge_blob_is_current :: "byte list \<Rightarrow> ('id \<times> 'id) list bincode \<Rightarrow> ('id \<times> 'id) list \<Rightarrow> byte list option \<Rightarrow> bool" where
  "edge_blob_is_current = tagged_is_current genedge_magic genedge_version"

lemma tagged_read_encode:
  assumes "bincode_roundtrip c" "tagged_encode magic ver tag c v = Inr img" "length magic = 8"
  shows "tagged_read magic ver tag c (Some img) = Inr v"
proof -
  from assms(2) obtain body where b: "bc_encode c v = Some body"
    "img = encode_tagged_image magic ver (fnv1a64 body) tag body"
    by (auto simp: tagged_encode_def ok_or_def split: option.splits)
  then show ?thesis
    using assms(1,3) by (simp add: tagged_read_def parse_encode_tagged drop_tagged_image bincode_roundtripD Let_def)
qed

lemma tagged_read_accepts:
  assumes "tagged_read magic ver tag c file = Inr v"
  obtains bytes where "file = Some bytes" "parse_tagged_header bytes magic ver tag = Inr (fnv1a64 (drop tagged_header_len bytes))"
    "bc_decode c (drop tagged_header_len bytes) = Some v"
  using assms by (auto simp: tagged_read_def map_err_def ok_or_def Let_def and_then_def
      split: option.splits sum.splits if_splits)

lemma tagged_read_foreign_tag:
  assumes "tagged_encode magic ver tag c v = Inr img" "length magic = 8" "tag_hash tag \<noteq> tag_hash tag'"
  shows "tagged_read magic ver tag' c' (Some img) =
     Inl (RecordBlobUnreadable (SchemaTagMismatch (tag_hash tag') (tag_hash tag)))"
proof -
  from assms(1) obtain body where "img = encode_tagged_image magic ver (fnv1a64 body) tag body"
    by (auto simp: tagged_encode_def ok_or_def split: option.splits)
  then show ?thesis
    using assms(2,3) by (simp add: tagged_read_def parse_encode_tagged)
qed

lemma tagged_current_fresh:
  assumes "tagged_encode magic ver tag c v = Inr img" "length magic = 8"
  shows "tagged_is_current magic ver tag c v (Some img)"
proof -
  from assms(1) obtain body where b: "bc_encode c v = Some body"
    "img = encode_tagged_image magic ver (fnv1a64 body) tag body"
    by (auto simp: tagged_encode_def ok_or_def split: option.splits)
  have "take tagged_header_len img = encode_tagged_image magic ver (fnv1a64 body) tag []"
    using assms(2) by (simp add: b(2) encode_tagged_image_def encode_image_def tagged_header_len_def blob_header_len_def)
  then show ?thesis
    using assms(2) by (simp add: tagged_is_current_def tagged_fingerprint_def b parse_encode_tagged)
qed

end
