(* ===== verification/Insert_Log.thy ===== *)
theory Insert_Log
  imports Blob
begin

text \<open>
  The insert log of \<open>src/generic/insert_log.rs\<close>: the tagged header, then entries of a kind byte and
  a length-prefixed payload; its torn-tail reader, the version-1 layout it still reads, and the
  rewrite of a version-1 log on its next append. A log is the file's bytes, \<open>None\<close> when there is
  no file.
\<close>

section \<open>Format\<close>

definition insl_magic :: "byte list" where
  "insl_magic = map (of_nat \<circ> of_char) ''GENINSL'' @ [0]"

definition log_version :: u32 where "log_version = 2"

definition log_version_1 :: u32 where "log_version_1 = 1"

definition kind_item :: byte where "kind_item = 0"

definition kind_tombstone :: byte where "kind_tombstone = 1"

datatype ('t, 'k) log_entry = Item 't | Tombstone 'k

lemma insl_magic_length [simp]: "length insl_magic = 8"
  by (simp add: insl_magic_def)

section \<open>Reading\<close>

definition on_disk_version :: "byte list option \<Rightarrow> u32 option" where
  "on_disk_version log =
     (case log of None \<Rightarrow> None | Some bytes \<Rightarrow> map_option le_word (get_bytes_at 8 4 bytes))"

text \<open>The walk over the bytes after the header (the code keeps a position into the file).\<close>

function raw_entries :: "u32 \<Rightarrow> byte list \<Rightarrow> (byte \<times> byte list) list" where
  "raw_entries version bs =
     (if version = log_version_1 then
        (case take_frame bs of None \<Rightarrow> [] | Some (p, r) \<Rightarrow> (kind_item, p) # raw_entries version r)
      else
        (case bs of
           [] \<Rightarrow> []
         | kind # bs' \<Rightarrow>
             (case take_frame bs' of None \<Rightarrow> [] | Some (p, r) \<Rightarrow> (kind, p) # raw_entries version r)))"
  by pat_completeness auto
termination
  by (relation "measure (\<lambda>(v, bs). length bs)") (auto dest: take_frame_shrinks)

declare raw_entries.simps [simp del]

definition read_raw :: "byte list \<Rightarrow> byte list option \<Rightarrow> durability_error + (byte \<times> byte list) list" where
  "read_raw tag log =
     (case log of
        None \<Rightarrow> Ok []
      | Some bytes \<Rightarrow>
          (let version = (if on_disk_version log = Some log_version_1 then log_version_1 else log_version) in
           map_err RecordBlobUnreadable
             (and_then (parse_tagged_header bytes insl_magic version tag)
               (\<lambda>_. Ok (raw_entries version (drop tagged_header_len bytes))))))"

fun decode_entries :: "'t bincode \<Rightarrow> 'k bincode \<Rightarrow> nat \<Rightarrow> (byte \<times> byte list) list \<Rightarrow>
    durability_error + ('t, 'k) log_entry list" where
  "decode_entries ct ck n [] = Ok []"
| "decode_entries ct ck n ((kind, payload) # es) =
     and_then
       (if kind = kind_item then
          map_ok Item (ok_or (RecordBlobUnreadable (EntryDoesNotDecode n)) (bc_decode ct payload))
        else if kind = kind_tombstone then
          map_ok Tombstone (ok_or (RecordBlobUnreadable (TombstoneDoesNotDecode n)) (bc_decode ck payload))
        else Err (RecordBlobUnreadable (UnknownEntryKind n kind)))
       (\<lambda>e. map_ok (Cons e) (decode_entries ct ck (Suc n) es))"

definition read_entries :: "'t bincode \<Rightarrow> 'k bincode \<Rightarrow> byte list \<Rightarrow> byte list option \<Rightarrow>
    durability_error + ('t, 'k) log_entry list" where
  "read_entries ct ck tag log = and_then (read_raw tag log) (decode_entries ct ck 0)"

section \<open>Appending\<close>

text \<open>A version-1 log is rewritten whole: the new header, then every complete entry as an item.\<close>

definition upgrade_if_version_1 :: "byte list \<Rightarrow> byte list option \<Rightarrow> durability_error + byte list option" where
  "upgrade_if_version_1 tag log =
     (case log of
        None \<Rightarrow> Ok None
      | Some bytes \<Rightarrow>
          (if on_disk_version log \<noteq> Some log_version_1 then Ok log
           else map_err RecordBlobUnreadable
             (and_then (parse_tagged_header bytes insl_magic log_version_1 tag) (\<lambda>_.
                Ok (Some (encode_tagged_image insl_magic log_version 0 tag [] @
                  concat (map (\<lambda>(_, payload). kind_item # put_frame payload)
                    (raw_entries log_version_1 (drop tagged_header_len bytes)))))))))"

definition append_entry :: "byte list \<Rightarrow> byte \<Rightarrow> byte list \<Rightarrow> byte list option \<Rightarrow> durability_error + byte list" where
  "append_entry tag kind payload log =
     (if 2 ^ 32 \<le> length payload then Err DurIo
      else and_then (upgrade_if_version_1 tag log) (\<lambda>log.
        (let file = (case log of None \<Rightarrow> [] | Some bytes \<Rightarrow> bytes);
             header = (if length file = 0 then encode_tagged_image insl_magic log_version 0 tag [] else [])
         in Ok (file @ header @ kind # put_frame payload))))"

definition append_item :: "'t bincode \<Rightarrow> byte list \<Rightarrow> 't \<Rightarrow> byte list option \<Rightarrow> durability_error + byte list" where
  "append_item ct tag item log =
     and_then (ok_or DurSerde (bc_encode ct item)) (\<lambda>payload. append_entry tag kind_item payload log)"

definition append_tombstone :: "'k bincode \<Rightarrow> byte list \<Rightarrow> 'k \<Rightarrow> byte list option \<Rightarrow> durability_error + byte list" where
  "append_tombstone ck tag key log =
     and_then (ok_or DurSerde (bc_encode ck key)) (\<lambda>payload. append_entry tag kind_tombstone payload log)"

text \<open>\<open>clear\<close> removes the file; an absent one is not an error.\<close>

definition log_clear :: "byte list option \<Rightarrow> byte list option" where
  "log_clear log = None"

section \<open>Images of entry lists\<close>

definition entry_payload :: "'t bincode \<Rightarrow> 'k bincode \<Rightarrow> ('t, 'k) log_entry \<Rightarrow> byte list option" where
  "entry_payload ct ck e = (case e of Item t \<Rightarrow> bc_encode ct t | Tombstone k \<Rightarrow> bc_encode ck k)"

definition entry_kind :: "('t, 'k) log_entry \<Rightarrow> byte" where
  "entry_kind e = (case e of Item t \<Rightarrow> kind_item | Tombstone k \<Rightarrow> kind_tombstone)"

definition entry_bytes :: "'t bincode \<Rightarrow> 'k bincode \<Rightarrow> ('t, 'k) log_entry \<Rightarrow> byte list" where
  "entry_bytes ct ck e = entry_kind e # put_frame (the (entry_payload ct ck e))"

definition entry_ok :: "'t bincode \<Rightarrow> 'k bincode \<Rightarrow> ('t, 'k) log_entry \<Rightarrow> bool" where
  "entry_ok ct ck e \<longleftrightarrow> (\<exists>p. entry_payload ct ck e = Some p \<and> length p < 2 ^ 32)"

text \<open>A log holding \<open>es\<close>, oldest first; the empty log is the absent file.\<close>

definition log_of :: "'t bincode \<Rightarrow> 'k bincode \<Rightarrow> byte list \<Rightarrow> ('t, 'k) log_entry list \<Rightarrow> byte list option" where
  "log_of ct ck tag es =
     (if es = [] then None
      else Some (encode_tagged_image insl_magic log_version 0 tag [] @ concat (map (entry_bytes ct ck) es)))"

lemma raw_entries_entry:
  assumes "entry_ok ct ck e"
  shows "raw_entries log_version (entry_bytes ct ck e @ r) =
     (entry_kind e, the (entry_payload ct ck e)) # raw_entries log_version r"
  using assms
  by (subst raw_entries.simps) (auto simp: log_version_def log_version_1_def entry_bytes_def entry_ok_def)

lemma raw_entries_concat:
  "\<forall>e \<in> set es. entry_ok ct ck e \<Longrightarrow>
     raw_entries log_version (concat (map (entry_bytes ct ck) es) @ r) =
     map (\<lambda>e. (entry_kind e, the (entry_payload ct ck e))) es @ raw_entries log_version r"
  by (induction es) (simp_all add: raw_entries_entry)

lemma raw_entries_torn:
  assumes "entry_ok ct ck e" and "k < length (entry_bytes ct ck e)"
  shows "raw_entries log_version (take k (entry_bytes ct ck e)) = []"
proof (cases k)
  case 0
  then show ?thesis by (subst raw_entries.simps) (simp add: log_version_def log_version_1_def)
next
  case (Suc j)
  let ?p = "the (entry_payload ct ck e)"
  have "take_frame (take j (put_frame ?p)) = None"
    using assms Suc by (intro take_frame_torn) (auto simp: entry_ok_def entry_bytes_def)
  then show ?thesis
    by (subst raw_entries.simps) (simp add: log_version_def log_version_1_def Suc entry_bytes_def)
qed

lemma decode_entries_encoded:
  assumes "bincode_roundtrip ct" "bincode_roundtrip ck" "\<forall>e \<in> set es. entry_ok ct ck e"
  shows "decode_entries ct ck n (map (\<lambda>e. (entry_kind e, the (entry_payload ct ck e))) es) = Ok es"
  using assms(3)
proof (induction es arbitrary: n)
  case (Cons e es)
  then obtain p where "entry_payload ct ck e = Some p" by (auto simp: entry_ok_def)
  with Cons assms(1,2) show ?case
    by (cases e) (auto simp: entry_kind_def entry_payload_def kind_item_def kind_tombstone_def bincode_roundtripD)
qed simp

lemma version_of_tagged:
  "on_disk_version (Some (encode_tagged_image insl_magic v f tag body @ r)) = Some v"
proof -
  have "bytes_at 8 4 (encode_tagged_image insl_magic v f tag body @ r) = le_bytes 4 v"
    using bytes_at_8_4 [of insl_magic v] by (simp add: encode_tagged_image_def encode_image_def)
  moreover have "8 + 4 \<le> length (encode_tagged_image insl_magic v f tag body @ r)"
    by (simp add: tagged_header_len_def blob_header_len_def)
  ultimately show ?thesis
    by (simp add: on_disk_version_def get_bytes_at_def le_word_le_bytes_full)
qed

lemma encode_tagged_append:
  "encode_tagged_image m v f tag [] @ body = encode_tagged_image m v f tag body"
  by (simp add: encode_tagged_image_def)

lemma read_raw_image:
  "read_raw tag (Some (encode_tagged_image insl_magic log_version f tag [] @ body)) = Ok (raw_entries log_version body)"
proof -
  have v: "on_disk_version (Some (encode_tagged_image insl_magic log_version f tag body)) \<noteq> Some log_version_1"
    using version_of_tagged [of log_version f tag body "[]"] by (simp add: log_version_def log_version_1_def)
  then show ?thesis
    unfolding encode_tagged_append read_raw_def
    by (simp add: parse_encode_tagged drop_tagged_image Let_def)
qed

text \<open>Reading an image gives back its entries, whatever torn entry follows them.\<close>

lemma read_entries_log_of:
  assumes "bincode_roundtrip ct" "bincode_roundtrip ck" "\<forall>e \<in> set es. entry_ok ct ck e"
  shows "read_entries ct ck tag (log_of ct ck tag es) = Ok es"
proof (cases "es = []")
  case True
  then show ?thesis by (simp add: read_entries_def read_raw_def log_of_def)
next
  case False
  have "raw_entries log_version [] = []"
    by (subst raw_entries.simps) (simp add: log_version_def log_version_1_def)
  then show ?thesis
    using False raw_entries_concat [OF assms(3), of "[]"] decode_entries_encoded [OF assms]
    by (simp add: read_entries_def log_of_def read_raw_image)
qed

lemma read_entries_torn:
  assumes "bincode_roundtrip ct" "bincode_roundtrip ck" "\<forall>e \<in> set es. entry_ok ct ck e"
    and "entry_ok ct ck e" "k < length (entry_bytes ct ck e)"
  shows "read_entries ct ck tag (Some (encode_tagged_image insl_magic log_version 0 tag [] @
     concat (map (entry_bytes ct ck) es) @ take k (entry_bytes ct ck e))) = Ok es"
  using raw_entries_concat [OF assms(3), of "take k (entry_bytes ct ck e)"]
    raw_entries_torn [OF assms(4,5)] decode_entries_encoded [OF assms(1-3)]
  by (simp add: read_entries_def read_raw_image)

lemma upgrade_log_of [simp]: "upgrade_if_version_1 tag (log_of ct ck tag es) = Ok (log_of ct ck tag es)"
  using version_of_tagged [of log_version 0 tag "[]" "concat (map (entry_bytes ct ck) es)"]
  by (simp add: upgrade_if_version_1_def log_of_def log_version_def log_version_1_def)

lemma append_entry_log_of:
  assumes "entry_ok ct ck e"
  shows "append_entry tag (entry_kind e) (the (entry_payload ct ck e)) (log_of ct ck tag es) =
     Ok (the (log_of ct ck tag (es @ [e])))"
proof -
  have "\<not> 2 ^ 32 \<le> length (the (entry_payload ct ck e))"
    using assms by (auto simp: entry_ok_def)
  moreover have "length (encode_tagged_image insl_magic log_version 0 tag [] @ concat (map (entry_bytes ct ck) es)) \<noteq> 0"
    by (simp add: tagged_header_len_def blob_header_len_def)
  ultimately show ?thesis
    unfolding append_entry_def upgrade_log_of
    by (cases "es = []") (simp_all add: log_of_def Let_def entry_bytes_def)
qed

lemma append_item_log_of:
  assumes "entry_ok ct ck (Item t)"
  shows "append_item ct tag t (log_of ct ck tag es) = Ok (the (log_of ct ck tag (es @ [Item t])))"
proof -
  from assms obtain p where "bc_encode ct t = Some p" by (auto simp: entry_ok_def entry_payload_def)
  then show ?thesis
    using append_entry_log_of [OF assms, of tag es] by (simp add: append_item_def entry_payload_def entry_kind_def)
qed

lemma append_tombstone_log_of:
  assumes "entry_ok ct ck (Tombstone key)"
  shows "append_tombstone ck tag key (log_of ct ck tag es) = Ok (the (log_of ct ck tag (es @ [Tombstone key])))"
proof -
  from assms obtain p where "bc_encode ck key = Some p" by (auto simp: entry_ok_def entry_payload_def)
  then show ?thesis
    using append_entry_log_of [OF assms, of tag es] by (simp add: append_tombstone_def entry_payload_def entry_kind_def)
qed

lemma log_of_Some: "es \<noteq> [] \<Longrightarrow> Some (the (log_of ct ck tag es)) = log_of ct ck tag es"
  by (simp add: log_of_def)

section \<open>Version 1\<close>

definition v1_image :: "byte list \<Rightarrow> byte list list \<Rightarrow> byte list" where
  "v1_image tag payloads =
     encode_tagged_image insl_magic log_version_1 0 tag [] @ concat (map put_frame payloads)"

lemma raw_entries_v1:
  "\<forall>p \<in> set ps. length p < 2 ^ 32 \<Longrightarrow>
     raw_entries log_version_1 (concat (map put_frame ps) @ r) =
     map (Pair kind_item) ps @ raw_entries log_version_1 r"
proof (induction ps)
  case (Cons p ps)
  have "raw_entries log_version_1 (put_frame p @ concat (map put_frame ps) @ r) =
      (kind_item, p) # raw_entries log_version_1 (concat (map put_frame ps) @ r)"
    using Cons.prems by (subst raw_entries.simps) simp
  with Cons show ?case by simp
qed simp

lemma raw_entries_v1_nil: "raw_entries log_version_1 [] = []"
  by (subst raw_entries.simps) (simp add: take_frame_def)

lemma read_raw_v1:
  assumes "\<forall>p \<in> set ps. length p < 2 ^ 32"
  shows "read_raw tag (Some (v1_image tag ps)) = Ok (map (Pair kind_item) ps)"
proof -
  have v: "on_disk_version (Some (encode_tagged_image insl_magic log_version_1 0 tag body)) = Some log_version_1" for body
    using version_of_tagged [of log_version_1 0 tag body "[]"] by simp
  show ?thesis
    using raw_entries_v1 [OF assms, of "[]"]
    unfolding read_raw_def v1_image_def encode_tagged_append
    by (simp add: v parse_encode_tagged drop_tagged_image Let_def raw_entries_v1_nil)
qed

lemma upgrade_v1:
  assumes "\<forall>p \<in> set ps. length p < 2 ^ 32"
  shows "upgrade_if_version_1 tag (Some (v1_image tag ps)) =
     Ok (Some (encode_tagged_image insl_magic log_version 0 tag [] @ concat (map (\<lambda>p. kind_item # put_frame p) ps)))"
proof -
  have v: "on_disk_version (Some (encode_tagged_image insl_magic log_version_1 0 tag body)) = Some log_version_1" for body
    using version_of_tagged [of log_version_1 0 tag body "[]"] by simp
  show ?thesis
    using raw_entries_v1 [OF assms, of "[]"]
    unfolding upgrade_if_version_1_def v1_image_def encode_tagged_append
    by (simp add: v parse_encode_tagged drop_tagged_image raw_entries_v1_nil comp_def)
qed

text \<open>A log cut off inside its header cannot be read at all.\<close>

lemma read_entries_short:
  assumes "length bs < blob_header_len"
  shows "read_entries ct ck tag (Some bs) = Err (RecordBlobUnreadable NotABlob)"
proof -
  have "parse_tagged_header bs insl_magic v tag = Err NotABlob" for v
    using assms by (simp add: parse_tagged_header_def parse_header_def)
  then show ?thesis by (simp add: read_entries_def read_raw_def Let_def)
qed

end
