(* ===== verification/Slot_File.thy ===== *)
theory Slot_File
  imports Blob
begin

text \<open>
  The memory-mapped slot file of \<open>src/generic/slot_file.rs\<close>: a 12-byte header and then slots of
  id bytes, value bytes and a commit marker. The mapping is the file's bytes (a shared mapping
  writes through to the file). Indexed reads and writes of the code panic out of range; the
  lemmas here are about positions below \<open>slot_count\<close>, and \<open>Mmap_Store\<close> shows that every
  position it uses is one.

  The lemmas say that each byte-level operation is the obvious operation on the list of slots
  the image encodes (\<open>slot_image\<close>), and that every well-formed file is such an image.
\<close>

section \<open>Layout\<close>

definition slot_magic :: "byte list" where
  "slot_magic = map (of_nat \<circ> of_char) ''GMMAPST'' @ [0]"

definition slot_schema_version :: u32 where "slot_schema_version = 2"

definition slot_header_len :: nat where "slot_header_len = 8 + 4"

definition committed_marker :: byte where "committed_marker = 1"

definition slot_width :: "'key field_codec \<Rightarrow> 'v field_codec \<Rightarrow> nat" where
  "slot_width ci cv = byte_width ci + byte_width cv + 1"

definition slot_offset :: "'key field_codec \<Rightarrow> 'v field_codec \<Rightarrow> nat \<Rightarrow> nat" where
  "slot_offset ci cv pos = slot_header_len + pos * slot_width ci cv"

section \<open>Operations\<close>

definition read_value :: "'key field_codec \<Rightarrow> 'v field_codec \<Rightarrow> byte list \<Rightarrow> nat \<Rightarrow> 'v" where
  "read_value ci cv mmap pos =
     read_le cv (bytes_at (slot_offset ci cv pos + byte_width ci) (byte_width cv) mmap)"

definition write_value :: "'key field_codec \<Rightarrow> 'v field_codec \<Rightarrow> byte list \<Rightarrow> nat \<Rightarrow> 'v \<Rightarrow> byte list" where
  "write_value ci cv mmap pos value =
     splice (slot_offset ci cv pos + byte_width ci) (write_le cv value) mmap"

definition slot_count :: "'key field_codec \<Rightarrow> 'v field_codec \<Rightarrow> byte list \<Rightarrow> nat" where
  "slot_count ci cv mmap = (length mmap - slot_header_len) div slot_width ci cv"

definition trailing_partial_bytes :: "'key field_codec \<Rightarrow> 'v field_codec \<Rightarrow> byte list \<Rightarrow> nat" where
  "trailing_partial_bytes ci cv mmap = (length mmap - slot_header_len) mod slot_width ci cv"

definition is_gapless :: "'key field_codec \<Rightarrow> 'v field_codec \<Rightarrow> byte list \<Rightarrow> nat \<Rightarrow> bool" where
  "is_gapless ci cv mmap live_count \<longleftrightarrow> live_count * slot_width ci cv = length mmap - slot_header_len"

definition write_slot_into :: "'key field_codec \<Rightarrow> 'v field_codec \<Rightarrow> byte list \<Rightarrow> nat \<Rightarrow> 'key \<Rightarrow> 'v \<Rightarrow> byte list" where
  "write_slot_into ci cv mmap pos key value =
     (let start = slot_offset ci cv pos;
          mmap = splice start (write_le ci key) mmap;
          mmap = splice (start + byte_width ci) (write_le cv value) mmap
      in splice (start + byte_width ci + byte_width cv) [committed_marker] mmap)"

definition clear_marker :: "'key field_codec \<Rightarrow> 'v field_codec \<Rightarrow> byte list \<Rightarrow> nat \<Rightarrow> byte list" where
  "clear_marker ci cv mmap pos =
     splice (slot_offset ci cv pos + byte_width ci + byte_width cv) [0] mmap"

definition is_committed :: "'key field_codec \<Rightarrow> 'v field_codec \<Rightarrow> byte list \<Rightarrow> nat \<Rightarrow> bool" where
  "is_committed ci cv mmap pos \<longleftrightarrow>
     bytes_at (slot_offset ci cv pos + byte_width ci + byte_width cv) 1 mmap = [committed_marker]"

text \<open>One \<open>write_all\<close> of a whole slot at the end of the file; its position is read off the end offset.\<close>

definition append_committed_slot :: "'key field_codec \<Rightarrow> 'v field_codec \<Rightarrow> byte list \<Rightarrow> 'key \<Rightarrow> 'v \<Rightarrow> byte list \<times> nat" where
  "append_committed_slot ci cv file key value =
     (let file = file @ write_le ci key @ write_le cv value @ [committed_marker]
      in (file, (length file - slot_header_len) div slot_width ci cv - 1))"

fun append_committed_slots :: "'key field_codec \<Rightarrow> 'v field_codec \<Rightarrow> byte list \<Rightarrow> ('key \<times> 'v) list \<Rightarrow> byte list \<times> nat list" where
  "append_committed_slots ci cv file [] = (file, [])"
| "append_committed_slots ci cv file ((key, value) # slots) =
     (let (file, pos) = append_committed_slot ci cv file key value;
          (file, positions) = append_committed_slots ci cv file slots
      in (file, pos # positions))"

definition write_header :: "byte list \<Rightarrow> byte list" where
  "write_header mmap = splice 8 (le_bytes 4 slot_schema_version) (splice 0 slot_magic mmap)"

definition read_header :: "byte list \<Rightarrow> durability_error + unit" where
  "read_header mmap =
     (if length mmap < slot_header_len \<or> bytes_at 0 8 mmap \<noteq> slot_magic then Err InvalidMagic
      else (let found = le_word (bytes_at 8 4 mmap) in
        if found \<noteq> slot_schema_version then Err (SchemaVersionMismatch found slot_schema_version)
        else Ok ()))"

definition slot_create :: "'key field_codec \<Rightarrow> 'v field_codec \<Rightarrow> ('key \<times> 'v) list \<Rightarrow> byte list" where
  "slot_create ci cv slots =
     foldl (\<lambda>mmap (pos, (key, value)). write_slot_into ci cv mmap pos key value)
       (write_header (replicate (slot_header_len + length slots * slot_width ci cv) 0))
       (enumerate 0 slots)"

text \<open>\<open>rewrite\<close> builds the new image in a temporary file and renames it over the old one.\<close>

definition slot_rewrite :: "'key field_codec \<Rightarrow> 'v field_codec \<Rightarrow> byte list \<Rightarrow> ('key \<times> 'v) list \<Rightarrow> byte list" where
  "slot_rewrite ci cv mmap slots = slot_create ci cv slots"

definition slot_open :: "byte list \<Rightarrow> durability_error + byte list" where
  "slot_open file = and_then (read_header file) (\<lambda>_. Ok file)"

definition committed_pairs :: "'key field_codec \<Rightarrow> 'v field_codec \<Rightarrow> byte list \<Rightarrow> ('key \<rightharpoonup> nat \<times> 'v)" where
  "committed_pairs ci cv mmap =
     foldl (\<lambda>persisted pos.
        if \<not> is_committed ci cv mmap pos then persisted
        else (let start = slot_offset ci cv pos;
                  key = read_le ci (bytes_at start (byte_width ci) mmap);
                  value = read_le cv (bytes_at (start + byte_width ci) (byte_width cv) mmap)
              in persisted(key \<mapsto> (pos, value))))
       Map.empty [0..<slot_count ci cv mmap]"

section \<open>Images of slot lists\<close>

type_synonym ('key, 'v) slot = "'key \<times> 'v \<times> byte"

definition slot_chunk :: "'key field_codec \<Rightarrow> 'v field_codec \<Rightarrow> ('key, 'v) slot \<Rightarrow> byte list" where
  "slot_chunk ci cv s = (case s of (i, v, m) \<Rightarrow> write_le ci i @ write_le cv v @ [m])"

definition slot_file_header :: "byte list" where
  "slot_file_header = slot_magic @ le_bytes 4 slot_schema_version"

definition slot_image :: "'key field_codec \<Rightarrow> 'v field_codec \<Rightarrow> ('key, 'v) slot list \<Rightarrow> byte list" where
  "slot_image ci cv ss = slot_file_header @ concat (map (slot_chunk ci cv) ss)"

text \<open>The committed slots with their positions.\<close>

fun live_slots :: "nat \<Rightarrow> ('id, 'v) slot list \<Rightarrow> ('id \<times> nat \<times> 'v) list" where
  "live_slots n [] = []"
| "live_slots n ((i, v, m) # ss) = (if m = committed_marker then [(i, n, v)] else []) @ live_slots (Suc n) ss"

lemma live_slots_append: "live_slots n (ss @ ss') = live_slots n ss @ live_slots (n + length ss) ss'"
  by (induction n ss rule: live_slots.induct) simp_all

lemma set_live_slots:
  "(i, p, v) \<in> set (live_slots n ss) \<longleftrightarrow> n \<le> p \<and> p - n < length ss \<and> ss ! (p - n) = (i, v, committed_marker)"
proof (induction n ss rule: live_slots.induct)
  case (2 n j w m ss)
  then show ?case by (cases "p = n") (auto simp: nth_Cons' Suc_diff_Suc)
qed simp

lemma length_slot_file_header: "length slot_file_header = slot_header_len"
  by (simp add: slot_file_header_def slot_magic_def slot_header_len_def)

lemma read_header_image [simp]: "read_header (slot_file_header @ r) = Ok ()"
proof -
  have "bytes_at 0 8 (slot_file_header @ r) = slot_magic"
    by (simp add: bytes_at_def slot_file_header_def slot_magic_def)
  moreover have "bytes_at 8 4 (slot_file_header @ r) = le_bytes 4 slot_schema_version"
    by (simp add: bytes_at_def slot_file_header_def slot_magic_def)
  ultimately show ?thesis
    by (simp add: read_header_def length_slot_file_header le_word_le_bytes_full)
qed

lemma read_header_OkD:
  assumes "read_header mmap = Ok u"
  shows "take slot_header_len mmap = slot_file_header" "slot_header_len \<le> length mmap"
proof -
  from assms have len: "12 \<le> length mmap" and m: "take 8 mmap = slot_magic"
    and v: "le_word (bytes_at 8 4 mmap) = slot_schema_version"
    by (auto simp: read_header_def slot_header_len_def bytes_at_def Let_def split: if_splits)
  have "bytes_at 8 4 mmap = le_bytes 4 slot_schema_version"
    using le_bytes_le_word [of "bytes_at 8 4 mmap", where 'a = 32] len v by simp
  moreover have "take 12 mmap = take 8 mmap @ bytes_at 8 4 mmap"
    using take_add [of 8 4 mmap] by (simp add: bytes_at_def)
  ultimately show "take slot_header_len mmap = slot_file_header"
    by (simp add: slot_header_len_def slot_file_header_def m)
  show "slot_header_len \<le> length mmap" using len by (simp add: slot_header_len_def)
qed

locale slot_codecs = idc: mmap_field_value ci + valc: mmap_field_value cv
  for ci :: "'key field_codec" and cv :: "'v field_codec"
begin

lemma chunk_width [simp]: "length (slot_chunk ci cv s) = slot_width ci cv"
  by (simp add: slot_chunk_def slot_width_def idc.write_width valc.write_width split: prod.split)

lemma chunks_uniform: "\<forall>c \<in> set (map (slot_chunk ci cv) ss). length c = slot_width ci cv"
  by simp

lemma width_gt_0: "0 < slot_width ci cv"
  by (simp add: slot_width_def)

lemma length_image: "length (slot_image ci cv ss) = slot_header_len + length ss * slot_width ci cv"
  using length_concat_chunks [OF chunks_uniform, of ss]
  by (simp add: slot_image_def length_slot_file_header)

lemma count_image [simp]: "slot_count ci cv (slot_image ci cv ss) = length ss"
  using width_gt_0 by (simp add: slot_count_def length_image)

lemma partial_image [simp]: "trailing_partial_bytes ci cv (slot_image ci cv ss) = 0"
  by (simp add: trailing_partial_bytes_def length_image)

lemma gapless_image [simp]: "is_gapless ci cv (slot_image ci cv ss) n \<longleftrightarrow> n = length ss"
  using width_gt_0 by (simp add: is_gapless_def length_image)

lemma image_field:
  assumes "p < length ss" "k + n \<le> slot_width ci cv"
  shows "bytes_at (slot_offset ci cv p + k) n (slot_image ci cv ss) = bytes_at k n (slot_chunk ci cv (ss ! p))"
proof -
  have "bytes_at (slot_offset ci cv p + k) n (slot_image ci cv ss) =
      bytes_at (p * slot_width ci cv + k) n (concat (map (slot_chunk ci cv) ss))"
    unfolding slot_image_def slot_offset_def length_slot_file_header [symmetric] add.assoc
    by (rule bytes_at_skip)
  then show ?thesis using bytes_at_concat [OF chunks_uniform, of p ss k n] assms by simp
qed

lemma image_splice:
  assumes "p < length ss" "k + length src \<le> slot_width ci cv"
    and "splice k src (slot_chunk ci cv (ss ! p)) = slot_chunk ci cv s"
  shows "splice (slot_offset ci cv p + k) src (slot_image ci cv ss) = slot_image ci cv (ss[p := s])"
proof -
  have "splice (slot_offset ci cv p + k) src (slot_image ci cv ss) =
      slot_file_header @ splice (p * slot_width ci cv + k) src (concat (map (slot_chunk ci cv) ss))"
    unfolding slot_image_def slot_offset_def length_slot_file_header [symmetric] add.assoc
    by (rule splice_skip)
  then show ?thesis
    using splice_concat [OF chunks_uniform, of p ss k src] assms by (simp add: slot_image_def map_update)
qed

lemma read_value_image [simp]:
  "p < length ss \<Longrightarrow> read_value ci cv (slot_image ci cv ss) p = fst (snd (ss ! p))"
  unfolding read_value_def
  by (subst image_field)
    (simp_all add: slot_width_def slot_chunk_def bytes_at_def idc.write_width valc.write_width
      valc.read_write split: prod.split)

lemma read_id_image [simp]:
  assumes "p < length ss"
  shows "read_le ci (bytes_at (slot_offset ci cv p) (byte_width ci) (slot_image ci cv ss)) = fst (ss ! p)"
  using image_field [OF assms, of 0 "byte_width ci"]
  by (simp add: slot_width_def slot_chunk_def bytes_at_def idc.write_width idc.read_write split: prod.split)

lemma committed_image [simp]:
  "p < length ss \<Longrightarrow> is_committed ci cv (slot_image ci cv ss) p \<longleftrightarrow> snd (snd (ss ! p)) = committed_marker"
  unfolding is_committed_def add.assoc
  by (subst image_field)
    (simp_all add: slot_width_def slot_chunk_def bytes_at_def idc.write_width valc.write_width split: prod.split)

lemma write_value_image:
  assumes "p < length ss" "ss ! p = (i, w, m)"
  shows "write_value ci cv (slot_image ci cv ss) p v = slot_image ci cv (ss[p := (i, v, m)])"
  unfolding write_value_def using assms
  by (intro image_splice)
    (simp_all add: slot_width_def slot_chunk_def splice_def idc.write_width valc.write_width)

lemma clear_marker_image:
  assumes "p < length ss" "ss ! p = (i, v, m)"
  shows "clear_marker ci cv (slot_image ci cv ss) p = slot_image ci cv (ss[p := (i, v, 0)])"
  unfolding clear_marker_def add.assoc using assms
  by (intro image_splice)
    (simp_all add: slot_width_def slot_chunk_def splice_def idc.write_width valc.write_width)

lemma append_image:
  "append_committed_slots ci cv (slot_image ci cv ss) kvs =
     (slot_image ci cv (ss @ map (\<lambda>(i, v). (i, v, committed_marker)) kvs), [length ss..<length ss + length kvs])"
proof (induction kvs arbitrary: ss)
  case (Cons kv kvs)
  obtain i v where kv: "kv = (i, v)" by (cases kv)
  let ?s = "ss @ [(i, v, committed_marker)]"
  have im: "slot_image ci cv ss @ write_le ci i @ write_le cv v @ [committed_marker] = slot_image ci cv ?s"
    by (simp add: slot_image_def slot_chunk_def)
  have "append_committed_slot ci cv (slot_image ci cv ss) i v = (slot_image ci cv ?s, length ss)"
    unfolding append_committed_slot_def Let_def im
    using width_gt_0 by (simp add: length_image)
  with Cons [of ?s] show ?case by (simp add: kv upt_rec)
qed simp

text \<open>The whole-slot write of \<open>create\<close>, on any bytes of the right length.\<close>

lemma create_loop:
  assumes "mmap = slot_file_header @ concat (map (slot_chunk ci cv) (map (\<lambda>(i, v). (i, v, committed_marker)) done)) @
      replicate (length todo * slot_width ci cv) 0"
  shows "foldl (\<lambda>mmap (pos, (key, value)). write_slot_into ci cv mmap pos key value) mmap
      (enumerate (length done) todo) =
    slot_image ci cv (map (\<lambda>(i, v). (i, v, committed_marker)) (done @ todo))"
  using assms
proof (induction todo arbitrary: mmap "done")
  case Nil
  then show ?case by (simp add: slot_image_def)
next
  case (Cons kv todo)
  obtain i v where kv: "kv = (i, v)" by (cases kv)
  let ?pre = "slot_file_header @ concat (map (slot_chunk ci cv) (map (\<lambda>(i, v). (i, v, committed_marker)) done))"
  let ?w = "slot_width ci cv"
  let ?zeros = "replicate ?w (0 :: byte)" and ?rest = "replicate (length todo * ?w) (0 :: byte)"
  have m: "mmap = ?pre @ ?zeros @ ?rest"
    using Cons.prems by (simp add: replicate_add)
  have off: "slot_offset ci cv (length done) = length ?pre"
    using length_concat_chunks [OF chunks_uniform, of "map (\<lambda>(i, v). (i, v, committed_marker)) done"]
    by (simp add: slot_offset_def length_slot_file_header)
  have "write_slot_into ci cv mmap (length done) i v = ?pre @ slot_chunk ci cv (i, v, committed_marker) @ ?rest"
    using splice_skip [of ?pre 0 "write_le ci i"]
    unfolding write_slot_into_def Let_def off m
    by (simp only: add.assoc splice_skip append.assoc [symmetric] flip: append.assoc)
      (simp add: splice_def slot_chunk_def slot_width_def idc.write_width valc.write_width)
  with Cons.IH [of _ "done @ [(i, v)]"] show ?case
    by (simp add: kv)
qed

lemma create_image:
  "slot_create ci cv kvs = slot_image ci cv (map (\<lambda>(i, v). (i, v, committed_marker)) kvs)"
proof -
  have "write_header (replicate (slot_header_len + length kvs * slot_width ci cv) 0) =
      slot_file_header @ replicate (length kvs * slot_width ci cv) 0"
    by (simp add: write_header_def splice_def slot_file_header_def slot_magic_def slot_header_len_def)
  with create_loop [of _ "[]" kvs] show ?thesis
    by (simp add: slot_create_def)
qed

lemma committed_pairs_image:
  "committed_pairs ci cv (slot_image ci cv ss) =
     map_of (rev (live_slots 0 ss))"
proof -
  let ?f = "\<lambda>persisted (p, i, v, m). if m = committed_marker then persisted(i \<mapsto> (p, v)) else persisted"
  have "foldl (\<lambda>persisted pos.
        if \<not> is_committed ci cv (slot_image ci cv ss) pos then persisted
        else (let start = slot_offset ci cv pos;
                  key = read_le ci (bytes_at start (byte_width ci) (slot_image ci cv ss));
                  value = read_le cv (bytes_at (start + byte_width ci) (byte_width cv) (slot_image ci cv ss))
              in persisted(key \<mapsto> (pos, value))))
       Map.empty [0..<n] = foldl ?f Map.empty (enumerate 0 (take n ss))" if "n \<le> length ss" for n
    using that
  proof (induction n)
    case (Suc n)
    then have "take (Suc n) ss = take n ss @ [ss ! n]" by (simp add: take_Suc_conv_app_nth)
    moreover have "read_le cv (bytes_at (slot_offset ci cv n + byte_width ci) (byte_width cv) (slot_image ci cv ss)) =
        fst (snd (ss ! n))"
      using read_value_image [of n ss] Suc.prems by (simp add: read_value_def)
    ultimately show ?case
      using Suc by (cases "ss ! n") (auto simp: enumerate_append_eq Let_def)
  qed simp
  from this [of "length ss"] have "committed_pairs ci cv (slot_image ci cv ss) = foldl ?f Map.empty (enumerate 0 ss)"
    by (simp add: committed_pairs_def)
  also have "\<dots> = map_of (rev (live_slots 0 ss))"
    by (induction ss rule: rev_induct) (auto simp: enumerate_append_eq live_slots_append)
  finally show ?thesis .
qed

text \<open>Every file with a good header and no partial slot is the image of its slots.\<close>

lemma image_exists:
  assumes "read_header mmap = Ok u" "trailing_partial_bytes ci cv mmap = 0"
  obtains ss where "mmap = slot_image ci cv ss"
proof -
  let ?w = "slot_width ci cv" and ?body = "drop slot_header_len mmap"
  note h = read_header_OkD [OF assms(1)]
  have len: "length ?body = (length ?body div ?w) * ?w"
    using assms(2) by (simp add: trailing_partial_bytes_def) (metis add.right_neutral div_mult_mod_eq)
  from chunks_props [OF len] obtain cs where cs: "concat cs = ?body" "\<forall>c \<in> set cs. length c = ?w" by blast
  let ?dec = "\<lambda>c. (read_le ci (take (byte_width ci) c),
      read_le cv (take (byte_width cv) (drop (byte_width ci) c)), last c)"
  have dec: "slot_chunk ci cv (?dec c) = c" if "length c = ?w" for c
  proof -
    let ?r = "drop (byte_width ci) c"
    have "drop (byte_width cv) ?r = [last c]"
    proof -
      have "c \<noteq> []" using that width_gt_0 by auto
      then have "drop (length c - 1) c = [last c]"
        by (metis append_butlast_last_id append_eq_conv_conj length_butlast)
      then show ?thesis using that by (simp add: slot_width_def add.commute)
    qed
    then have "c = take (byte_width ci) c @ take (byte_width cv) ?r @ [last c]"
      by (metis append_take_drop_id)
    then show ?thesis
      using that by (simp add: slot_chunk_def idc.write_read valc.write_read slot_width_def)
  qed
  have "map (\<lambda>c. slot_chunk ci cv (?dec c)) cs = cs"
    using cs(2) by (intro map_idI) (rule dec, blast)
  then have "map (slot_chunk ci cv) (map ?dec cs) = cs"
    unfolding list.map_comp comp_def .
  then have "slot_image ci cv (map ?dec cs) = slot_file_header @ ?body"
    unfolding slot_image_def using cs(1) by (simp only:)
  also have "\<dots> = mmap" using h(1) by (metis append_take_drop_id)
  finally show ?thesis by (rule that [OF sym])
qed

end

text \<open>The slot files the program opens: \<open>Uuid\<close> keys with a \<open>u32\<close> or an \<open>i64\<close> value.\<close>

interpretation uuid_u32: slot_codecs uuid_field u32_field ..

interpretation uuid_i64: slot_codecs uuid_field i64_field ..

lemma codec_lawful_locale: "codec_lawful c \<Longrightarrow> mmap_field_value c"
  by unfold_locales (auto simp: codec_lawful_def)

lemma slot_codecs_lawful: "codec_lawful ci \<Longrightarrow> codec_lawful cv \<Longrightarrow> slot_codecs ci cv"
  by (simp add: slot_codecs_def codec_lawful_locale)

end
