(* ===== verification/Record_Env.thy ===== *)
theory Record_Env
  imports Insert_Log Slot_File
begin

text \<open>
  The traits of \<open>src/generic/traits.rs\<close> and \<open>SchemaTag\<close> as the record \<open>store_env\<close> of their items
  (the generic code is modelled by passing it), the laws the stores rely on as the locale
  \<open>record_laws\<close>, the error types of \<open>src/generic/mod.rs\<close>, and the record types that implement the
  traits: \<open>Reminder\<close> (\<open>src/generic/reminder.rs\<close>) and \<open>Order\<close> (\<open>src/generic/order_customer.rs\<close>).
\<close>

section \<open>Errors and reports\<close>

datatype 'id not_found = NotFound 'id

datatype 'id insert_error = InsDuplicate 'id | InsDurability durability_error

datatype 'id replace_error = RepNotFound 'id | RepDurability durability_error

datatype 'id delete_error = DelNotFound 'id | DelDurability durability_error

record compaction_report =
  cr_records :: nat
  cr_slots_reclaimed :: nat
  cr_log_entries_folded :: nat
  cr_edge_logs_folded :: nat

definition absorb :: "compaction_report \<Rightarrow> compaction_report \<Rightarrow> compaction_report" where
  "absorb a b = \<lparr>cr_records = cr_records a + cr_records b,
     cr_slots_reclaimed = cr_slots_reclaimed a + cr_slots_reclaimed b,
     cr_log_entries_folded = cr_log_entries_folded a + cr_log_entries_folded b,
     cr_edge_logs_folded = cr_edge_logs_folded a + cr_edge_logs_folded b\<rparr>"

section \<open>Traits\<close>

text \<open>\<open>set_scannable_value\<close> is \<open>None\<close> where the impl panics on a value out of its domain.\<close>

record ('id, 'iv, 'sv, 'r) store_env =
  rid :: "'r \<Rightarrow> 'id"
  indexed_value :: "'r \<Rightarrow> 'iv"
  scannable_value :: "'r \<Rightarrow> 'sv"
  set_scannable_value :: "'r \<Rightarrow> 'sv \<Rightarrow> 'r option"
  id_field :: "'id field_codec"
  val_field :: "'sv field_codec"
  rec_codec :: "'r bincode"
  recs_codec :: "'r list bincode"
  key_codec :: "'id bincode"
  schema_tag :: "byte list"

locale record_laws =
  fixes E :: "('id, 'iv, 'sv, 'r) store_env"
  assumes set_frame: "set_scannable_value E r v = Some r' \<Longrightarrow>
      rid E r' = rid E r \<and> indexed_value E r' = indexed_value E r \<and> scannable_value E r' = v"
    and set_same: "set_scannable_value E r (scannable_value E r) = Some r"
    and set_set: "set_scannable_value E r v = Some r' \<Longrightarrow> set_scannable_value E r' w = set_scannable_value E r w"
    and set_domain: "set_scannable_value E r v = None \<longleftrightarrow> set_scannable_value E r0 v = None"
begin

text \<open>A value some record can hold.\<close>

definition valid_value :: "'sv \<Rightarrow> bool" where
  "valid_value v \<longleftrightarrow> (\<forall>r. set_scannable_value E r v \<noteq> None)"

lemma valid_iff: "valid_value v \<longleftrightarrow> set_scannable_value E r v \<noteq> None"
  unfolding valid_value_def by (metis set_domain)

lemma valid_scannable [simp]: "valid_value (scannable_value E r)"
  using valid_iff [of _ r] set_same by simp

lemma valid_set: "valid_value v \<Longrightarrow> \<exists>r'. set_scannable_value E r v = Some r'"
  using valid_iff by blast

end

text \<open>
  What the serialiser has to satisfy for a store: round trips, and an encoding for every id and
  every record list. A single record's encoding has to fit the log's \<open>u32\<close> length prefix; that is
  a hypothesis on the record where it is used.
\<close>

definition serial_ok :: "('id, 'iv, 'sv, 'r) store_env \<Rightarrow> bool" where
  "serial_ok E \<longleftrightarrow> bincode_roundtrip (rec_codec E) \<and> bincode_roundtrip (recs_codec E) \<and>
     bincode_roundtrip (key_codec E) \<and> (\<forall>k. encodes_small (key_codec E) k) \<and>
     (\<forall>rs. bc_encode (recs_codec E) rs \<noteq> None)"

section \<open>\<open>Reminder\<close>\<close>

datatype reminder_status = Pending | Done | Snoozed | Cancelled

definition status_to_u32 :: "reminder_status \<Rightarrow> u32" where
  "status_to_u32 s = (case s of Pending \<Rightarrow> 0 | Done \<Rightarrow> 1 | Snoozed \<Rightarrow> 2 | Cancelled \<Rightarrow> 3)"

definition status_from_u32 :: "u32 \<Rightarrow> reminder_status option" where
  "status_from_u32 v =
     (if v = 0 then Some Pending else if v = 1 then Some Done
      else if v = 2 then Some Snoozed else if v = 3 then Some Cancelled else None)"

record reminder =
  rem_id :: uuid
  title :: "byte list"
  due_at_unix_ms :: i64
  rem_status :: reminder_status

definition reminder_env :: "reminder bincode \<Rightarrow> reminder list bincode \<Rightarrow> uuid bincode \<Rightarrow>
    (uuid, i64, u32, reminder) store_env" where
  "reminder_env c cs ck =
     \<lparr>rid = rem_id, indexed_value = due_at_unix_ms,
      scannable_value = \<lambda>r. status_to_u32 (rem_status r),
      set_scannable_value = \<lambda>r v. map_option (\<lambda>s. r\<lparr>rem_status := s\<rparr>) (status_from_u32 v),
      id_field = uuid_field, val_field = u32_field,
      rec_codec = c, recs_codec = cs, key_codec = ck,
      schema_tag = map (of_nat \<circ> of_char) ''reminder::Reminder''\<rparr>"

lemma status_roundtrip [simp]: "status_from_u32 (status_to_u32 s) = Some s"
  by (cases s) (simp_all add: status_from_u32_def status_to_u32_def)

lemma status_from_Some: "status_from_u32 v = Some s \<Longrightarrow> status_to_u32 s = v"
  by (auto simp: status_from_u32_def status_to_u32_def split: if_splits)

interpretation reminder: record_laws "reminder_env c cs ck"
  by unfold_locales (auto simp: reminder_env_def status_from_Some)

section \<open>\<open>Order\<close>\<close>

datatype order_status = OPending | OShipped | ODelivered | OCancelled | ORefunded

record order =
  ord_id :: uuid
  customer_id :: uuid
  amount_cents :: i64
  ord_status :: order_status
  created_at_unix_ms :: i64
  discount_cents :: i64

definition order_env :: "order bincode \<Rightarrow> order list bincode \<Rightarrow> uuid bincode \<Rightarrow>
    (uuid, order_status, i64, order) store_env" where
  "order_env c cs ck =
     \<lparr>rid = ord_id, indexed_value = ord_status, scannable_value = amount_cents,
      set_scannable_value = \<lambda>r v. Some (r\<lparr>amount_cents := v\<rparr>),
      id_field = uuid_field, val_field = i64_field,
      rec_codec = c, recs_codec = cs, key_codec = ck,
      schema_tag = map (of_nat \<circ> of_char) ''order_customer::Order''\<rparr>"

interpretation order_rec: record_laws "order_env c cs ck"
  by unfold_locales (auto simp: order_env_def)

end
