(* ===== verification/Order_Codec.thy ===== *)
theory Order_Codec
  imports Record_Env
begin

text \<open>
  A fixed-width serialisation of \<open>Order\<close>, to instantiate the codec parameters of the store with
  a concrete one: it satisfies \<open>serial_ok\<close>, so the theorems that assume it can be applied.
\<close>

definition fixed_codec :: "'v field_codec \<Rightarrow> 'v bincode" where
  "fixed_codec c = \<lparr>bc_encode = \<lambda>v. Some (write_le c v),
     bc_decode = \<lambda>bs. if length bs = byte_width c then Some (read_le c bs) else None\<rparr>"

definition fixed_list_codec :: "'v field_codec \<Rightarrow> 'v list bincode" where
  "fixed_list_codec c = \<lparr>bc_encode = \<lambda>vs. Some (concat (map (write_le c) vs)),
     bc_decode = \<lambda>bs. Some (map (read_le c) (chunks (byte_width c) (length bs div byte_width c) bs))\<rparr>"

definition order_status_byte :: "order_status \<Rightarrow> byte" where
  "order_status_byte s =
     (case s of OPending \<Rightarrow> 0 | OShipped \<Rightarrow> 1 | ODelivered \<Rightarrow> 2 | OCancelled \<Rightarrow> 3 | ORefunded \<Rightarrow> 4)"

definition byte_order_status :: "byte \<Rightarrow> order_status" where
  "byte_order_status b = (if b = 0 then OPending else if b = 1 then OShipped
     else if b = 2 then ODelivered else if b = 3 then OCancelled else ORefunded)"

definition order_field :: "order field_codec" where
  "order_field = \<lparr>byte_width = 57,
     write_le = \<lambda>r. le_bytes 16 (ord_id r) @ le_bytes 16 (customer_id r) @ le_bytes 8 (amount_cents r) @
       [order_status_byte (ord_status r)] @ le_bytes 8 (created_at_unix_ms r) @ le_bytes 8 (discount_cents r),
     read_le = \<lambda>bs. \<lparr>ord_id = le_word (take 16 bs), customer_id = le_word (take 16 (drop 16 bs)),
       amount_cents = le_word (take 8 (drop 32 bs)), ord_status = byte_order_status (bs ! 40),
       created_at_unix_ms = le_word (take 8 (drop 41 bs)), discount_cents = le_word (drop 49 bs)\<rparr>\<rparr>"

definition demo_orders :: "(uuid, order_status, i64, order) store_env" where
  "demo_orders = order_env (fixed_codec order_field) (fixed_list_codec order_field) (fixed_codec uuid_field)"

lemma chunks_concat: "\<forall>c \<in> set cs. length c = w \<Longrightarrow> chunks w (length cs) (concat cs) = cs"
  by (induction cs) simp_all

lemma order_status_byte_inverse [simp]: "byte_order_status (order_status_byte s) = s"
  by (cases s) (simp_all add: byte_order_status_def order_status_byte_def)

lemma order_field_write: "length (write_le order_field r) = 57"
  by (simp add: order_field_def)

lemma order_field_read: "read_le order_field (write_le order_field r) = r"
  by (simp add: order_field_def le_word_le_bytes_full nth_append)

lemma fixed_list_roundtrip:
  assumes "0 < byte_width c" "\<forall>v. length (write_le c v) = byte_width c \<and> read_le c (write_le c v) = v"
  shows "bincode_roundtrip (fixed_list_codec c)"
proof -
  have "map (read_le c) (chunks (byte_width c)
      (length (concat (map (write_le c) vs)) div byte_width c) (concat (map (write_le c) vs))) = vs" for vs
  proof -
    have u: "\<forall>x \<in> set (map (write_le c) vs). length x = byte_width c" using assms(2) by simp
    have "length (concat (map (write_le c) vs)) div byte_width c = length (map (write_le c) vs)"
      unfolding length_concat_chunks [OF u] using assms(1) by simp
    then show ?thesis using chunks_concat [OF u] assms(2) by (simp only:) (simp add: map_idI)
  qed
  then show ?thesis by (simp add: bincode_roundtrip_def fixed_list_codec_def)
qed

lemma demo_orders_serial: "serial_ok demo_orders"
proof -
  have "bincode_roundtrip (fixed_list_codec order_field)"
    by (rule fixed_list_roundtrip) (use order_field_write order_field_read in \<open>simp_all add: order_field_def\<close>)
  then show ?thesis
    using order_field_write order_field_read uuid_f.write_width uuid_f.read_write
    by (simp add: serial_ok_def demo_orders_def order_env_def bincode_roundtrip_def fixed_codec_def
        encodes_small_def fixed_list_codec_def uuid_field_def)
      (auto simp: order_field_def)
qed

lemma demo_order_small: "encodes_small (rec_codec demo_orders) r"
  by (simp add: demo_orders_def order_env_def encodes_small_def fixed_codec_def order_field_write)

end
