(* ===== verification/Format_Properties.thy ===== *)
theory Format_Properties
  imports Order_Codec
begin

text \<open>
  Properties of the on-disk formats: the tagged blobs, the insert log and the slot file, applied
  to the fixed-width \<open>Order\<close> codec of \<open>Order_Codec\<close>.
\<close>

section \<open>Blobs\<close>

text \<open>C22. Blob round trip and rejection. A record blob that was written reads back as exactly the
  records written; the same file under another schema tag (of a different hash) is refused with
  a tag mismatch, and read as an edge blob it is refused by its magic. A freshly written file is
  recognised as current.\<close>

theorem record_blob_roundtrip:
  assumes "bincode_roundtrip c" and "record_blob_encode tag c rs = Inr img" and "tag_hash tag \<noteq> tag_hash tag'"
  shows "record_blob_read tag c (Some img) = Inr rs \<and> record_blob_is_current tag c rs (Some img) \<and>
     record_blob_read tag' c' (Some img) = Inl (RecordBlobUnreadable (SchemaTagMismatch (tag_hash tag') (tag_hash tag))) \<and>
     edge_blob_read tag ce (Some img) = Inl (RecordBlobUnreadable NotABlob)"
proof -
  from assms(2) have enc: "tagged_encode genblob_magic genblob_version tag c rs = Inr img"
    by (simp add: record_blob_encode_def)
  then obtain body where im: "img = encode_tagged_image genblob_magic genblob_version (fnv1a64 body) tag body"
    by (auto simp: tagged_encode_def ok_or_def split: option.splits)
  have "bytes_at 0 (length genedge_magic) img = genblob_magic"
    by (simp add: im encode_tagged_image_def encode_image_def bytes_at_def)
  then have "parse_header img genedge_magic genedge_version = Inl NotABlob"
    using magics_distinct by (simp add: parse_header_def)
  then have "edge_blob_read tag ce (Some img) = Inl (RecordBlobUnreadable NotABlob)"
    by (simp add: edge_blob_read_def tagged_read_def parse_tagged_header_def)
  then show ?thesis
    using tagged_read_encode [OF assms(1) enc] tagged_current_fresh [OF enc] tagged_read_foreign_tag [OF enc _ assms(3)]
    by (simp add: record_blob_read_def record_blob_is_current_def)
qed

lemma demo_tags: "tag_hash [1] \<noteq> tag_hash [2]"
  by (simp add: tag_hash_def fnv1a64_def fnv_update_def fnv_offset_basis_def fnv_prime_def)

theorem record_blob_roundtrip_witness:
  "record_blob_read [1] (fixed_list_codec u32_field)
       (Some (encode_tagged_image genblob_magic genblob_version (fnv1a64 (le_bytes 4 (9 :: u32))) [1] (le_bytes 4 (9 :: u32)))) = Inr [9] \<and>
   record_blob_is_current [1] (fixed_list_codec u32_field) [9]
       (Some (encode_tagged_image genblob_magic genblob_version (fnv1a64 (le_bytes 4 (9 :: u32))) [1] (le_bytes 4 (9 :: u32)))) \<and>
   record_blob_read [2] (fixed_list_codec order_field)
       (Some (encode_tagged_image genblob_magic genblob_version (fnv1a64 (le_bytes 4 (9 :: u32))) [1] (le_bytes 4 (9 :: u32)))) =
     Inl (RecordBlobUnreadable (SchemaTagMismatch (tag_hash [2]) (tag_hash [1]))) \<and>
   edge_blob_read [1] \<lparr>bc_encode = \<lambda>_. None, bc_decode = \<lambda>_. Some [(1 :: nat, 2)]\<rparr>
       (Some (encode_tagged_image genblob_magic genblob_version (fnv1a64 (le_bytes 4 (9 :: u32))) [1] (le_bytes 4 (9 :: u32)))) =
     Inl (RecordBlobUnreadable NotABlob)"
proof (rule record_blob_roundtrip [OF _ _ demo_tags])
  show "bincode_roundtrip (fixed_list_codec u32_field)"
    by (rule fixed_list_roundtrip) (use u32_f.width_pos u32_f.write_width u32_f.read_write in simp_all)
  show "record_blob_encode [1] (fixed_list_codec u32_field) [9] = Inr (encode_tagged_image genblob_magic genblob_version
      (fnv1a64 (le_bytes 4 (9 :: u32))) [1] (le_bytes 4 (9 :: u32)))"
    by (simp add: record_blob_encode_def tagged_encode_def fixed_list_codec_def u32_field_def)
qed

text \<open>A file that holds a whole header, field by field.\<close>

lemma tagged_read_fields:
  fixes f t :: u64
  assumes "length m = 8" "length magic = 8"
  shows "tagged_read magic ver tag c (Some (m @ le_bytes 4 v @ le_bytes 8 f @ le_bytes 8 t @ body)) =
     (if m \<noteq> magic then Inl (RecordBlobUnreadable NotABlob)
      else if v \<noteq> ver then Inl (RecordBlobUnreadable (BlobVersionMismatch v ver))
      else if t \<noteq> tag_hash tag then Inl (RecordBlobUnreadable (SchemaTagMismatch (tag_hash tag) t))
      else if fnv1a64 body \<noteq> f then Inl (RecordBlobUnreadable (FingerprintMismatch f (fnv1a64 body)))
      else map_err RecordBlobUnreadable (ok_or BodyDoesNotDecode (bc_decode c body)))"
proof -
  define b where "b = m @ le_bytes 4 v @ le_bytes 8 f @ le_bytes 8 t @ body"
  have "parse_header b magic ver =
      (if m \<noteq> magic then Err NotABlob else if v \<noteq> ver then Err (BlobVersionMismatch v ver) else Ok f)"
    using assms by (simp add: b_def parse_header_def blob_header_len_def bytes_at_8_4 bytes_at_12_8 le_word_le_bytes_full Let_def)
      (simp add: bytes_at_def)
  moreover have "(le_word (bytes_at blob_header_len 8 b) :: u64) = t"
    using assms by (simp add: b_def bytes_at_def blob_header_len_def le_word_le_bytes_full)
  moreover have "drop tagged_header_len b = body" "\<not> length b < tagged_header_len"
    using assms by (simp_all add: b_def tagged_header_len_def blob_header_len_def)
  ultimately show ?thesis
    unfolding b_def [symmetric] by (simp add: tagged_read_def parse_tagged_header_def Let_def)
qed

lemma tagged_read_no_tag:
  fixes f :: u64
  assumes "length m = 8" "length magic = 8" "length part < 8"
  shows "tagged_read magic ver tag c (Some (m @ le_bytes 4 v @ le_bytes 8 f @ part)) =
     Inl (RecordBlobUnreadable (if m \<noteq> magic then NotABlob
       else if v \<noteq> ver then BlobVersionMismatch v ver else TooShortForTag))"
proof -
  define b where "b = m @ le_bytes 4 v @ le_bytes 8 f @ part"
  have "parse_header b magic ver =
      (if m \<noteq> magic then Err NotABlob else if v \<noteq> ver then Err (BlobVersionMismatch v ver) else Ok f)"
    using assms by (simp add: b_def parse_header_def blob_header_len_def bytes_at_8_4 bytes_at_12_8 le_word_le_bytes_full Let_def)
      (simp add: bytes_at_def)
  moreover have "length b < tagged_header_len" using assms by (simp add: b_def tagged_header_len_def blob_header_len_def)
  ultimately show ?thesis
    unfolding b_def [symmetric] by (simp add: tagged_read_def parse_tagged_header_def Let_def)
qed

text \<open>C23. What a read accepts, and how it refuses. If reading a blob succeeds, the file was long enough,
  carried this format's magic and version and this type's tag hash, its body hashes to the
  fingerprint in its header, and the records are that body's decoding. Otherwise the first
  field of the header that is wrong decides the error: an absent file, a file shorter than the
  shared header or with another magic, another version (with both versions), a header cut before
  its tag, another tag (with both hashes), another body (with both fingerprints), and a body that
  does not decode each have their own.\<close>

theorem record_blob_read_sound:
  fixes f t :: u64
  assumes "length m = 8" and "length short < blob_header_len" and "length part < 8"
  shows "(record_blob_read tag c file = Inr rs \<longrightarrow>
      (\<exists>bytes. file = Some bytes \<and> tagged_header_len \<le> length bytes \<and>
         take blob_header_len bytes = genblob_magic @ le_bytes 4 genblob_version @
           le_bytes 8 (fnv1a64 (drop tagged_header_len bytes)) \<and>
         le_word (bytes_at blob_header_len 8 bytes) = tag_hash tag \<and>
         bc_decode c (drop tagged_header_len bytes) = Some rs)) \<and>
     record_blob_read tag c None = Inl (RecordBlobUnreadable CannotReadFile) \<and>
     record_blob_read tag c (Some short) = Inl (RecordBlobUnreadable NotABlob) \<and>
     record_blob_read tag c (Some (m @ le_bytes 4 v @ le_bytes 8 f @ part)) =
       Inl (RecordBlobUnreadable (if m \<noteq> genblob_magic then NotABlob
         else if v \<noteq> genblob_version then BlobVersionMismatch v genblob_version else TooShortForTag)) \<and>
     record_blob_read tag c (Some (m @ le_bytes 4 v @ le_bytes 8 f @ le_bytes 8 t @ body)) =
       (if m \<noteq> genblob_magic then Inl (RecordBlobUnreadable NotABlob)
        else if v \<noteq> genblob_version then Inl (RecordBlobUnreadable (BlobVersionMismatch v genblob_version))
        else if t \<noteq> tag_hash tag then Inl (RecordBlobUnreadable (SchemaTagMismatch (tag_hash tag) t))
        else if fnv1a64 body \<noteq> f then Inl (RecordBlobUnreadable (FingerprintMismatch f (fnv1a64 body)))
        else case bc_decode c body of None \<Rightarrow> Inl (RecordBlobUnreadable BodyDoesNotDecode) | Some rs \<Rightarrow> Inr rs)"
proof (intro conjI impI)
  assume "record_blob_read tag c file = Inr rs"
  then obtain bytes where b: "file = Some bytes"
    "parse_tagged_header bytes genblob_magic genblob_version tag = Inr (fnv1a64 (drop tagged_header_len bytes))"
    "bc_decode c (drop tagged_header_len bytes) = Some rs"
    by (auto simp: record_blob_read_def elim: tagged_read_accepts)
  from b(2) have h: "parse_header bytes genblob_magic genblob_version = Inr (fnv1a64 (drop tagged_header_len bytes))"
    and len: "tagged_header_len \<le> length bytes" and tag: "le_word (bytes_at blob_header_len 8 bytes) = tag_hash tag"
    by (auto simp: parse_tagged_header_def and_then_Ok_iff Let_def split: if_splits)
  from parse_header_Ok_header [OF h] b(1,3) len tag
  show "\<exists>bytes. file = Some bytes \<and> tagged_header_len \<le> length bytes \<and>
      take blob_header_len bytes = genblob_magic @ le_bytes 4 genblob_version @
        le_bytes 8 (fnv1a64 (drop tagged_header_len bytes)) \<and>
      le_word (bytes_at blob_header_len 8 bytes) = tag_hash tag \<and>
      bc_decode c (drop tagged_header_len bytes) = Some rs" by simp
next
  show "record_blob_read tag c (Some short) = Inl (RecordBlobUnreadable NotABlob)"
    using assms(2) by (simp add: record_blob_read_def tagged_read_def parse_tagged_header_def parse_header_def)
qed (simp_all add: record_blob_read_def tagged_read_fields tagged_read_no_tag assms tagged_read_def [of _ _ _ _ None]
      map_err_def ok_or_def split: option.split)

theorem record_blob_read_sound_witness:
  "record_blob_read [1] (fixed_list_codec u32_field)
     (Some (genblob_magic @ le_bytes 4 genblob_version @ le_bytes 8 (fnv1a64 [] + 1) @ le_bytes 8 (tag_hash [1]) @ [])) =
       Inl (RecordBlobUnreadable (FingerprintMismatch (fnv1a64 [] + 1) (fnv1a64 []))) \<and>
   record_blob_read [1] (fixed_list_codec u32_field) (Some [5]) = Inl (RecordBlobUnreadable NotABlob) \<and>
   record_blob_read [1] (fixed_list_codec u32_field)
     (Some (genblob_magic @ le_bytes 4 (1 :: u32) @ le_bytes 8 (0 :: u64) @ [7])) =
       Inl (RecordBlobUnreadable (BlobVersionMismatch 1 2))"
  using record_blob_read_sound [where m = genblob_magic and short = "[5]" and part = "[7]" and tag = "[1]"
      and c = "fixed_list_codec u32_field" and v = genblob_version and f = "fnv1a64 [] + 1" and t = "tag_hash [1]" and body = "[]"]
    record_blob_read_sound [where m = genblob_magic and short = "[5]" and part = "[7]" and tag = "[1]"
      and c = "fixed_list_codec u32_field" and v = 1 and f = 0]
  by (simp add: blob_header_len_def genblob_version_def)

section \<open>The insert log\<close>

text \<open>C20. Torn-tail tolerance of the insert log. A log built by any sequence of appends reads back as
  exactly those entries in order, and so does the same file with one further entry cut off at any
  byte: an unacknowledged append loses nothing before it and adds nothing.\<close>

fun log_appends :: "'t bincode \<Rightarrow> 'k bincode \<Rightarrow> byte list \<Rightarrow> ('t, 'k) log_entry list \<Rightarrow> byte list option \<Rightarrow>
    durability_error + byte list option" where
  "log_appends ct ck tag [] log = Ok log"
| "log_appends ct ck tag (e # es) log =
     and_then (case e of Item t \<Rightarrow> append_item ct tag t log | Tombstone k \<Rightarrow> append_tombstone ck tag k log)
       (\<lambda>log. log_appends ct ck tag es (Some log))"

lemma log_appends_log_of:
  assumes "\<forall>e \<in> set es. entry_ok ct ck e"
  shows "log_appends ct ck tag es (log_of ct ck tag done) = Ok (log_of ct ck tag (done @ es))"
  using assms
proof (induction es arbitrary: "done")
  case (Cons e es)
  have "(case e of Item t \<Rightarrow> append_item ct tag t (log_of ct ck tag done)
      | Tombstone k \<Rightarrow> append_tombstone ck tag k (log_of ct ck tag done)) = Ok (the (log_of ct ck tag (done @ [e])))"
    using Cons.prems by (cases e) (simp_all add: append_item_log_of append_tombstone_log_of)
  then have "log_appends ct ck tag (e # es) (log_of ct ck tag done) = log_appends ct ck tag es (log_of ct ck tag (done @ [e]))"
    by (simp add: log_of_Some)
  with Cons.IH [of "done @ [e]"] Cons.prems show ?case by simp
qed simp

theorem insert_log_torn_tail:
  assumes "bincode_roundtrip ct" and "bincode_roundtrip ck" and "\<forall>e \<in> set (e0 # es). entry_ok ct ck e"
    and "entry_ok ct ck e" and "k < length (entry_bytes ct ck e)"
  shows "\<exists>log. log_appends ct ck tag (e0 # es) None = Inr (Some log) \<and>
     read_entries ct ck tag (Some log) = Inr (e0 # es) \<and>
     read_entries ct ck tag (Some (log @ take k (entry_bytes ct ck e))) = Inr (e0 # es)"
proof -
  have "log_appends ct ck tag (e0 # es) (log_of ct ck tag []) = Ok (log_of ct ck tag (e0 # es))"
    using log_appends_log_of [OF assms(3), of tag "[]"] by simp
  then have "log_appends ct ck tag (e0 # es) None = Ok (Some (the (log_of ct ck tag (e0 # es))))"
    by (simp add: log_of_def)
  moreover have "read_entries ct ck tag (Some (the (log_of ct ck tag (e0 # es)))) = Ok (e0 # es)"
    using read_entries_log_of [OF assms(1-3), of tag] by (simp add: log_of_Some)
  moreover have "read_entries ct ck tag (Some (the (log_of ct ck tag (e0 # es)) @ take k (entry_bytes ct ck e))) = Ok (e0 # es)"
    using read_entries_torn [OF assms(1-3) assms(4,5), of tag] by (simp add: log_of_def)
  ultimately show ?thesis by blast
qed

theorem insert_log_torn_tail_witness:
  "\<exists>log. log_appends (fixed_codec u32_field) (fixed_codec uuid_field) [1] [Item 5, Tombstone 3] None = Inr (Some log) \<and>
     read_entries (fixed_codec u32_field) (fixed_codec uuid_field) [1] (Some log) = Inr [Item 5, Tombstone 3] \<and>
     read_entries (fixed_codec u32_field) (fixed_codec uuid_field) [1]
       (Some (log @ take 6 (entry_bytes (fixed_codec u32_field) (fixed_codec uuid_field) (Item 7)))) = Inr [Item 5, Tombstone 3]"
  by (rule insert_log_torn_tail)
    (simp_all add: bincode_roundtrip_def fixed_codec_def u32_f.write_width u32_f.read_write uuid_f.write_width
      uuid_f.read_write entry_ok_def entry_payload_def entry_bytes_def put_frame_def, simp_all add: u32_field_def uuid_field_def)

text \<open>The first append to a version-1 log leaves the log of the old items and the new entry.\<close>

lemma log_appends_v1:
  assumes "\<forall>t \<in> set ts. encodes_small ct t" and "entry_ok ct ck e"
  shows "log_appends ct ck tag (e # es) (Some (v1_image tag (map (\<lambda>t. the (bc_encode ct t)) ts))) =
     log_appends ct ck tag es (log_of ct ck tag (map Item ts @ [e]))"
proof -
  let ?ps = "map (\<lambda>t. the (bc_encode ct t)) ts"
  let ?head = "encode_tagged_image insl_magic log_version 0 tag []"
  have small: "\<forall>p \<in> set ?ps. length p < 2 ^ 32"
    using assms(1) by (auto simp: encodes_small_def)
  have bytes: "concat (map (\<lambda>p. kind_item # put_frame p) ?ps) = concat (map (entry_bytes ct ck) (map Item ts))"
    by (simp add: entry_bytes_def entry_kind_def entry_payload_def comp_def)
  have up: "upgrade_if_version_1 tag (Some (v1_image tag ?ps)) = Inr (Some (?head @ concat (map (entry_bytes ct ck) (map Item ts))))"
    unfolding upgrade_v1 [OF small] bytes ..
  obtain p where p: "entry_payload ct ck e = Some p" "length p < 2 ^ 32"
    using assms(2) by (auto simp: entry_ok_def)
  have "append_entry tag (entry_kind e) p (Some (v1_image tag ?ps)) =
      Inr (?head @ concat (map (entry_bytes ct ck) (map Item ts)) @ entry_kind e # put_frame p)"
    using p unfolding append_entry_def up
    by (simp add: tagged_header_len_def blob_header_len_def Let_def del: map_map)
  also have "\<dots> = Ok (the (log_of ct ck tag (map Item ts @ [e])))"
    using p by (simp add: log_of_def entry_bytes_def [of ct ck e])
  finally have "(case e of Item t \<Rightarrow> append_item ct tag t (Some (v1_image tag ?ps))
      | Tombstone k \<Rightarrow> append_tombstone ck tag k (Some (v1_image tag ?ps))) = Ok (the (log_of ct ck tag (map Item ts @ [e])))"
    using p by (cases e) (simp_all add: append_item_def append_tombstone_def entry_payload_def entry_kind_def)
  then show ?thesis by (simp add: log_of_Some)
qed

text \<open>C21. Upgrade of a version-1 log. A log in the old layout (no kind bytes) still reads as items, and
  appending to it, an item or a tombstone first and any further entries after it, rewrites it
  whole in the new layout: it then reads as the old items, in order, and the new entries.\<close>

theorem insert_log_upgrade:
  assumes "bincode_roundtrip ct" and "bincode_roundtrip ck"
    and "\<forall>t \<in> set ts. encodes_small ct t" and "\<forall>e \<in> set (e0 # es). entry_ok ct ck e"
  shows "read_entries ct ck tag (Some (v1_image tag (map (\<lambda>t. the (bc_encode ct t)) ts))) = Inr (map Item ts) \<and>
     (\<exists>log. log_appends ct ck tag (e0 # es) (Some (v1_image tag (map (\<lambda>t. the (bc_encode ct t)) ts))) = Inr (Some log) \<and>
        on_disk_version (Some log) = Some log_version \<and>
        read_entries ct ck tag (Some log) = Inr (map Item ts @ e0 # es))"
proof -
  let ?v1 = "v1_image tag (map (\<lambda>t. the (bc_encode ct t)) ts)"
  let ?new = "map Item ts @ e0 # es"
  have small: "\<forall>p \<in> set (map (\<lambda>t. the (bc_encode ct t)) ts). length p < 2 ^ 32"
    using assms(3) by (auto simp: encodes_small_def)
  have items: "\<forall>e \<in> set (map Item ts). entry_ok ct ck e"
    using assms(3) by (auto simp: entry_ok_def entry_payload_def encodes_small_def)
  have pairs: "map (Pair kind_item) (map (\<lambda>t. the (bc_encode ct t)) ts) =
      map (\<lambda>e. (entry_kind e, the (entry_payload ct ck e))) (map Item ts)"
    by (simp add: entry_kind_def entry_payload_def)
  have "read_entries ct ck tag (Some ?v1) = Inr (map Item ts)"
    using decode_entries_encoded [OF assms(1,2) items, of 0] unfolding read_entries_def read_raw_v1 [OF small] pairs by simp
  moreover have "log_appends ct ck tag (e0 # es) (Some ?v1) = Ok (log_of ct ck tag ?new)"
    using log_appends_v1 [OF assms(3), of ck e0 tag es] log_appends_log_of [of es ct ck tag "map Item ts @ [e0]"] assms(4)
    by simp
  moreover have "read_entries ct ck tag (log_of ct ck tag ?new) = Ok ?new"
    using items assms(4) by (intro read_entries_log_of [OF assms(1,2)]) auto
  moreover have "on_disk_version (log_of ct ck tag ?new) = Some log_version"
    by (simp add: log_of_def version_of_tagged)
  moreover have "log_of ct ck tag ?new = Some (the (log_of ct ck tag ?new))" by (simp add: log_of_Some)
  ultimately show ?thesis by metis
qed

theorem insert_log_upgrade_witness:
  "\<exists>log. log_appends (fixed_codec u32_field) (fixed_codec uuid_field) [1] [Item 6, Tombstone 3]
      (Some (v1_image [1] (map (\<lambda>t. the (bc_encode (fixed_codec u32_field) t)) [4, 2]))) = Inr (Some log) \<and>
    read_entries (fixed_codec u32_field) (fixed_codec uuid_field) [1] (Some log) = Inr [Item 4, Item 2, Item 6, Tombstone 3]"
proof -
  have "bincode_roundtrip (fixed_codec u32_field)" "bincode_roundtrip (fixed_codec uuid_field)"
    "\<forall>t \<in> set [4, 2]. encodes_small (fixed_codec u32_field) t"
    "\<forall>e \<in> set [Item 6, Tombstone 3]. entry_ok (fixed_codec u32_field) (fixed_codec uuid_field) e"
    by (simp_all add: bincode_roundtrip_def fixed_codec_def u32_f.write_width u32_f.read_write uuid_f.write_width
        uuid_f.read_write entry_ok_def entry_payload_def encodes_small_def, simp_all add: u32_field_def uuid_field_def)
  from insert_log_upgrade [OF this, of "[1]"] show ?thesis by auto
qed

text \<open>C25. A torn first append. The header and the first entry go out in one write, but a log cut off
  inside its 20-byte shared header (the empty file included) is not read as empty: every reader
  refuses it as unreadable, so the store beside it does not open.\<close>

theorem insert_log_torn_header:
  assumes "entry_ok ct ck e" and "k < blob_header_len"
  shows "\<exists>log. log_appends ct ck tag [e] None = Inr (Some log) \<and>
     read_entries ct ck tag (Some (take k log)) = Inl (RecordBlobUnreadable NotABlob)"
proof -
  have "log_appends ct ck tag [e] (log_of ct ck tag []) = Ok (log_of ct ck tag [e])"
    using log_appends_log_of [of "[e]" ct ck tag "[]"] assms(1) by simp
  then have "log_appends ct ck tag [e] None = Ok (Some (the (log_of ct ck tag [e])))"
    by (simp add: log_of_def)
  moreover have "read_entries ct ck tag (Some (take k (the (log_of ct ck tag [e])))) = Err (RecordBlobUnreadable NotABlob)"
    using assms(2) by (intro read_entries_short) simp
  ultimately show ?thesis by blast
qed

theorem insert_log_torn_header_witness:
  "\<exists>log. log_appends (fixed_codec u32_field) (fixed_codec uuid_field) [1] [Item 5] None = Inr (Some log) \<and>
     read_entries (fixed_codec u32_field) (fixed_codec uuid_field) [1] (Some (take 12 log)) =
       (Inl (RecordBlobUnreadable NotABlob) :: durability_error + (u32, uuid) log_entry list)"
  by (rule insert_log_torn_header)
    (simp_all add: fixed_codec_def u32_f.write_width entry_ok_def entry_payload_def blob_header_len_def,
      simp add: u32_field_def)

section \<open>The slot file\<close>

text \<open>C19. The slot file as a list of slots. Over any file with a good header and whole slots, an
  in-place write of a value, the clearing of a marker and an append do to the list of slots what
  they say, at the position they report, and leave every other slot's bytes as they were.\<close>

theorem slot_file_refines_slots:
  assumes "codec_lawful ci" and "codec_lawful cv"
    and "read_header mmap = Inr u" and "trailing_partial_bytes ci cv mmap = 0"
  shows "\<exists>ss. mmap = slot_image ci cv ss \<and> slot_count ci cv mmap = length ss \<and>
     (\<forall>p i w m v. p < length ss \<and> ss ! p = (i, w, m) \<longrightarrow>
        read_value ci cv mmap p = w \<and> (is_committed ci cv mmap p \<longleftrightarrow> m = committed_marker) \<and>
        write_value ci cv mmap p v = slot_image ci cv (ss[p := (i, v, m)]) \<and>
        clear_marker ci cv mmap p = slot_image ci cv (ss[p := (i, w, 0)])) \<and>
     (\<forall>kvs. append_committed_slots ci cv mmap kvs =
        (slot_image ci cv (ss @ map (\<lambda>(i, v). (i, v, committed_marker)) kvs), [length ss..<length ss + length kvs]))"
proof -
  have SC: "slot_codecs ci cv" by (rule slot_codecs_lawful [OF assms(1,2)])
  obtain ss where ss: "mmap = slot_image ci cv ss"
    by (rule slot_codecs.image_exists [OF SC assms(3,4)])
  show ?thesis
    using slot_codecs.count_image [OF SC] slot_codecs.read_value_image [OF SC] slot_codecs.committed_image [OF SC]
      slot_codecs.write_value_image [OF SC] slot_codecs.clear_marker_image [OF SC] slot_codecs.append_image [OF SC]
    by (intro exI [of _ ss]) (simp add: ss)
qed

theorem slot_file_refines_slots_witness:
  "\<exists>ss. slot_create uuid_field u32_field [(1, 5), (2, 6)] = slot_image uuid_field u32_field ss \<and>
     slot_count uuid_field u32_field (slot_create uuid_field u32_field [(1, 5), (2, 6)]) = length ss \<and>
     (\<forall>p i w m v. p < length ss \<and> ss ! p = (i, w, m) \<longrightarrow>
        read_value uuid_field u32_field (slot_create uuid_field u32_field [(1, 5), (2, 6)]) p = w \<and>
        (is_committed uuid_field u32_field (slot_create uuid_field u32_field [(1, 5), (2, 6)]) p \<longleftrightarrow> m = committed_marker) \<and>
        write_value uuid_field u32_field (slot_create uuid_field u32_field [(1, 5), (2, 6)]) p v =
          slot_image uuid_field u32_field (ss[p := (i, v, m)]) \<and>
        clear_marker uuid_field u32_field (slot_create uuid_field u32_field [(1, 5), (2, 6)]) p =
          slot_image uuid_field u32_field (ss[p := (i, w, 0)])) \<and>
     (\<forall>kvs. append_committed_slots uuid_field u32_field (slot_create uuid_field u32_field [(1, 5), (2, 6)]) kvs =
        (slot_image uuid_field u32_field (ss @ map (\<lambda>(i, v). (i, v, committed_marker)) kvs), [length ss..<length ss + length kvs]))"
  by (rule slot_file_refines_slots [OF uuid_f.lawful u32_f.lawful])
    (simp_all add: uuid_u32.create_image, simp add: slot_image_def)

text \<open>C26. A torn slot at the end of the file. Appending after a partial slot reports the position of the
  torn slot, not of the bytes written: the slot at the reported position is the torn bytes followed
  by the beginning of the new slot, so the new slot is never found where the index says it is.\<close>

theorem append_after_torn_slot:
  assumes "codec_lawful ci" and "codec_lawful cv"
    and "0 < length torn" and "length torn < slot_width ci cv"
  shows "\<exists>file. append_committed_slots ci cv (slot_image ci cv ss @ torn) [(i, v)] = (file, [length ss]) \<and>
     bytes_at (slot_offset ci cv (length ss)) (slot_width ci cv) file =
       torn @ take (slot_width ci cv - length torn) (slot_chunk ci cv (i, v, committed_marker))"
proof -
  have SC: "slot_codecs ci cv" by (rule slot_codecs_lawful [OF assms(1,2)])
  note len = slot_codecs.length_image [OF SC, of ss] and w = slot_codecs.chunk_width [OF SC, of "(i, v, committed_marker)"]
  let ?file = "slot_image ci cv ss @ torn @ slot_chunk ci cv (i, v, committed_marker)"
  have "(length ?file - slot_header_len) div slot_width ci cv - 1 = length ss"
  proof -
    have "length ?file - slot_header_len = length torn + (length ss + 1) * slot_width ci cv"
      by (simp add: len w)
    moreover have "(length torn + (length ss + 1) * slot_width ci cv) div slot_width ci cv = length ss + 1"
      using assms(4) by (subst div_mult_self1) simp_all
    ultimately show ?thesis by (simp only: add_diff_cancel_right')
  qed
  then have "append_committed_slots ci cv (slot_image ci cv ss @ torn) [(i, v)] = (?file, [length ss])"
    by (simp add: append_committed_slot_def slot_chunk_def Let_def)
  moreover have "slot_offset ci cv (length ss) = length (slot_image ci cv ss)"
    by (simp add: slot_offset_def len)
  then have "bytes_at (slot_offset ci cv (length ss)) (slot_width ci cv) ?file =
      torn @ take (slot_width ci cv - length torn) (slot_chunk ci cv (i, v, committed_marker))"
    using assms(4) by (simp add: bytes_at_def)
  ultimately show ?thesis by blast
qed

theorem append_after_torn_slot_witness:
  "\<exists>file. append_committed_slots uuid_field u32_field (slot_image uuid_field u32_field [(1, 5, 1)] @ [7, 7, 7]) [(2, 6)] =
       (file, [length [(1 :: uuid, 5 :: u32, 1 :: byte)]]) \<and>
     bytes_at (slot_offset uuid_field u32_field (length [(1 :: uuid, 5 :: u32, 1 :: byte)])) (slot_width uuid_field u32_field) file =
       [7, 7, 7] @ take (slot_width uuid_field u32_field - length [7 :: byte, 7, 7]) (slot_chunk uuid_field u32_field (2, 6, committed_marker))"
  by (rule append_after_torn_slot [OF uuid_f.lawful u32_f.lawful])
    (simp_all add: slot_width_def uuid_field_def)

end
