(* ===== verification/Mmap_Store.thy ===== *)
theory Mmap_Store
  imports Record_Env
begin

text \<open>
  \<open>GenericMmapStore\<close> of \<open>src/generic/mmap_store.rs\<close>: records and a secondary index in memory, one
  scannable field in the memory-mapped slot file, the record blob and the insert log beside it.
  The state holds the files' contents too: a crash keeps those and loses the rest, and
  \<open>ms_open_portable\<close> is the next process. I/O calls succeed here; every other refusal is a branch.
\<close>

section \<open>State\<close>

record ('id, 'iv, 'r) mmap_store =
  ms_records :: "('id, 'r) hash_map"
  ms_index :: "'iv \<rightharpoonup> 'id list"
  ms_position_index :: "('id, nat) hash_map"
  ms_file :: "byte list"
  ms_blob :: "byte list option"
  ms_log :: "byte list option"

text \<open>The three files at a store's path.\<close>

record disk =
  d_slots :: "byte list option"
  d_blob :: "byte list option"
  d_log :: "byte list option"

definition disk_of :: "('id, 'iv, 'r) mmap_store \<Rightarrow> disk" where
  "disk_of s = \<lparr>d_slots = Some (ms_file s), d_blob = ms_blob s, d_log = ms_log s\<rparr>"

section \<open>Construction\<close>

definition build_index :: "('id, 'iv, 'sv, 'r) store_env \<Rightarrow> 'r list \<Rightarrow> ('iv \<rightharpoonup> 'id list)" where
  "build_index E rs = foldl (\<lambda>m r. bucket_push (indexed_value E r) (rid E r) m) Map.empty rs"

definition build_records :: "('id, 'iv, 'sv, 'r) store_env \<Rightarrow> 'r list \<Rightarrow> ('id, 'r) hash_map" where
  "build_records E rs = hm_collect (map (\<lambda>r. (rid E r, r)) rs)"

definition slot_pairs :: "('id, 'iv, 'sv, 'r) store_env \<Rightarrow> 'r list \<Rightarrow> ('id \<times> 'sv) list" where
  "slot_pairs E rs = map (\<lambda>r. (rid E r, scannable_value E r)) rs"

definition enumerate_ids :: "('id, 'iv, 'sv, 'r) store_env \<Rightarrow> 'r list \<Rightarrow> ('id, nat) hash_map" where
  "enumerate_ids E rs = hm_collect (map (\<lambda>(p, r). (rid E r, p)) (enumerate 0 rs))"

definition ms_create :: "('id, 'iv, 'sv, 'r) store_env \<Rightarrow> 'r list \<Rightarrow> durability_error + ('id, 'iv, 'r) mmap_store" where
  "ms_create E rs =
     map_ok (\<lambda>blob.
       \<lparr>ms_records = build_records E rs,
        ms_index = build_index E rs,
        ms_position_index = enumerate_ids E rs,
        ms_file = slot_create (id_field E) (val_field E) (slot_pairs E rs),
        ms_blob = Some blob,
        ms_log = log_clear None\<rparr>)
     (record_blob_encode (schema_tag E) (recs_codec E) rs)"

text \<open>One step of the fold of the log into the records, with its id-to-index map.\<close>

definition merge_step :: "('id, 'iv, 'sv, 'r) store_env \<Rightarrow> 'r list \<times> ('id \<rightharpoonup> nat) \<Rightarrow>
    ('r, 'id) log_entry \<Rightarrow> 'r list \<times> ('id \<rightharpoonup> nat)" where
  "merge_step E st entry =
     (case st of (records, position_of) \<Rightarrow>
       (case entry of
          Item record \<Rightarrow>
            (case position_of (rid E record) of
               Some i \<Rightarrow> (records[i := record], position_of)
             | None \<Rightarrow> (records @ [record], position_of(rid E record \<mapsto> length records)))
        | Tombstone key \<Rightarrow>
            (case position_of key of
               None \<Rightarrow> (records, position_of)
             | Some i \<Rightarrow>
                 (take i records @ drop (Suc i) records,
                  \<lambda>k. map_option (\<lambda>p. if i < p then p - 1 else p) ((position_of(key := None)) k)))))"

definition merge_log :: "('id, 'iv, 'sv, 'r) store_env \<Rightarrow> 'r list \<Rightarrow> ('r, 'id) log_entry list \<Rightarrow> 'r list" where
  "merge_log E records logged =
     (if logged = [] then records
      else fst (foldl (merge_step E)
        (records, map_of (rev (map (\<lambda>(i, r). (rid E r, i)) (enumerate 0 records)))) logged))"

text \<open>The reconciliation of the records with the committed slots: reuse a position or append.\<close>

definition reconcile :: "('id, 'iv, 'sv, 'r) store_env \<Rightarrow> ('id \<rightharpoonup> nat \<times> 'sv) \<Rightarrow> 'r list \<Rightarrow>
    ('id, nat) hash_map \<times> 'r list" where
  "reconcile E persisted rs =
     foldl (\<lambda>(position_index, missing) record.
        case persisted (rid E record) of
          Some (p, _) \<Rightarrow> (AList.update (rid E record) p position_index, missing)
        | None \<Rightarrow> (position_index, missing @ [record])) ([], []) rs"

definition ms_open :: "('id, 'iv, 'sv, 'r) store_env \<Rightarrow> 'r list \<Rightarrow> disk \<Rightarrow>
    durability_error + ('id, 'iv, 'r) mmap_store" where
  "ms_open E records d =
     and_then (read_entries (rec_codec E) (key_codec E) (schema_tag E) (d_log d)) (\<lambda>logged.
     (let records = merge_log E records logged in
      and_then (if record_blob_is_current (schema_tag E) (recs_codec E) records (d_blob d) then Ok None
                else map_ok Some (record_blob_encode (schema_tag E) (recs_codec E) records)) (\<lambda>stale_blob.
      and_then (ok_or DurIo (d_slots d)) (\<lambda>slots.
      and_then (slot_open slots) (\<lambda>file.
      (let persisted = committed_pairs (id_field E) (val_field E) file;
           (position_index, missing) = reconcile E persisted records;
           (file, position_index) =
             (if missing = [] then (file, position_index)
              else (let (file, positions) =
                      append_committed_slots (id_field E) (val_field E) file (slot_pairs E missing)
                    in (file, foldl (\<lambda>m (record, p). AList.update (rid E record) p m)
                                position_index (zip missing positions))))
       in Ok \<lparr>ms_records = build_records E records,
              ms_index = build_index E records,
              ms_position_index = position_index,
              ms_file = file,
              ms_blob = (case stale_blob of None \<Rightarrow> d_blob d | Some encoded \<Rightarrow> Some encoded),
              ms_log = log_clear (d_log d)\<rparr>))))))"

definition read_portable_records :: "('id, 'iv, 'sv, 'r) store_env \<Rightarrow> disk \<Rightarrow> durability_error + 'r list" where
  "read_portable_records E d =
     and_then (record_blob_read (schema_tag E) (recs_codec E) (d_blob d)) (\<lambda>persisted.
     map_ok (merge_log E persisted)
       (read_entries (rec_codec E) (key_codec E) (schema_tag E) (d_log d)))"

definition ms_open_portable :: "('id, 'iv, 'sv, 'r) store_env \<Rightarrow> disk \<Rightarrow> durability_error + ('id, 'iv, 'r) mmap_store" where
  "ms_open_portable E d = and_then (read_portable_records E d) (\<lambda>records. ms_open E records d)"

section \<open>Operations\<close>

text \<open>The log append that makes an insert or a replace durable.\<close>

definition ms_log_item :: "('id, 'iv, 'sv, 'r) store_env \<Rightarrow> ('id, 'iv, 'r) mmap_store \<Rightarrow> 'r \<Rightarrow>
    durability_error + ('id, 'iv, 'r) mmap_store" where
  "ms_log_item E s record =
     map_ok (\<lambda>log. s\<lparr>ms_log := Some log\<rparr>) (append_item (rec_codec E) (schema_tag E) record (ms_log s))"

definition ms_insert :: "('id, 'iv, 'sv, 'r) store_env \<Rightarrow> ('id, 'iv, 'r) mmap_store \<Rightarrow> 'r \<Rightarrow>
    'id insert_error + ('id, 'iv, 'r) mmap_store" where
  "ms_insert E s record =
     (let key = rid E record in
      if map_of (ms_records s) key \<noteq> None then Err (InsDuplicate key)
      else map_err InsDurability
        (and_then (ms_log_item E s record) (\<lambda>s.
          (let (file, positions) =
             append_committed_slots (id_field E) (val_field E) (ms_file s) [(key, scannable_value E record)]
           in case positions of
                [] \<Rightarrow> Err DurIo
              | p # _ \<Rightarrow>
                  Ok (s\<lparr>ms_file := file,
                        ms_index := bucket_push (indexed_value E record) key (ms_index s),
                        ms_position_index := AList.update key p (ms_position_index s),
                        ms_records := AList.update key record (ms_records s)\<rparr>)))))"

definition ms_replace :: "('id, 'iv, 'sv, 'r) store_env \<Rightarrow> ('id, 'iv, 'r) mmap_store \<Rightarrow> 'r \<Rightarrow>
    'id replace_error + ('id, 'iv, 'r) mmap_store" where
  "ms_replace E s record =
     (let key = rid E record in
      case map_of (ms_records s) key of
        None \<Rightarrow> Err (RepNotFound key)
      | Some old \<Rightarrow>
          (case map_of (ms_position_index s) key of
             None \<Rightarrow> Err (RepNotFound key)
           | Some p \<Rightarrow>
               map_err RepDurability
                 (and_then (ms_log_item E s record) (\<lambda>s.
                   (let s = s\<lparr>ms_file := write_value (id_field E) (val_field E) (ms_file s) p (scannable_value E record)\<rparr>;
                        s = (if indexed_value E old \<noteq> indexed_value E record
                             then s\<lparr>ms_index := bucket_push (indexed_value E record) key
                                     (bucket_drop (indexed_value E old) key (ms_index s))\<rparr>
                             else s)
                    in Ok (s\<lparr>ms_records := AList.update key record (ms_records s)\<rparr>))))))"

definition ms_delete :: "('id, 'iv, 'sv, 'r) store_env \<Rightarrow> ('id, 'iv, 'r) mmap_store \<Rightarrow> 'id \<Rightarrow>
    'id delete_error + ('id, 'iv, 'r) mmap_store" where
  "ms_delete E s key =
     (case map_of (ms_records s) key of
        None \<Rightarrow> Err (DelNotFound key)
      | Some record \<Rightarrow>
          (case map_of (ms_position_index s) key of
             None \<Rightarrow> Err (DelNotFound key)
           | Some p \<Rightarrow>
               map_err DelDurability
                 (map_ok (\<lambda>log.
                    s\<lparr>ms_log := Some log,
                      ms_file := clear_marker (id_field E) (val_field E) (ms_file s) p,
                      ms_index := bucket_drop (indexed_value E record) key (ms_index s),
                      ms_position_index := AList.delete key (ms_position_index s),
                      ms_records := AList.delete key (ms_records s)\<rparr>)
                  (append_tombstone (key_codec E) (schema_tag E) key (ms_log s)))))"

definition ms_update :: "('id, 'iv, 'sv, 'r) store_env \<Rightarrow> ('id, 'iv, 'r) mmap_store \<Rightarrow> 'id \<Rightarrow> 'sv \<Rightarrow>
    'id not_found + ('id, 'iv, 'r) mmap_store" where
  "ms_update E s key value =
     (case map_of (ms_position_index s) key of
        None \<Rightarrow> Err (NotFound key)
      | Some p \<Rightarrow> Ok (s\<lparr>ms_file := write_value (id_field E) (val_field E) (ms_file s) p value\<rparr>))"

text \<open>The outer option is a panic of \<open>set_scannable_value\<close> on a value outside its domain.\<close>

definition ms_get :: "('id, 'iv, 'sv, 'r) store_env \<Rightarrow> ('id, 'iv, 'r) mmap_store \<Rightarrow> 'id \<Rightarrow> 'r option option" where
  "ms_get E s key =
     (case map_of (ms_records s) key of
        None \<Rightarrow> Some None
      | Some record \<Rightarrow>
          (case map_of (ms_position_index s) key of
             None \<Rightarrow> Some None
           | Some p \<Rightarrow>
               map_option Some (set_scannable_value E record (read_value (id_field E) (val_field E) (ms_file s) p))))"

definition ms_all_ids :: "('id, 'iv, 'r) mmap_store \<Rightarrow> 'id list" where
  "ms_all_ids s = map fst (ms_records s)"

definition ms_filter_eq :: "('id, 'iv, 'r) mmap_store \<Rightarrow> 'iv \<Rightarrow> 'id list" where
  "ms_filter_eq s value = bucket (ms_index s) value"

definition ms_is_gapless :: "('id, 'iv, 'sv, 'r) store_env \<Rightarrow> ('id, 'iv, 'r) mmap_store \<Rightarrow> bool" where
  "ms_is_gapless E s = is_gapless (id_field E) (val_field E) (ms_file s) (length (ms_position_index s))"

definition ms_scan :: "('id, 'iv, 'sv, 'r) store_env \<Rightarrow> ('id, 'iv, 'r) mmap_store \<Rightarrow> 'sv list" where
  "ms_scan E s =
     (if ms_is_gapless E s then
        (let body = drop slot_header_len (ms_file s); w = slot_width (id_field E) (val_field E) in
         map (\<lambda>slot. read_le (val_field E) (bytes_at (byte_width (id_field E)) (byte_width (val_field E)) slot))
           (chunks w (length body div w) body))
      else
        map (read_value (id_field E) (val_field E) (ms_file s)) (sort (map snd (ms_position_index s))))"

text \<open>\<open>None\<close> is a panic: a missing record or a slot value out of its field's domain.\<close>

fun compact_records :: "('id, 'iv, 'sv, 'r) store_env \<Rightarrow> ('id, 'iv, 'r) mmap_store \<Rightarrow> (nat \<times> 'id) list \<Rightarrow> 'r list option" where
  "compact_records E s [] = Some []"
| "compact_records E s ((p, key) # rest) =
     (case map_of (ms_records s) key of
        None \<Rightarrow> None
      | Some record \<Rightarrow>
          (case set_scannable_value E record (read_value (id_field E) (val_field E) (ms_file s) p) of
             None \<Rightarrow> None
           | Some record \<Rightarrow> map_option (Cons record) (compact_records E s rest)))"

definition ms_compact :: "('id, 'iv, 'sv, 'r) store_env \<Rightarrow> ('id, 'iv, 'r) mmap_store \<Rightarrow>
    (durability_error + compaction_report \<times> ('id, 'iv, 'r) mmap_store) option" where
  "ms_compact E s =
     (case read_entries (rec_codec E) (key_codec E) (schema_tag E) (ms_log s) of
        Inl e \<Rightarrow> Some (Err e)
      | Inr logged \<Rightarrow>
          (case compact_records E s (sort_key fst (map (\<lambda>(key, p). (p, key)) (ms_position_index s))) of
             None \<Rightarrow> None
           | Some records \<Rightarrow>
               Some (map_ok (\<lambda>blob.
                 (\<lparr>cr_records = length records,
                   cr_slots_reclaimed = slot_count (id_field E) (val_field E) (ms_file s) - length records,
                   cr_log_entries_folded = length logged,
                   cr_edge_logs_folded = 0\<rparr>,
                  s\<lparr>ms_blob := Some blob,
                    ms_file := slot_rewrite (id_field E) (val_field E) (ms_file s) (slot_pairs E records),
                    ms_log := log_clear (ms_log s),
                    ms_position_index := enumerate_ids E records\<rparr>))
               (record_blob_encode (schema_tag E) (recs_codec E) records))))"

end
