(* ===== verification/Mmap_Laws.thy ===== *)
theory Mmap_Laws
  imports Mmap_Store
begin

text \<open>
  The invariant of \<open>GenericMmapStore\<close> (\<open>ms_rep\<close>, over the slots its file encodes), what its files
  say of its records (\<open>ms_durable\<close>), and the lemmas that every operation keeps both and does to
  the abstract map \<open>ms_map\<close> what it promises; then the fold of the log and the reopen of any disk
  state an operation can leave behind.
\<close>

section \<open>The abstract map and the invariant\<close>

definition ms_map :: "('id, 'iv, 'sv, 'r) store_env \<Rightarrow> ('id, 'iv, 'r) mmap_store \<Rightarrow> ('id \<rightharpoonup> 'r)" where
  "ms_map E s key = (case ms_get E s key of None \<Rightarrow> None | Some r \<Rightarrow> r)"

text \<open>Every \<open>get\<close> answers, without a panic, what the map says.\<close>

definition serves :: "('id, 'iv, 'sv, 'r) store_env \<Rightarrow> ('id, 'iv, 'r) mmap_store \<Rightarrow> ('id \<rightharpoonup> 'r) \<Rightarrow> bool" where
  "serves E s m \<longleftrightarrow> (\<forall>i. ms_get E s i = Some (m i))"

lemma serves_map: "serves E s m \<Longrightarrow> ms_map E s = m"
  by (simp add: serves_def ms_map_def fun_eq_iff)

definition committed_at :: "('id, 'sv) slot list \<Rightarrow> nat \<Rightarrow> 'id \<Rightarrow> 'sv \<Rightarrow> bool" where
  "committed_at ss p i v \<longleftrightarrow> p < length ss \<and> ss ! p = (i, v, committed_marker)"

definition unique_slots :: "('id, 'sv) slot list \<Rightarrow> bool" where
  "unique_slots ss \<longleftrightarrow> (\<forall>p q i v w. committed_at ss p i v \<and> committed_at ss q i w \<longrightarrow> p = q)"

definition index_ok :: "('id, 'iv, 'sv, 'r) store_env \<Rightarrow> ('id, 'r) hash_map \<Rightarrow> ('iv \<rightharpoonup> 'id list) \<Rightarrow> bool" where
  "index_ok E recs ix \<longleftrightarrow> (\<forall>iv. distinct (bucket ix iv) \<and>
     set (bucket ix iv) = {k. \<exists>r. map_of recs k = Some r \<and> indexed_value E r = iv})"

definition slots_valid :: "('id, 'iv, 'sv, 'r) store_env \<Rightarrow> ('id, 'sv) slot list \<Rightarrow> bool" where
  "slots_valid E ss \<longleftrightarrow> (\<forall>p i v. committed_at ss p i v \<longrightarrow> (\<forall>r. set_scannable_value E r v \<noteq> None))"

definition ms_rep :: "('id, 'iv, 'sv, 'r) store_env \<Rightarrow> ('id, 'sv) slot list \<Rightarrow> ('id, 'iv, 'r) mmap_store \<Rightarrow> bool" where
  "ms_rep E ss s \<longleftrightarrow> ms_file s = slot_image (id_field E) (val_field E) ss \<and>
     hm_wf (ms_records s) \<and> hm_wf (ms_position_index s) \<and>
     (\<forall>k r. map_of (ms_records s) k = Some r \<longrightarrow> rid E r = k) \<and>
     dom (map_of (ms_records s)) = dom (map_of (ms_position_index s)) \<and>
     (\<forall>i p. map_of (ms_position_index s) i = Some p \<longleftrightarrow> (\<exists>v. committed_at ss p i v)) \<and>
     slots_valid E ss \<and> index_ok E (ms_records s) (ms_index s)"

text \<open>Records that agree but for the scannable field, whose truth is the slot.\<close>

definition same_but_scan :: "('id, 'iv, 'sv, 'r) store_env \<Rightarrow> 'r option \<Rightarrow> 'r option \<Rightarrow> bool" where
  "same_but_scan E a b \<longleftrightarrow>
     (case (a, b) of
        (None, None) \<Rightarrow> True
      | (Some r, Some r') \<Rightarrow> (\<forall>v. set_scannable_value E r v = set_scannable_value E r' v)
      | _ \<Rightarrow> False)"

definition ms_durable :: "('id, 'iv, 'sv, 'r) store_env \<Rightarrow> 'r list \<Rightarrow> ('r, 'id) log_entry list \<Rightarrow>
    ('id, 'iv, 'r) mmap_store \<Rightarrow> bool" where
  "ms_durable E base es s \<longleftrightarrow>
     (\<exists>blob. ms_blob s = Some blob \<and> record_blob_encode (schema_tag E) (recs_codec E) base = Inr blob) \<and>
     ms_log s = log_of (rec_codec E) (key_codec E) (schema_tag E) es \<and>
     (\<forall>e \<in> set es. entry_ok (rec_codec E) (key_codec E) e) \<and>
     distinct (map (rid E) base) \<and>
     (\<forall>k. same_but_scan E (keyed (rid E) (merge_log E base es) k) (map_of (ms_records s) k))"

lemma same_but_scan_refl [simp]: "same_but_scan E a a"
  by (simp add: same_but_scan_def split: option.split)

lemma same_but_scan_None [simp]:
  "same_but_scan E None b \<longleftrightarrow> b = None" "same_but_scan E a None \<longleftrightarrow> a = None"
  by (simp_all add: same_but_scan_def split: option.split)

lemma committed_at_append:
  "committed_at (ss @ ss') p i v \<longleftrightarrow> committed_at ss p i v \<or> (length ss \<le> p \<and> committed_at ss' (p - length ss) i v)"
  by (auto simp: committed_at_def nth_append)

lemma committed_at_update:
  "q < length ss \<Longrightarrow> committed_at (ss[q := (j, w, m)]) p i v \<longleftrightarrow>
     (if p = q then i = j \<and> v = w \<and> m = committed_marker else committed_at ss p i v)"
  by (auto simp: committed_at_def nth_list_update)

lemma committed_at_singleton:
  "committed_at [(j, w, m)] p i v \<longleftrightarrow> p = 0 \<and> i = j \<and> v = w \<and> m = committed_marker"
  by (auto simp: committed_at_def)

lemma committed_at_snoc:
  "committed_at (ss @ [(j, w, committed_marker)]) p i v \<longleftrightarrow>
     committed_at ss p i v \<or> (p = length ss \<and> i = j \<and> v = w)"
  by (auto simp: committed_at_append committed_at_singleton)

lemma committed_at_map:
  "committed_at (map (\<lambda>x. (f x, g x, committed_marker)) xs) p i v \<longleftrightarrow>
     p < length xs \<and> f (xs ! p) = i \<and> g (xs ! p) = v"
  by (auto simp: committed_at_def)

section \<open>The fold of the log\<close>

fun apply_entry :: "('id, 'iv, 'sv, 'r) store_env \<Rightarrow> ('id \<rightharpoonup> 'r) \<Rightarrow> ('r, 'id) log_entry \<Rightarrow> ('id \<rightharpoonup> 'r)" where
  "apply_entry E m (Item r) = m(rid E r \<mapsto> r)"
| "apply_entry E m (Tombstone k) = m(k := None)"

definition positions_ok :: "('id, 'iv, 'sv, 'r) store_env \<Rightarrow> 'r list \<Rightarrow> ('id \<rightharpoonup> nat) \<Rightarrow> bool" where
  "positions_ok E rs pos \<longleftrightarrow> (\<forall>k i. pos k = Some i \<longleftrightarrow> i < length rs \<and> rid E (rs ! i) = k)"

lemma positions_ok_distinct: "positions_ok E rs pos \<Longrightarrow> distinct (map (rid E) rs)"
  unfolding positions_ok_def distinct_conv_nth by (metis length_map nth_map option.inject)

lemma positions_okD: "positions_ok E rs pos \<Longrightarrow> pos k = Some i \<Longrightarrow> i < length rs \<and> rid E (rs ! i) = k"
  by (simp add: positions_ok_def)

lemma positions_ok_None:
  "positions_ok E rs pos \<Longrightarrow> pos k = None \<Longrightarrow> i < length rs \<Longrightarrow> rid E (rs ! i) \<noteq> k"
  unfolding positions_ok_def by (metis option.distinct(1))

lemma positions_ok_keyed:
  assumes "positions_ok E rs pos"
  shows "keyed (rid E) rs k = map_option (\<lambda>i. rs ! i) (pos k)"
proof (cases "pos k")
  case None
  then have "k \<notin> rid E ` set rs"
    using positions_ok_None [OF assms None] by (metis imageE in_set_conv_nth)
  then show ?thesis using None by (simp add: dom_keyed [symmetric] domIff)
next
  case (Some i)
  then have "i < length rs" "rid E (rs ! i) = k" using assms by (auto simp: positions_ok_def)
  then show ?thesis
    using keyed_distinct [OF positions_ok_distinct [OF assms], of "rs ! i"] Some by simp
qed

lemma positions_ok_remove:
  assumes ok: "positions_ok E rs pos" and i: "pos key = Some i"
  shows "positions_ok E (take i rs @ drop (Suc i) rs)
     (\<lambda>k. map_option (\<lambda>p. if i < p then p - 1 else p) ((pos(key := None)) k))"
proof -
  from ok i have il: "i < length rs" and ki: "rid E (rs ! i) = key" by (auto simp: positions_ok_def)
  let ?rs = "take i rs @ drop (Suc i) rs"
  have nth: "?rs ! j = rs ! (if j < i then j else Suc j)" for j
    using il by (auto simp: nth_append min_def)
  have len: "length ?rs = length rs - 1" using il by simp
  have uniq: "rid E (rs ! a) = rid E (rs ! b) \<Longrightarrow> a < length rs \<Longrightarrow> b < length rs \<Longrightarrow> a = b" for a b
    using positions_ok_distinct [OF ok] by (simp add: distinct_conv_nth) metis
  show ?thesis
    unfolding positions_ok_def len nth
  proof (intro allI)
    fix k j
    show "(map_option (\<lambda>p. if i < p then p - 1 else p) ((pos(key := None)) k) = Some j) =
        (j < length rs - 1 \<and> rid E (rs ! (if j < i then j else Suc j)) = k)" (is "?L = ?R")
    proof
      assume ?L
      then obtain p where p: "k \<noteq> key" "pos k = Some p" "j = (if i < p then p - 1 else p)"
        by (cases "k = key") auto
      with ok have "p < length rs" "rid E (rs ! p) = k" by (auto simp: positions_ok_def)
      moreover have "p \<noteq> i" using p(1,2) i ki \<open>rid E (rs ! p) = k\<close> by auto
      ultimately show ?R using p(3) il by (cases "i < p") auto
    next
      assume r: ?R
      let ?q = "if j < i then j else Suc j"
      from r have "?q < length rs" "rid E (rs ! ?q) = k" by auto
      then have "pos k = Some ?q" using ok by (auto simp: positions_ok_def)
      moreover have "k \<noteq> key" using uniq [of ?q i] \<open>?q < length rs\<close> \<open>rid E (rs ! ?q) = k\<close> ki il by (auto split: if_splits)
      ultimately show ?L by (simp split: if_splits)
    qed
  qed
qed

lemma merge_step_ok:
  assumes "positions_ok E rs pos" and "merge_step E (rs, pos) e = (rs', pos')"
  shows "positions_ok E rs' pos'" and "keyed (rid E) rs' = apply_entry E (keyed (rid E) rs) e"
proof -
  have "positions_ok E rs' pos' \<and> (\<forall>k. map_option (\<lambda>i. rs' ! i) (pos' k) =
      apply_entry E (\<lambda>k. map_option (\<lambda>i. rs ! i) (pos k)) e k)"
  proof (cases e)
    case (Item r)
    show ?thesis
    proof (cases "pos (rid E r)")
      case None
      with assms(2) Item have eq: "rs' = rs @ [r]" "pos' = pos(rid E r \<mapsto> length rs)"
        by (simp_all add: merge_step_def)
      have "positions_ok E rs' pos'"
        using assms(1) positions_ok_None [OF assms(1) None]
        by (auto simp: eq positions_ok_def nth_append less_Suc_eq)
      moreover have "map_option (\<lambda>i. rs' ! i) (pos' k) = ((\<lambda>k. map_option (\<lambda>i. rs ! i) (pos k))(rid E r \<mapsto> r)) k" for k
        using positions_okD [OF assms(1), of k] by (cases "pos k") (auto simp: eq nth_append)
      ultimately show ?thesis by (simp add: Item)
    next
      case (Some i)
      with assms(2) Item have eq: "rs' = rs[i := r]" "pos' = pos" by (simp_all add: merge_step_def)
      from assms(1) Some have i: "i < length rs" "rid E (rs ! i) = rid E r" by (auto simp: positions_ok_def)
      have "positions_ok E rs' pos'"
        using assms(1) i Some by (auto simp: eq positions_ok_def nth_list_update)
      moreover have "map_option (\<lambda>i. rs' ! i) (pos' k) = ((\<lambda>k. map_option (\<lambda>i. rs ! i) (pos k))(rid E r \<mapsto> r)) k" for k
        using positions_okD [OF assms(1), of k] i Some by (cases "pos k") (auto simp: eq nth_list_update)
      ultimately show ?thesis by (simp add: Item)
    qed
  next
    case (Tombstone key)
    show ?thesis
    proof (cases "pos key")
      case None
      with assms Tombstone show ?thesis by (auto simp: merge_step_def)
    next
      case (Some i)
      with assms(2) Tombstone have eq: "rs' = take i rs @ drop (Suc i) rs"
        "pos' = (\<lambda>k. map_option (\<lambda>p. if i < p then p - 1 else p) ((pos(key := None)) k))"
        by (auto simp: merge_step_def)
      from assms(1) Some have i: "i < length rs" by (auto simp: positions_ok_def)
      have "map_option (\<lambda>j. rs' ! j) (pos' k) = ((\<lambda>k. map_option (\<lambda>i. rs ! i) (pos k))(key := None)) k" for k
      proof (cases "k = key \<or> pos k = None")
        case False
        then obtain p where p: "pos k = Some p" "k \<noteq> key" by auto
        with assms(1) Some have "p < length rs" "p \<noteq> i" by (auto simp: positions_ok_def)
        with i p show ?thesis by (auto simp: eq nth_append min_def)
      qed (auto simp: eq)
      with positions_ok_remove [OF assms(1) Some] show ?thesis by (simp add: Tombstone eq)
    qed
  qed
  moreover have "keyed (rid E) rs = (\<lambda>k. map_option (\<lambda>i. rs ! i) (pos k))"
    by (rule ext) (rule positions_ok_keyed [OF assms(1)])
  ultimately have "positions_ok E rs' pos'" "\<forall>k. map_option (\<lambda>i. rs' ! i) (pos' k) = apply_entry E (keyed (rid E) rs) e k"
    by (simp_all only:) blast+
  then show "positions_ok E rs' pos'" "keyed (rid E) rs' = apply_entry E (keyed (rid E) rs) e"
    using positions_ok_keyed [of E rs' pos'] by (simp_all add: fun_eq_iff)
qed

lemma positions_ok_init:
  assumes "distinct (map (rid E) rs)"
  shows "positions_ok E rs (map_of (rev (map (\<lambda>(i, r). (rid E r, i)) (enumerate 0 rs))))"
proof -
  have inj: "rid E (rs ! a) = rid E (rs ! b) \<Longrightarrow> a < length rs \<Longrightarrow> b < length rs \<Longrightarrow> a = b" for a b
    using assms by (simp add: distinct_conv_nth) metis
  let ?l = "rev (map (\<lambda>(i, r). (rid E r, i)) (enumerate 0 rs))"
  have mem: "(k, i) \<in> set ?l \<longleftrightarrow> i < length rs \<and> rid E (rs ! i) = k" for k i
    by (auto simp: in_set_enumerate_eq image_iff intro!: bexI [of _ "(i, rs ! i)"])
  show ?thesis
    unfolding positions_ok_def
  proof (intro allI iffI)
    fix k i assume "map_of ?l k = Some i"
    then show "i < length rs \<and> rid E (rs ! i) = k" using mem by (blast dest: map_of_SomeD)
  next
    fix k i assume "i < length rs \<and> rid E (rs ! i) = k"
    then show "map_of ?l k = Some i" using mem inj by (intro map_of_only) blast+
  qed
qed

lemma merge_log_ok:
  assumes "distinct (map (rid E) base)"
  shows "distinct (map (rid E) (merge_log E base es))"
    and "keyed (rid E) (merge_log E base es) = foldl (apply_entry E) (keyed (rid E) base) es"
proof -
  let ?fold = "\<lambda>es. foldl (merge_step E) (base, map_of (rev (map (\<lambda>(i, r). (rid E r, i)) (enumerate 0 base)))) es"
  have "positions_ok E (fst (?fold es)) (snd (?fold es)) \<and>
      keyed (rid E) (fst (?fold es)) = foldl (apply_entry E) (keyed (rid E) base) es"
  proof (induction es rule: rev_induct)
    case Nil
    then show ?case using positions_ok_init [OF assms] by simp
  next
    case (snoc e es)
    obtain rs pos where st: "?fold es = (rs, pos)" by (cases "?fold es")
    obtain rs' pos' where st': "merge_step E (rs, pos) e = (rs', pos')" by (cases "merge_step E (rs, pos) e")
    from snoc st merge_step_ok [OF _ st'] show ?case by (simp add: st')
  qed
  then show "distinct (map (rid E) (merge_log E base es))"
    "keyed (rid E) (merge_log E base es) = foldl (apply_entry E) (keyed (rid E) base) es"
    using assms positions_ok_distinct by (auto simp: merge_log_def)
qed

section \<open>Construction\<close>

lemma bucket_build_index:
  "bucket (build_index E rs) iv = map (rid E) (filter (\<lambda>r. indexed_value E r = iv) rs)"
  by (induction rs rule: rev_induct) (auto simp: build_index_def bucket_simps)

lemma map_of_build_records:
  "distinct (map (rid E) rs) \<Longrightarrow> map_of (build_records E rs) = keyed (rid E) rs"
  by (simp add: build_records_def fun_eq_iff map_of_hm_collect keyed_rev)

lemma index_ok_build:
  assumes "distinct (map (rid E) rs)"
  shows "index_ok E (build_records E rs) (build_index E rs)"
  unfolding index_ok_def map_of_build_records [OF assms] bucket_build_index
proof (intro allI conjI)
  fix iv
  show "distinct (map (rid E) (filter (\<lambda>r. indexed_value E r = iv) rs))"
    using assms by (simp add: distinct_map_filter)
  show "set (map (rid E) (filter (\<lambda>r. indexed_value E r = iv) rs)) =
      {k. \<exists>r. keyed (rid E) rs k = Some r \<and> indexed_value E r = iv}"
    using keyed_distinct [OF assms] by (auto dest: keyed_SomeD)
qed

lemma map_of_enumerate_ids:
  assumes "distinct (map (rid E) rs)"
  shows "map_of (enumerate_ids E rs) k = Some p \<longleftrightarrow> p < length rs \<and> rid E (rs ! p) = k"
  using positions_ok_init [OF assms]
  by (simp add: enumerate_ids_def map_of_hm_collect positions_ok_def)

section \<open>Operations\<close>

locale mmap_layer = record_laws E + slot_codecs "id_field E" "val_field E"
  for E :: "('id, 'iv, 'sv, 'r) store_env"
begin

lemma rep_get:
  assumes "ms_rep E ss s"
  shows "ms_get E s i = Some (ms_map E s i)"
    and "ms_map E s i = (case map_of (ms_records s) i of None \<Rightarrow> None | Some r \<Rightarrow>
      (case map_of (ms_position_index s) i of None \<Rightarrow> None | Some p \<Rightarrow>
        set_scannable_value E r (fst (snd (ss ! p)))))"
proof -
  from assms have fl: "ms_file s = slot_image (id_field E) (val_field E) ss"
    and pos: "\<And>i p. map_of (ms_position_index s) i = Some p \<Longrightarrow> \<exists>v. committed_at ss p i v"
    and valid: "slots_valid E ss"
    by (auto simp: ms_rep_def)
  show "ms_get E s i = Some (ms_map E s i)"
  proof (cases "\<exists>r p. map_of (ms_records s) i = Some r \<and> map_of (ms_position_index s) i = Some p")
    case True
    then obtain r p where rp: "map_of (ms_records s) i = Some r" "map_of (ms_position_index s) i = Some p" by blast
    from pos [OF rp(2)] obtain v where v: "committed_at ss p i v" by blast
    with valid have "set_scannable_value E r v \<noteq> None" by (simp add: slots_valid_def)
    with rp v show ?thesis by (auto simp: ms_map_def ms_get_def fl committed_at_def)
  next
    case False
    then show ?thesis by (auto simp: ms_map_def ms_get_def split: option.splits)
  qed
  show "ms_map E s i = (case map_of (ms_records s) i of None \<Rightarrow> None | Some r \<Rightarrow>
      (case map_of (ms_position_index s) i of None \<Rightarrow> None | Some p \<Rightarrow>
        set_scannable_value E r (fst (snd (ss ! p)))))"
    using pos [of i]
    by (auto simp: ms_map_def ms_get_def fl committed_at_def split: option.splits)
qed

lemma rep_lookup:
  assumes "ms_rep E ss s" and "map_of (ms_records s) i = Some r"
  obtains p v where "map_of (ms_position_index s) i = Some p" "committed_at ss p i v"
    "ms_map E s i = set_scannable_value E r v" "ms_map E s i \<noteq> None"
proof -
  from assms have "i \<in> dom (map_of (ms_position_index s))"
    unfolding ms_rep_def by (metis domI)
  then obtain p where p: "map_of (ms_position_index s) i = Some p" by blast
  with assms(1) obtain v where v: "committed_at ss p i v" by (auto simp: ms_rep_def)
  have "ms_map E s i = set_scannable_value E r v"
    using rep_get(2) [OF assms(1), of i] assms(2) p v by (simp add: committed_at_def)
  moreover have "set_scannable_value E r v \<noteq> None"
    using assms(1) v by (auto simp: ms_rep_def slots_valid_def)
  ultimately show ?thesis by (intro that [OF p v]) simp_all
qed

lemma rep_dom:
  assumes "ms_rep E ss s"
  shows "dom (ms_map E s) = dom (map_of (ms_records s))"
proof -
  have "ms_map E s i = None \<longleftrightarrow> map_of (ms_records s) i = None" for i
  proof (cases "map_of (ms_records s) i")
    case (Some r)
    then show ?thesis using rep_lookup [OF assms Some] by (metis option.distinct(1))
  qed (simp add: rep_get(2) [OF assms])
  then show ?thesis by (auto simp: dom_def)
qed

lemma rep_map_indexed:
  assumes "ms_rep E ss s" and "ms_map E s i = Some r'"
  shows "rid E r' = i" and "\<exists>r. map_of (ms_records s) i = Some r \<and> indexed_value E r' = indexed_value E r"
proof -
  from assms(2) rep_dom [OF assms(1)] obtain r where r: "map_of (ms_records s) i = Some r" by blast
  from rep_lookup [OF assms(1) r] assms(2) obtain v where "set_scannable_value E r v = Some r'" by metis
  note f = set_frame [OF this]
  moreover have "rid E r = i" using assms(1) r by (auto simp: ms_rep_def)
  ultimately show "rid E r' = i" "\<exists>r. map_of (ms_records s) i = Some r \<and> indexed_value E r' = indexed_value E r"
    using r by auto
qed

lemma rep_unique: "ms_rep E ss s \<Longrightarrow> unique_slots ss"
  unfolding ms_rep_def unique_slots_def by (metis option.inject)

text \<open>Reads.\<close>

lemma rep_filter_eq:
  assumes "ms_rep E ss s"
  shows "distinct (ms_filter_eq s iv)"
    and "set (ms_filter_eq s iv) = {i. \<exists>r. ms_map E s i = Some r \<and> indexed_value E r = iv}"
proof -
  from assms have ix: "index_ok E (ms_records s) (ms_index s)" by (simp add: ms_rep_def)
  then show "distinct (ms_filter_eq s iv)" by (simp add: ms_filter_eq_def index_ok_def)
  have "(\<exists>r. map_of (ms_records s) i = Some r \<and> indexed_value E r = iv) \<longleftrightarrow>
      (\<exists>r. ms_map E s i = Some r \<and> indexed_value E r = iv)" for i
  proof (cases "ms_map E s i")
    case None
    then have "map_of (ms_records s) i = None" using rep_dom [OF assms] by blast
    with None show ?thesis by simp
  next
    case (Some r')
    with rep_map_indexed(2) [OF assms Some] show ?thesis by auto
  qed
  with ix show "set (ms_filter_eq s iv) = {i. \<exists>r. ms_map E s i = Some r \<and> indexed_value E r = iv}"
    by (simp add: ms_filter_eq_def index_ok_def)
qed

lemma rep_positions:
  assumes "ms_rep E ss s"
  shows "mset (map snd (ms_position_index s)) = mset_set {p. \<exists>i v. committed_at ss p i v}"
    and "length (ms_position_index s) = card {p. \<exists>i v. committed_at ss p i v}"
    and "set (map snd (ms_position_index s)) = {p. \<exists>i v. committed_at ss p i v}"
proof -
  from assms have wf: "distinct (map fst (ms_position_index s))"
    and pos: "\<And>i p. map_of (ms_position_index s) i = Some p \<longleftrightarrow> (\<exists>v. committed_at ss p i v)"
    by (auto simp: ms_rep_def hm_wf_def)
  have "inj_on snd (set (ms_position_index s))"
  proof (rule inj_onI)
    fix a b assume ab: "a \<in> set (ms_position_index s)" "b \<in> set (ms_position_index s)" "snd a = snd b"
    then obtain v w where "committed_at ss (snd a) (fst a) v" "committed_at ss (snd a) (fst b) w"
      using pos wf by (metis map_of_eq_Some_iff prod.collapse)
    then show "a = b" using ab(3) by (auto simp: committed_at_def prod_eq_iff)
  qed
  moreover have "distinct (ms_position_index s)" using wf by (simp add: distinct_map)
  ultimately have d: "distinct (map snd (ms_position_index s))" by (simp add: distinct_map)
  show st: "set (map snd (ms_position_index s)) = {p. \<exists>i v. committed_at ss p i v}"
    using pos wf by (auto simp: image_iff) (metis map_of_eq_Some_iff snd_conv)+
  from st d show "mset (map snd (ms_position_index s)) = mset_set {p. \<exists>i v. committed_at ss p i v}"
    "length (ms_position_index s) = card {p. \<exists>i v. committed_at ss p i v}"
    by (metis mset_set_set, metis distinct_card length_map)
qed

lemma image_chunks:
  "map (\<lambda>slot. read_le (val_field E) (bytes_at (byte_width (id_field E)) (byte_width (val_field E)) slot))
     (chunks (slot_width (id_field E) (val_field E)) (length ss)
       (concat (map (slot_chunk (id_field E) (val_field E)) ss))) = map (\<lambda>(i, v, m). v) ss"
proof (induction ss)
  case (Cons a ss)
  obtain i v m where a: "a = (i, v, m)" by (cases a)
  have "read_le (val_field E) (bytes_at (byte_width (id_field E)) (byte_width (val_field E))
      (slot_chunk (id_field E) (val_field E) a)) = v"
    by (simp add: a slot_chunk_def bytes_at_def idc.write_width valc.write_width valc.read_write)
  with Cons show ?case by (simp add: a)
qed simp

text \<open>Both paths of \<open>scan\<close> give the values of the live records, each once.\<close>

lemma rep_scan:
  assumes "ms_rep E ss s"
  shows "mset (ms_scan E s) = image_mset (\<lambda>p. fst (snd (ss ! p))) (mset (map snd (ms_position_index s)))"
proof -
  from assms have fl: "ms_file s = slot_image (id_field E) (val_field E) ss" by (simp add: ms_rep_def)
  let ?C = "{p. \<exists>i v. committed_at ss p i v}"
  have sub: "?C \<subseteq> {..<length ss}" by (auto simp: committed_at_def)
  note pos = rep_positions [OF assms]
  show ?thesis
  proof (cases "ms_is_gapless E s")
    case True
    then have "card ?C = length ss" by (simp add: ms_is_gapless_def fl pos(2))
    then have "?C = {..<length ss}" using card_subset_eq [OF _ sub] by simp
    then have "mset (map snd (ms_position_index s)) = mset [0..<length ss]"
      by (simp only: pos(1) lessThan_atLeast0 mset_upt)
    moreover have "ms_scan E s = map (\<lambda>(i, v, m). v) ss"
    proof -
      have "drop slot_header_len (ms_file s) = concat (map (slot_chunk (id_field E) (val_field E)) ss)"
        by (simp add: fl slot_image_def length_slot_file_header [symmetric])
      moreover have "length (concat (map (slot_chunk (id_field E) (val_field E)) ss)) div
          slot_width (id_field E) (val_field E) = length ss"
        using length_concat_chunks [OF chunks_uniform, of ss] width_gt_0 by simp
      ultimately show ?thesis using True image_chunks [of ss] by (simp add: ms_scan_def Let_def)
    qed
    moreover have "map (\<lambda>(i, v, m). v) ss = map (\<lambda>p. fst (snd (ss ! p))) [0..<length ss]"
      by (intro nth_equalityI) (auto split: prod.split)
    ultimately show ?thesis by simp
  next
    case False
    have "\<forall>p \<in> set (map snd (ms_position_index s)). p < length ss"
      unfolding pos(3) using sub by auto
    then have "map (read_value (id_field E) (val_field E) (ms_file s)) (sort (map snd (ms_position_index s))) =
        map (\<lambda>p. fst (snd (ss ! p))) (sort (map snd (ms_position_index s)))"
      by (simp add: fl)
    with False have "ms_scan E s = map (\<lambda>p. fst (snd (ss ! p))) (sort (map snd (ms_position_index s)))"
      unfolding ms_scan_def by (simp only: if_False)
    then show ?thesis by (simp only: mset_map mset_sort)
  qed
qed

end

end
