(* ===== verification/Mmap_Writes.thy ===== *)
theory Mmap_Writes
  imports Mmap_Laws
begin

text \<open>
  The writes of \<open>GenericMmapStore\<close>: each keeps \<open>ms_rep\<close> and \<open>ms_durable\<close> and does to \<open>ms_map\<close> what
  its name says; a refused one changes nothing.
\<close>

lemma apply_entry_same_but_scan:
  "same_but_scan E (m k) (m' k) \<Longrightarrow> same_but_scan E (apply_entry E m e k) (apply_entry E m' e k)"
  by (cases e) auto

lemma durable_append:
  assumes "ms_durable E base es s"
    and "ms_blob s' = ms_blob s"
    and "ms_log s' = log_of (rec_codec E) (key_codec E) (schema_tag E) (es @ [e])"
    and "map_of (ms_records s') = apply_entry E (map_of (ms_records s)) e"
    and "entry_ok (rec_codec E) (key_codec E) e"
  shows "ms_durable E base (es @ [e]) s'"
proof -
  from assms(1) have d: "distinct (map (rid E) base)"
    and k: "\<And>k. same_but_scan E (keyed (rid E) (merge_log E base es) k) (map_of (ms_records s) k)"
    by (auto simp: ms_durable_def)
  have "same_but_scan E (keyed (rid E) (merge_log E base (es @ [e])) k) (map_of (ms_records s') k)" for k
    using apply_entry_same_but_scan [of E "keyed (rid E) (merge_log E base es)" k "map_of (ms_records s)" e] k
    by (simp add: merge_log_ok(2) [OF d] assms(4))
  with assms d show ?thesis by (simp add: ms_durable_def)
qed

lemma durable_frame:
  assumes "ms_durable E base es s" "ms_blob s' = ms_blob s" "ms_log s' = ms_log s" "ms_records s' = ms_records s"
  shows "ms_durable E base es s'"
  using assms by (simp add: ms_durable_def)

context mmap_layer
begin

lemma rep_map_Some:
  assumes "ms_rep E ss s" "map_of (ms_records s) i = Some r" "committed_at ss p i v"
  shows "ms_map E s i = set_scannable_value E r v"
proof -
  have "map_of (ms_position_index s) i = Some p" using assms(1,3) by (auto simp: ms_rep_def)
  then show ?thesis
    using rep_get(2) [OF assms(1), of i] assms(2,3) by (simp add: committed_at_def)
qed

lemma rep_map_None: "ms_rep E ss s \<Longrightarrow> map_of (ms_records s) i = None \<Longrightarrow> ms_map E s i = None"
  using rep_get(2) [of ss s i] by simp

lemma rep_committed:
  assumes "ms_rep E ss s" "map_of (ms_records s) i = Some r"
  shows "\<exists>p v. committed_at ss p i v \<and> p < length ss \<and> map_of (ms_position_index s) i = Some p"
proof (rule rep_lookup [OF assms])
  fix p v assume "map_of (ms_position_index s) i = Some p" "committed_at ss p i v"
  then show ?thesis by (auto simp: committed_at_def)
qed

lemma rep_not_committed:
  "ms_rep E ss s \<Longrightarrow> map_of (ms_records s) i = None \<Longrightarrow> \<not> committed_at ss p i v"
  unfolding ms_rep_def by (metis domI domIff)

lemma entry_ok_Item: "encodes_small (rec_codec E) r \<Longrightarrow> entry_ok (rec_codec E) (key_codec E) (Item r)"
  by (simp add: entry_ok_def entry_payload_def encodes_small_def)

lemma entry_ok_Tombstone: "serial_ok E \<Longrightarrow> entry_ok (rec_codec E) (key_codec E) (Tombstone k)"
  by (auto simp: serial_ok_def entry_ok_def entry_payload_def encodes_small_def)

lemma log_item_ok:
  assumes "encodes_small (rec_codec E) r" and "ms_log s = log_of (rec_codec E) (key_codec E) (schema_tag E) es"
  shows "ms_log_item E s r = Ok (s\<lparr>ms_log := log_of (rec_codec E) (key_codec E) (schema_tag E) (es @ [Item r])\<rparr>)"
  using append_item_log_of [OF entry_ok_Item [OF assms(1)], of "schema_tag E" es]
  by (simp add: ms_log_item_def assms(2) log_of_Some)

lemma log_tombstone_ok:
  assumes "serial_ok E"
  shows "append_tombstone (key_codec E) (schema_tag E) k (log_of (rec_codec E) (key_codec E) (schema_tag E) es) =
     Ok (the (log_of (rec_codec E) (key_codec E) (schema_tag E) (es @ [Tombstone k])))"
  by (rule append_tombstone_log_of [OF entry_ok_Tombstone [OF assms]])

subsection \<open>Insert\<close>

lemma insert_duplicate:
  "map_of (ms_records s) (rid E r) \<noteq> None \<Longrightarrow> ms_insert E s r = Err (InsDuplicate (rid E r))"
  by (simp add: ms_insert_def)

lemma insert_new:
  assumes rep: "ms_rep E ss s" and dur: "ms_durable E base es s" and ser: "encodes_small (rec_codec E) r"
    and fresh: "map_of (ms_records s) (rid E r) = None"
  shows "\<exists>s'. ms_insert E s r = Ok s' \<and> ms_rep E (ss @ [(rid E r, scannable_value E r, committed_marker)]) s' \<and>
     ms_durable E base (es @ [Item r]) s' \<and> ms_map E s' = (ms_map E s)(rid E r \<mapsto> r)"
proof -
  let ?k = "rid E r" and ?n = "length ss"
  let ?ss = "ss @ [(?k, scannable_value E r, committed_marker)]"
  let ?log = "log_of (rec_codec E) (key_codec E) (schema_tag E) (es @ [Item r])"
  let ?s = "s\<lparr>ms_log := ?log, ms_file := slot_image (id_field E) (val_field E) ?ss,
     ms_index := bucket_push (indexed_value E r) ?k (ms_index s),
     ms_position_index := AList.update ?k ?n (ms_position_index s),
     ms_records := AList.update ?k r (ms_records s)\<rparr>"
  from rep have fl: "ms_file s = slot_image (id_field E) (val_field E) ss"
    and ix: "index_ok E (ms_records s) (ms_index s)" by (auto simp: ms_rep_def)
  have "ms_log s = log_of (rec_codec E) (key_codec E) (schema_tag E) es" using dur by (simp add: ms_durable_def)
  then have ins: "ms_insert E s r = Ok ?s"
    using fresh append_image [of ss "[(?k, scannable_value E r)]"]
    by (simp add: ms_insert_def log_item_ok [OF ser] fl Let_def)
  note nc = rep_not_committed [OF rep fresh]
  have pos: "map_of (ms_position_index ?s) i = Some p \<longleftrightarrow> (\<exists>v. committed_at ?ss p i v)" for i p
    using rep nc by (auto simp: ms_rep_def update_conv' committed_at_snoc)
  have "index_ok E (ms_records ?s) (ms_index ?s)"
    using ix fresh by (auto simp: index_ok_def bucket_simps update_conv')
  moreover have "slots_valid E ?ss"
    using rep valid_scannable [of r]
    by (auto simp: ms_rep_def slots_valid_def committed_at_append committed_at_singleton valid_value_def)
  moreover have "dom (map_of (ms_records ?s)) = dom (map_of (ms_position_index ?s))"
    using rep by (simp add: ms_rep_def update_conv')
  ultimately have rep': "ms_rep E ?ss ?s"
    using rep pos by (auto simp: ms_rep_def update_conv' split: if_splits)
  have "ms_durable E base (es @ [Item r]) ?s"
    by (rule durable_append [OF dur]) (simp_all add: update_conv' fun_eq_iff entry_ok_Item ser)
  moreover have "ms_map E ?s i = ((ms_map E s)(?k \<mapsto> r)) i" for i
  proof (cases "i = ?k")
    case True
    have "committed_at ?ss ?n ?k (scannable_value E r)" by (simp add: committed_at_def)
    from rep_map_Some [OF rep' _ this, of r] True show ?thesis by (simp add: update_conv' set_same)
  next
    case False
    show ?thesis
    proof (cases "map_of (ms_records s) i")
      case None
      with False rep_map_None [OF rep None] rep_map_None [OF rep', of i] show ?thesis by (simp add: update_conv')
    next
      case (Some q)
      obtain p v where "committed_at ss p i v" using rep_committed [OF rep Some] by blast
      with rep_map_Some [OF rep Some] rep_map_Some [OF rep', of i q p v] False Some show ?thesis
        by (simp add: update_conv' committed_at_append)
    qed
  qed
  ultimately show ?thesis using ins rep' by (intro exI [of _ ?s]) (simp add: fun_eq_iff)
qed

subsection \<open>Update of the scannable field\<close>

text \<open>A slot overwritten in place with a valid value, under any records that agree on ids and index.\<close>

lemma rep_slot_write:
  assumes rep: "ms_rep E ss s" and p: "map_of (ms_position_index s) k = Some p" and v: "valid_value v"
  shows "write_value (id_field E) (val_field E) (ms_file s) p v =
      slot_image (id_field E) (val_field E) (ss[p := (k, v, committed_marker)])"
    and "p < length ss"
    and "\<And>q i. (\<exists>w. committed_at (ss[p := (k, v, committed_marker)]) q i w) \<longleftrightarrow> (\<exists>w. committed_at ss q i w)"
    and "slots_valid E (ss[p := (k, v, committed_marker)])"
    and "\<And>q i w. i \<noteq> k \<Longrightarrow> committed_at ss q i w \<Longrightarrow> committed_at (ss[p := (k, v, committed_marker)]) q i w"
    and "committed_at (ss[p := (k, v, committed_marker)]) p k v"
proof -
  from rep p obtain w where w: "committed_at ss p k w" by (auto simp: ms_rep_def)
  then show pl: "p < length ss" by (simp add: committed_at_def)
  from rep have fl: "ms_file s = slot_image (id_field E) (val_field E) ss" by (simp add: ms_rep_def)
  show "write_value (id_field E) (val_field E) (ms_file s) p v =
      slot_image (id_field E) (val_field E) (ss[p := (k, v, committed_marker)])"
    unfolding fl by (rule write_value_image [OF pl]) (use w in \<open>simp add: committed_at_def\<close>)
  show "(\<exists>w. committed_at (ss[p := (k, v, committed_marker)]) q i w) \<longleftrightarrow> (\<exists>w. committed_at ss q i w)" for q i
    using w by (cases "q = p") (auto simp: committed_at_update [OF pl], auto simp: committed_at_def)
  show "slots_valid E (ss[p := (k, v, committed_marker)])"
    using rep v by (auto simp: ms_rep_def slots_valid_def committed_at_update [OF pl] valid_value_def)
  show "i \<noteq> k \<Longrightarrow> committed_at ss q i w \<Longrightarrow> committed_at (ss[p := (k, v, committed_marker)]) q i w" for q i w
    using \<open>committed_at ss p k _\<close> by (auto simp: committed_at_update [OF pl]) (auto simp: committed_at_def)
  show "committed_at (ss[p := (k, v, committed_marker)]) p k v"
    using pl by (simp add: committed_at_def)
qed

lemma update_unknown:
  assumes "ms_rep E ss s" "map_of (ms_records s) k = None"
  shows "ms_update E s k v = Err (NotFound k)"
proof -
  have "map_of (ms_position_index s) k = None" using assms unfolding ms_rep_def by (metis domIff)
  then show ?thesis by (simp add: ms_update_def)
qed

lemma update_known:
  assumes rep: "ms_rep E ss s" and dur: "ms_durable E base es s" and r: "map_of (ms_records s) k = Some r"
    and v: "valid_value v"
  shows "\<exists>s' ss'. ms_update E s k v = Ok s' \<and> ms_rep E ss' s' \<and> ms_durable E base es s' \<and>
     ms_map E s' = (ms_map E s)(k := set_scannable_value E r v)"
proof -
  obtain p w where p: "map_of (ms_position_index s) k = Some p" using rep_committed [OF rep r] by blast
  note sw = rep_slot_write [OF rep p v]
  let ?ss = "ss[p := (k, v, committed_marker)]"
  let ?s = "s\<lparr>ms_file := slot_image (id_field E) (val_field E) ?ss\<rparr>"
  have upd: "ms_update E s k v = Ok ?s" by (simp add: ms_update_def p sw(1))
  have rep': "ms_rep E ?ss ?s"
    using rep sw(3,4) unfolding ms_rep_def by simp
  have "ms_map E ?s i = ((ms_map E s)(k := set_scannable_value E r v)) i" for i
  proof (cases "map_of (ms_records s) i")
    case None
    with rep_map_None [OF rep None] rep_map_None [OF rep', of i] r show ?thesis by auto
  next
    case (Some q)
    show ?thesis
    proof (cases "i = k")
      case True
      with rep_map_Some [OF rep', of k r, OF _ sw(6)] r show ?thesis by simp
    next
      case False
      obtain pq w where c: "committed_at ss pq i w" using rep_committed [OF rep Some] by blast
      with sw(5) [OF False c] rep_map_Some [OF rep Some c] rep_map_Some [OF rep', of i q pq w] Some False
      show ?thesis by simp
    qed
  qed
  moreover have "ms_durable E base es ?s" by (rule durable_frame [OF dur]) simp_all
  ultimately show ?thesis using upd rep' by (intro exI [of _ ?s] exI [of _ ?ss]) (simp add: fun_eq_iff)
qed

subsection \<open>Replace\<close>

lemma replace_unknown: "map_of (ms_records s) (rid E r) = None \<Longrightarrow> ms_replace E s r = Err (RepNotFound (rid E r))"
  by (simp add: ms_replace_def)

lemma index_ok_move:
  assumes ix: "index_ok E recs ix" and old: "map_of recs k = Some old" and "rid E r = k"
  shows "index_ok E (AList.update k r recs)
     (if indexed_value E old \<noteq> indexed_value E r
      then bucket_push (indexed_value E r) k (bucket_drop (indexed_value E old) k ix) else ix)"
  using ix old unfolding index_ok_def
  by (auto simp: bucket_simps update_conv')

lemma replace_known:
  assumes rep: "ms_rep E ss s" and dur: "ms_durable E base es s" and ser: "encodes_small (rec_codec E) r"
    and old: "map_of (ms_records s) (rid E r) = Some old"
  shows "\<exists>s' ss'. ms_replace E s r = Ok s' \<and> ms_rep E ss' s' \<and> ms_durable E base (es @ [Item r]) s' \<and>
     ms_map E s' = (ms_map E s)(rid E r \<mapsto> r)"
proof -
  let ?k = "rid E r"
  obtain p w where p: "map_of (ms_position_index s) ?k = Some p" using rep_committed [OF rep old] by blast
  note sw = rep_slot_write [OF rep p valid_scannable [of r]]
  let ?ss = "ss[p := (?k, scannable_value E r, committed_marker)]"
  let ?ix = "if indexed_value E old \<noteq> indexed_value E r
      then bucket_push (indexed_value E r) ?k (bucket_drop (indexed_value E old) ?k (ms_index s)) else ms_index s"
  let ?log = "log_of (rec_codec E) (key_codec E) (schema_tag E) (es @ [Item r])"
  let ?s = "s\<lparr>ms_log := ?log, ms_file := slot_image (id_field E) (val_field E) ?ss, ms_index := ?ix,
     ms_records := AList.update ?k r (ms_records s)\<rparr>"
  have lg: "ms_log s = log_of (rec_codec E) (key_codec E) (schema_tag E) es" using dur by (simp add: ms_durable_def)
  have wv: "write_value (id_field E) (val_field E) (ms_file s) p (scannable_value E r) =
      slot_image (id_field E) (val_field E) ?ss" by (rule sw(1))
  have upd: "ms_replace E s r = Ok ?s"
    using log_item_ok [OF ser lg] by (simp add: ms_replace_def old p wv Let_def)
  have "index_ok E (AList.update ?k r (ms_records s)) ?ix"
    by (rule index_ok_move [OF _ old]) (use rep in \<open>simp_all add: ms_rep_def\<close>)
  moreover have "dom (map_of (AList.update ?k r (ms_records s))) = dom (map_of (ms_position_index s))"
    using rep old by (auto simp: ms_rep_def update_conv' insert_absorb domI)
  ultimately have rep': "ms_rep E ?ss ?s"
    using rep sw(3,4) unfolding ms_rep_def by (auto simp: update_conv' split: if_splits)
  have "ms_map E ?s i = ((ms_map E s)(?k \<mapsto> r)) i" for i
  proof (cases "i = ?k")
    case True
    with rep_map_Some [OF rep', of ?k r, OF _ sw(6)] show ?thesis by (simp add: update_conv' set_same)
  next
    case False
    show ?thesis
    proof (cases "map_of (ms_records s) i")
      case None
      with False rep_map_None [OF rep None] rep_map_None [OF rep', of i] show ?thesis by (simp add: update_conv')
    next
      case (Some q)
      obtain pq w where c: "committed_at ss pq i w" using rep_committed [OF rep Some] by blast
      with sw(5) [OF False c] rep_map_Some [OF rep Some c] rep_map_Some [OF rep', of i q pq w] Some False
      show ?thesis by (simp add: update_conv')
    qed
  qed
  moreover have "ms_durable E base (es @ [Item r]) ?s"
    by (rule durable_append [OF dur]) (simp_all add: update_conv' fun_eq_iff entry_ok_Item ser)
  ultimately show ?thesis using upd rep' by (intro exI [of _ ?s] exI [of _ ?ss]) (simp add: fun_eq_iff)
qed

subsection \<open>Delete\<close>

lemma delete_unknown: "map_of (ms_records s) k = None \<Longrightarrow> ms_delete E s k = Err (DelNotFound k)"
  by (simp add: ms_delete_def)

lemma delete_known:
  assumes rep: "ms_rep E ss s" and dur: "ms_durable E base es s" and ser: "serial_ok E"
    and r: "map_of (ms_records s) k = Some r"
  shows "\<exists>s' ss'. ms_delete E s k = Ok s' \<and> ms_rep E ss' s' \<and> ms_durable E base (es @ [Tombstone k]) s' \<and>
     ms_map E s' = (ms_map E s)(k := None)"
proof -
  obtain p v where p: "map_of (ms_position_index s) k = Some p" "committed_at ss p k v" "p < length ss"
    using rep_committed [OF rep r] by blast
  let ?ss = "ss[p := (k, v, 0)]"
  let ?log = "log_of (rec_codec E) (key_codec E) (schema_tag E) (es @ [Tombstone k])"
  let ?s = "s\<lparr>ms_log := ?log, ms_file := slot_image (id_field E) (val_field E) ?ss,
     ms_index := bucket_drop (indexed_value E r) k (ms_index s),
     ms_position_index := AList.delete k (ms_position_index s),
     ms_records := AList.delete k (ms_records s)\<rparr>"
  from rep have fl: "ms_file s = slot_image (id_field E) (val_field E) ss" by (simp add: ms_rep_def)
  have lg: "ms_log s = log_of (rec_codec E) (key_codec E) (schema_tag E) es" using dur by (simp add: ms_durable_def)
  have "clear_marker (id_field E) (val_field E) (ms_file s) p = slot_image (id_field E) (val_field E) ?ss"
    unfolding fl by (rule clear_marker_image [OF p(3)]) (use p(2) in \<open>simp add: committed_at_def\<close>)
  then have upd: "ms_delete E s k = Ok ?s"
    by (simp add: ms_delete_def r p(1) lg log_tombstone_ok [OF ser] log_of_Some)
  have com: "committed_at ?ss q i w \<longleftrightarrow> q \<noteq> p \<and> committed_at ss q i w" for q i w
    by (simp add: committed_at_update [OF p(3)] committed_marker_def)
  have kp: "committed_at ss q k w \<Longrightarrow> q = p" for q w
    using rep_unique [OF rep] p(2) unfolding unique_slots_def by blast
  have ik: "committed_at ss p i w \<Longrightarrow> i = k" for i w
    using p(2) by (simp add: committed_at_def)
  have pos: "map_of (ms_position_index s) i = Some q \<longleftrightarrow> (\<exists>w. committed_at ss q i w)" for i q
    using rep by (simp add: ms_rep_def)
  have "map_of (ms_position_index ?s) i = Some q \<longleftrightarrow> (\<exists>w. committed_at ?ss q i w)" for i q
    using kp ik by (cases "i = k") (auto simp: delete_conv' com pos)
  moreover have "index_ok E (ms_records ?s) (ms_index ?s)"
    using rep r by (auto simp: ms_rep_def index_ok_def bucket_simps delete_conv')
  moreover have "slots_valid E ?ss" using rep by (auto simp: ms_rep_def slots_valid_def com)
  moreover have "dom (map_of (ms_records ?s)) = dom (map_of (ms_position_index ?s))"
    using rep by (simp add: ms_rep_def delete_conv')
  ultimately have rep': "ms_rep E ?ss ?s"
    using rep by (auto simp: ms_rep_def delete_conv' split: if_splits)
  have "ms_map E ?s i = ((ms_map E s)(k := None)) i" for i
  proof (cases "i = k \<or> map_of (ms_records s) i = None")
    case True
    with rep_map_None [OF rep, of i] rep_map_None [OF rep', of i] show ?thesis by (auto simp: delete_conv')
  next
    case False
    then obtain q where q: "map_of (ms_records s) i = Some q" "i \<noteq> k" by auto
    obtain pq w where c: "committed_at ss pq i w" using rep_committed [OF rep q(1)] by blast
    moreover have "pq \<noteq> p" using c p(2) q(2) by (auto simp: committed_at_def)
    ultimately show ?thesis
      using rep_map_Some [OF rep q(1)] rep_map_Some [OF rep', of i q pq w] q by (simp add: delete_conv' com)
  qed
  moreover have "ms_durable E base (es @ [Tombstone k]) ?s"
    by (rule durable_append [OF dur]) (simp_all add: delete_conv' fun_eq_iff entry_ok_Tombstone ser)
  ultimately show ?thesis using upd rep' by (intro exI [of _ ?s] exI [of _ ?ss]) (simp add: fun_eq_iff)
qed

end

end
