(* ===== verification/Mmap_Recovery.thy ===== *)
theory Mmap_Recovery
  imports Mmap_Writes
begin

text \<open>
  \<open>create\<close>, \<open>open\<close>, \<open>open_portable\<close> and \<open>compact\<close> of \<open>GenericMmapStore\<close>: what a reopen finds on any
  disk whose slots, blob and log are each intact, from which recovery after a clean stop and
  after a crash inside an insert, a delete, a replace or a compaction follows.
\<close>

section \<open>Slots by id\<close>

definition lookup_slot :: "('id, 'sv) slot list \<Rightarrow> 'id \<Rightarrow> (nat \<times> 'sv) option" where
  "lookup_slot ss = map_of (rev (live_slots 0 ss))"

lemma lookup_slot_iff:
  assumes "unique_slots ss"
  shows "lookup_slot ss i = Some (p, v) \<longleftrightarrow> committed_at ss p i v"
proof
  assume "lookup_slot ss i = Some (p, v)"
  then have "(i, p, v) \<in> set (live_slots 0 ss)"
    unfolding lookup_slot_def by (auto dest: map_of_SomeD)
  then show "committed_at ss p i v" by (simp add: set_live_slots committed_at_def)
next
  assume c: "committed_at ss p i v"
  show "lookup_slot ss i = Some (p, v)"
    unfolding lookup_slot_def
  proof (rule map_of_only)
    show "(i, p, v) \<in> set (rev (live_slots 0 ss))"
      using c by (simp add: set_live_slots committed_at_def)
    fix w assume "(i, w) \<in> set (rev (live_slots 0 ss))"
    then have "committed_at ss (fst w) i (snd w)"
      by (cases w) (simp add: set_live_slots committed_at_def)
    with assms c have "fst w = p" unfolding unique_slots_def by blast
    with c \<open>committed_at ss (fst w) i (snd w)\<close> show "w = (p, v)"
      by (simp add: committed_at_def prod_eq_iff)
  qed
qed

lemma lookup_slot_None: "unique_slots ss \<Longrightarrow> lookup_slot ss i = None \<longleftrightarrow> (\<forall>p v. \<not> committed_at ss p i v)"
  using lookup_slot_iff [of ss i] by (metis not_None_eq prod.collapse)

section \<open>Reconciliation\<close>

lemma reconcile_snd: "snd (reconcile E persisted rs) = filter (\<lambda>r. persisted (rid E r) = None) rs"
  by (induction rs rule: rev_induct) (auto simp: reconcile_def split: option.splits prod.splits)

lemma reconcile_fst:
  "hm_wf (fst (reconcile E persisted rs))"
  "map_of (fst (reconcile E persisted rs)) i =
     (if i \<in> rid E ` set rs then map_option fst (persisted i) else None)"
  by (induction rs rule: rev_induct)
    (auto simp: reconcile_def update_conv' split: option.splits prod.splits)

text \<open>The positions of the appended slots, folded into the index.\<close>

lemma appended_positions:
  "map_of (foldl (\<lambda>m (r, p). AList.update (rid E r) p m) pi (zip missing [n..<n + length missing])) i =
     (case map_of (rev (map (\<lambda>j. (rid E (missing ! j), n + j)) [0..<length missing])) i of
        None \<Rightarrow> map_of pi i | Some p \<Rightarrow> Some p)"
proof -
  let ?z = "map (\<lambda>j. (missing ! j, n + j)) [0..<length missing]"
  have z: "zip missing [n..<n + length missing] = ?z" by (rule nth_equalityI) simp_all
  have eq: "(\<lambda>m (r, p). AList.update (rid E r) p m) = (\<lambda>m x. AList.update (rid E (fst x)) (snd x) m)"
    by (simp add: fun_eq_iff)
  show ?thesis
    unfolding z eq map_of_foldl_update by (simp add: comp_def)
qed

lemma appended_positions_hit:
  assumes "distinct (map (rid E) missing)" "j < length missing" "rid E (missing ! j) = i"
  shows "map_of (foldl (\<lambda>m (r, p). AList.update (rid E r) p m) pi (zip missing [n..<n + length missing])) i = Some (n + j)"
proof -
  have "map_of (rev (map (\<lambda>j. (rid E (missing ! j), n + j)) [0..<length missing])) i = Some (n + j)"
  proof (rule map_of_only)
    show "(i, n + j) \<in> set (rev (map (\<lambda>j. (rid E (missing ! j), n + j)) [0..<length missing]))"
      using assms(2,3) by (auto simp: image_iff)
    fix w assume "(i, w) \<in> set (rev (map (\<lambda>j. (rid E (missing ! j), n + j)) [0..<length missing]))"
    then obtain q where "q < length missing" "rid E (missing ! q) = i" "w = n + q" by auto
    then show "w = n + j" using distinct_map_nthD [OF assms(1), of q j] assms(2,3) by simp
  qed
  then show ?thesis unfolding appended_positions by simp
qed

lemma appended_positions_miss:
  assumes "\<forall>j < length missing. rid E (missing ! j) \<noteq> i"
  shows "map_of (foldl (\<lambda>m (r, p). AList.update (rid E r) p m) pi (zip missing [n..<n + length missing])) i = map_of pi i"
proof -
  have "map_of (rev (map (\<lambda>j. (rid E (missing ! j), n + j)) [0..<length missing])) i = None"
    unfolding map_of_eq_None_iff using assms by auto
  then show ?thesis unfolding appended_positions by simp
qed

lemma hm_wf_appended:
  "hm_wf pi \<Longrightarrow> hm_wf (foldl (\<lambda>m (r, p). AList.update (rid E r) p m) pi z)"
  using hm_wf_foldl_update [of pi "\<lambda>x. rid E (fst x)" snd z] by (simp add: case_prod_unfold)

section \<open>Idempotence of the fold\<close>

lemma fold_entries_cases:
  "(\<exists>c. \<forall>m. foldl (apply_entry E) m es k = c) \<or> (\<forall>m. foldl (apply_entry E) m es k = m k)"
proof (induction es rule: rev_induct)
  case (snoc e es)
  show ?case
  proof (cases "\<exists>c. \<forall>m. apply_entry E m e k = c")
    case False
    then have "\<forall>m. apply_entry E m e k = m k" by (cases e) (auto split: if_splits)
    with snoc show ?thesis by simp
  qed auto
qed simp

lemma fold_entries_idem:
  "foldl (apply_entry E) (foldl (apply_entry E) m es) es = foldl (apply_entry E) m es"
proof
  fix k
  show "foldl (apply_entry E) (foldl (apply_entry E) m es) es k = foldl (apply_entry E) m es k"
    using fold_entries_cases [of E es k] by metis
qed

section \<open>Create\<close>

context mmap_layer
begin

lemma create_ok:
  assumes "serial_ok E" and d: "distinct (map (rid E) rs)"
  shows "\<exists>s ss. ms_create E rs = Ok s \<and> ms_rep E ss s \<and> ms_durable E rs [] s \<and> ms_map E s = keyed (rid E) rs"
proof -
  from assms(1) obtain body where "bc_encode (recs_codec E) rs = Some body"
    by (auto simp: serial_ok_def)
  then obtain blob where blob: "record_blob_encode (schema_tag E) (recs_codec E) rs = Inr blob"
    by (simp add: record_blob_encode_def tagged_encode_def)
  let ?ss = "map (\<lambda>r. (rid E r, scannable_value E r, committed_marker)) rs"
  let ?s = "\<lparr>ms_records = build_records E rs, ms_index = build_index E rs,
     ms_position_index = enumerate_ids E rs, ms_file = slot_image (id_field E) (val_field E) ?ss,
     ms_blob = Some blob, ms_log = None\<rparr>"
  have cr: "ms_create E rs = Ok ?s"
    by (simp add: ms_create_def blob create_image slot_pairs_def comp_def log_clear_def)
  have "dom (map_of (build_records E rs)) = dom (map_of (enumerate_ids E rs))"
  proof -
    have "i \<in> dom (map_of (enumerate_ids E rs)) \<longleftrightarrow> i \<in> rid E ` set rs" for i
      unfolding image_set_nth by (auto simp: map_of_enumerate_ids [OF d] dom_def)
    then show ?thesis by (auto simp: map_of_build_records [OF d] dom_keyed)
  qed
  moreover have "map_of (enumerate_ids E rs) i = Some p \<longleftrightarrow> (\<exists>v. committed_at ?ss p i v)" for i p
    using map_of_enumerate_ids [OF d, of i p] by (auto simp: committed_at_def)
  moreover have "slots_valid E ?ss"
    using valid_scannable by (auto simp: slots_valid_def committed_at_def valid_value_def)
  moreover have "hm_wf (build_records E rs)" "hm_wf (enumerate_ids E rs)"
    by (simp_all add: build_records_def enumerate_ids_def)
  moreover have "\<forall>k r. keyed (rid E) rs k = Some r \<longrightarrow> rid E r = k" by (blast dest: keyed_SomeD)
  ultimately have rep: "ms_rep E ?ss ?s"
    using index_ok_build [OF d] by (simp add: ms_rep_def map_of_build_records [OF d])
  have "ms_map E ?s i = keyed (rid E) rs i" for i
  proof (cases "keyed (rid E) rs i")
    case None
    with rep_map_None [OF rep, of i] show ?thesis by (simp add: map_of_build_records [OF d])
  next
    case (Some r)
    then obtain p where "p < length rs" "rs ! p = r" "rid E r = i"
      by (metis in_set_conv_nth keyed_SomeD)
    then have "committed_at ?ss p i (scannable_value E r)" by (simp add: committed_at_def)
    from rep_map_Some [OF rep _ this, of r] Some show ?thesis
      by (simp add: map_of_build_records [OF d] set_same)
  qed
  moreover have "ms_durable E rs [] ?s"
    using blob d by (simp add: ms_durable_def log_of_def merge_log_def map_of_build_records)
  ultimately show ?thesis using cr rep by (intro exI [of _ ?s] exI [of _ ?ss]) (simp add: fun_eq_iff)
qed

section \<open>Open\<close>

text \<open>Two record lists the blob's fingerprint tells apart.\<close>

definition told_apart :: "'r list \<Rightarrow> 'r list \<Rightarrow> bool" where
  "told_apart a b \<longleftrightarrow> (\<forall>x y. bc_encode (recs_codec E) a = Some x \<and> bc_encode (recs_codec E) b = Some y \<and>
     fnv1a64 x = fnv1a64 y \<longrightarrow> a = b)"

lemma open_general:
  assumes ser: "serial_ok E" and sl: "d_slots d = Some (slot_image (id_field E) (val_field E) ss)"
    and u: "unique_slots ss" and valid: "slots_valid E ss"
    and rd: "read_entries (rec_codec E) (key_codec E) (schema_tag E) (d_log d) = Ok es"
    and d0: "distinct (map (rid E) rs0)" and rs: "rs = merge_log E rs0 es"
  obtains s ss' where "ms_open E rs0 d = Ok s"
    "ms_records s = build_records E rs" "ms_index s = build_index E rs" "ms_log s = None"
    "ms_blob s = (if record_blob_is_current (schema_tag E) (recs_codec E) rs (d_blob d) then d_blob d
        else Some (case record_blob_encode (schema_tag E) (recs_codec E) rs of Inr b \<Rightarrow> b))"
    "ms_file s = slot_image (id_field E) (val_field E) ss'" "slots_valid E ss'" "hm_wf (ms_position_index s)"
    "\<And>i p. map_of (ms_position_index s) i = Some p \<longleftrightarrow> i \<in> rid E ` set rs \<and> (\<exists>v. committed_at ss' p i v)"
    "\<And>i p v. committed_at ss' p i v \<longleftrightarrow> committed_at ss p i v \<or>
        (\<exists>r \<in> set rs. rid E r = i \<and> lookup_slot ss i = None \<and> scannable_value E r = v \<and> committed_at ss' p i v)"
    "\<And>r. r \<in> set rs \<Longrightarrow> lookup_slot ss (rid E r) = None \<Longrightarrow> \<exists>p. committed_at ss' p (rid E r) (scannable_value E r)"
proof -
  have d: "distinct (map (rid E) rs)" unfolding rs by (rule merge_log_ok(1) [OF d0])
  let ?per = "committed_pairs (id_field E) (val_field E) (slot_image (id_field E) (val_field E) ss)"
  have per: "?per = lookup_slot ss" by (simp add: committed_pairs_image lookup_slot_def)
  define missing where "missing = filter (\<lambda>r. lookup_slot ss (rid E r) = None) rs"
  have dm: "distinct (map (rid E) missing)" using d by (simp add: missing_def distinct_map_filter)
  define pi where "pi = fst (reconcile E (lookup_slot ss) rs)"
  have rec: "reconcile E (lookup_slot ss) rs = (pi, missing)"
    by (simp add: pi_def missing_def prod_eq_iff reconcile_snd)
  let ?new = "map (\<lambda>r. (rid E r, scannable_value E r, committed_marker)) missing"
  let ?ss = "ss @ ?new"
  let ?n = "length ss"
  let ?pos = "foldl (\<lambda>m (r, p). AList.update (rid E r) p m) pi (zip missing [?n..<?n + length missing])"
  have app: "append_committed_slots (id_field E) (val_field E) (slot_image (id_field E) (val_field E) ss)
      (slot_pairs E missing) = (slot_image (id_field E) (val_field E) ?ss, [?n..<?n + length missing])"
    by (simp add: append_image slot_pairs_def comp_def)
  obtain body where "bc_encode (recs_codec E) rs = Some body" using ser by (auto simp: serial_ok_def)
  then obtain b where enc: "record_blob_encode (schema_tag E) (recs_codec E) rs = Inr b"
    by (simp add: record_blob_encode_def tagged_encode_def)
  let ?s = "\<lparr>ms_records = build_records E rs, ms_index = build_index E rs, ms_position_index = ?pos,
     ms_file = slot_image (id_field E) (val_field E) ?ss,
     ms_blob = (if record_blob_is_current (schema_tag E) (recs_codec E) rs (d_blob d) then d_blob d else Some b),
     ms_log = None\<rparr>"
  have "slot_open (slot_image (id_field E) (val_field E) ss) = Ok (slot_image (id_field E) (val_field E) ss)"
    by (simp add: slot_open_def slot_image_def)
  then have opened: "ms_open E rs0 d = Ok ?s"
    by (simp add: ms_open_def rd sl per rec enc app log_clear_def rs [symmetric] Let_def split: if_splits)
  have new: "committed_at ?ss p i v \<longleftrightarrow> committed_at ss p i v \<or>
      (\<exists>j < length missing. p = ?n + j \<and> rid E (missing ! j) = i \<and> scannable_value E (missing ! j) = v)" for p i v
    by (auto simp: committed_at_append committed_at_map intro: exI [of _ "p - ?n"])
  have miss: "r \<in> set missing \<longleftrightarrow> r \<in> set rs \<and> lookup_slot ss (rid E r) = None" for r
    by (auto simp: missing_def)
  have missj: "j < length missing \<Longrightarrow> missing ! j \<in> set rs \<and> lookup_slot ss (rid E (missing ! j)) = None" for j
    using miss nth_mem by blast
  have pos: "map_of ?pos i = Some p \<longleftrightarrow> i \<in> rid E ` set rs \<and> (\<exists>v. committed_at ?ss p i v)" for i p
  proof (cases "\<exists>j < length missing. rid E (missing ! j) = i")
    case True
    then obtain j where j: "j < length missing" "rid E (missing ! j) = i" by blast
    have "lookup_slot ss i = None" using missj [OF j(1)] j(2) by simp
    then have none: "\<not> committed_at ss q i v" for q v by (simp add: lookup_slot_None [OF u])
    have "(\<exists>v. committed_at ?ss p i v) \<longleftrightarrow> p = ?n + j"
    proof
      assume "\<exists>v. committed_at ?ss p i v"
      with none obtain q where "q < length missing" "p = ?n + q" "rid E (missing ! q) = i"
        unfolding new by blast
      then show "p = ?n + j" using j distinct_map_nthD [OF dm, of q j] by simp
    next
      assume "p = ?n + j"
      with j show "\<exists>v. committed_at ?ss p i v" unfolding new by blast
    qed
    moreover have "i \<in> rid E ` set rs" using missj [OF j(1)] j(2) by blast
    moreover have "map_of ?pos i = Some (?n + j)"
      by (rule appended_positions_hit [OF dm j])
    ultimately show ?thesis by auto
  next
    case False
    then have "(\<exists>v. committed_at ?ss p i v) \<longleftrightarrow> (\<exists>v. committed_at ss p i v)"
      by (auto simp: new)
    moreover have "map_of ?pos i = (if i \<in> rid E ` set rs then map_option fst (lookup_slot ss i) else None)"
      using appended_positions_miss [of missing E i pi ?n] False by (simp add: pi_def reconcile_fst)
    ultimately show ?thesis
      using lookup_slot_iff [OF u, of i] by (auto simp: map_option_eq_Some)
  qed
  have "slots_valid E ?ss"
    using valid valid_scannable by (auto simp: slots_valid_def new valid_value_def)
  moreover have "hm_wf ?pos" by (rule hm_wf_appended) (simp add: pi_def reconcile_fst)
  moreover have "committed_at ?ss p i v \<longleftrightarrow> committed_at ss p i v \<or>
      (\<exists>r \<in> set rs. rid E r = i \<and> lookup_slot ss i = None \<and> scannable_value E r = v \<and> committed_at ?ss p i v)" for i p v
  proof
    assume c: "committed_at ?ss p i v"
    show "committed_at ss p i v \<or>
      (\<exists>r \<in> set rs. rid E r = i \<and> lookup_slot ss i = None \<and> scannable_value E r = v \<and> committed_at ?ss p i v)"
    proof (cases "committed_at ss p i v")
      case False
      with c obtain j where "j < length missing" "rid E (missing ! j) = i" "scannable_value E (missing ! j) = v"
        by (auto simp: new)
      with missj [of j] c show ?thesis by blast
    qed simp
  next
    assume "committed_at ss p i v \<or>
      (\<exists>r \<in> set rs. rid E r = i \<and> lookup_slot ss i = None \<and> scannable_value E r = v \<and> committed_at ?ss p i v)"
    then show "committed_at ?ss p i v" by (auto simp: committed_at_append)
  qed
  moreover have "\<exists>p. committed_at ?ss p (rid E r) (scannable_value E r)"
    if "r \<in> set rs" "lookup_slot ss (rid E r) = None" for r
  proof -
    from that miss obtain j where "j < length missing" "missing ! j = r" by (metis in_set_conv_nth)
    then have "committed_at ?ss (?n + j) (rid E r) (scannable_value E r)" by (simp add: new)
    then show ?thesis ..
  qed
  ultimately show ?thesis
    using opened pos enc by (intro that [of ?s ?ss]) simp_all
qed

lemma open_map:
  assumes ser: "serial_ok E" and sl: "d_slots d = Some (slot_image (id_field E) (val_field E) ss)"
    and u: "unique_slots ss" and valid: "slots_valid E ss"
    and rd: "read_entries (rec_codec E) (key_codec E) (schema_tag E) (d_log d) = Ok es"
    and d0: "distinct (map (rid E) rs0)" and rs: "rs = merge_log E rs0 es"
  shows "\<exists>s. ms_open E rs0 d = Ok s \<and>
     serves E s (\<lambda>i. case keyed (rid E) rs i of None \<Rightarrow> None | Some r \<Rightarrow>
       (case lookup_slot ss i of None \<Rightarrow> Some r | Some (p, v) \<Rightarrow> set_scannable_value E r v)) \<and>
     ((\<forall>p i v. committed_at ss p i v \<longrightarrow> keyed (rid E) rs i \<noteq> None) \<longrightarrow> (\<exists>ss'. ms_rep E ss' s)) \<and>
     ((record_blob_is_current (schema_tag E) (recs_codec E) rs (d_blob d) \<longrightarrow>
        (\<exists>b. d_blob d = Some b \<and> record_blob_encode (schema_tag E) (recs_codec E) rs = Inr b)) \<longrightarrow>
     ms_durable E rs [] s)"
proof -
  have d: "distinct (map (rid E) rs)" unfolding rs by (rule merge_log_ok(1) [OF d0])
  obtain s ss' where s: "ms_open E rs0 d = Ok s"
    "ms_records s = build_records E rs" "ms_index s = build_index E rs" "ms_log s = None"
    "ms_blob s = (if record_blob_is_current (schema_tag E) (recs_codec E) rs (d_blob d) then d_blob d
        else Some (case record_blob_encode (schema_tag E) (recs_codec E) rs of Inr b \<Rightarrow> b))"
    "ms_file s = slot_image (id_field E) (val_field E) ss'" "slots_valid E ss'" "hm_wf (ms_position_index s)"
    and pos: "\<And>i p. map_of (ms_position_index s) i = Some p \<longleftrightarrow> i \<in> rid E ` set rs \<and> (\<exists>v. committed_at ss' p i v)"
    and com: "\<And>i p v. committed_at ss' p i v \<longleftrightarrow> committed_at ss p i v \<or>
        (\<exists>r \<in> set rs. rid E r = i \<and> lookup_slot ss i = None \<and> scannable_value E r = v \<and> committed_at ss' p i v)"
    and new: "\<And>r. r \<in> set rs \<Longrightarrow> lookup_slot ss (rid E r) = None \<Longrightarrow> \<exists>p. committed_at ss' p (rid E r) (scannable_value E r)"
    by (rule open_general [OF ser sl u valid rd d0 rs]) (rule that; assumption)
  note recs = map_of_build_records [OF d]
  have at: "ms_get E s i = Some (set_scannable_value E r v) \<and> set_scannable_value E r v \<noteq> None"
    if "keyed (rid E) rs i = Some r" "committed_at ss' p i v" for i r p v
  proof -
    from that(1) have "i \<in> rid E ` set rs" by (auto dest: keyed_SomeD)
    with that(2) pos have p: "map_of (ms_position_index s) i = Some p" by blast
    have "set_scannable_value E r v \<noteq> None" using s(7) that(2) by (auto simp: slots_valid_def)
    with p that show ?thesis by (auto simp: ms_get_def s(2,6) recs committed_at_def)
  qed
  have slot: "\<exists>p v. committed_at ss' p i v \<and> v = (case lookup_slot ss i of None \<Rightarrow> scannable_value E r | Some (q, w) \<Rightarrow> w)"
    if "keyed (rid E) rs i = Some r" for i r
  proof (cases "lookup_slot ss i")
    case None
    from keyed_SomeD [OF that] new [of r] None show ?thesis by auto
  next
    case (Some pv)
    then have "committed_at ss (fst pv) i (snd pv)"
      using lookup_slot_iff [OF u, of i "fst pv" "snd pv"] by simp
    then have "committed_at ss' (fst pv) i (snd pv)" using com by blast
    with Some show ?thesis by (auto split: prod.splits)
  qed
  have map: "ms_get E s i = Some (case keyed (rid E) rs i of None \<Rightarrow> None | Some r \<Rightarrow>
       (case lookup_slot ss i of None \<Rightarrow> Some r | Some (p, v) \<Rightarrow> set_scannable_value E r v))" for i
  proof (cases "keyed (rid E) rs i")
    case None
    then show ?thesis by (simp add: ms_get_def s(2) recs)
  next
    case (Some r)
    from slot [OF Some] obtain p v where "committed_at ss' p i v"
      and v: "v = (case lookup_slot ss i of None \<Rightarrow> scannable_value E r | Some (q, w) \<Rightarrow> w)" by blast
    from at [OF Some this(1)] have "ms_get E s i = Some (set_scannable_value E r v)" by simp
    then show ?thesis by (simp add: Some v set_same split: option.splits prod.splits)
  qed
  have rep: "ms_rep E ss' s" if live: "\<forall>p i v. committed_at ss p i v \<longrightarrow> keyed (rid E) rs i \<noteq> None"
  proof -
    have in_rs: "committed_at ss' p i v \<Longrightarrow> i \<in> rid E ` set rs" for p i v
      using com [of p i v] live dom_keyed [of "rid E" rs] by (metis domIff imageI)
    then have pos': "map_of (ms_position_index s) i = Some p \<longleftrightarrow> (\<exists>v. committed_at ss' p i v)" for i p
      using pos by blast
    have "dom (map_of (ms_records s)) = dom (map_of (ms_position_index s))"
    proof (rule set_eqI)
      fix i
      have "i \<in> dom (map_of (ms_position_index s)) \<longleftrightarrow> (\<exists>p v. committed_at ss' p i v)"
        using pos' by blast
      also have "\<dots> \<longleftrightarrow> i \<in> dom (keyed (rid E) rs)"
      proof
        assume "\<exists>p v. committed_at ss' p i v"
        with in_rs show "i \<in> dom (keyed (rid E) rs)" by (auto simp: dom_keyed)
      next
        assume "i \<in> dom (keyed (rid E) rs)"
        with slot [of i] show "\<exists>p v. committed_at ss' p i v" by blast
      qed
      finally show "i \<in> dom (map_of (ms_records s)) \<longleftrightarrow> i \<in> dom (map_of (ms_position_index s))"
        by (simp add: s(2) recs)
    qed
    moreover have "\<forall>k r. map_of (ms_records s) k = Some r \<longrightarrow> rid E r = k"
      by (auto simp: s(2) recs dest: keyed_SomeD)
    moreover have "hm_wf (ms_records s)" by (simp add: s(2) build_records_def)
    ultimately show ?thesis
      using s(6-8) pos' index_ok_build [OF d] by (simp add: ms_rep_def s(2,3))
  qed
  have "ms_durable E rs [] s" if "record_blob_is_current (schema_tag E) (recs_codec E) rs (d_blob d) \<longrightarrow>
        (\<exists>b. d_blob d = Some b \<and> record_blob_encode (schema_tag E) (recs_codec E) rs = Inr b)"
  proof -
    obtain body where "bc_encode (recs_codec E) rs = Some body" using ser by (auto simp: serial_ok_def)
    then obtain b where "record_blob_encode (schema_tag E) (recs_codec E) rs = Inr b"
      by (simp add: record_blob_encode_def tagged_encode_def)
    then show ?thesis
      using that d by (auto simp: ms_durable_def s(2,4,5) log_of_def merge_log_def recs)
  qed
  with s(1) map rep show ?thesis by (intro exI [of _ s]) (auto simp: serves_def)
qed

end

end
