(* ===== verification/Mmap_Crash.thy ===== *)
theory Mmap_Crash
  imports Mmap_Theorems
begin

text \<open>
  \<open>GenericMmapStore\<close>: the disk states a crash inside an insert, a delete or a replace leaves, and
  compaction with its own intermediate states.
\<close>

context mmap_layer
begin

lemma rep_value:
  assumes "ms_rep E ss s" "map_of (ms_records s) i = Some r" "committed_at ss p i v"
  obtains r' where "ms_map E s i = Some r'" "set_scannable_value E r v = Some r'"
proof -
  have "ms_map E s i \<noteq> None" using rep_dom [OF assms(1)] assms(2) by blast
  with rep_map_Some [OF assms] show ?thesis by (auto intro: that)
qed

section \<open>Crashes inside a write\<close>

lemma disk_holds_logged:
  assumes "ms_rep E ss s" "ms_durable E base es s" "serial_ok E" "entry_ok (rec_codec E) (key_codec E) e"
  shows "disk_holds E ss base (es @ [e])
     ((disk_of s)\<lparr>d_log := log_of (rec_codec E) (key_codec E) (schema_tag E) (es @ [e])\<rparr>)"
proof -
  from assms(3) have rt: "bincode_roundtrip (rec_codec E)" "bincode_roundtrip (key_codec E)"
    by (auto simp: serial_ok_def)
  have "\<forall>e \<in> set (es @ [e]). entry_ok (rec_codec E) (key_codec E) e"
    using assms(2,4) by (auto simp: ms_durable_def)
  from read_entries_log_of [OF rt this] ms_ok_disk(1) [OF assms(1-3)] show ?thesis
    by (simp add: disk_holds_def)
qed

text \<open>What is found is the old map with the logged entry applied, the slots authoritative.\<close>

lemma reopen_logged:
  assumes rep: "ms_rep E ss s" and dur: "ms_durable E base es s" and ser: "serial_ok E"
    and e: "entry_ok (rec_codec E) (key_codec E) e"
  shows "\<exists>s'. ms_open_portable E
       ((disk_of s)\<lparr>d_log := log_of (rec_codec E) (key_codec E) (schema_tag E) (es @ [e])\<rparr>) = Ok s' \<and>
     serves E s' (case e of
         Item r \<Rightarrow> (ms_map E s)(rid E r := (case lookup_slot ss (rid E r) of
             None \<Rightarrow> Some r | Some (p, v) \<Rightarrow> set_scannable_value E r v))
       | Tombstone k \<Rightarrow> (ms_map E s)(k := None))"
proof -
  define m where "m = foldl (apply_entry E) (keyed (rid E) base) es"
  note dm = durable_map [OF rep dur m_def]
  have m': "apply_entry E m e = foldl (apply_entry E) (keyed (rid E) base) (es @ [e])" by (simp add: m_def)
  from open_portable_ok [OF ser disk_holds_logged [OF rep dur ser e] m']
  show ?thesis unfolding dm(1) by (cases e) (auto simp: serves_def)
qed

section \<open>Compaction\<close>

lemma compact_records_ok:
  assumes "\<forall>(p, k) \<in> set l. map_of (ms_position_index s) k = Some p" and rep: "ms_rep E ss s"
  shows "compact_records E s l = Some (map (\<lambda>(p, k). the (ms_map E s k)) l)"
  using assms(1)
proof (induction l)
  case (Cons a l)
  obtain p k where a: "a = (p, k)" by (cases a)
  with Cons.prems have p: "map_of (ms_position_index s) k = Some p" by auto
  with rep have "k \<in> dom (map_of (ms_records s))" by (auto simp: ms_rep_def)
  then obtain r where r: "map_of (ms_records s) k = Some r" by blast
  from rep p obtain v where c: "committed_at ss p k v" by (auto simp: ms_rep_def)
  from rep have fl: "ms_file s = slot_image (id_field E) (val_field E) ss" by (simp add: ms_rep_def)
  have "read_value (id_field E) (val_field E) (ms_file s) p = v"
    using c by (simp add: fl committed_at_def)
  moreover have "ms_map E s k = set_scannable_value E r v" by (rule rep_map_Some [OF rep r c])
  moreover have "ms_map E s k \<noteq> None" using rep_dom [OF rep] r by blast
  ultimately show ?case using Cons by (auto simp: a r)
qed simp

lemma position_pairs:
  assumes "ms_rep E ss s"
  defines "l \<equiv> sort_key fst (map (\<lambda>(k, p). (p, k)) (ms_position_index s))"
  shows "\<forall>(p, k) \<in> set l. map_of (ms_position_index s) k = Some p"
    and "distinct (map snd l)" and "set (map snd l) = dom (ms_map E s)" and "length l = length (ms_position_index s)"
proof -
  from assms(1) have wf: "distinct (map fst (ms_position_index s))" by (simp add: ms_rep_def hm_wf_def)
  have st: "set l = (\<lambda>(k, p). (p, k)) ` set (ms_position_index s)" by (simp add: l_def)
  show "\<forall>(p, k) \<in> set l. map_of (ms_position_index s) k = Some p"
    using wf by (auto simp: st)
  have "mset (map snd l) = image_mset snd (mset l)" by simp
  also have "mset l = mset (map (\<lambda>(k, p). (p, k)) (ms_position_index s))" by (simp add: l_def)
  also have "image_mset snd \<dots> = mset (map fst (ms_position_index s))"
    by (simp add: image_mset.compositionality comp_def case_prod_unfold)
  finally have ms: "mset (map snd l) = mset (map fst (ms_position_index s))" .
  from ms wf show "distinct (map snd l)" by (metis mset_eq_imp_distinct_iff)
  from ms have "set (map snd l) = dom (map_of (ms_position_index s))"
    by (metis dom_map_of_conv_image_fst list.set_map mset_eq_setD)
  also have "\<dots> = dom (ms_map E s)" using assms(1) rep_dom [OF assms(1)] by (simp add: ms_rep_def)
  finally show "set (map snd l) = dom (ms_map E s)" .
  show "length l = length (ms_position_index s)" by (simp add: l_def)
qed

lemma keyed_live_records:
  assumes rep: "ms_rep E ss s" and d: "distinct ks" and st: "set ks = dom (ms_map E s)"
  shows "map (rid E) (map (\<lambda>k. the (ms_map E s k)) ks) = ks"
    and "keyed (rid E) (map (\<lambda>k. the (ms_map E s k)) ks) = ms_map E s"
proof -
  have id: "rid E (the (ms_map E s k)) = k" if "k \<in> set ks" for k
    using that st rep_map_indexed(1) [OF rep] by auto
  then show ids: "map (rid E) (map (\<lambda>k. the (ms_map E s k)) ks) = ks" by (simp add: map_idI)
  show "keyed (rid E) (map (\<lambda>k. the (ms_map E s k)) ks) = ms_map E s"
  proof
    fix k
    show "keyed (rid E) (map (\<lambda>k. the (ms_map E s k)) ks) k = ms_map E s k"
    proof (cases "k \<in> set ks")
      case True
      then have "the (ms_map E s k) \<in> set (map (\<lambda>k. the (ms_map E s k)) ks)" by simp
      from keyed_distinct [OF _ this, of "rid E"] ids d id [OF True] True st show ?thesis by auto
    next
      case False
      then have "k \<notin> dom (keyed (rid E) (map (\<lambda>k. the (ms_map E s k)) ks))"
        unfolding dom_keyed by (metis ids list.set_map)
      with False st show ?thesis by (metis domIff)
    qed
  qed
qed

text \<open>The records a compaction writes, and the three files it leaves.\<close>

lemma compact_ok:
  assumes rep: "ms_rep E ss s" and dur: "ms_durable E base es s" and ser: "serial_ok E"
  shows "\<exists>records blob s'. distinct (map (rid E) records) \<and> keyed (rid E) records = ms_map E s \<and>
     record_blob_encode (schema_tag E) (recs_codec E) records = Inr blob \<and>
     ms_compact E s = Some (Ok (\<lparr>cr_records = card (dom (ms_map E s)),
        cr_slots_reclaimed = length ss - card (dom (ms_map E s)),
        cr_log_entries_folded = length es, cr_edge_logs_folded = 0\<rparr>, s')) \<and>
     ms_blob s' = Some blob \<and> ms_log s' = None \<and>
     ms_file s' = slot_image (id_field E) (val_field E) (map (\<lambda>r. (rid E r, scannable_value E r, committed_marker)) records) \<and>
     ms_rep E (map (\<lambda>r. (rid E r, scannable_value E r, committed_marker)) records) s' \<and>
     ms_durable E records [] s' \<and> ms_map E s' = ms_map E s"
proof -
  let ?l = "sort_key fst (map (\<lambda>(k, p). (p, k)) (ms_position_index s))"
  let ?recs = "map (\<lambda>k. the (ms_map E s k)) (map snd ?l)"
  note pp = position_pairs [OF rep]
  note kr = keyed_live_records [OF rep pp(2,3)]
  have d: "distinct (map (rid E) ?recs)" unfolding kr(1) by (rule pp(2))
  have cr: "compact_records E s ?l = Some ?recs"
    using compact_records_ok [OF pp(1) rep] by (simp add: comp_def case_prod_unfold)
  have len: "length ?recs = card (dom (ms_map E s))"
    using pp(2,3) distinct_card by (metis length_map)
  from rep have fl: "ms_file s = slot_image (id_field E) (val_field E) ss" by (simp add: ms_rep_def)
  have rd: "read_entries (rec_codec E) (key_codec E) (schema_tag E) (ms_log s) = Ok es"
    using ms_ok_disk(1) [OF rep dur ser] by (simp add: disk_holds_def disk_of_def)
  from ser obtain body where "bc_encode (recs_codec E) ?recs = Some body"
    by (auto simp: serial_ok_def)
  then obtain blob where blob: "record_blob_encode (schema_tag E) (recs_codec E) ?recs = Inr blob"
    by (simp add: record_blob_encode_def tagged_encode_def)
  let ?ss = "map (\<lambda>r. (rid E r, scannable_value E r, committed_marker)) ?recs"
  let ?s = "s\<lparr>ms_blob := Some blob, ms_file := slot_image (id_field E) (val_field E) ?ss, ms_log := None,
     ms_position_index := enumerate_ids E ?recs\<rparr>"
  have "slot_rewrite (id_field E) (val_field E) (ms_file s) (slot_pairs E ?recs) = slot_image (id_field E) (val_field E) ?ss"
    by (simp add: slot_rewrite_def create_image slot_pairs_def comp_def)
  then have cmp: "ms_compact E s = Some (Ok (\<lparr>cr_records = card (dom (ms_map E s)),
        cr_slots_reclaimed = length ss - card (dom (ms_map E s)),
        cr_log_entries_folded = length es, cr_edge_logs_folded = 0\<rparr>, ?s))"
    unfolding ms_compact_def rd by (simp only: sum.case cr option.case blob len fl map_ok_simps count_image log_clear_def)
  have pos: "map_of (enumerate_ids E ?recs) i = Some p \<longleftrightarrow> (\<exists>v. committed_at ?ss p i v)" for i p
    using map_of_enumerate_ids [OF d, of i p] by (auto simp: committed_at_def)
  have "dom (map_of (enumerate_ids E ?recs)) = rid E ` set ?recs"
    unfolding set_eq_iff image_set_nth using map_of_enumerate_ids [OF d] by (auto simp: dom_def)
  also have "\<dots> = dom (map_of (ms_records s))"
    unfolding dom_keyed [symmetric] kr(2) by (rule rep_dom [OF rep])
  finally have dom: "dom (map_of (ms_records s)) = dom (map_of (enumerate_ids E ?recs))" by simp
  have "slots_valid E ?ss"
    using valid_scannable by (auto simp: slots_valid_def committed_at_def valid_value_def)
  then have rep': "ms_rep E ?ss ?s"
    using rep dom pos unfolding ms_rep_def by (simp add: enumerate_ids_def)
  have map: "ms_map E ?s i = ms_map E s i" for i
  proof (cases "map_of (ms_records s) i")
    case None
    then show ?thesis using rep_map_None [OF rep None] rep_map_None [OF rep', of i] by simp
  next
    case (Some r)
    obtain p v where c: "committed_at ss p i v" using rep_committed [OF rep Some] by blast
    obtain r' where r': "ms_map E s i = Some r'" "set_scannable_value E r v = Some r'"
      by (rule rep_value [OF rep Some c])
    then have k: "keyed (rid E) ?recs i = Some r'" unfolding kr(2) by simp
    from keyed_SomeD [OF k] obtain q where "q < length ?recs" "?recs ! q = r'" "rid E r' = i"
      unfolding in_set_conv_nth by blast
    then have c': "committed_at ?ss q i (scannable_value E r')" unfolding committed_at_def by auto
    have "scannable_value E r' = v" using set_frame [OF r'(2)] by simp
    with rep_map_Some [OF rep' _ c', of r] Some r' show ?thesis by simp
  qed
  have "same_but_scan E (ms_map E s k) (map_of (ms_records s) k)" for k
  proof (cases "map_of (ms_records s) k")
    case None
    then show ?thesis using rep_map_None [OF rep None] by simp
  next
    case (Some r)
    obtain p v where c: "committed_at ss p k v" using rep_committed [OF rep Some] by blast
    obtain r' where "ms_map E s k = Some r'" "set_scannable_value E r v = Some r'"
      by (rule rep_value [OF rep Some c])
    with set_set [of r v r'] Some show ?thesis by (simp add: same_but_scan_def)
  qed
  then have "ms_durable E ?recs [] ?s"
    using blob d kr(2) by (simp add: ms_durable_def log_of_def merge_log_def)
  moreover have "ms_map E ?s = ms_map E s" using map by (rule ext)
  ultimately show ?thesis
    using d kr(2) blob cmp rep' by (intro exI [of _ ?recs] exI [of _ blob] exI [of _ ?s]) simp
qed

text \<open>The old log folded over the compacted records changes nothing but scannable copies.\<close>

lemma refold_same:
  assumes rep: "ms_rep E ss s" and dur: "ms_durable E base es s"
  shows "same_but_scan E (foldl (apply_entry E) (ms_map E s) es k) (ms_map E s k)"
proof -
  define m where "m = foldl (apply_entry E) (keyed (rid E) base) es"
  note dm = durable_map [OF rep dur m_def]
  have sm: "same_but_scan E (m k) (ms_map E s k)"
  proof (cases "m k")
    case (Some r)
    then obtain p v where pv: "lookup_slot ss k = Some (p, v)" using dm(3) by (metis option.exhaust prod.exhaust)
    then have "ms_map E s k = set_scannable_value E r v" unfolding dm(1) by (simp add: Some)
    moreover have "ms_map E s k \<noteq> None" using dm(2) [of k] Some rep_dom [OF rep] by (metis domIff option.distinct(1))
    ultimately obtain r' where "ms_map E s k = Some r'" "set_scannable_value E r v = Some r'" by auto
    with set_set [of r v r'] Some show ?thesis by (simp add: same_but_scan_def)
  next
    case None
    then show ?thesis unfolding dm(1) by simp
  qed
  consider (const) "\<forall>f. foldl (apply_entry E) f es k = m k" | (id) "\<forall>f. foldl (apply_entry E) f es k = f k"
    using fold_entries_cases [of E es k] unfolding m_def by metis
  then show ?thesis by cases (simp_all add: sm)
qed

lemma crash_in_compaction:
  assumes rep: "ms_rep E ss s" and dur: "ms_durable E base es s" and ser: "serial_ok E"
    and cmp: "ms_compact E s = Some (Ok (report, s'))"
  shows "\<exists>t. ms_open_portable E \<lparr>d_slots = Some (ms_file s), d_blob = ms_blob s', d_log = ms_log s\<rparr> = Ok t \<and>
       serves E t (ms_map E s)"
    and "\<exists>t. ms_open_portable E \<lparr>d_slots = Some (ms_file s'), d_blob = ms_blob s', d_log = ms_log s\<rparr> = Ok t \<and>
       serves E t (ms_map E s)"
proof -
  obtain records blob where r: "distinct (map (rid E) records)" "keyed (rid E) records = ms_map E s"
     "record_blob_encode (schema_tag E) (recs_codec E) records = Inr blob" "ms_blob s' = Some blob"
     "ms_file s' = slot_image (id_field E) (val_field E) (map (\<lambda>r. (rid E r, scannable_value E r, committed_marker)) records)"
     "ms_rep E (map (\<lambda>r. (rid E r, scannable_value E r, committed_marker)) records) s'" "ms_map E s' = ms_map E s"
    using compact_ok [OF rep dur ser] cmp by auto
  define m where "m = foldl (apply_entry E) (keyed (rid E) records) es"
  have same: "same_but_scan E (m k) (ms_map E s k)" for k
    unfolding m_def r(2) by (rule refold_same [OF rep dur])
  have rd: "read_entries (rec_codec E) (key_codec E) (schema_tag E) (ms_log s) = Ok es"
    using ms_ok_disk(1) [OF rep dur ser] by (simp add: disk_holds_def disk_of_def)
  have gen: "\<exists>t. ms_open_portable E \<lparr>d_slots = Some (slot_image (id_field E) (val_field E) zs), d_blob = Some blob, d_log = ms_log s\<rparr> = Ok t \<and>
       serves E t (ms_map E s)"
    if z: "ms_rep E zs z" "ms_map E z = ms_map E s" for z zs
  proof -
    have "disk_holds E zs records es \<lparr>d_slots = Some (slot_image (id_field E) (val_field E) zs), d_blob = Some blob, d_log = ms_log s\<rparr>"
      using rd r(1,3) rep_unique [OF z(1)] z(1) by (simp add: disk_holds_def ms_rep_def)
    from open_portable_ok [OF ser this m_def] obtain t where
      t: "ms_open_portable E \<lparr>d_slots = Some (slot_image (id_field E) (val_field E) zs), d_blob = Some blob, d_log = ms_log s\<rparr> = Ok t"
      "serves E t (\<lambda>i. case m i of None \<Rightarrow> None | Some r \<Rightarrow>
       (case lookup_slot zs i of None \<Rightarrow> Some r | Some (p, v) \<Rightarrow> set_scannable_value E r v))" by blast
    have "ms_get E t i = Some (ms_map E z i)" for i
    proof (cases "map_of (ms_records z) i")
      case None
      then have n: "ms_map E z i = None" by (rule rep_map_None [OF z(1)])
      with same [of i] z(2) have "m i = None" by simp
      with n show ?thesis by (simp add: t(2)[unfolded serves_def])
    next
      case (Some q)
      obtain p v where c: "committed_at zs p i v" using rep_committed [OF z(1) Some] by blast
      then have lk: "lookup_slot zs i = Some (p, v)" by (simp add: lookup_slot_iff [OF rep_unique [OF z(1)]])
      obtain q' where q': "ms_map E z i = Some q'" "set_scannable_value E q v = Some q'"
        by (rule rep_value [OF z(1) Some c])
      with same [of i] z(2) obtain r where r: "m i = Some r" "\<forall>v. set_scannable_value E r v = set_scannable_value E q' v"
        by (auto simp: same_but_scan_def split: option.splits)
      have "set_scannable_value E q' v = Some q'" using set_set [OF q'(2), of v] q'(2) by simp
      with r lk q' show ?thesis by (simp add: t(2)[unfolded serves_def])
    qed
    with t(1) z(2) show ?thesis by (auto simp: serves_def)
  qed
  from gen [OF rep refl] show "\<exists>t. ms_open_portable E \<lparr>d_slots = Some (ms_file s), d_blob = ms_blob s', d_log = ms_log s\<rparr> = Ok t \<and>
       serves E t (ms_map E s)"
    using rep by (simp add: r(4) ms_rep_def)
  from gen [OF r(6,7)] show "\<exists>t. ms_open_portable E \<lparr>d_slots = Some (ms_file s'), d_blob = ms_blob s', d_log = ms_log s\<rparr> = Ok t \<and>
       serves E t (ms_map E s)"
    by (simp add: r(4,5))
qed

end

end
