(* ===== verification/Mmap_Properties.thy ===== *)
theory Mmap_Properties
  imports Mmap_Crash
begin

text \<open>
  The properties of \<open>GenericMmapStore\<close>, stated over any lawful environment and applied to \<open>Order\<close>
  records under the fixed-width codec of \<open>Order_Codec\<close>.
\<close>

definition lawful_env :: "('id, 'iv, 'sv, 'r) store_env \<Rightarrow> bool" where
  "lawful_env E \<longleftrightarrow> mmap_layer E \<and> serial_ok E"

interpretation order_store: mmap_layer "order_env c cs ck"
  unfolding mmap_layer_def slot_codecs_def
  using order_rec.record_laws_axioms uuid_f.mmap_field_value_axioms i64_f.mmap_field_value_axioms
  by (simp add: order_env_def)

interpretation reminder_store: mmap_layer "reminder_env c cs ck"
  unfolding mmap_layer_def slot_codecs_def
  using reminder.record_laws_axioms uuid_f.mmap_field_value_axioms u32_f.mmap_field_value_axioms
  by (simp add: reminder_env_def)

lemma lawful_demo_orders: "lawful_env demo_orders"
  using order_store.mmap_layer_axioms demo_orders_serial by (simp add: lawful_env_def demo_orders_def)

section \<open>Runs\<close>

datatype ('id, 'sv, 'r) ms_op =
  OpInsert 'r | OpReplace 'r | OpDelete 'id | OpUpdate 'id 'sv | OpCompact

text \<open>What a call answers: done, its own refusal, or the number of records a compaction kept.\<close>

datatype 'id ms_reply =
    Accepted
  | InsertRefused "'id insert_error"
  | ReplaceRefused "'id replace_error"
  | DeleteRefused "'id delete_error"
  | UpdateRefused "'id not_found"
  | Compacted nat
  | CompactRefused durability_error

definition answered :: "'s \<Rightarrow> ('e \<Rightarrow> 'id ms_reply) \<Rightarrow> 'e + 's \<Rightarrow> 'id ms_reply \<times> 's" where
  "answered s refused res = (case res of Inl e \<Rightarrow> (refused e, s) | Inr s' \<Rightarrow> (Accepted, s'))"

text \<open>One client call and its answer; a refused one leaves the store as it is, \<open>None\<close> is a panic.\<close>

definition ms_step :: "('id, 'iv, 'sv, 'r) store_env \<Rightarrow> ('id, 'iv, 'r) mmap_store \<Rightarrow> ('id, 'sv, 'r) ms_op \<Rightarrow>
    ('id ms_reply \<times> ('id, 'iv, 'r) mmap_store) option" where
  "ms_step E s op =
     (case op of
        OpInsert r \<Rightarrow> Some (answered s InsertRefused (ms_insert E s r))
      | OpReplace r \<Rightarrow> Some (answered s ReplaceRefused (ms_replace E s r))
      | OpDelete k \<Rightarrow> Some (answered s DeleteRefused (ms_delete E s k))
      | OpUpdate k v \<Rightarrow> Some (answered s UpdateRefused (ms_update E s k v))
      | OpCompact \<Rightarrow> map_option (\<lambda>res. case res of Inl e \<Rightarrow> (CompactRefused e, s)
                                    | Inr (report, s') \<Rightarrow> (Compacted (cr_records report), s')) (ms_compact E s))"

fun ms_run :: "('id, 'iv, 'sv, 'r) store_env \<Rightarrow> ('id, 'iv, 'r) mmap_store \<Rightarrow> ('id, 'sv, 'r) ms_op list \<Rightarrow>
    ('id ms_reply list \<times> ('id, 'iv, 'r) mmap_store) option" where
  "ms_run E s [] = Some ([], s)"
| "ms_run E s (op # ops) =
     (case ms_step E s op of
        None \<Rightarrow> None
      | Some (reply, s') \<Rightarrow> map_option (\<lambda>(replies, s''). (reply # replies, s'')) (ms_run E s' ops))"

text \<open>The specification: the same calls on a map from ids to records, and their answers.\<close>

definition spec_step :: "('id, 'iv, 'sv, 'r) store_env \<Rightarrow> ('id \<rightharpoonup> 'r) \<Rightarrow> ('id, 'sv, 'r) ms_op \<Rightarrow> ('id \<rightharpoonup> 'r)" where
  "spec_step E m op =
     (case op of
        OpInsert r \<Rightarrow> (if m (rid E r) = None then m(rid E r \<mapsto> r) else m)
      | OpReplace r \<Rightarrow> (if m (rid E r) = None then m else m(rid E r \<mapsto> r))
      | OpDelete k \<Rightarrow> m(k := None)
      | OpUpdate k v \<Rightarrow> (case m k of None \<Rightarrow> m | Some r \<Rightarrow> m(k := set_scannable_value E r v))
      | OpCompact \<Rightarrow> m)"

definition spec_reply :: "('id, 'iv, 'sv, 'r) store_env \<Rightarrow> ('id \<rightharpoonup> 'r) \<Rightarrow> ('id, 'sv, 'r) ms_op \<Rightarrow> 'id ms_reply" where
  "spec_reply E m op =
     (case op of
        OpInsert r \<Rightarrow> (if m (rid E r) = None then Accepted else InsertRefused (InsDuplicate (rid E r)))
      | OpReplace r \<Rightarrow> (if m (rid E r) = None then ReplaceRefused (RepNotFound (rid E r)) else Accepted)
      | OpDelete k \<Rightarrow> (if m k = None then DeleteRefused (DelNotFound k) else Accepted)
      | OpUpdate k v \<Rightarrow> (if m k = None then UpdateRefused (NotFound k) else Accepted)
      | OpCompact \<Rightarrow> Compacted (card (dom m)))"

fun spec_replies :: "('id, 'iv, 'sv, 'r) store_env \<Rightarrow> ('id \<rightharpoonup> 'r) \<Rightarrow> ('id, 'sv, 'r) ms_op list \<Rightarrow> 'id ms_reply list" where
  "spec_replies E m [] = []"
| "spec_replies E m (op # ops) = spec_reply E m op # spec_replies E (spec_step E m op) ops"

definition op_ok :: "('id, 'iv, 'sv, 'r) store_env \<Rightarrow> ('id, 'sv, 'r) ms_op \<Rightarrow> bool" where
  "op_ok E op \<longleftrightarrow>
     (case op of
        OpInsert r \<Rightarrow> encodes_small (rec_codec E) r
      | OpReplace r \<Rightarrow> encodes_small (rec_codec E) r
      | OpUpdate k v \<Rightarrow> \<forall>r. set_scannable_value E r v \<noteq> None
      | _ \<Rightarrow> True)"

lemma ms_okI: "ms_rep E ss s \<Longrightarrow> ms_durable E base es s \<Longrightarrow> ms_ok E s"
  by (auto simp: ms_ok_def)

context mmap_layer
begin

lemma step_refines:
  assumes ok: "ms_ok E s" and ser: "serial_ok E" and op: "op_ok E op"
  shows "\<exists>s'. ms_step E s op = Some (spec_reply E (ms_map E s) op, s') \<and> ms_ok E s' \<and>
    ms_map E s' = spec_step E (ms_map E s) op"
proof -
  obtain ss base es where rep: "ms_rep E ss s" and dur: "ms_durable E base es s"
    using ok by (auto simp: ms_ok_def)
  have none: "ms_map E s k = None \<longleftrightarrow> map_of (ms_records s) k = None" for k
    using rep_dom [OF rep] by (metis domIff)
  note answers = ms_step_def spec_step_def spec_reply_def answered_def
  show ?thesis
  proof (cases op)
    case (OpInsert r)
    show ?thesis
    proof (cases "map_of (ms_records s) (rid E r)")
      case None
      with insert_new [OF rep dur _ None] op OpInsert none show ?thesis
        by (auto simp: op_ok_def answers intro: ms_okI)
    next
      case (Some q)
      with insert_duplicate [of s r] OpInsert none ok show ?thesis
        by (auto simp: answers)
    qed
  next
    case (OpReplace r)
    show ?thesis
    proof (cases "map_of (ms_records s) (rid E r)")
      case None
      with replace_unknown [of s r] OpReplace none ok show ?thesis
        by (auto simp: answers)
    next
      case (Some q)
      with replace_known [OF rep dur _ Some] op OpReplace none show ?thesis
        by (auto simp: op_ok_def answers intro: ms_okI)
    qed
  next
    case (OpDelete k)
    show ?thesis
    proof (cases "map_of (ms_records s) k")
      case None
      then have "(ms_map E s)(k := None) = ms_map E s" using none by (simp add: fun_upd_idem)
      with None none [of k] delete_unknown [of s k] OpDelete ok show ?thesis
        by (auto simp: answers)
    next
      case (Some q)
      with none [of k] delete_known [OF rep dur ser Some] OpDelete show ?thesis
        by (auto simp: answers intro: ms_okI)
    qed
  next
    case (OpUpdate k v)
    show ?thesis
    proof (cases "map_of (ms_records s) k")
      case None
      then have "ms_map E s k = None" using none [of k] by simp
      with update_unknown [OF rep None, of v] OpUpdate ok show ?thesis
        by (auto simp: answers)
    next
      case (Some q)
      have v: "valid_value v" using op OpUpdate by (simp add: op_ok_def valid_value_def)
      obtain r where r: "ms_map E s k = Some r" using none [of k] Some by auto
      obtain p w where "committed_at ss p k w" using rep_committed [OF rep Some] by blast
      from rep_map_Some [OF rep Some this] r set_set have "set_scannable_value E r v = set_scannable_value E q v" by metis
      with update_known [OF rep dur Some v] OpUpdate r show ?thesis
        by (auto simp: answers intro: ms_okI)
    qed
  next
    case OpCompact
    with compact_ok [OF rep dur ser] show ?thesis
      by (auto simp: answers intro: ms_okI)
  qed
qed

lemma run_refines:
  assumes "ms_ok E s" "serial_ok E" "\<forall>op \<in> set ops. op_ok E op"
  shows "\<exists>s'. ms_run E s ops = Some (spec_replies E (ms_map E s) ops, s') \<and> ms_ok E s' \<and>
    ms_map E s' = foldl (spec_step E) (ms_map E s) ops"
  using assms
proof (induction ops arbitrary: s)
  case (Cons op ops)
  from step_refines [OF Cons.prems(1,2), of op] Cons.prems(3) obtain s1 where
    "ms_step E s op = Some (spec_reply E (ms_map E s) op, s1)" "ms_ok E s1" "ms_map E s1 = spec_step E (ms_map E s) op" by auto
  with Cons.IH [of s1] Cons.prems show ?case by auto
qed simp

lemma ok_get: "ms_ok E s \<Longrightarrow> ms_get E s i = Some (ms_map E s i)"
  using rep_get(1) by (auto simp: ms_ok_def)

lemma scan_values:
  assumes rep: "ms_rep E ss s"
  shows "mset (ms_scan E s) = image_mset (\<lambda>i. scannable_value E (the (ms_map E s i))) (mset_set (dom (ms_map E s)))"
proof -
  from rep have wf: "distinct (map fst (ms_position_index s))" by (simp add: ms_rep_def hm_wf_def)
  have val: "fst (snd (ss ! snd x)) = scannable_value E (the (ms_map E s (fst x)))"
    if "x \<in> set (ms_position_index s)" for x
  proof -
    from that wf have p: "map_of (ms_position_index s) (fst x) = Some (snd x)" by simp
    with rep obtain v where c: "committed_at ss (snd x) (fst x) v" by (auto simp: ms_rep_def)
    from p rep obtain r where r: "map_of (ms_records s) (fst x) = Some r" by (fastforce simp: ms_rep_def)
    obtain r' where r': "ms_map E s (fst x) = Some r'" "set_scannable_value E r v = Some r'"
      by (rule rep_value [OF rep r c])
    with set_frame [OF r'(2)] c show ?thesis by (simp add: committed_at_def)
  qed
  have "set (map fst (ms_position_index s)) = dom (ms_map E s)"
    using rep rep_dom [OF rep] by (simp add: ms_rep_def dom_map_of_conv_image_fst)
  then have "mset_set (dom (ms_map E s)) = mset (map fst (ms_position_index s))"
    using mset_set_set [OF wf] by simp
  moreover have "mset (ms_scan E s) = mset (map (\<lambda>x. fst (snd (ss ! snd x))) (ms_position_index s))"
    unfolding rep_scan [OF rep] by (simp add: multiset.map_comp comp_def)
  moreover have "map (\<lambda>x. fst (snd (ss ! snd x))) (ms_position_index s) =
      map (\<lambda>x. scannable_value E (the (ms_map E s (fst x)))) (ms_position_index s)"
    using val by simp
  ultimately show ?thesis by (simp add: multiset.map_comp comp_def)
qed

end

section \<open>Properties\<close>

text \<open>C2. Functional correctness of the store. For any sequence of insert, replace, delete, update
  and compaction calls on a freshly created store, no call panics, each call is answered as the
  same calls on a map from ids to records answer it, and every \<open>get\<close> afterwards answers with that
  map's record: a duplicate or an unknown id gets its own refusal and has no effect, every other
  call succeeds, updates reach the memory-mapped slot, and a compaction keeps as many records as
  the map has and changes no answer. The store ends in a state that satisfies its invariant.\<close>

theorem mmap_store_refines_map:
  assumes "lawful_env E" and "distinct (map (rid E) rs)" and "\<forall>op \<in> set ops. op_ok E op"
  shows "\<exists>s0 s. ms_create E rs = Inr s0 \<and> ms_run E s0 ops = Some (spec_replies E (keyed (rid E) rs) ops, s) \<and> ms_ok E s \<and>
     (\<forall>i. ms_get E s i = Some (foldl (spec_step E) (keyed (rid E) rs) ops i))"
proof -
  from assms(1) have L: "mmap_layer E" and ser: "serial_ok E" by (auto simp: lawful_env_def)
  from mmap_layer.create_ok [OF L ser assms(2)] obtain s0 where
    s0: "ms_create E rs = Inr s0" "ms_ok E s0" "ms_map E s0 = keyed (rid E) rs"
    unfolding ms_ok_def by blast
  from mmap_layer.run_refines [OF L s0(2) ser assms(3)] s0 mmap_layer.ok_get [OF L] show ?thesis
    by auto
qed

definition order_1 :: order where
  "order_1 = \<lparr>ord_id = 1, customer_id = 7, amount_cents = 5, ord_status = OPending,
     created_at_unix_ms = 0, discount_cents = 0\<rparr>"

theorem mmap_store_refines_map_witness:
  "\<exists>s0 s. ms_create demo_orders [order_1] = Inr s0 \<and>
     ms_run demo_orders s0 [OpInsert order_1, OpUpdate 1 9, OpDelete 1, OpDelete 1, OpCompact] =
       Some ([InsertRefused (InsDuplicate 1), Accepted, Accepted, DeleteRefused (DelNotFound 1), Compacted 0], s) \<and>
     ms_get demo_orders s 1 = Some None"
proof -
  let ?ops = "[OpInsert order_1, OpUpdate 1 9, OpDelete 1, OpDelete 1, OpCompact]"
  have ok: "\<forall>op \<in> set ?ops. op_ok demo_orders op"
    using demo_order_small [of order_1] by (simp add: op_ok_def) (simp add: demo_orders_def order_env_def)
  have set: "set_scannable_value demo_orders order_1 9 \<noteq> None" by (simp add: demo_orders_def order_env_def)
  have key: "rid demo_orders order_1 = 1" by (simp add: demo_orders_def order_env_def order_1_def)
  have m: "keyed (rid demo_orders) [order_1] = [1 \<mapsto> order_1]" by (simp add: keyed_def key)
  from set obtain o9 where o9: "set_scannable_value demo_orders order_1 9 = Some o9" by blast
  have replies: "spec_replies demo_orders (keyed (rid demo_orders) [order_1]) ?ops =
      [InsertRefused (InsDuplicate 1), Accepted, Accepted, DeleteRefused (DelNotFound 1), Compacted 0]"
    and last: "foldl (spec_step demo_orders) (keyed (rid demo_orders) [order_1]) ?ops 1 = None"
    by (simp_all add: m spec_reply_def spec_step_def key o9)
  have d: "distinct (map (rid demo_orders) [order_1])" by simp
  from mmap_store_refines_map [OF lawful_demo_orders d ok] show ?thesis
    unfolding replies using last by metis
qed

text \<open>C9. Reopening. Whatever operations led to it, a stopped store's three files reopen
  (\<open>open_portable\<close>) to a store whose every \<open>get\<close> answers as the specification's map does; and if
  the insert log is not empty, so do the same files with a further log entry torn anywhere.\<close>

theorem mmap_store_reopens:
  assumes "lawful_env E" and "distinct (map (rid E) rs)" and "\<forall>op \<in> set ops. op_ok E op"
    and "entry_ok (rec_codec E) (key_codec E) e" and "k < length (entry_bytes (rec_codec E) (key_codec E) e)"
  shows "\<exists>s0 replies s s'. ms_create E rs = Inr s0 \<and> ms_run E s0 ops = Some (replies, s) \<and>
     ms_open_portable E (disk_of s) = Inr s' \<and> serves E s' (foldl (spec_step E) (keyed (rid E) rs) ops) \<and>
     (ms_log s \<noteq> None \<longrightarrow> (\<exists>s''. ms_open_portable E
        ((disk_of s)\<lparr>d_log := Some (the (ms_log s) @ take k (entry_bytes (rec_codec E) (key_codec E) e))\<rparr>) = Inr s'' \<and>
        serves E s'' (foldl (spec_step E) (keyed (rid E) rs) ops)))"
proof -
  from assms(1) have L: "mmap_layer E" and ser: "serial_ok E" by (auto simp: lawful_env_def)
  from mmap_layer.create_ok [OF L ser assms(2)] obtain s0 where
    s0: "ms_create E rs = Inr s0" "ms_ok E s0" "ms_map E s0 = keyed (rid E) rs"
    unfolding ms_ok_def by blast
  from mmap_layer.run_refines [OF L s0(2) ser assms(3)] s0(3) obtain s where
    s: "ms_run E s0 ops = Some (spec_replies E (keyed (rid E) rs) ops, s)" "ms_ok E s" "ms_map E s = foldl (spec_step E) (keyed (rid E) rs) ops" by auto
  from s(2) obtain ss base es where rep: "ms_rep E ss s" and dur: "ms_durable E base es s" by (auto simp: ms_ok_def)
  note disk = mmap_layer.ms_ok_disk [OF L rep dur ser] and re = mmap_layer.reopen_disk [OF L rep dur ser]
  from dur have "ms_log s \<noteq> None \<Longrightarrow> es \<noteq> []" by (auto simp: ms_durable_def log_of_def)
  with disk(2) [OF assms(4,5)] have "ms_log s \<noteq> None \<Longrightarrow> \<exists>s''. ms_open_portable E
        ((disk_of s)\<lparr>d_log := Some (the (ms_log s) @ take k (entry_bytes (rec_codec E) (key_codec E) e))\<rparr>) = Inr s'' \<and>
        serves E s'' (ms_map E s)" using re by blast
  with re [OF disk(1)] s0(1) s(1) show ?thesis unfolding s(3) by blast
qed

definition order_2 :: order where
  "order_2 = \<lparr>ord_id = 2, customer_id = 7, amount_cents = 8, ord_status = OShipped,
     created_at_unix_ms = 0, discount_cents = 0\<rparr>"

lemma entry_ok_order: "entry_ok (rec_codec demo_orders) (key_codec demo_orders) (Item r)"
  using demo_order_small [of r] by (simp add: entry_ok_def entry_payload_def encodes_small_def)

theorem mmap_store_reopens_witness:
  "\<exists>s0 replies s s'. ms_create demo_orders [order_1] = Inr s0 \<and> ms_run demo_orders s0 [OpInsert order_2] = Some (replies, s) \<and>
     ms_open_portable demo_orders (disk_of s) = Inr s' \<and>
     serves demo_orders s' (foldl (spec_step demo_orders) (keyed (rid demo_orders) [order_1]) [OpInsert order_2]) \<and>
     (ms_log s \<noteq> None \<longrightarrow> (\<exists>s''. ms_open_portable demo_orders
        ((disk_of s)\<lparr>d_log := Some (the (ms_log s) @
           take 7 (entry_bytes (rec_codec demo_orders) (key_codec demo_orders) (Item order_1)))\<rparr>) = Inr s'' \<and>
        serves demo_orders s'' (foldl (spec_step demo_orders) (keyed (rid demo_orders) [order_1]) [OpInsert order_2])))"
  by (rule mmap_store_reopens [OF lawful_demo_orders _ _ entry_ok_order])
    (simp add: op_ok_def demo_order_small entry_bytes_def put_frame_def entry_payload_def | simp
      add: demo_orders_def order_env_def fixed_codec_def order_field_write)+

text \<open>C12. A crash inside a write. When the log entry of an insert, a replace or a delete has landed
  and nothing else has, the reopened store answers every \<open>get\<close> with the write applied; the
  scannable field of a replaced record alone still has the slot's value, the window the code names.\<close>

theorem mmap_crash_after_log:
  assumes "lawful_env E" and "ms_ok E s" and "encodes_small (rec_codec E) r"
  shows "\<exists>s1 s2 log s3. ms_log_item E s r = Inr s1 \<and> ms_open_portable E (disk_of s1) = Inr s2 \<and>
     serves E s2 ((ms_map E s)(rid E r := (case ms_map E s (rid E r) of None \<Rightarrow> Some r
        | Some old \<Rightarrow> set_scannable_value E r (scannable_value E old)))) \<and>
     append_tombstone (key_codec E) (schema_tag E) k (ms_log s) = Inr log \<and>
     ms_open_portable E ((disk_of s)\<lparr>d_log := Some log\<rparr>) = Inr s3 \<and> serves E s3 ((ms_map E s)(k := None))"
proof -
  from assms(1) have L: "mmap_layer E" and ser: "serial_ok E" by (auto simp: lawful_env_def)
  from assms(2) obtain ss base es where rep: "ms_rep E ss s" and dur: "ms_durable E base es s" by (auto simp: ms_ok_def)
  have lg: "ms_log s = log_of (rec_codec E) (key_codec E) (schema_tag E) es" using dur by (simp add: ms_durable_def)
  let ?log = "\<lambda>e. log_of (rec_codec E) (key_codec E) (schema_tag E) (es @ [e])"
  have look: "(case lookup_slot ss (rid E r) of None \<Rightarrow> Some r | Some (p, v) \<Rightarrow> set_scannable_value E r v) =
      (case ms_map E s (rid E r) of None \<Rightarrow> Some r | Some old \<Rightarrow> set_scannable_value E r (scannable_value E old))"
  proof (cases "map_of (ms_records s) (rid E r)")
    case None
    then have "lookup_slot ss (rid E r) = None"
      using lookup_slot_None [OF mmap_layer.rep_unique [OF L rep]] mmap_layer.rep_not_committed [OF L rep] by blast
    with None mmap_layer.rep_map_None [OF L rep None] show ?thesis by simp
  next
    case (Some q)
    obtain p v where c: "committed_at ss p (rid E r) v" using mmap_layer.rep_committed [OF L rep Some] by blast
    then have lk: "lookup_slot ss (rid E r) = Some (p, v)"
      by (simp add: lookup_slot_iff [OF mmap_layer.rep_unique [OF L rep]])
    obtain q' where q': "ms_map E s (rid E r) = Some q'" "set_scannable_value E q v = Some q'"
      by (rule mmap_layer.rep_value [OF L rep Some c])
    have "record_laws E" using L by (simp add: mmap_layer_def)
    from record_laws.set_frame [OF this q'(2)] q'(1) lk show ?thesis by simp
  qed
  note item = mmap_layer.entry_ok_Item [OF L assms(3)] and tomb = mmap_layer.entry_ok_Tombstone [OF L ser, of k]
  have "ms_log_item E s r = Inr (s\<lparr>ms_log := ?log (Item r)\<rparr>)" by (rule mmap_layer.log_item_ok [OF L assms(3) lg])
  moreover have "disk_of (s\<lparr>ms_log := ?log (Item r)\<rparr>) = (disk_of s)\<lparr>d_log := ?log (Item r)\<rparr>"
    by (simp add: disk_of_def)
  moreover have "append_tombstone (key_codec E) (schema_tag E) k (ms_log s) = Inr (the (?log (Tombstone k)))"
    unfolding lg by (rule mmap_layer.log_tombstone_ok [OF L ser])
  moreover have "Some (the (?log (Tombstone k))) = ?log (Tombstone k)" by (simp add: log_of_def)
  ultimately show ?thesis
    using mmap_layer.reopen_logged [OF L rep dur ser item] mmap_layer.reopen_logged [OF L rep dur ser tomb]
    by (auto simp: look)
qed

lemma demo_store: "\<exists>s. ms_create demo_orders [order_1] = Inr s \<and> ms_ok demo_orders s"
proof -
  from lawful_demo_orders have L: "mmap_layer demo_orders" "serial_ok demo_orders" by (auto simp: lawful_env_def)
  from mmap_layer.create_ok [OF L, of "[order_1]"] show ?thesis by (auto intro: ms_okI)
qed

theorem mmap_crash_after_log_witness:
  "\<exists>s. ms_create demo_orders [order_1] = Inr s \<and>
    (\<exists>s1 s2 log s3. ms_log_item demo_orders s order_2 = Inr s1 \<and> ms_open_portable demo_orders (disk_of s1) = Inr s2 \<and>
     serves demo_orders s2 ((ms_map demo_orders s)(rid demo_orders order_2 :=
       (case ms_map demo_orders s (rid demo_orders order_2) of None \<Rightarrow> Some order_2
        | Some old \<Rightarrow> set_scannable_value demo_orders order_2 (scannable_value demo_orders old)))) \<and>
     append_tombstone (key_codec demo_orders) (schema_tag demo_orders) 1 (ms_log s) = Inr log \<and>
     ms_open_portable demo_orders ((disk_of s)\<lparr>d_log := Some log\<rparr>) = Inr s3 \<and>
     serves demo_orders s3 ((ms_map demo_orders s)(1 := None)))"
  using demo_store mmap_crash_after_log [OF lawful_demo_orders _ demo_order_small] by blast

text \<open>C15. Compaction. It reports the live records, the dead slots it reclaims, the number of entries
  the insert log held and no edge logs, leaves a file with one slot per record, and changes no answer; and a crash after the new
  blob is written, or after the slot file is replaced too, reopens to the same answers.\<close>

theorem mmap_compaction:
  assumes "lawful_env E" and "ms_ok E s"
  shows "\<exists>report s'. ms_compact E s = Some (Inr (report, s')) \<and> ms_ok E s' \<and> ms_map E s' = ms_map E s \<and>
     cr_records report = card (dom (ms_map E s)) \<and>
     cr_slots_reclaimed report = slot_count (id_field E) (val_field E) (ms_file s) - card (dom (ms_map E s)) \<and>
     (\<exists>es. read_entries (rec_codec E) (key_codec E) (schema_tag E) (ms_log s) = Inr es \<and>
        cr_log_entries_folded report = length es) \<and> cr_edge_logs_folded report = 0 \<and>
     slot_count (id_field E) (val_field E) (ms_file s') = card (dom (ms_map E s)) \<and> ms_log s' = None \<and>
     (\<exists>t. ms_open_portable E \<lparr>d_slots = Some (ms_file s), d_blob = ms_blob s', d_log = ms_log s\<rparr> = Inr t \<and>
        serves E t (ms_map E s)) \<and>
     (\<exists>t. ms_open_portable E \<lparr>d_slots = Some (ms_file s'), d_blob = ms_blob s', d_log = ms_log s\<rparr> = Inr t \<and>
        serves E t (ms_map E s))"
proof -
  from assms(1) have L: "mmap_layer E" and ser: "serial_ok E" by (auto simp: lawful_env_def)
  then have SC: "slot_codecs (id_field E) (val_field E)" by (simp add: mmap_layer_def)
  from assms(2) obtain ss base es where rep: "ms_rep E ss s" and dur: "ms_durable E base es s" by (auto simp: ms_ok_def)
  obtain records s' where r: "distinct (map (rid E) records)" "keyed (rid E) records = ms_map E s"
     "ms_compact E s = Some (Ok (\<lparr>cr_records = card (dom (ms_map E s)),
        cr_slots_reclaimed = length ss - card (dom (ms_map E s)),
        cr_log_entries_folded = length es, cr_edge_logs_folded = 0\<rparr>, s'))"
     "ms_file s' = slot_image (id_field E) (val_field E) (map (\<lambda>r. (rid E r, scannable_value E r, committed_marker)) records)"
     "ms_rep E (map (\<lambda>r. (rid E r, scannable_value E r, committed_marker)) records) s'"
     "ms_durable E records [] s'" "ms_map E s' = ms_map E s" "ms_log s' = None"
    using mmap_layer.compact_ok [OF L rep dur ser] by blast
  have "length records = card (dom (ms_map E s))"
    using distinct_card [OF r(1)] r(2) dom_keyed [of "rid E" records] by (metis length_map list.set_map)
  moreover have "ms_file s = slot_image (id_field E) (val_field E) ss" using rep by (simp add: ms_rep_def)
  moreover have "read_entries (rec_codec E) (key_codec E) (schema_tag E) (ms_log s) = Inr es"
    using mmap_layer.ms_ok_disk(1) [OF L rep dur ser] by (simp add: disk_holds_def disk_of_def)
  ultimately show ?thesis
    using r mmap_layer.crash_in_compaction [OF L rep dur ser r(3)] slot_codecs.count_image [OF SC]
    by (simp add: ms_okI [OF r(5,6)])
qed

theorem mmap_compaction_witness:
  "\<exists>s. ms_create demo_orders [order_1] = Inr s \<and>
    (\<exists>report s'. ms_compact demo_orders s = Some (Inr (report, s')) \<and> ms_ok demo_orders s' \<and>
     ms_map demo_orders s' = ms_map demo_orders s \<and>
     cr_records report = card (dom (ms_map demo_orders s)) \<and>
     cr_slots_reclaimed report = slot_count (id_field demo_orders) (val_field demo_orders) (ms_file s) - card (dom (ms_map demo_orders s)) \<and>
     (\<exists>es. read_entries (rec_codec demo_orders) (key_codec demo_orders) (schema_tag demo_orders) (ms_log s) = Inr es \<and>
        cr_log_entries_folded report = length es) \<and> cr_edge_logs_folded report = 0 \<and>
     slot_count (id_field demo_orders) (val_field demo_orders) (ms_file s') = card (dom (ms_map demo_orders s)) \<and> ms_log s' = None \<and>
     (\<exists>t. ms_open_portable demo_orders \<lparr>d_slots = Some (ms_file s), d_blob = ms_blob s', d_log = ms_log s\<rparr> = Inr t \<and>
        serves demo_orders t (ms_map demo_orders s)) \<and>
     (\<exists>t. ms_open_portable demo_orders \<lparr>d_slots = Some (ms_file s'), d_blob = ms_blob s', d_log = ms_log s\<rparr> = Inr t \<and>
        serves demo_orders t (ms_map demo_orders s)))"
  using demo_store mmap_compaction [OF lawful_demo_orders] by blast

text \<open>C16. Reads. The index and the scan agree with the map: \<open>filter_eq\<close> lists each matching id once
  and nothing else, \<open>scan\<close> gives the scannable value of every record once, on the whole-file path
  of a gapless file and on the position path alike, and \<open>all_ids\<close> lists the map's domain.\<close>

theorem mmap_reads_agree:
  assumes "lawful_env E" and "ms_ok E s"
  shows "distinct (ms_filter_eq s iv) \<and>
     set (ms_filter_eq s iv) = {i. \<exists>r. ms_map E s i = Some r \<and> indexed_value E r = iv} \<and>
     mset (ms_scan E s) = image_mset (\<lambda>i. scannable_value E (the (ms_map E s i))) (mset_set (dom (ms_map E s))) \<and>
     distinct (ms_all_ids s) \<and> set (ms_all_ids s) = dom (ms_map E s)"
proof -
  from assms(1) have L: "mmap_layer E" by (auto simp: lawful_env_def)
  from assms(2) obtain ss where rep: "ms_rep E ss s" by (auto simp: ms_ok_def)
  have "distinct (ms_all_ids s) \<and> set (ms_all_ids s) = dom (ms_map E s)"
    using rep mmap_layer.rep_dom [OF L rep]
    by (simp add: ms_all_ids_def ms_rep_def hm_wf_def dom_map_of_conv_image_fst)
  with mmap_layer.rep_filter_eq [OF L rep, of iv] mmap_layer.scan_values [OF L rep] show ?thesis by simp
qed

theorem mmap_reads_agree_witness:
  "\<exists>s. ms_create demo_orders [order_1] = Inr s \<and> distinct (ms_filter_eq s OPending) \<and>
     set (ms_filter_eq s OPending) = {i. \<exists>r. ms_map demo_orders s i = Some r \<and> indexed_value demo_orders r = OPending} \<and>
     mset (ms_scan demo_orders s) = image_mset (\<lambda>i. scannable_value demo_orders (the (ms_map demo_orders s i)))
       (mset_set (dom (ms_map demo_orders s))) \<and>
     distinct (ms_all_ids s) \<and> set (ms_all_ids s) = dom (ms_map demo_orders s)"
  using demo_store mmap_reads_agree [OF lawful_demo_orders] by blast

end
