(* ===== verification/Layer_Spec.thy ===== *)
theory Layer_Spec
  imports Mmap_Properties
begin

text \<open>
  The query traits of \<open>src/generic/query.rs\<close> that every storage layer is generic over. A layer of
  \<open>src/generic/store.rs\<close> wraps any \<open>S: GetById + Insert + Replace + Delete + Compact\<close>: the trait
  impls of \<open>S\<close> are a record \<open>store_ops\<close>, a layer is a function from one such record to the next,
  and the locale \<open>record_store\<close> is the contract that every layer needs and keeps. An operation
  returns its \<open>Result\<close> with the state it leaves, errors included; \<open>None\<close> is a panic.
\<close>

section \<open>Outcomes\<close>

type_synonym ('e, 'a, 's) outcome = "(('e + 'a) \<times> 's) option"

text \<open>\<open>self.inner.op(..)?\<close>: an error returns with what the inner store was left as.\<close>

definition through :: "('e, 'a, 's) outcome \<Rightarrow> ('s \<Rightarrow> 't) \<Rightarrow> ('a \<Rightarrow> 't \<Rightarrow> ('e, 'b, 't) outcome) \<Rightarrow>
    ('e, 'b, 't) outcome" where
  "through out put k =
     (case out of
        None \<Rightarrow> None
      | Some (Inl e, s) \<Rightarrow> Some (Inl e, put s)
      | Some (Inr a, s) \<Rightarrow> k a (put s))"

text \<open>A forwarded call: \<open>self.inner.op(..)\<close> as the tail expression.\<close>

definition forward :: "('e, 'a, 's) outcome \<Rightarrow> ('s \<Rightarrow> 't) \<Rightarrow> ('e, 'a, 't) outcome" where
  "forward out put = map_option (\<lambda>(r, s). (r, put s)) out"

lemma through_simps [simp]:
  "through None put k = None"
  "through (Some (Inl e, s)) put k = Some (Inl e, put s)"
  "through (Some (Inr a, s)) put k = k a (put s)"
  by (simp_all add: through_def)

lemma forward_simps [simp]:
  "forward None put = None"
  "forward (Some (r, s)) put = Some (r, put s)"
  by (simp_all add: forward_def)

section \<open>The traits of a record store\<close>

record ('s, 'id, 'r) store_ops =
  op_get :: "'s \<Rightarrow> 'id \<Rightarrow> 'r option option"
  op_insert :: "'s \<Rightarrow> 'r \<Rightarrow> ('id insert_error, unit, 's) outcome"
  op_replace :: "'s \<Rightarrow> 'r \<Rightarrow> ('id replace_error, unit, 's) outcome"
  op_delete :: "'s \<Rightarrow> 'id \<Rightarrow> ('id delete_error, unit, 's) outcome"
  op_compact :: "'s \<Rightarrow> (durability_error, compaction_report, 's) outcome"

text \<open>
  The contract, against a map from ids to records. \<open>okr\<close> are the records the store can write (the
  ones whose encoding fits the log), for which an insert or a replace cannot fail otherwise.
\<close>

locale record_store =
  fixes key :: "'r \<Rightarrow> 'id"
    and okr :: "'r \<Rightarrow> bool"
    and Ops :: "('s, 'id, 'r) store_ops"
    and invar :: "'s \<Rightarrow> bool"
    and view :: "'s \<Rightarrow> 'id \<rightharpoonup> 'r"
  assumes view_key: "invar s \<Longrightarrow> view s k = Some r \<Longrightarrow> key r = k"
    and view_finite: "invar s \<Longrightarrow> finite (dom (view s))"
    and get_view: "invar s \<Longrightarrow> op_get Ops s k = Some (view s k)"
    and insert_duplicate: "invar s \<Longrightarrow> view s (key r) \<noteq> None \<Longrightarrow>
      op_insert Ops s r = Some (Inl (InsDuplicate (key r)), s)"
    and insert_fresh: "invar s \<Longrightarrow> okr r \<Longrightarrow> view s (key r) = None \<Longrightarrow>
      \<exists>s'. op_insert Ops s r = Some (Inr (), s') \<and> invar s' \<and> view s' = (view s)(key r \<mapsto> r)"
    and replace_unknown: "invar s \<Longrightarrow> view s (key r) = None \<Longrightarrow>
      op_replace Ops s r = Some (Inl (RepNotFound (key r)), s)"
    and replace_known: "invar s \<Longrightarrow> okr r \<Longrightarrow> view s (key r) \<noteq> None \<Longrightarrow>
      \<exists>s'. op_replace Ops s r = Some (Inr (), s') \<and> invar s' \<and> view s' = (view s)(key r \<mapsto> r)"
    and delete_unknown: "invar s \<Longrightarrow> view s k = None \<Longrightarrow>
      op_delete Ops s k = Some (Inl (DelNotFound k), s)"
    and delete_known: "invar s \<Longrightarrow> view s k \<noteq> None \<Longrightarrow>
      \<exists>s'. op_delete Ops s k = Some (Inr (), s') \<and> invar s' \<and> view s' = (view s)(k := None)"
    and compact_view: "invar s \<Longrightarrow>
      \<exists>rep s'. op_compact Ops s = Some (Inr rep, s') \<and> invar s' \<and> view s' = view s"
begin

lemma insert_cases:
  assumes "invar s" "okr r"
  obtains (dup) "view s (key r) \<noteq> None" "op_insert Ops s r = Some (Inl (InsDuplicate (key r)), s)"
  | (fresh) s' where "view s (key r) = None" "op_insert Ops s r = Some (Inr (), s')" "invar s'"
      "view s' = (view s)(key r \<mapsto> r)"
proof (cases "view s (key r) = None")
  case True
  from insert_fresh [OF assms True] obtain s' where "op_insert Ops s r = Some (Inr (), s')" "invar s'"
    "view s' = (view s)(key r \<mapsto> r)" by blast
  with True show ?thesis by (intro fresh)
next
  case False
  with insert_duplicate [OF assms(1) False] show ?thesis by (intro dup)
qed

lemma replace_cases:
  assumes "invar s" "okr r"
  obtains (miss) "view s (key r) = None" "op_replace Ops s r = Some (Inl (RepNotFound (key r)), s)"
  | (hit) old s' where "view s (key r) = Some old" "op_replace Ops s r = Some (Inr (), s')" "invar s'"
      "view s' = (view s)(key r \<mapsto> r)"
proof (cases "view s (key r)")
  case None
  with replace_unknown [OF assms(1) None] show ?thesis by (intro miss)
next
  case (Some old)
  then have "view s (key r) \<noteq> None" by simp
  from replace_known [OF assms this] obtain s' where "op_replace Ops s r = Some (Inr (), s')" "invar s'"
    "view s' = (view s)(key r \<mapsto> r)" by blast
  with Some show ?thesis by (intro hit)
qed

lemma delete_cases:
  assumes "invar s"
  obtains (miss) "view s k = None" "op_delete Ops s k = Some (Inl (DelNotFound k), s)"
  | (hit) old s' where "view s k = Some old" "op_delete Ops s k = Some (Inr (), s')" "invar s'"
      "view s' = (view s)(k := None)"
proof (cases "view s k")
  case None
  with delete_unknown [OF assms None] show ?thesis by (intro miss)
next
  case (Some old)
  then have "view s k \<noteq> None" by simp
  from delete_known [OF assms this] obtain s' where "op_delete Ops s k = Some (Inr (), s')" "invar s'"
    "view s' = (view s)(k := None)" by blast
  with Some show ?thesis by (intro hit)
qed

end

text \<open>\<open>AllIds\<close>: every id once, in an order the code leaves to the hash map.\<close>

locale listed_store = record_store key okr Ops invar view
  for key :: "'r \<Rightarrow> 'id" and okr :: "'r \<Rightarrow> bool" and Ops :: "('s, 'id, 'r) store_ops"
    and invar :: "'s \<Rightarrow> bool" and view :: "'s \<Rightarrow> 'id \<rightharpoonup> 'r" +
  fixes all_ids :: "'s \<Rightarrow> 'id list"
  assumes all_ids_view: "invar s \<Longrightarrow> distinct (all_ids s) \<and> set (all_ids s) = dom (view s)"

text \<open>
  \<open>UpdateField\<close> of one scannable field: \<open>setv\<close> is the field's \<open>set_scannable_value\<close>, \<open>okv\<close> the values
  some record can hold.
\<close>

locale updatable_store = record_store key okr Ops invar view
  for key :: "'r \<Rightarrow> 'id" and okr :: "'r \<Rightarrow> bool" and Ops :: "('s, 'id, 'r) store_ops"
    and invar :: "'s \<Rightarrow> bool" and view :: "'s \<Rightarrow> 'id \<rightharpoonup> 'r" +
  fixes okv :: "'v \<Rightarrow> bool"
    and setv :: "'r \<Rightarrow> 'v \<Rightarrow> 'r option"
    and update :: "'s \<Rightarrow> 'id \<Rightarrow> 'v \<Rightarrow> ('id not_found, unit, 's) outcome"
  assumes setv_ok: "okv v \<Longrightarrow> setv r v \<noteq> None"
    and update_unknown: "invar s \<Longrightarrow> view s k = None \<Longrightarrow> update s k v = Some (Inl (NotFound k), s)"
    and update_known: "invar s \<Longrightarrow> okv v \<Longrightarrow> view s k = Some r \<Longrightarrow>
      \<exists>s'. update s k v = Some (Inr (), s') \<and> invar s' \<and> view s' = (view s)(k := setv r v)"

section \<open>Indexes that follow a map\<close>

text \<open>
  What every secondary index of the code promises: the bucket of a value lists, once each, the
  ids of the records that have it. \<open>vals\<close> gives the values a record is filed under.
\<close>

definition tracks :: "('r \<Rightarrow> 'v set) \<Rightarrow> ('id \<rightharpoonup> 'r) \<Rightarrow> ('v \<rightharpoonup> 'id list) \<Rightarrow> bool" where
  "tracks vals m ix \<longleftrightarrow> (\<forall>v. distinct (bucket ix v) \<and>
     set (bucket ix v) = {k. \<exists>r. m k = Some r \<and> v \<in> vals r})"

lemma tracks_bucket:
  assumes "tracks vals m ix"
  shows "distinct (bucket ix v)" and "set (bucket ix v) = {k. \<exists>r. m k = Some r \<and> v \<in> vals r}"
  using assms by (simp_all add: tracks_def)

lemma tracks_cong:
  assumes "tracks vals m ix" and "\<And>k. map_option vals (m' k) = map_option vals (m k)"
  shows "tracks vals m' ix"
proof -
  have "(\<exists>r. m' k = Some r \<and> v \<in> vals r) \<longleftrightarrow> (\<exists>r. m k = Some r \<and> v \<in> vals r)" for k v
    using assms(2) [of k] by (cases "m k"; cases "m' k") auto
  with assms(1) show ?thesis by (simp add: tracks_def)
qed

lemma tracks_insert:
  assumes "tracks vals m ix" "m k = None"
    and "\<And>v. bucket ix' v = (if v \<in> vals r then bucket ix v @ [k] else bucket ix v)"
  shows "tracks vals (m(k \<mapsto> r)) ix'"
  using assms(1) unfolding tracks_def assms(3) by (auto simp: assms(2))

lemma tracks_delete:
  assumes "tracks vals m ix" "m k = Some r"
    and "\<And>v. bucket ix' v = (if v \<in> vals r then filter (\<lambda>j. j \<noteq> k) (bucket ix v) else bucket ix v)"
  shows "tracks vals (m(k := None)) ix'"
  using assms(1) unfolding tracks_def assms(3) by (auto simp: assms(2))

lemma tracks_replace:
  assumes "tracks vals m ix" "m k = Some old"
    and "\<And>v. bucket ix' v =
      (if v \<in> vals r then (if v \<in> vals old then bucket ix v else bucket ix v @ [k])
       else if v \<in> vals old then filter (\<lambda>j. j \<noteq> k) (bucket ix v) else bucket ix v)"
  shows "tracks vals (m(k \<mapsto> r)) ix'"
proof -
  have "k \<in> set (bucket ix v) \<longleftrightarrow> v \<in> vals old" for v
    using tracks_bucket(2) [OF assms(1), of v] assms(2) by simp
  with assms(1) show ?thesis unfolding tracks_def assms(3) by (auto simp: assms(2))
qed

section \<open>Layers that keep an index beside an inner store\<close>

text \<open>
  The shape every wrapping layer of the code has: reads go to the inner store, a write goes to
  the inner store first and, where that succeeds, adjusts what the layer keeps. \<open>aux m t\<close> says
  that what the layer \<open>t\<close> keeps fits the records \<open>m\<close>. The layer then keeps the inner store's
  contract, with the inner store's records.
\<close>

locale wrapping_layer = record_store key okr Ops invar view
  for key :: "'r \<Rightarrow> 'id" and okr :: "'r \<Rightarrow> bool" and Ops :: "('s, 'id, 'r) store_ops"
    and invar :: "'s \<Rightarrow> bool" and view :: "'s \<Rightarrow> 'id \<rightharpoonup> 'r" +
  fixes inn :: "'t \<Rightarrow> 's"
    and aux :: "('id \<rightharpoonup> 'r) \<Rightarrow> 't \<Rightarrow> bool"
    and L :: "('t, 'id, 'r) store_ops"
  assumes w_get: "op_get L t k = op_get Ops (inn t) k"
    and w_insert_error: "op_insert Ops (inn t) r = Some (Inl e, inn t) \<Longrightarrow> op_insert L t r = Some (Inl e, t)"
    and w_insert: "aux m t \<Longrightarrow> m (key r) = None \<Longrightarrow> op_insert Ops (inn t) r = Some (Inr (), i) \<Longrightarrow>
      \<exists>t'. op_insert L t r = Some (Inr (), t') \<and> inn t' = i \<and> aux (m(key r \<mapsto> r)) t'"
    and w_replace_error: "op_get Ops (inn t) (key r) = Some None \<Longrightarrow>
      op_replace Ops (inn t) r = Some (Inl (RepNotFound (key r)), inn t) \<Longrightarrow>
      op_replace L t r = Some (Inl (RepNotFound (key r)), t)"
    and w_replace: "aux m t \<Longrightarrow> m (key r) = Some old \<Longrightarrow> op_get Ops (inn t) (key r) = Some (Some old) \<Longrightarrow>
      op_replace Ops (inn t) r = Some (Inr (), i) \<Longrightarrow>
      \<exists>t'. op_replace L t r = Some (Inr (), t') \<and> inn t' = i \<and> aux (m(key r \<mapsto> r)) t'"
    and w_delete_error: "op_get Ops (inn t) k = Some None \<Longrightarrow>
      op_delete Ops (inn t) k = Some (Inl (DelNotFound k), inn t) \<Longrightarrow>
      op_delete L t k = Some (Inl (DelNotFound k), t)"
    and w_delete: "aux m t \<Longrightarrow> m k = Some old \<Longrightarrow> op_get Ops (inn t) k = Some (Some old) \<Longrightarrow>
      op_delete Ops (inn t) k = Some (Inr (), i) \<Longrightarrow>
      \<exists>t'. op_delete L t k = Some (Inr (), t') \<and> inn t' = i \<and> aux (m(k := None)) t'"
    and w_compact: "aux m t \<Longrightarrow> op_compact Ops (inn t) = Some (Inr rep, i) \<Longrightarrow>
      \<exists>rep' t'. op_compact L t = Some (Inr rep', t') \<and> inn t' = i \<and> aux m t'"
begin

definition winvar :: "'t \<Rightarrow> bool" where
  "winvar t \<longleftrightarrow> invar (inn t) \<and> aux (view (inn t)) t"

definition wview :: "'t \<Rightarrow> 'id \<rightharpoonup> 'r" where
  "wview t = view (inn t)"

lemma winvarD: "winvar t \<Longrightarrow> invar (inn t)" "winvar t \<Longrightarrow> aux (view (inn t)) t"
  by (simp_all add: winvar_def)

lemma winvarI: "invar (inn t) \<Longrightarrow> aux (view (inn t)) t \<Longrightarrow> winvar t"
  by (simp add: winvar_def)

end

sublocale wrapping_layer \<subseteq> w: record_store key okr L winvar wview
proof unfold_locales
  fix t :: 't and r :: 'r and k :: 'id
  assume inv: "winvar t"
  note inner = winvarD(1) [OF inv] and aux = winvarD(2) [OF inv]
  note get = get_view [OF inner]
  show "wview t k = Some r \<Longrightarrow> key r = k" using view_key [OF inner] by (simp add: wview_def)
  show "finite (dom (wview t))" using view_finite [OF inner] by (simp add: wview_def)
  show "op_get L t k = Some (wview t k)" by (simp add: w_get wview_def get)
  show "wview t (key r) \<noteq> None \<Longrightarrow> op_insert L t r = Some (Inl (InsDuplicate (key r)), t)"
    using insert_duplicate [OF inner] by (intro w_insert_error) (simp add: wview_def)
  show "wview t (key r) = None \<Longrightarrow> op_replace L t r = Some (Inl (RepNotFound (key r)), t)"
    using replace_unknown [OF inner] by (intro w_replace_error) (simp_all add: wview_def get)
  show "wview t k = None \<Longrightarrow> op_delete L t k = Some (Inl (DelNotFound k), t)"
    using delete_unknown [OF inner] by (intro w_delete_error) (simp_all add: wview_def get)
  show "\<exists>rep t'. op_compact L t = Some (Inr rep, t') \<and> winvar t' \<and> wview t' = wview t"
  proof -
    obtain rep i where i: "op_compact Ops (inn t) = Some (Inr rep, i)" "invar i" "view i = view (inn t)"
      using compact_view [OF inner] by blast
    from w_compact [OF aux i(1)] i(2,3) show ?thesis by (auto simp: winvar_def wview_def)
  qed
  show "okr r \<Longrightarrow> wview t (key r) = None \<Longrightarrow>
      \<exists>t'. op_insert L t r = Some (Inr (), t') \<and> winvar t' \<and> wview t' = (wview t)(key r \<mapsto> r)"
  proof -
    assume ok: "okr r" and "wview t (key r) = None"
    then have none: "view (inn t) (key r) = None" by (simp add: wview_def)
    obtain i where i: "op_insert Ops (inn t) r = Some (Inr (), i)" "invar i"
      "view i = (view (inn t))(key r \<mapsto> r)" using insert_fresh [OF inner ok none] by blast
    from w_insert [OF aux none i(1)] i(2,3) show ?thesis by (auto simp: winvar_def wview_def)
  qed
  show "okr r \<Longrightarrow> wview t (key r) \<noteq> None \<Longrightarrow>
      \<exists>t'. op_replace L t r = Some (Inr (), t') \<and> winvar t' \<and> wview t' = (wview t)(key r \<mapsto> r)"
  proof -
    assume ok: "okr r" and some: "wview t (key r) \<noteq> None"
    then obtain old where old: "view (inn t) (key r) = Some old" by (auto simp: wview_def)
    obtain i where i: "op_replace Ops (inn t) r = Some (Inr (), i)" "invar i"
      "view i = (view (inn t))(key r \<mapsto> r)" using replace_known [OF inner ok] old by auto
    from get [of "key r"] old have "op_get Ops (inn t) (key r) = Some (Some old)" by simp
    from w_replace [OF aux old this i(1)] i(2,3) show ?thesis by (auto simp: winvar_def wview_def)
  qed
  show "wview t k \<noteq> None \<Longrightarrow>
      \<exists>t'. op_delete L t k = Some (Inr (), t') \<and> winvar t' \<and> wview t' = (wview t)(k := None)"
  proof -
    assume "wview t k \<noteq> None"
    then obtain old where old: "view (inn t) k = Some old" by (auto simp: wview_def)
    obtain i where i: "op_delete Ops (inn t) k = Some (Inr (), i)" "invar i"
      "view i = (view (inn t))(k := None)" using delete_known [OF inner, of k] old by auto
    from get [of k] old have "op_get Ops (inn t) k = Some (Some old)" by simp
    from w_delete [OF aux old this i(1)] i(2,3) show ?thesis by (auto simp: winvar_def wview_def)
  qed
qed

text \<open>Forwarding \<open>AllIds\<close> and \<open>UpdateField\<close> through a layer.\<close>

locale wrapping_listed = wrapping_layer key okr Ops invar view inn aux L + listed_store key okr Ops invar view all_ids
  for key :: "'r \<Rightarrow> 'id" and okr :: "'r \<Rightarrow> bool" and Ops :: "('s, 'id, 'r) store_ops"
    and invar :: "'s \<Rightarrow> bool" and view :: "'s \<Rightarrow> 'id \<rightharpoonup> 'r"
    and inn :: "'t \<Rightarrow> 's" and aux :: "('id \<rightharpoonup> 'r) \<Rightarrow> 't \<Rightarrow> bool" and L :: "('t, 'id, 'r) store_ops"
    and all_ids :: "'s \<Rightarrow> 'id list"

sublocale wrapping_listed \<subseteq> w: listed_store key okr L winvar wview "\<lambda>t. all_ids (inn t)"
  by unfold_locales (auto simp: wview_def dest!: winvarD(1) all_ids_view)

locale wrapping_updatable = wrapping_layer key okr Ops invar view inn aux L +
    updatable_store key okr Ops invar view okv setv update
  for key :: "'r \<Rightarrow> 'id" and okr :: "'r \<Rightarrow> bool" and Ops :: "('s, 'id, 'r) store_ops"
    and invar :: "'s \<Rightarrow> bool" and view :: "'s \<Rightarrow> 'id \<rightharpoonup> 'r"
    and inn :: "'t \<Rightarrow> 's" and aux :: "('id \<rightharpoonup> 'r) \<Rightarrow> 't \<Rightarrow> bool" and L :: "('t, 'id, 'r) store_ops"
    and okv :: "'v \<Rightarrow> bool" and setv :: "'r \<Rightarrow> 'v \<Rightarrow> 'r option"
    and update :: "'s \<Rightarrow> 'id \<Rightarrow> 'v \<Rightarrow> ('id not_found, unit, 's) outcome" +
  fixes updateL :: "'t \<Rightarrow> 'id \<Rightarrow> 'v \<Rightarrow> ('id not_found, unit, 't) outcome"
  assumes w_update_error: "op_get Ops (inn t) k = Some None \<Longrightarrow>
      update (inn t) k v = Some (Inl (NotFound k), inn t) \<Longrightarrow> updateL t k v = Some (Inl (NotFound k), t)"
    and w_update: "aux m t \<Longrightarrow> m k = Some r \<Longrightarrow> setv r v = Some r' \<Longrightarrow>
      op_get Ops (inn t) k = Some (Some r) \<Longrightarrow> op_get Ops i k = Some (Some r') \<Longrightarrow>
      update (inn t) k v = Some (Inr (), i) \<Longrightarrow>
      \<exists>t'. updateL t k v = Some (Inr (), t') \<and> inn t' = i \<and> aux (m(k \<mapsto> r')) t'"

sublocale wrapping_updatable \<subseteq> w: updatable_store key okr L winvar wview okv setv updateL
proof unfold_locales
  show "setv r v \<noteq> None" if "okv v" for r v using setv_ok [OF that] .
  show "updateL t k v = Some (Inl (NotFound k), t)" if "winvar t" "wview t k = None" for t k v
    using that update_unknown [of "inn t" k v] get_view [of "inn t" k]
    by (intro w_update_error) (simp_all add: winvar_def wview_def)
  fix t k v r
  assume inv: "winvar t" and ok: "okv v" and r: "wview t k = Some r"
  note inner = winvarD(1) [OF inv] and aux = winvarD(2) [OF inv]
  from r have r': "view (inn t) k = Some r" by (simp add: wview_def)
  from setv_ok [OF ok, of r] obtain q where q: "setv r v = Some q" by auto
  obtain i where i: "update (inn t) k v = Some (Inr (), i)" "invar i" "view i = (view (inn t))(k := setv r v)"
    using update_known [OF inner ok r'] by blast
  have "op_get Ops (inn t) k = Some (Some r)" "op_get Ops i k = Some (Some q)"
    using get_view [OF inner, of k] get_view [OF i(2), of k] r' i(3) q by simp_all
  from w_update [OF aux r' q this i(1)] i(2,3) q
  show "\<exists>t'. updateL t k v = Some (Inr (), t') \<and> winvar t' \<and> wview t' = (wview t)(k := setv r v)"
    by (auto simp: winvar_def wview_def)
qed

end
