(* ===== verification/Edge_Lists.thy ===== *)
theory Edge_Lists
  imports Insert_Log "HOL-Library.Product_Lexorder"
begin

text \<open>
  Undirected edges as \<open>src/generic/store.rs\<close> keeps them: an adjacency map from an id to its
  neighbours in memory, an edge list with a log of added edges and id tombstones on disk. The
  abstraction of both is a symmetric relation, and folding the log, folding it twice and
  rewriting the blob from the adjacency are facts about that relation.
\<close>

section \<open>Adjacency\<close>

type_synonym 'id adjacency = "('id, 'id list) hash_map"

definition adj_push :: "'id \<Rightarrow> 'id \<Rightarrow> 'id adjacency \<Rightarrow> 'id adjacency" where
  "adj_push a b adj = AList.update a (bucket (map_of adj) a @ [b]) adj"

definition adj_link :: "'id \<Rightarrow> 'id \<Rightarrow> 'id adjacency \<Rightarrow> 'id adjacency" where
  "adj_link a b adj = adj_push b a (adj_push a b adj)"

definition adj_of_edges :: "('id \<times> 'id) list \<Rightarrow> 'id adjacency" where
  "adj_of_edges edges = foldl (\<lambda>adj (a, b). adj_link a b adj) [] edges"

definition has_edge :: "'id adjacency \<Rightarrow> 'id \<Rightarrow> 'id \<Rightarrow> bool" where
  "has_edge adj a b = (case map_of adj a of None \<Rightarrow> False | Some v \<Rightarrow> b \<in> set v)"

definition adj_drop_back :: "'id \<Rightarrow> 'id \<Rightarrow> 'id adjacency \<Rightarrow> 'id adjacency" where
  "adj_drop_back n k adj =
     (case map_of adj n of
        None \<Rightarrow> adj
      | Some back \<Rightarrow>
          (let back = filter (\<lambda>other. other \<noteq> k) back in
           if back = [] then AList.delete n adj else AList.update n back adj))"

definition drop_edges_of :: "'id adjacency \<Rightarrow> 'id \<Rightarrow> 'id adjacency \<times> nat" where
  "drop_edges_of adj k =
     (case map_of adj k of
        None \<Rightarrow> (adj, 0)
      | Some neighbors \<Rightarrow> (foldl (\<lambda>adj n. adj_drop_back n k adj) (AList.delete k adj) neighbors, length neighbors))"

definition sorted_edges :: "('id::linorder) adjacency \<Rightarrow> ('id \<times> 'id) list" where
  "sorted_edges adj =
     remdups_adj (sort (concat (map (\<lambda>(a, neighbors). map (\<lambda>b. (a, b)) (filter (\<lambda>b. a \<le> b) neighbors)) adj)))"

section \<open>The log\<close>

text \<open>One entry of the fold over the edge list and the set of pairs seen in either orientation.\<close>

fun merge_edge_step :: "('id \<times> 'id) list \<times> ('id \<times> 'id) set \<Rightarrow> ('id \<times> 'id, 'id) log_entry \<Rightarrow>
    ('id \<times> 'id) list \<times> ('id \<times> 'id) set" where
  "merge_edge_step (edges, seen) (Item (a, b)) =
     (if (a, b) \<in> seen then (edges, seen) else (edges @ [(a, b)], insert (b, a) (insert (a, b) seen)))"
| "merge_edge_step (edges, seen) (Tombstone k) =
     (filter (\<lambda>(a, b). a \<noteq> k \<and> b \<noteq> k) edges,
      foldl (\<lambda>seen (a, b). if a \<noteq> k \<and> b \<noteq> k then seen else seen - {(a, b)} - {(b, a)}) seen edges)"

definition merge_edge_lists :: "('id \<times> 'id) list \<Rightarrow> ('id \<times> 'id, 'id) log_entry list \<Rightarrow> ('id \<times> 'id) list" where
  "merge_edge_lists edges logged =
     (if logged = [] then edges
      else fst (foldl merge_edge_step
        (edges, foldl (\<lambda>seen (a, b). insert (b, a) (insert (a, b) seen)) {} edges) logged))"

section \<open>The relation\<close>

definition sym_rel :: "('id \<times> 'id) list \<Rightarrow> ('id \<times> 'id) set" where
  "sym_rel edges = {(a, b). (a, b) \<in> set edges \<or> (b, a) \<in> set edges}"

definition adj_rel :: "'id adjacency \<Rightarrow> ('id \<times> 'id) set" where
  "adj_rel adj = {(a, b). b \<in> set (bucket (map_of adj) a)}"

fun rel_entry :: "('id \<times> 'id) set \<Rightarrow> ('id \<times> 'id, 'id) log_entry \<Rightarrow> ('id \<times> 'id) set" where
  "rel_entry R (Item (a, b)) = insert (b, a) (insert (a, b) R)"
| "rel_entry R (Tombstone k) = {(a, b) \<in> R. a \<noteq> k \<and> b \<noteq> k}"

text \<open>Each undirected edge at most once, no self-loop.\<close>

definition edges_ok :: "('id \<times> 'id) list \<Rightarrow> bool" where
  "edges_ok edges \<longleftrightarrow> distinct edges \<and> (\<forall>(a, b) \<in> set edges. a \<noteq> b \<and> (b, a) \<notin> set edges)"

definition entry_irrefl :: "('id \<times> 'id, 'id) log_entry \<Rightarrow> bool" where
  "entry_irrefl e = (case e of Item (a, b) \<Rightarrow> a \<noteq> b | Tombstone _ \<Rightarrow> True)"

definition adj_ok :: "'id adjacency \<Rightarrow> bool" where
  "adj_ok adj \<longleftrightarrow> hm_wf adj \<and> no_empty_bucket (map_of adj) \<and> (\<forall>a. distinct (bucket (map_of adj) a)) \<and>
     sym (adj_rel adj) \<and> irrefl (adj_rel adj)"

lemma sym_rel_simps [simp]:
  "sym_rel [] = {}"
  "sym_rel (es @ [(a, b)]) = insert (b, a) (insert (a, b) (sym_rel es))"
  by (auto simp: sym_rel_def)

lemma sym_sym_rel: "(a, b) \<in> sym_rel es \<longleftrightarrow> (b, a) \<in> sym_rel es"
  by (auto simp: sym_rel_def)

lemma seen_sym_rel:
  "foldl (\<lambda>seen (a, b). insert (b, a) (insert (a, b) seen)) S es = S \<union> sym_rel es"
proof (induction es rule: rev_induct)
  case (snoc p es)
  obtain a b where p: "p = (a, b)" by (cases p)
  have "insert (b, a) (insert (a, b) (S \<union> sym_rel es)) = S \<union> insert (b, a) (insert (a, b) (sym_rel es))" by blast
  then show ?case by (simp only: p foldl_append foldl_Cons foldl_Nil snoc split_conv sym_rel_simps)
qed simp

lemma seen_drop:
  "foldl (\<lambda>seen (a, b). if a \<noteq> k \<and> b \<noteq> k then seen else seen - {(a, b)} - {(b, a)}) S es =
     S - sym_rel (filter (\<lambda>(a, b). \<not> (a \<noteq> k \<and> b \<noteq> k)) es)"
proof (induction es rule: rev_induct)
  case (snoc p es)
  obtain a b where p: "p = (a, b)" by (cases p)
  let ?D = "sym_rel (filter (\<lambda>(a, b). \<not> (a \<noteq> k \<and> b \<noteq> k)) es)"
  have "S - ?D - {(a, b)} - {(b, a)} = S - insert (b, a) (insert (a, b) ?D)" by blast
  then show ?case
    by (cases "a = k"; cases "b = k") (simp_all add: p snoc)
qed simp

lemma merge_edge_step_rel:
  assumes "edges_ok es" "entry_irrefl e" and "(es', seen') = merge_edge_step (es, sym_rel es) e"
  shows "seen' = sym_rel es' \<and> sym_rel es' = rel_entry (sym_rel es) e \<and> edges_ok es'"
proof (cases e)
  case (Item p)
  obtain a b where p: "p = (a, b)" by (cases p)
  have "insert (b, a) (insert (a, b) (sym_rel es)) = sym_rel es" if "(a, b) \<in> sym_rel es"
    using that sym_sym_rel [of a b es] by (auto simp: insert_absorb)
  with assms show ?thesis
    by (cases "(a, b) \<in> sym_rel es") (auto simp: Item p edges_ok_def entry_irrefl_def sym_rel_def)
next
  case (Tombstone k)
  have es': "es' = filter (\<lambda>(a, b). a \<noteq> k \<and> b \<noteq> k) es"
    and seen': "seen' = sym_rel es - sym_rel (filter (\<lambda>(a, b). \<not> (a \<noteq> k \<and> b \<noteq> k)) es)"
    using assms(3) unfolding Tombstone merge_edge_step.simps seen_drop by simp_all
  have "seen' = sym_rel es'" unfolding es' seen' by (auto simp: sym_rel_def)
  moreover have "sym_rel es' = rel_entry (sym_rel es) e" by (auto simp: es' Tombstone sym_rel_def)
  moreover have "edges_ok es'" using assms(1) by (auto simp: es' edges_ok_def)
  ultimately show ?thesis by blast
qed

lemma merge_fold_rel:
  assumes "edges_ok es" "\<forall>e \<in> set log. entry_irrefl e"
  shows "sym_rel (fst (foldl merge_edge_step (es, sym_rel es) log)) = foldl rel_entry (sym_rel es) log \<and>
     edges_ok (fst (foldl merge_edge_step (es, sym_rel es) log))"
  using assms
proof (induction log arbitrary: es)
  case (Cons e log)
  then have e: "entry_irrefl e" by simp
  obtain es' seen' where es': "(es', seen') = merge_edge_step (es, sym_rel es) e"
    by (cases "merge_edge_step (es, sym_rel es) e") simp
  from merge_edge_step_rel [OF Cons.prems(1) e es'] Cons.IH [of es'] Cons.prems(2) es' [symmetric]
  show ?case by simp
qed simp

lemma merge_edge_lists_rel:
  assumes "edges_ok es" "\<forall>e \<in> set log. entry_irrefl e"
  shows "sym_rel (merge_edge_lists es log) = foldl rel_entry (sym_rel es) log"
    and "edges_ok (merge_edge_lists es log)"
  using merge_fold_rel [OF assms] assms(1) by (auto simp: merge_edge_lists_def seen_sym_rel)

text \<open>Folding a log over what it was already folded into changes nothing.\<close>

lemma fold_rel_member:
  "(a, b) \<in> foldl rel_entry R log \<longleftrightarrow>
     (case List.find (\<lambda>e. case e of Item (c, d) \<Rightarrow> (c, d) = (a, b) \<or> (d, c) = (a, b) | Tombstone k \<Rightarrow> k = a \<or> k = b) (rev log) of
        None \<Rightarrow> (a, b) \<in> R
      | Some (Item _) \<Rightarrow> True
      | Some (Tombstone _) \<Rightarrow> False)"
proof (induction log rule: rev_induct)
  case (snoc e log)
  then show ?case by (cases e) (auto split: prod.splits)
qed simp

lemma fold_rel_idem: "foldl rel_entry (foldl rel_entry R log) log = foldl rel_entry R log"
proof -
  have "(a, b) \<in> foldl rel_entry (foldl rel_entry R log) log \<longleftrightarrow> (a, b) \<in> foldl rel_entry R log" for a b
    unfolding fold_rel_member [of a b _ log] by (simp split: option.splits log_entry.split)
  then show ?thesis by auto
qed

section \<open>Adjacency operations on the relation\<close>

lemma map_of_adj_push: "map_of (adj_push a b adj) = bucket_push a b (map_of adj)"
  by (simp add: adj_push_def bucket_push_def update_conv')

lemma map_of_adj_drop_back: "map_of (adj_drop_back n k adj) = bucket_drop n k (map_of adj)"
  by (simp add: adj_drop_back_def bucket_drop_def update_conv' delete_conv' Let_def split: option.split)

lemma hm_wf_adj [simp]:
  "hm_wf adj \<Longrightarrow> hm_wf (adj_push a b adj)"
  "hm_wf adj \<Longrightarrow> hm_wf (adj_drop_back n k adj)"
  by (simp_all add: adj_push_def adj_drop_back_def Let_def split: option.split)

lemma has_edge_iff: "has_edge adj a b \<longleftrightarrow> (a, b) \<in> adj_rel adj"
  by (simp add: has_edge_def adj_rel_def bucket_def split: option.split)

lemma adj_rel_link: "adj_rel (adj_link a b adj) = insert (b, a) (insert (a, b) (adj_rel adj))"
  by (auto simp: adj_rel_def adj_link_def map_of_adj_push bucket_simps split: if_splits)

lemma adj_ok_link:
  assumes "adj_ok adj" "a \<noteq> b" "\<not> has_edge adj a b"
  shows "adj_ok (adj_link a b adj)"
proof -
  have nb: "b \<notin> set (bucket (map_of adj) a)" "a \<notin> set (bucket (map_of adj) b)"
    using assms(1,3) by (auto simp: has_edge_iff adj_ok_def adj_rel_def sym_def)
  have "sym (insert (b, a) (insert (a, b) (adj_rel adj)))" "irrefl (insert (b, a) (insert (a, b) (adj_rel adj)))"
    using assms by (auto simp: adj_ok_def sym_def irrefl_def)
  with assms nb show ?thesis
    by (simp add: adj_ok_def adj_rel_link) (auto simp: adj_link_def map_of_adj_push bucket_simps)
qed

lemma adj_ok_Nil [simp]: "adj_ok []"
  by (simp add: adj_ok_def adj_rel_def sym_def irrefl_def)

lemma adj_of_edges_ok:
  assumes "edges_ok es"
  shows "adj_ok (adj_of_edges es)" and "adj_rel (adj_of_edges es) = sym_rel es"
  using assms
proof (induction es rule: rev_induct)
  case Nil
  { case 1 show ?case by (simp add: adj_of_edges_def) }
  { case 2 show ?case by (simp add: adj_of_edges_def adj_rel_def) }
next
  case (snoc p es)
  obtain a b where p: "p = (a, b)" by (cases p)
  have step: "adj_of_edges (es @ [p]) = adj_link a b (adj_of_edges es)" by (simp add: adj_of_edges_def p)
  have ok: "edges_ok es" if "edges_ok (es @ [p])" using that by (auto simp: edges_ok_def p)
  { case 1
    then have "a \<noteq> b" "(a, b) \<notin> sym_rel es" by (auto simp: edges_ok_def sym_rel_def p)
    with snoc(1,2) [OF ok [OF 1]] show ?case unfolding step by (intro adj_ok_link) (simp_all add: has_edge_iff) }
  { case 2
    with snoc(2) [OF ok [OF 2]] show ?case unfolding step adj_rel_link by (simp add: p) }
qed

lemma bucket_delete: "bucket (m(k := None)) j = (if j = k then [] else bucket m j)"
  by (simp add: bucket_def)

lemma bucket_drop_many:
  "bucket (map_of (foldl (\<lambda>adj n. adj_drop_back n k adj) adj ns)) j =
     (if j \<in> set ns then filter (\<lambda>v. v \<noteq> k) (bucket (map_of adj) j) else bucket (map_of adj) j)"
  by (induction ns arbitrary: adj) (auto simp: map_of_adj_drop_back bucket_simps)

lemma drop_many_ok:
  "hm_wf adj \<Longrightarrow> hm_wf (foldl (\<lambda>adj n. adj_drop_back n k adj) adj ns)"
  "no_empty_bucket (map_of adj) \<Longrightarrow> no_empty_bucket (map_of (foldl (\<lambda>adj n. adj_drop_back n k adj) adj ns))"
  by (induction ns arbitrary: adj) (simp_all add: map_of_adj_drop_back no_empty_bucket_intros)

text \<open>After \<open>drop_edges_of\<close> no edge touches the id; every other edge is as before.\<close>

lemma drop_edges_of_rel:
  assumes "adj_ok adj"
  shows "adj_rel (fst (drop_edges_of adj k)) = {(a, b) \<in> adj_rel adj. a \<noteq> k \<and> b \<noteq> k}"
    and "adj_ok (fst (drop_edges_of adj k))"
    and "snd (drop_edges_of adj k) = card {b. (k, b) \<in> adj_rel adj}"
proof -
  from assms have sym: "sym (adj_rel adj)" and irr: "irrefl (adj_rel adj)" by (simp_all add: adj_ok_def)
  have bucket: "bucket (map_of (fst (drop_edges_of adj k))) j =
      (if j = k then [] else filter (\<lambda>v. v \<noteq> k) (bucket (map_of adj) j))" for j
  proof (cases "map_of adj k")
    case None
    then have "(k, j) \<notin> adj_rel adj" by (simp add: adj_rel_def bucket_def)
    with sym have "k \<notin> set (bucket (map_of adj) j)" by (auto simp: adj_rel_def sym_def)
    then have "filter (\<lambda>v. v \<noteq> k) (bucket (map_of adj) j) = bucket (map_of adj) j"
      by (auto simp: filter_id_conv)
    with None show ?thesis by (simp add: drop_edges_of_def) (simp add: bucket_def)
  next
    case (Some ns)
    then have "j \<in> set ns \<longleftrightarrow> (k, j) \<in> adj_rel adj" by (simp add: adj_rel_def bucket_def)
    also have "\<dots> \<longleftrightarrow> k \<in> set (bucket (map_of adj) j)" using sym by (auto simp: adj_rel_def sym_def)
    finally have mem: "j \<in> set ns \<longleftrightarrow> k \<in> set (bucket (map_of adj) j)" .
    show ?thesis
    proof (cases "j \<in> set ns")
      case True
      with Some show ?thesis by (simp add: drop_edges_of_def bucket_drop_many delete_conv' bucket_delete)
    next
      case False
      with mem have "filter (\<lambda>v. v \<noteq> k) (bucket (map_of adj) j) = bucket (map_of adj) j"
        by (auto simp: filter_id_conv)
      with Some False show ?thesis by (simp add: drop_edges_of_def bucket_drop_many delete_conv' bucket_delete)
    qed
  qed
  show rel: "adj_rel (fst (drop_edges_of adj k)) = {(a, b) \<in> adj_rel adj. a \<noteq> k \<and> b \<noteq> k}"
    by (auto simp: adj_rel_def bucket split: if_splits)
  have "hm_wf (fst (drop_edges_of adj k))" "no_empty_bucket (map_of (fst (drop_edges_of adj k)))"
  proof -
    have "no_empty_bucket (map_of (AList.delete k adj))"
      using assms by (simp add: adj_ok_def delete_conv' no_empty_bucket_def)
    then show "hm_wf (fst (drop_edges_of adj k))" "no_empty_bucket (map_of (fst (drop_edges_of adj k)))"
      using assms by (auto simp: adj_ok_def drop_edges_of_def drop_many_ok split: option.split)
  qed
  moreover have "distinct (bucket (map_of (fst (drop_edges_of adj k))) a)" for a
    using assms by (simp add: bucket adj_ok_def)
  ultimately show "adj_ok (fst (drop_edges_of adj k))"
    using sym irr unfolding adj_ok_def rel by (auto simp: sym_def irrefl_def)
  have "{b. (k, b) \<in> adj_rel adj} = set (bucket (map_of adj) k)" by (simp add: adj_rel_def)
  moreover have "distinct (bucket (map_of adj) k)" using assms by (simp add: adj_ok_def)
  ultimately show "snd (drop_edges_of adj k) = card {b. (k, b) \<in> adj_rel adj}"
    by (cases "map_of adj k") (simp_all add: drop_edges_of_def bucket_def distinct_card)
qed

section \<open>The edge list of an adjacency\<close>

lemma set_sorted_edges:
  assumes "hm_wf adj"
  shows "set (sorted_edges adj) = {(a, b) \<in> adj_rel adj. a \<le> b}"
proof -
  have "b \<in> set (bucket (map_of adj) a) \<longleftrightarrow> (\<exists>ns. (a, ns) \<in> set adj \<and> b \<in> set ns)" for a b
  proof
    assume "b \<in> set (bucket (map_of adj) a)"
    then show "\<exists>ns. (a, ns) \<in> set adj \<and> b \<in> set ns"
      by (cases "map_of adj a") (auto simp: bucket_def dest: map_of_SomeD)
  next
    assume "\<exists>ns. (a, ns) \<in> set adj \<and> b \<in> set ns"
    then show "b \<in> set (bucket (map_of adj) a)" using assms by (auto simp: bucket_def hm_wf_def)
  qed
  then show ?thesis by (auto simp: sorted_edges_def adj_rel_def)
qed

lemma distinct_remdups_adj_sorted: "sorted xs \<Longrightarrow> distinct (remdups_adj xs)"
  for xs :: "'a::linorder list"
  by (induction xs rule: remdups_adj.induct) (auto simp: less_le)

lemma sorted_edges_ok:
  assumes "adj_ok adj"
  shows "edges_ok (sorted_edges adj)" and "sym_rel (sorted_edges adj) = adj_rel adj"
proof -
  from assms have wf: "hm_wf adj" and sym: "sym (adj_rel adj)" and irr: "irrefl (adj_rel adj)"
    by (simp_all add: adj_ok_def)
  have "distinct (sorted_edges adj)"
    unfolding sorted_edges_def by (rule distinct_remdups_adj_sorted) simp
  then show "edges_ok (sorted_edges adj)"
    using irr by (auto simp: edges_ok_def set_sorted_edges [OF wf] irrefl_def)
  show "sym_rel (sorted_edges adj) = adj_rel adj"
    using sym linear by (fastforce simp: sym_rel_def set_sorted_edges [OF wf] sym_def)
qed

section \<open>Counting\<close>

lemma adj_rel_Cons:
  assumes "a \<notin> fst ` set adj"
  shows "adj_rel ((a, ns) # adj) = Pair a ` set ns \<union> adj_rel adj"
proof -
  have "map_of adj a = None" using assms by (simp add: map_of_eq_None_iff)
  then have "bucket (map_of adj) a = []" by (simp add: bucket_def)
  moreover have "bucket (map_of ((a, ns) # adj)) x = (if x = a then ns else bucket (map_of adj) x)" for x
    by (simp add: bucket_def)
  ultimately show ?thesis by (auto simp: adj_rel_def split: if_splits)
qed

text \<open>The lengths of the buckets add up to the size of the relation, twice the number of edges.\<close>

lemma degree_sum:
  assumes "hm_wf adj" "\<forall>a. distinct (bucket (map_of adj) a)"
  shows "finite (adj_rel adj) \<and> sum_list (map (\<lambda>(_, ns). length ns) adj) = card (adj_rel adj)"
  using assms
proof (induction adj)
  case Nil
  show ?case by (simp add: adj_rel_def)
next
  case (Cons p adj)
  obtain a ns where p: "p = (a, ns)" by (cases p)
  from Cons.prems have a: "a \<notin> fst ` set adj" and wf: "hm_wf adj" by (simp_all add: hm_wf_def p)
  from Cons.prems(2) have "distinct (bucket (map_of (p # adj)) a)" by blast
  then have ns: "distinct ns" by (simp add: p bucket_def)
  have none: "map_of adj a = None" using a by (simp add: map_of_eq_None_iff)
  have "distinct (bucket (map_of adj) b)" for b
    using Cons.prems(2) [rule_format, of b] none by (cases "b = a") (simp_all add: p bucket_def)
  with Cons.IH wf have IH: "finite (adj_rel adj)" "sum_list (map (\<lambda>(_, ns). length ns) adj) = card (adj_rel adj)" by simp_all
  have "Pair a ` set ns \<inter> adj_rel adj = {}" using none by (auto simp: adj_rel_def bucket_def)
  with IH(1) have "card (Pair a ` set ns \<union> adj_rel adj) = card (Pair a ` set ns) + card (adj_rel adj)"
    by (intro card_Un_disjoint) simp_all
  moreover have "card (Pair a ` set ns) = length ns" using ns by (simp add: card_image inj_on_def distinct_card)
  ultimately show ?case using IH unfolding p adj_rel_Cons [OF a] by simp
qed

lemma card_sym_irrefl:
  fixes R :: "('a::linorder \<times> 'a) set"
  assumes "finite R" "sym R" "irrefl R"
  shows "card R = 2 * card {(a, b) \<in> R. a < b}"
proof -
  let ?A = "{(a, b) \<in> R. a < b}"
  have "R = ?A \<union> ?A\<inverse>"
  proof (intro set_eqI iffI)
    fix p assume p: "p \<in> R"
    obtain a b where ab: "p = (a, b)" by (cases p)
    from p assms(3) have "a \<noteq> b" by (auto simp: ab irrefl_def)
    then consider "a < b" | "b < a" by (metis linorder_cases)
    then show "p \<in> ?A \<union> ?A\<inverse>"
    proof cases
      case 2
      with p assms(2) show ?thesis by (simp add: ab sym_def)
    qed (use p in \<open>simp add: ab\<close>)
  next
    fix p assume "p \<in> ?A \<union> ?A\<inverse>"
    with assms(2) show "p \<in> R" by (auto simp: sym_def)
  qed
  moreover have fin: "finite ?A" by (rule finite_subset [OF _ assms(1)]) auto
  moreover have "?A \<inter> ?A\<inverse> = {}" by auto
  ultimately have "card R = card ?A + card (?A\<inverse>)" using card_Un_disjoint [of ?A "?A\<inverse>"] by simp
  also have "card (?A\<inverse>) = card ?A" by (rule card_inverse)
  finally show ?thesis by simp
qed

end
