(* ===== verification/Edge_Files.thy ===== *)
theory Edge_Files
  imports Edge_Lists
begin

text \<open>
  The two files beside a relation of \<open>src/generic/store.rs\<close>: the edge blob and its log of links and
  id tombstones, with the calls of \<open>create\<close>, \<open>open\<close>, \<open>read_portable_edges\<close>, \<open>link\<close>, \<open>delete\<close> and
  \<open>compact_edge_blob\<close> that write or read them. \<open>edges_durable R\<close> says that the files hold \<open>R\<close>; every
  call keeps it, and every disk state a crash can leave between two of their writes reads as \<open>R\<close>.
\<close>

record 'id edge_env =
  ee_pair :: "('id \<times> 'id) bincode"
  ee_list :: "('id \<times> 'id) list bincode"
  ee_key :: "'id bincode"
  ee_tag :: "byte list"

record edge_files =
  ef_blob :: "byte list option"
  ef_log :: "byte list option"

section \<open>Operations\<close>

definition ef_create :: "'id edge_env \<Rightarrow> ('id \<times> 'id) list \<Rightarrow> durability_error + edge_files" where
  "ef_create E edges =
     map_ok (\<lambda>blob. \<lparr>ef_blob = Some blob, ef_log = log_clear None\<rparr>) (edge_blob_encode (ee_tag E) (ee_list E) edges)"

definition ef_open :: "'id edge_env \<Rightarrow> ('id \<times> 'id) list \<Rightarrow> edge_files \<Rightarrow> durability_error + ('id \<times> 'id) list \<times> edge_files" where
  "ef_open E edges f =
     and_then (read_entries (ee_pair E) (ee_key E) (ee_tag E) (ef_log f)) (\<lambda>logged.
       (let edges = merge_edge_lists edges logged in
        map_ok (\<lambda>blob. (edges, \<lparr>ef_blob = blob, ef_log = log_clear (ef_log f)\<rparr>))
          (if edge_blob_is_current (ee_tag E) (ee_list E) edges (ef_blob f) then Ok (ef_blob f)
           else map_ok Some (edge_blob_encode (ee_tag E) (ee_list E) edges))))"

definition ef_read_portable :: "'id edge_env \<Rightarrow> edge_files \<Rightarrow> durability_error + ('id \<times> 'id) list" where
  "ef_read_portable E f =
     and_then (edge_blob_read (ee_tag E) (ee_list E) (ef_blob f)) (\<lambda>persisted.
       map_ok (merge_edge_lists persisted) (read_entries (ee_pair E) (ee_key E) (ee_tag E) (ef_log f)))"

definition ef_link :: "'id edge_env \<Rightarrow> 'id \<Rightarrow> 'id \<Rightarrow> edge_files \<Rightarrow> durability_error + edge_files" where
  "ef_link E a b f =
     map_ok (\<lambda>log. f\<lparr>ef_log := Some log\<rparr>) (append_item (ee_pair E) (ee_tag E) (a, b) (ef_log f))"

definition ef_unlink :: "'id edge_env \<Rightarrow> 'id \<Rightarrow> edge_files \<Rightarrow> durability_error + edge_files" where
  "ef_unlink E k f =
     map_ok (\<lambda>log. f\<lparr>ef_log := Some log\<rparr>) (append_tombstone (ee_key E) (ee_tag E) k (ef_log f))"

definition compact_edge_blob :: "('id::linorder) edge_env \<Rightarrow> 'id adjacency \<Rightarrow> edge_files \<Rightarrow> durability_error + bool \<times> edge_files" where
  "compact_edge_blob E adj f =
     and_then (read_entries (ee_pair E) (ee_key E) (ee_tag E) (ef_log f)) (\<lambda>entries.
       (let logged = entries \<noteq> []; edges = sorted_edges adj in
        map_ok (\<lambda>blob. (logged, \<lparr>ef_blob = blob, ef_log = log_clear (ef_log f)\<rparr>))
          (if logged \<or> \<not> edge_blob_is_current (ee_tag E) (ee_list E) edges (ef_blob f)
           then map_ok Some (edge_blob_encode (ee_tag E) (ee_list E) edges) else Ok (ef_blob f))))"

section \<open>What the files hold\<close>

definition edge_serial_ok :: "'id edge_env \<Rightarrow> bool" where
  "edge_serial_ok E \<longleftrightarrow> bincode_roundtrip (ee_pair E) \<and> bincode_roundtrip (ee_list E) \<and> bincode_roundtrip (ee_key E) \<and>
     (\<forall>p. encodes_small (ee_pair E) p) \<and> (\<forall>k. encodes_small (ee_key E) k) \<and> (\<forall>es. bc_encode (ee_list E) es \<noteq> None)"

definition files_hold :: "'id edge_env \<Rightarrow> ('id \<times> 'id) list \<Rightarrow> ('id \<times> 'id, 'id) log_entry list \<Rightarrow> edge_files \<Rightarrow> bool" where
  "files_hold E base log f \<longleftrightarrow>
     (\<exists>b. ef_blob f = Some b \<and> edge_blob_encode (ee_tag E) (ee_list E) base = Inr b) \<and>
     ef_log f = log_of (ee_pair E) (ee_key E) (ee_tag E) log \<and> edges_ok base \<and> (\<forall>e \<in> set log. entry_irrefl e)"

definition edges_durable :: "'id edge_env \<Rightarrow> ('id \<times> 'id) set \<Rightarrow> edge_files \<Rightarrow> bool" where
  "edges_durable E R f \<longleftrightarrow> (\<exists>base log. files_hold E base log f \<and> foldl rel_entry (sym_rel base) log = R)"

text \<open>The blob's freshness is decided by a hash; these two lists do not collide.\<close>

definition edges_told_apart :: "'id edge_env \<Rightarrow> ('id \<times> 'id) list \<Rightarrow> ('id \<times> 'id) list \<Rightarrow> bool" where
  "edges_told_apart E xs ys \<longleftrightarrow>
     (fnv1a64 (the (bc_encode (ee_list E) xs)) = fnv1a64 (the (bc_encode (ee_list E) ys)) \<longrightarrow> xs = ys)"

text \<open>The list that opening the files \<open>f\<close> over the edges \<open>es\<close> compares with the blob's list.\<close>

definition files_apart :: "'id edge_env \<Rightarrow> ('id \<times> 'id) list \<Rightarrow> edge_files \<Rightarrow> bool" where
  "files_apart E es f \<longleftrightarrow>
     (\<forall>base log. edge_blob_read (ee_tag E) (ee_list E) (ef_blob f) = Ok base \<longrightarrow>
       read_entries (ee_pair E) (ee_key E) (ee_tag E) (ef_log f) = Ok log \<longrightarrow>
       edges_told_apart E (merge_edge_lists es log) base)"

lemma edge_serial_encode:
  assumes "edge_serial_ok E"
  obtains b where "edge_blob_encode (ee_tag E) (ee_list E) es = Inr b"
proof -
  obtain x where "bc_encode (ee_list E) es = Some x"
    using assms unfolding edge_serial_ok_def by (meson not_None_eq)
  then show thesis using that by (simp add: edge_blob_encode_def tagged_encode_def)
qed

lemma edge_entry_ok: "edge_serial_ok E \<Longrightarrow> entry_ok (ee_pair E) (ee_key E) e"
  by (cases e) (auto simp: edge_serial_ok_def entry_ok_def entry_payload_def encodes_small_def)

lemma edge_blob_read_encode:
  assumes "edge_serial_ok E" "edge_blob_encode (ee_tag E) (ee_list E) es = Inr b"
  shows "edge_blob_read (ee_tag E) (ee_list E) (Some b) = Inr es"
  unfolding edge_blob_read_def
  by (rule tagged_read_encode) (use assms in \<open>simp_all add: edge_serial_ok_def edge_blob_encode_def\<close>)

lemma edge_read_log:
  assumes "edge_serial_ok E" "ef_log f = log_of (ee_pair E) (ee_key E) (ee_tag E) log"
  shows "read_entries (ee_pair E) (ee_key E) (ee_tag E) (ef_log f) = Ok log"
  unfolding assms(2)
  by (rule read_entries_log_of) (use assms(1) edge_entry_ok [OF assms(1)] in \<open>auto simp: edge_serial_ok_def\<close>)

lemma edge_current:
  assumes "edge_serial_ok E" "edge_blob_encode (ee_tag E) (ee_list E) base = Inr b"
    "edge_blob_is_current (ee_tag E) (ee_list E) es (Some b)" "edges_told_apart E es base"
  shows "es = base"
proof -
  from assms(2) obtain y where y: "bc_encode (ee_list E) base = Some y"
    "b = encode_tagged_image genedge_magic genedge_version (fnv1a64 y) (ee_tag E) y"
    by (auto simp: edge_blob_encode_def tagged_encode_def ok_or_def split: option.splits)
  have tk: "take tagged_header_len b = encode_tagged_image genedge_magic genedge_version (fnv1a64 y) (ee_tag E) []"
    by (simp add: y(2) encode_tagged_image_def encode_image_def tagged_header_len_def blob_header_len_def)
  from assms(3) obtain x where "bc_encode (ee_list E) es = Some x" "fnv1a64 x = fnv1a64 y"
    by (auto simp: edge_blob_is_current_def tagged_is_current_def tagged_fingerprint_def tk
        parse_encode_tagged ok_or_def split: option.splits sum.splits)
  with y(1) assms(4) show ?thesis by (simp add: edges_told_apart_def)
qed

lemma files_holdD:
  assumes "files_hold E base log f" "edge_serial_ok E"
  shows "read_entries (ee_pair E) (ee_key E) (ee_tag E) (ef_log f) = Ok log"
    and "edge_blob_read (ee_tag E) (ee_list E) (ef_blob f) = Inr base"
    and "sym_rel (merge_edge_lists base log) = foldl rel_entry (sym_rel base) log"
    and "edges_ok (merge_edge_lists base log)"
proof -
  from assms(1) have log: "ef_log f = log_of (ee_pair E) (ee_key E) (ee_tag E) log"
    and base: "edges_ok base" "\<forall>e \<in> set log. entry_irrefl e"
    and blob: "\<exists>b. ef_blob f = Some b \<and> edge_blob_encode (ee_tag E) (ee_list E) base = Inr b"
    by (auto simp: files_hold_def)
  show "read_entries (ee_pair E) (ee_key E) (ee_tag E) (ef_log f) = Ok log" by (rule edge_read_log [OF assms(2) log])
  show "edge_blob_read (ee_tag E) (ee_list E) (ef_blob f) = Inr base" using blob edge_blob_read_encode [OF assms(2)] by auto
  show "sym_rel (merge_edge_lists base log) = foldl rel_entry (sym_rel base) log" by (rule merge_edge_lists_rel(1) [OF base])
  show "edges_ok (merge_edge_lists base log)" by (rule merge_edge_lists_rel(2) [OF base])
qed

lemma ef_create_durable:
  assumes "edge_serial_ok E" "edges_ok es"
  shows "\<exists>f. ef_create E es = Ok f \<and> edges_durable E (sym_rel es) f"
proof -
  obtain b where b: "edge_blob_encode (ee_tag E) (ee_list E) es = Inr b" by (rule edge_serial_encode [OF assms(1)])
  then have "files_hold E es [] \<lparr>ef_blob = Some b, ef_log = None\<rparr>"
    using assms(2) by (simp add: files_hold_def log_of_def)
  then have "edges_durable E (sym_rel es) \<lparr>ef_blob = Some b, ef_log = None\<rparr>"
    unfolding edges_durable_def by (intro exI [of _ es] exI [of _ "[]"]) simp
  with b show ?thesis by (simp add: ef_create_def log_clear_def)
qed

text \<open>One more entry at the end of the log.\<close>

lemma files_hold_append:
  assumes "files_hold E base log f" "entry_irrefl e"
  shows "files_hold E base (log @ [e]) (f\<lparr>ef_log := log_of (ee_pair E) (ee_key E) (ee_tag E) (log @ [e])\<rparr>)"
  using assms by (auto simp: files_hold_def)

lemma edges_durable_append:
  assumes "edges_durable E R f" "edge_serial_ok E" "entry_irrefl e"
    and "\<And>log. ef_log f = log_of (ee_pair E) (ee_key E) (ee_tag E) log \<Longrightarrow>
      op = Ok (f\<lparr>ef_log := Some (the (log_of (ee_pair E) (ee_key E) (ee_tag E) (log @ [e])))\<rparr>)"
  shows "\<exists>f'. op = Ok f' \<and> edges_durable E (rel_entry R e) f'"
proof -
  from assms(1) obtain base log where h: "files_hold E base log f" "foldl rel_entry (sym_rel base) log = R"
    by (auto simp: edges_durable_def)
  let ?f = "f\<lparr>ef_log := log_of (ee_pair E) (ee_key E) (ee_tag E) (log @ [e])\<rparr>"
  have "edges_durable E (rel_entry R e) ?f"
    unfolding edges_durable_def
    by (intro exI [of _ base] exI [of _ "log @ [e]"] conjI files_hold_append h(1) assms(3)) (simp add: h(2))
  moreover have "op = Ok ?f" using assms(4) [of log] h(1) by (simp add: files_hold_def log_of_Some)
  ultimately show ?thesis by blast
qed

lemma ef_link_durable:
  assumes "edges_durable E R f" "edge_serial_ok E" "a \<noteq> b"
  shows "\<exists>f'. ef_link E a b f = Ok f' \<and> edges_durable E (insert (b, a) (insert (a, b) R)) f'"
  using edges_durable_append [OF assms(1,2), of "Item (a, b)" "ef_link E a b f"] assms(3) append_item_log_of [OF edge_entry_ok [OF assms(2)]]
  by (auto simp: ef_link_def entry_irrefl_def)

lemma ef_unlink_durable:
  assumes "edges_durable E R f" "edge_serial_ok E"
  shows "\<exists>f'. ef_unlink E k f = Ok f' \<and> edges_durable E {(a, b) \<in> R. a \<noteq> k \<and> b \<noteq> k} f'"
  using edges_durable_append [OF assms(1,2), of "Tombstone k" "ef_unlink E k f"] append_tombstone_log_of [OF edge_entry_ok [OF assms(2)]]
  by (auto simp: ef_unlink_def entry_irrefl_def)

text \<open>Reading the files back, a torn entry at the end of the log included.\<close>

lemma ef_read_durable:
  assumes "edges_durable E R f" "edge_serial_ok E"
  shows "\<exists>es. ef_read_portable E f = Ok es \<and> edges_ok es \<and> sym_rel es = R"
  using assms files_holdD [OF _ assms(2)] unfolding edges_durable_def ef_read_portable_def by fastforce

lemma ef_read_torn:
  assumes "edges_durable E R f" "edge_serial_ok E" "ef_log f = Some log" "k < length (entry_bytes (ee_pair E) (ee_key E) e)"
  shows "\<exists>es. ef_read_portable E (f\<lparr>ef_log := Some (log @ take k (entry_bytes (ee_pair E) (ee_key E) e))\<rparr>) = Ok es \<and> sym_rel es = R"
proof -
  from assms(1) obtain base es where h: "files_hold E base es f" "foldl rel_entry (sym_rel base) es = R"
    by (auto simp: edges_durable_def)
  note hD = files_holdD [OF h(1) assms(2)]
  have rt: "bincode_roundtrip (ee_pair E)" "bincode_roundtrip (ee_key E)" using assms(2) by (simp_all add: edge_serial_ok_def)
  have "\<forall>e \<in> set es. entry_ok (ee_pair E) (ee_key E) e" using edge_entry_ok [OF assms(2)] by blast
  from read_entries_torn [OF rt this edge_entry_ok [OF assms(2)] assms(4), of "ee_tag E"] h(1) assms(3)
  have "read_entries (ee_pair E) (ee_key E) (ee_tag E) (Some (log @ take k (entry_bytes (ee_pair E) (ee_key E) e))) = Ok es"
    by (auto simp: files_hold_def log_of_def split: if_splits)
  with hD(2,3) h(2) show ?thesis by (simp add: ef_read_portable_def)
qed

text \<open>
  Opening with the edges of the blob, the log folded into them or not: the log is folded in and
  removed.
\<close>

lemma ef_open_durable:
  assumes dur: "edges_durable E R f" and ser: "edge_serial_ok E"
    and es: "ef_read_portable E f = Ok es \<or> edge_blob_read (ee_tag E) (ee_list E) (ef_blob f) = Ok es"
  shows "\<exists>es' f'. ef_open E es f = Ok (es', f') \<and> edges_ok es' \<and> sym_rel es' = R \<and> ef_log f' = None \<and>
     (files_apart E es f \<longrightarrow> edges_durable E R f')"
proof -
  from dur obtain base log where h: "files_hold E base log f" "foldl rel_entry (sym_rel base) log = R"
    by (auto simp: edges_durable_def)
  note hD = files_holdD [OF h(1) ser]
  let ?es' = "merge_edge_lists es log"
  have irr: "\<forall>e \<in> set log. entry_irrefl e" and base: "edges_ok base" using h(1) by (simp_all add: files_hold_def)
  from es have "es = merge_edge_lists base log \<or> es = base" by (auto simp: ef_read_portable_def hD(1,2))
  then have "edges_ok es" "foldl rel_entry (sym_rel es) log = R"
    using hD(3,4) fold_rel_idem [of "sym_rel base" log] h(2) base by auto
  then have rel: "sym_rel ?es' = R" and ok: "edges_ok ?es'"
    using merge_edge_lists_rel [of es log] irr by simp_all
  obtain b where b: "edge_blob_encode (ee_tag E) (ee_list E) ?es' = Inr b" by (rule edge_serial_encode [OF ser])
  from h(1) obtain b0 where b0: "ef_blob f = Some b0" "edge_blob_encode (ee_tag E) (ee_list E) base = Inr b0"
    by (auto simp: files_hold_def)
  let ?cur = "edge_blob_is_current (ee_tag E) (ee_list E) ?es' (ef_blob f)"
  let ?f' = "\<lparr>ef_blob = if ?cur then ef_blob f else Some b, ef_log = None\<rparr>"
  have "ef_open E es f = Ok (?es', ?f')"
    by (simp add: ef_open_def hD(1) Let_def log_clear_def b)
  moreover have "edges_durable E R ?f'" if "edges_told_apart E ?es' base"
  proof -
    have "files_hold E ?es' [] ?f'"
      using edge_current [OF ser b0(2), of ?es'] that b0 b ok by (auto simp: files_hold_def log_of_def)
    then show ?thesis unfolding edges_durable_def using rel by (intro exI [of _ ?es'] exI [of _ "[]"]) simp
  qed
  moreover have "files_apart E es f \<Longrightarrow> edges_told_apart E ?es' base"
    unfolding files_apart_def using hD(1,2) by simp
  ultimately show ?thesis using rel ok by (intro exI [of _ ?es'] exI [of _ ?f']) simp
qed

text \<open>Compaction: the blob is rewritten from the adjacency before the log goes.\<close>

lemma compact_durable:
  assumes dur: "edges_durable E (adj_rel adj) f" and ser: "edge_serial_ok E" and adj: "adj_ok adj"
  shows "\<exists>logged f'. compact_edge_blob E adj f = Ok (logged, f') \<and> edges_durable E (adj_rel adj) f' \<and> ef_log f' = None"
    and "\<exists>blob es. edge_blob_encode (ee_tag E) (ee_list E) (sorted_edges adj) = Ok blob \<and>
      ef_read_portable E (f\<lparr>ef_blob := Some blob\<rparr>) = Ok es \<and> sym_rel es = adj_rel adj"
proof -
  from dur obtain base log where h: "files_hold E base log f" "foldl rel_entry (sym_rel base) log = adj_rel adj"
    by (auto simp: edges_durable_def)
  note hD = files_holdD [OF h(1) ser] and so = sorted_edges_ok [OF adj]
  obtain b where b: "edge_blob_encode (ee_tag E) (ee_list E) (sorted_edges adj) = Inr b" by (rule edge_serial_encode [OF ser])
  let ?fresh = "log \<noteq> [] \<or> \<not> edge_blob_is_current (ee_tag E) (ee_list E) (sorted_edges adj) (ef_blob f)"
  let ?f' = "\<lparr>ef_blob = if ?fresh then Some b else ef_blob f, ef_log = None\<rparr>"
  have "compact_edge_blob E adj f = Ok (log \<noteq> [], ?f')"
    by (simp add: compact_edge_blob_def hD(1) Let_def log_clear_def b)
  moreover have "files_hold E (if ?fresh then sorted_edges adj else base) [] ?f'"
    using h(1) b so(1) by (auto simp: files_hold_def log_of_def)
  moreover have "sym_rel (if ?fresh then sorted_edges adj else base) = adj_rel adj" using so(2) h(2) by auto
  ultimately show "\<exists>logged f'. compact_edge_blob E adj f = Ok (logged, f') \<and> edges_durable E (adj_rel adj) f' \<and> ef_log f' = None"
    unfolding edges_durable_def
    by (intro exI [of _ "log \<noteq> []"] exI [of _ ?f'] conjI exI [of _ "if ?fresh then sorted_edges adj else base"] exI [of _ "[]"]) simp_all
  have irr: "\<forall>e \<in> set log. entry_irrefl e" using h(1) by (simp add: files_hold_def)
  have "ef_read_portable E (f\<lparr>ef_blob := Some b\<rparr>) = Ok (merge_edge_lists (sorted_edges adj) log)"
    by (simp add: ef_read_portable_def edge_blob_read_encode [OF ser b] hD(1))
  moreover have "sym_rel (merge_edge_lists (sorted_edges adj) log) = adj_rel adj"
    using merge_edge_lists_rel(1) [OF so(1) irr] fold_rel_idem [of "sym_rel base" log] h(2) by (simp add: so(2))
  ultimately show "\<exists>blob es. edge_blob_encode (ee_tag E) (ee_list E) (sorted_edges adj) = Ok blob \<and>
      ef_read_portable E (f\<lparr>ef_blob := Some blob\<rparr>) = Ok es \<and> sym_rel es = adj_rel adj"
    using b by blast
qed

end
