(* ===== verification/Layer_Symmetric.thy ===== *)
theory Layer_Symmetric
  imports Layer_Spec Edge_Files
begin

text \<open>
  \<open>Symmetric\<close> of \<open>src/generic/store.rs\<close>: one undirected relation over any inner record store, its
  adjacency in memory and its edge blob and log on disk where it has a path. The layer keeps the
  inner store's contract, and its invariant adds referential integrity: both ends of every edge
  have a record, and the files, where there are any, hold exactly the relation in memory.
\<close>

section \<open>Linking\<close>

datatype link_outcome = Linked | AlreadyLinked

datatype 'id link_error =
    UnknownRecord 'id
  | SelfLoop 'id
  | InvalidLabel string
  | LinkDurability durability_error

text \<open>A write to the edge files of a layer that may have none.\<close>

definition on_files :: "(edge_files \<Rightarrow> durability_error + edge_files) \<Rightarrow> edge_files option \<Rightarrow>
    durability_error + edge_files option" where
  "on_files write files = (case files of None \<Rightarrow> Ok None | Some f \<Rightarrow> map_ok Some (write f))"

lemma on_files_simps [simp]:
  "on_files write None = Ok None"
  "on_files write (Some f) = map_ok Some (write f)"
  by (simp_all add: on_files_def)

text \<open>The files, where there are any, hold the relation \<open>R\<close>.\<close>

definition files_ok :: "'id edge_env \<Rightarrow> ('id \<times> 'id) set \<Rightarrow> edge_files option \<Rightarrow> bool" where
  "files_ok E R files \<longleftrightarrow> (\<forall>f. files = Some f \<longrightarrow> edges_durable E R f)"

lemma files_ok_simps [simp]:
  "files_ok E R None"
  "files_ok E R (Some f) \<longleftrightarrow> edges_durable E R f"
  by (simp_all add: files_ok_def)

lemma on_files_link:
  assumes "files_ok E R files" "edge_serial_ok E" "a \<noteq> b"
  shows "\<exists>files'. on_files (ef_link E a b) files = Ok files' \<and> files_ok E (insert (b, a) (insert (a, b) R)) files'"
  using assms ef_link_durable [OF _ assms(2,3), of R] by (cases files) fastforce+

lemma on_files_unlink:
  assumes "files_ok E R files" "edge_serial_ok E"
  shows "\<exists>files'. on_files (ef_unlink E k) files = Ok files' \<and> files_ok E {(a, b) \<in> R. a \<noteq> k \<and> b \<noteq> k} files'"
  using assms ef_unlink_durable [OF _ assms(2), of R _ k] by (cases files) fastforce+

section \<open>The layer\<close>

record ('s, 'id) symmetric =
  sy_inner :: 's
  sy_adjacency :: "'id adjacency"
  sy_files :: "edge_files option"

definition sy_new :: "'s \<Rightarrow> ('id \<times> 'id) list \<Rightarrow> ('s, 'id) symmetric" where
  "sy_new inner edges = \<lparr>sy_inner = inner, sy_adjacency = adj_of_edges edges, sy_files = None\<rparr>"

definition sy_with_path :: "('s, 'id) symmetric \<Rightarrow> edge_files \<Rightarrow> ('s, 'id) symmetric" where
  "sy_with_path s f = s\<lparr>sy_files := Some f\<rparr>"

definition sy_create :: "'id edge_env \<Rightarrow> 's \<Rightarrow> ('id \<times> 'id) list \<Rightarrow> durability_error + ('s, 'id) symmetric" where
  "sy_create E inner edges = map_ok (sy_with_path (sy_new inner edges)) (ef_create E edges)"

definition sy_open :: "'id edge_env \<Rightarrow> 's \<Rightarrow> ('id \<times> 'id) list \<Rightarrow> edge_files \<Rightarrow> durability_error + ('s, 'id) symmetric" where
  "sy_open E inner edges f = map_ok (\<lambda>(edges, f). sy_with_path (sy_new inner edges) f) (ef_open E edges f)"

definition sy_open_portable :: "'id edge_env \<Rightarrow> 's \<Rightarrow> edge_files \<Rightarrow> durability_error + ('s, 'id) symmetric" where
  "sy_open_portable E inner f = and_then (ef_read_portable E f) (\<lambda>edges. sy_open E inner edges f)"

definition sy_put :: "('s, 'id) symmetric \<Rightarrow> 's \<Rightarrow> ('s, 'id) symmetric" where
  "sy_put s i = s\<lparr>sy_inner := i\<rparr>"

definition sy_link :: "'id edge_env \<Rightarrow> ('s, 'id, 'r) store_ops \<Rightarrow> ('s, 'id) symmetric \<Rightarrow> 'id \<Rightarrow> 'id \<Rightarrow>
    ('id link_error, link_outcome, ('s, 'id) symmetric) outcome" where
  "sy_link E Ops s a b =
     (case op_get Ops (sy_inner s) a of
        None \<Rightarrow> None
      | Some None \<Rightarrow> Some (Inl (UnknownRecord a), s)
      | Some (Some _) \<Rightarrow>
          (case op_get Ops (sy_inner s) b of
             None \<Rightarrow> None
           | Some None \<Rightarrow> Some (Inl (UnknownRecord b), s)
           | Some (Some _) \<Rightarrow>
               if a = b then Some (Inl (SelfLoop a), s)
               else if has_edge (sy_adjacency s) a b then Some (Inr AlreadyLinked, s)
               else (case on_files (ef_link E a b) (sy_files s) of
                       Inl e \<Rightarrow> Some (Inl (LinkDurability e), s)
                     | Inr files \<Rightarrow>
                         Some (Inr Linked, s\<lparr>sy_files := files, sy_adjacency := adj_link a b (sy_adjacency s)\<rparr>))))"

definition sy_neighbors :: "('s, 'id) symmetric \<Rightarrow> 'id \<Rightarrow> 'id list" where
  "sy_neighbors s k = bucket (map_of (sy_adjacency s)) k"

definition sy_get :: "('s, 'id, 'r) store_ops \<Rightarrow> ('s, 'id) symmetric \<Rightarrow> 'id \<Rightarrow> 'r option option" where
  "sy_get Ops s k = op_get Ops (sy_inner s) k"

definition sy_all_ids :: "('s \<Rightarrow> 'id list) \<Rightarrow> ('s, 'id) symmetric \<Rightarrow> 'id list" where
  "sy_all_ids all_ids s = all_ids (sy_inner s)"

definition sy_insert :: "('s, 'id, 'r) store_ops \<Rightarrow> ('s, 'id) symmetric \<Rightarrow> 'r \<Rightarrow>
    ('id insert_error, unit, ('s, 'id) symmetric) outcome" where
  "sy_insert Ops s r = forward (op_insert Ops (sy_inner s) r) (sy_put s)"

definition sy_replace :: "('s, 'id, 'r) store_ops \<Rightarrow> ('s, 'id) symmetric \<Rightarrow> 'r \<Rightarrow>
    ('id replace_error, unit, ('s, 'id) symmetric) outcome" where
  "sy_replace Ops s r = forward (op_replace Ops (sy_inner s) r) (sy_put s)"

definition sy_update :: "('s \<Rightarrow> 'id \<Rightarrow> 'v \<Rightarrow> ('id not_found, unit, 's) outcome) \<Rightarrow> ('s, 'id) symmetric \<Rightarrow> 'id \<Rightarrow> 'v \<Rightarrow>
    ('id not_found, unit, ('s, 'id) symmetric) outcome" where
  "sy_update update s k v = forward (update (sy_inner s) k v) (sy_put s)"

definition sy_delete :: "'id edge_env \<Rightarrow> ('s, 'id, 'r) store_ops \<Rightarrow> ('s, 'id) symmetric \<Rightarrow> 'id \<Rightarrow>
    ('id delete_error, unit, ('s, 'id) symmetric) outcome" where
  "sy_delete E Ops s k =
     through (op_delete Ops (sy_inner s) k) (sy_put s) (\<lambda>_ s.
       if map_of (sy_adjacency s) k = None then Some (Inr (), s)
       else (case on_files (ef_unlink E k) (sy_files s) of
               Inl e \<Rightarrow> Some (Inl (DelDurability e), s)
             | Inr files \<Rightarrow>
                 Some (Inr (), s\<lparr>sy_files := files, sy_adjacency := fst (drop_edges_of (sy_adjacency s) k)\<rparr>)))"

definition sy_compact :: "('id::linorder) edge_env \<Rightarrow> ('s, 'id, 'r) store_ops \<Rightarrow> ('s, 'id) symmetric \<Rightarrow>
    (durability_error, compaction_report, ('s, 'id) symmetric) outcome" where
  "sy_compact E Ops s =
     through (op_compact Ops (sy_inner s)) (sy_put s) (\<lambda>report s.
       case sy_files s of
         None \<Rightarrow> Some (Inr report, s)
       | Some f \<Rightarrow>
           (case compact_edge_blob E (sy_adjacency s) f of
              Inl e \<Rightarrow> Some (Inl e, s)
            | Inr (folded, f) \<Rightarrow>
                Some (Inr (if folded then report\<lparr>cr_edge_logs_folded := cr_edge_logs_folded report + 1\<rparr> else report),
                      s\<lparr>sy_files := Some f\<rparr>)))"

definition sy_ops :: "('id::linorder) edge_env \<Rightarrow> ('s, 'id, 'r) store_ops \<Rightarrow> (('s, 'id) symmetric, 'id, 'r) store_ops" where
  "sy_ops E Ops = \<lparr>op_get = sy_get Ops, op_insert = sy_insert Ops, op_replace = sy_replace Ops,
     op_delete = sy_delete E Ops, op_compact = sy_compact E Ops\<rparr>"

section \<open>The contract\<close>

definition sy_rel :: "('s, 'id) symmetric \<Rightarrow> ('id \<times> 'id) set" where
  "sy_rel s = adj_rel (sy_adjacency s)"

text \<open>Both ends of every edge are among the ids \<open>D\<close>.\<close>

definition within :: "'id set \<Rightarrow> ('id \<times> 'id) set \<Rightarrow> bool" where
  "within D R \<longleftrightarrow> (\<forall>(a, b) \<in> R. a \<in> D \<and> b \<in> D)"

definition sy_aux :: "'id edge_env \<Rightarrow> ('id \<rightharpoonup> 'r) \<Rightarrow> ('s, 'id) symmetric \<Rightarrow> bool" where
  "sy_aux E m s \<longleftrightarrow> adj_ok (sy_adjacency s) \<and> within (dom m) (sy_rel s) \<and> files_ok E (sy_rel s) (sy_files s)"

lemma within_mono: "within D R \<Longrightarrow> D \<subseteq> D' \<Longrightarrow> within D' R"
  by (auto simp: within_def)

lemma sy_rel_put [simp]: "sy_rel (sy_put s i) = sy_rel s" "sy_inner (sy_put s i) = i"
  "sy_adjacency (sy_put s i) = sy_adjacency s" "sy_files (sy_put s i) = sy_files s"
  by (simp_all add: sy_rel_def sy_put_def)

lemma sy_aux_put:
  assumes "sy_aux E m s" "dom m \<subseteq> dom m'"
  shows "sy_aux E m' (sy_put s i)"
  using assms within_mono [OF _ assms(2)] by (simp add: sy_aux_def)

lemma unlink_absent:
  assumes "adj_ok adj" "map_of adj k = None"
  shows "{(a, b) \<in> adj_rel adj. a \<noteq> k \<and> b \<noteq> k} = adj_rel adj"
proof -
  have "(k, b) \<notin> adj_rel adj" for b using assms(2) by (simp add: adj_rel_def bucket_def)
  moreover have "sym (adj_rel adj)" using assms(1) by (simp add: adj_ok_def)
  ultimately show ?thesis by (auto simp: sym_def)
qed

locale symmetric_layer = record_store key okr Ops invar view
  for key :: "'r \<Rightarrow> 'id::linorder" and okr :: "'r \<Rightarrow> bool" and Ops :: "('s, 'id, 'r) store_ops"
    and invar :: "'s \<Rightarrow> bool" and view :: "'s \<Rightarrow> 'id \<rightharpoonup> 'r" +
  fixes E :: "'id edge_env"
  assumes serial: "edge_serial_ok E"
begin

text \<open>The step of a delete after the inner store's.\<close>

lemma delete_edges:
  assumes "sy_aux E m s" "op_delete Ops (sy_inner s) k = Some (Inr (), i)"
  shows "\<exists>s'. sy_delete E Ops s k = Some (Inr (), s') \<and> sy_inner s' = i \<and> sy_aux E (m(k := None)) s' \<and>
     sy_rel s' = {(a, b) \<in> sy_rel s. a \<noteq> k \<and> b \<noteq> k}"
proof -
  from assms(1) have ok: "adj_ok (sy_adjacency s)" and win: "within (dom m) (sy_rel s)"
    and files: "files_ok E (sy_rel s) (sy_files s)" by (simp_all add: sy_aux_def)
  have win': "within (dom m - {k}) {(a, b) \<in> sy_rel s. a \<noteq> k \<and> b \<noteq> k}" using win by (auto simp: within_def)
  show ?thesis
  proof (cases "map_of (sy_adjacency s) k")
    case None
    then have "{(a, b) \<in> sy_rel s. a \<noteq> k \<and> b \<noteq> k} = sy_rel s"
      unfolding sy_rel_def by (rule unlink_absent [OF ok])
    with win' ok files None assms(2) show ?thesis
      by (intro exI [of _ "sy_put s i"]) (simp add: sy_delete_def sy_aux_def)
  next
    case (Some ns)
    from on_files_unlink [OF files serial, of k] obtain files' where
      f: "on_files (ef_unlink E k) (sy_files s) = Ok files'" "files_ok E {(a, b) \<in> sy_rel s. a \<noteq> k \<and> b \<noteq> k} files'"
      by blast
    let ?s = "(sy_put s i)\<lparr>sy_files := files', sy_adjacency := fst (drop_edges_of (sy_adjacency s) k)\<rparr>"
    have rel: "sy_rel ?s = {(a, b) \<in> sy_rel s. a \<noteq> k \<and> b \<noteq> k}"
      by (simp add: sy_rel_def drop_edges_of_rel(1) [OF ok])
    have "sy_delete E Ops s k = Some (Inr (), ?s)"
      using assms(2) Some f(1) by (simp add: sy_delete_def)
    moreover have "sy_aux E (m(k := None)) ?s"
      unfolding sy_aux_def rel using drop_edges_of_rel(2) [OF ok, of k] f(2) win' by simp
    ultimately show ?thesis using rel by (intro exI [of _ ?s]) simp
  qed
qed

end

sublocale symmetric_layer \<subseteq> sy: wrapping_layer key okr Ops invar view sy_inner "sy_aux E" "sy_ops E Ops"
proof unfold_locales
  fix t :: "('s, 'id) symmetric" and r old :: 'r and k :: 'id and m i rep e
  show "op_get (sy_ops E Ops) t k = op_get Ops (sy_inner t) k" by (simp add: sy_ops_def sy_get_def)
  have put: "sy_put t (sy_inner t) = t" by (simp add: sy_put_def)
  show "op_insert Ops (sy_inner t) r = Some (Inl e, sy_inner t) \<Longrightarrow> op_insert (sy_ops E Ops) t r = Some (Inl e, t)"
    by (simp add: sy_ops_def sy_insert_def put)
  show "op_replace Ops (sy_inner t) r = Some (Inl (RepNotFound (key r)), sy_inner t) \<Longrightarrow>
      op_replace (sy_ops E Ops) t r = Some (Inl (RepNotFound (key r)), t)"
    by (simp add: sy_ops_def sy_replace_def put)
  show "op_delete Ops (sy_inner t) k = Some (Inl (DelNotFound k), sy_inner t) \<Longrightarrow>
      op_delete (sy_ops E Ops) t k = Some (Inl (DelNotFound k), t)"
    by (simp add: sy_ops_def sy_delete_def put)
  show "sy_aux E m t \<Longrightarrow> m (key r) = None \<Longrightarrow> op_insert Ops (sy_inner t) r = Some (Inr (), i) \<Longrightarrow>
      \<exists>t'. op_insert (sy_ops E Ops) t r = Some (Inr (), t') \<and> sy_inner t' = i \<and> sy_aux E (m(key r \<mapsto> r)) t'"
    by (intro exI [of _ "sy_put t i"]) (auto simp: sy_ops_def sy_insert_def intro: sy_aux_put)
  show "sy_aux E m t \<Longrightarrow> m (key r) = Some old \<Longrightarrow> op_replace Ops (sy_inner t) r = Some (Inr (), i) \<Longrightarrow>
      \<exists>t'. op_replace (sy_ops E Ops) t r = Some (Inr (), t') \<and> sy_inner t' = i \<and> sy_aux E (m(key r \<mapsto> r)) t'"
    by (intro exI [of _ "sy_put t i"]) (auto simp: sy_ops_def sy_replace_def intro: sy_aux_put)
  show "sy_aux E m t \<Longrightarrow> op_delete Ops (sy_inner t) k = Some (Inr (), i) \<Longrightarrow>
      \<exists>t'. op_delete (sy_ops E Ops) t k = Some (Inr (), t') \<and> sy_inner t' = i \<and> sy_aux E (m(k := None)) t'"
    using delete_edges [of m t k i] by (auto simp: sy_ops_def)
  assume aux: "sy_aux E m t" and c: "op_compact Ops (sy_inner t) = Some (Inr rep, i)"
  show "\<exists>rep' t'. op_compact (sy_ops E Ops) t = Some (Inr rep', t') \<and> sy_inner t' = i \<and> sy_aux E m t'"
  proof (cases "sy_files t")
    case None
    with aux c show ?thesis by (auto simp: sy_ops_def sy_compact_def sy_aux_def)
  next
    case (Some f)
    with aux have "edges_durable E (adj_rel (sy_adjacency t)) f" "adj_ok (sy_adjacency t)"
      by (simp_all add: sy_aux_def sy_rel_def)
    from compact_durable(1) [OF this(1) serial this(2)] obtain logged f' where
      "compact_edge_blob E (sy_adjacency t) f = Ok (logged, f')" "edges_durable E (adj_rel (sy_adjacency t)) f'" by blast
    with aux c Some show ?thesis by (auto simp: sy_ops_def sy_compact_def sy_aux_def sy_rel_def)
  qed
qed

section \<open>Linking, neighbours and reopening\<close>

context symmetric_layer
begin

lemma sy_rel_props:
  assumes "sy.winvar s"
  shows "sym (sy_rel s)" and "irrefl (sy_rel s)" and "within (dom (sy.wview s)) (sy_rel s)"
  using sy.winvarD(2) [OF assms] by (simp_all add: sy_aux_def sy_rel_def adj_ok_def sy.wview_def)

lemma neighbors_rel:
  assumes "sy.winvar s"
  shows "distinct (sy_neighbors s a)" and "set (sy_neighbors s a) = {b. (a, b) \<in> sy_rel s}"
  using sy.winvarD(2) [OF assms] by (simp_all add: sy_aux_def sy_neighbors_def adj_ok_def sy_rel_def adj_rel_def)

text \<open>Every outcome of \<open>link\<close>: the first missing end, a self-loop, an edge that is there, a new one.\<close>

lemma link_spec:
  assumes inv: "sy.winvar s"
  shows "sy.wview s a = None \<Longrightarrow> sy_link E Ops s a b = Some (Inl (UnknownRecord a), s)"
    and "sy.wview s a \<noteq> None \<Longrightarrow> sy.wview s b = None \<Longrightarrow> sy_link E Ops s a b = Some (Inl (UnknownRecord b), s)"
    and "sy.wview s a \<noteq> None \<Longrightarrow> sy_link E Ops s a a = Some (Inl (SelfLoop a), s)"
    and "(a, b) \<in> sy_rel s \<Longrightarrow> sy_link E Ops s a b = Some (Inr AlreadyLinked, s)"
    and "\<lbrakk>sy.wview s a \<noteq> None; sy.wview s b \<noteq> None; a \<noteq> b; (a, b) \<notin> sy_rel s\<rbrakk> \<Longrightarrow>
      \<exists>s'. sy_link E Ops s a b = Some (Inr Linked, s') \<and> sy.winvar s' \<and> sy.wview s' = sy.wview s \<and>
        sy_rel s' = insert (b, a) (insert (a, b) (sy_rel s))"
proof -
  note get = get_view [OF sy.winvarD(1) [OF inv]]
  from sy.winvarD(2) [OF inv] have aux: "adj_ok (sy_adjacency s)" "within (dom (sy.wview s)) (sy_rel s)"
    "files_ok E (sy_rel s) (sy_files s)" by (simp_all add: sy_aux_def sy.wview_def)
  show "sy.wview s a = None \<Longrightarrow> sy_link E Ops s a b = Some (Inl (UnknownRecord a), s)"
    by (simp add: sy_link_def get sy.wview_def)
  show "sy.wview s a \<noteq> None \<Longrightarrow> sy.wview s b = None \<Longrightarrow> sy_link E Ops s a b = Some (Inl (UnknownRecord b), s)"
    by (auto simp: sy_link_def get sy.wview_def)
  show "sy.wview s a \<noteq> None \<Longrightarrow> sy_link E Ops s a a = Some (Inl (SelfLoop a), s)"
    by (auto simp: sy_link_def get sy.wview_def)
  show "sy_link E Ops s a b = Some (Inr AlreadyLinked, s)" if "(a, b) \<in> sy_rel s"
  proof -
    from that aux(2) sy_rel_props(2) [OF inv] have "a \<in> dom (sy.wview s)" "b \<in> dom (sy.wview s)" "a \<noteq> b"
      by (auto simp: within_def irrefl_def)
    with that show ?thesis by (auto simp: sy_link_def get sy.wview_def has_edge_iff sy_rel_def)
  qed
  assume some: "sy.wview s a \<noteq> None" "sy.wview s b \<noteq> None" "a \<noteq> b" and new: "(a, b) \<notin> sy_rel s"
  from on_files_link [OF aux(3) serial some(3)] obtain files' where
    f: "on_files (ef_link E a b) (sy_files s) = Ok files'"
      "files_ok E (insert (b, a) (insert (a, b) (sy_rel s))) files'" by blast
  let ?s = "s\<lparr>sy_files := files', sy_adjacency := adj_link a b (sy_adjacency s)\<rparr>"
  have rel: "sy_rel ?s = insert (b, a) (insert (a, b) (sy_rel s))" by (simp add: sy_rel_def adj_rel_link)
  have "sy_link E Ops s a b = Some (Inr Linked, ?s)"
    using some new f(1) by (auto simp: sy_link_def get sy.wview_def has_edge_iff sy_rel_def)
  moreover have "sy_aux E (view (sy_inner ?s)) ?s"
    unfolding sy_aux_def rel using adj_ok_link [OF aux(1) some(3)] new f(2) aux(2) some
    by (auto simp: has_edge_iff sy_rel_def within_def sy.wview_def)
  moreover have "sy.wview ?s = sy.wview s" by (simp add: sy.wview_def)
  ultimately show "\<exists>s'. sy_link E Ops s a b = Some (Inr Linked, s') \<and> sy.winvar s' \<and> sy.wview s' = sy.wview s \<and>
        sy_rel s' = insert (b, a) (insert (a, b) (sy_rel s))"
    using rel sy.winvarD(1) [OF inv] by (intro exI [of _ ?s] conjI sy.winvarI) simp_all
qed

lemma delete_rel:
  assumes "sy.winvar s" "sy.wview s k \<noteq> None"
  shows "\<exists>s'. op_delete (sy_ops E Ops) s k = Some (Inr (), s') \<and> sy.winvar s' \<and> sy.wview s' = (sy.wview s)(k := None) \<and>
     sy_rel s' = {(a, b) \<in> sy_rel s. a \<noteq> k \<and> b \<noteq> k}"
proof -
  obtain i where i: "op_delete Ops (sy_inner s) k = Some (Inr (), i)" "invar i" "view i = (view (sy_inner s))(k := None)"
    using delete_known [OF sy.winvarD(1) [OF assms(1)], of k] assms(2) by (auto simp: sy.wview_def)
  from delete_edges [OF sy.winvarD(2) [OF assms(1)] i(1)] i(2,3) show ?thesis
    by (auto simp: sy_ops_def sy.wview_def sy.winvar_def)
qed

text \<open>Building the layer: fresh over an edge list, and from the files of an earlier one.\<close>

lemma sy_create_ok:
  assumes "invar inner" "edges_ok es" "within (dom (view inner)) (sym_rel es)"
  shows "\<exists>s. sy_create E inner es = Ok s \<and> sy.winvar s \<and> sy.wview s = view inner \<and> sy_rel s = sym_rel es"
proof -
  from ef_create_durable [OF serial assms(2)] obtain f where
    f: "ef_create E es = Ok f" "edges_durable E (sym_rel es) f" by blast
  let ?s = "sy_with_path (sy_new inner es) f"
  have "sy_rel ?s = sym_rel es" "sy_inner ?s = inner" "sy_files ?s = Some f"
    by (simp_all add: sy_rel_def sy_with_path_def sy_new_def adj_of_edges_ok(2) [OF assms(2)])
  moreover have "adj_ok (sy_adjacency ?s)" by (simp add: sy_with_path_def sy_new_def adj_of_edges_ok(1) [OF assms(2)])
  ultimately show ?thesis using f assms(1,3)
    by (intro exI [of _ ?s]) (simp add: sy_create_def sy.winvar_def sy.wview_def sy_aux_def)
qed

lemma sy_reopen:
  assumes dur: "edges_durable E R f" and inner: "invar inner" "within (dom (view inner)) R"
    and apart: "\<And>es. ef_read_portable E f = Ok es \<Longrightarrow> files_apart E es f"
  shows "\<exists>s. sy_open_portable E inner f = Ok s \<and> sy.winvar s \<and> sy.wview s = view inner \<and> sy_rel s = R"
proof -
  from ef_read_durable [OF dur serial] obtain es where es: "ef_read_portable E f = Ok es" by blast
  from ef_open_durable [OF dur serial disjI1 [OF es]] apart [OF es] obtain es' f' where
    o: "ef_open E es f = Ok (es', f')" "edges_ok es'" "sym_rel es' = R" "edges_durable E R f'" by blast
  let ?s = "sy_with_path (sy_new inner es') f'"
  have "sy_rel ?s = R" "sy_inner ?s = inner" "sy_files ?s = Some f'"
    by (simp_all add: sy_rel_def sy_with_path_def sy_new_def adj_of_edges_ok(2) [OF o(2)] o(3))
  moreover have "adj_ok (sy_adjacency ?s)" by (simp add: sy_with_path_def sy_new_def adj_of_edges_ok(1) [OF o(2)])
  ultimately show ?thesis using inner o(4)
    by (intro exI [of _ ?s]) (simp add: sy_open_portable_def sy_open_def es o(1) sy.winvar_def sy.wview_def sy_aux_def)
qed

end

locale symmetric_listed = symmetric_layer key okr Ops invar view E + listed_store key okr Ops invar view all_ids
  for key :: "'r \<Rightarrow> 'id::linorder" and okr :: "'r \<Rightarrow> bool" and Ops :: "('s, 'id, 'r) store_ops"
    and invar :: "'s \<Rightarrow> bool" and view :: "'s \<Rightarrow> 'id \<rightharpoonup> 'r" and E :: "'id edge_env"
    and all_ids :: "'s \<Rightarrow> 'id list"

sublocale symmetric_listed \<subseteq> sy: listed_store key okr "sy_ops E Ops" sy.winvar sy.wview "sy_all_ids all_ids"
  using all_ids_view by unfold_locales (auto simp: sy_all_ids_def sy.wview_def dest!: sy.winvarD(1))

locale symmetric_updatable = symmetric_layer key okr Ops invar view E +
    updatable_store key okr Ops invar view okv setv update
  for key :: "'r \<Rightarrow> 'id::linorder" and okr :: "'r \<Rightarrow> bool" and Ops :: "('s, 'id, 'r) store_ops"
    and invar :: "'s \<Rightarrow> bool" and view :: "'s \<Rightarrow> 'id \<rightharpoonup> 'r" and E :: "'id edge_env"
    and okv :: "'v \<Rightarrow> bool" and setv :: "'r \<Rightarrow> 'v \<Rightarrow> 'r option"
    and update :: "'s \<Rightarrow> 'id \<Rightarrow> 'v \<Rightarrow> ('id not_found, unit, 's) outcome"

sublocale symmetric_updatable \<subseteq> sy: wrapping_updatable key okr Ops invar view sy_inner "sy_aux E" "sy_ops E Ops"
  okv setv update "sy_update update"
proof unfold_locales
  fix t :: "('s, 'id) symmetric" and k :: 'id and v :: 'v and m r r' i
  show "update (sy_inner t) k v = Some (Inl (NotFound k), sy_inner t) \<Longrightarrow> sy_update update t k v = Some (Inl (NotFound k), t)"
    by (simp add: sy_update_def sy_put_def)
  assume "sy_aux E m t" "m k = Some r" "update (sy_inner t) k v = Some (Inr (), i)"
  then show "\<exists>t'. sy_update update t k v = Some (Inr (), t') \<and> sy_inner t' = i \<and> sy_aux E (m(k \<mapsto> r')) t'"
    by (intro exI [of _ "sy_put t i"]) (auto simp: sy_update_def intro: sy_aux_put)
qed

end
