(* ===== verification/Multi_Files.thy ===== *)
theory Multi_Files
  imports Edge_Files
begin

text \<open>
  The files of a \<open>MultiSymmetric\<close> layer of \<open>src/generic/store.rs\<close>: an edge blob and an edge log per
  label, and the label manifest. A label is a component of a file name, so what may be one is
  restricted by \<open>valid_relation_label\<close>; two labels never share a file.
\<close>

section \<open>Labels\<close>

definition label_char :: "char \<Rightarrow> bool" where
  "label_char c =
     (let n = of_char c :: nat in
      (48 \<le> n \<and> n \<le> 57) \<or> (65 \<le> n \<and> n \<le> 90) \<or> (97 \<le> n \<and> n \<le> 122) \<or> c = CHR ''_'' \<or> c = CHR ''-'')"

definition valid_relation_label :: "string \<Rightarrow> bool" where
  "valid_relation_label label \<longleftrightarrow> label \<noteq> [] \<and> length label \<le> 64 \<and> hd label \<noteq> CHR ''-'' \<and> (\<forall>c \<in> set label. label_char c)"

text \<open>The path of a label's blob, and of its log beside it, as text.\<close>

definition labeled_edges_path :: "string \<Rightarrow> string \<Rightarrow> string" where
  "labeled_edges_path base label = base @ ''.'' @ label @ ''.edges''"

definition edge_log_path :: "string \<Rightarrow> string" where
  "edge_log_path blob_path = blob_path @ ''.inserts''"

definition manifest_path :: "string \<Rightarrow> string" where
  "manifest_path base = base @ ''.relations''"

lemma label_chars:
  assumes "valid_relation_label label"
  shows "CHR ''.'' \<notin> set label" and "CHR ''/'' \<notin> set label" and "CHR 0x5C \<notin> set label" and "label \<noteq> ''''"
  using assms by (auto simp: valid_relation_label_def label_char_def)

lemma split_at_dot:
  "x \<notin> set a \<Longrightarrow> x \<notin> set b \<Longrightarrow> a @ x # u = b @ x # v \<Longrightarrow> a = b \<and> u = v"
proof (induction a arbitrary: b)
  case Nil
  then show ?case by (cases b) auto
next
  case (Cons c a)
  then show ?case by (cases b) auto
qed

text \<open>No valid label's files are another's, nor the manifest.\<close>

lemma label_paths_distinct:
  assumes "valid_relation_label l" "valid_relation_label l'" "l \<noteq> l'"
  shows "labeled_edges_path base l \<noteq> labeled_edges_path base l'"
    and "labeled_edges_path base l \<noteq> edge_log_path (labeled_edges_path base l')"
    and "edge_log_path (labeled_edges_path base l) \<noteq> edge_log_path (labeled_edges_path base l')"
    and "labeled_edges_path base l \<noteq> manifest_path base"
    and "edge_log_path (labeled_edges_path base l) \<noteq> manifest_path base"
proof -
  note nl = label_chars(1) [OF assms(1)] label_chars(1) [OF assms(2)]
  show "labeled_edges_path base l \<noteq> labeled_edges_path base l'" using assms(3) by (simp add: labeled_edges_path_def)
  show "edge_log_path (labeled_edges_path base l) \<noteq> edge_log_path (labeled_edges_path base l')"
    using assms(3) by (simp add: labeled_edges_path_def edge_log_path_def)
  show "labeled_edges_path base l \<noteq> edge_log_path (labeled_edges_path base l')"
    using split_at_dot [OF nl(1) nl(2), of "''edges''" "''edges.inserts''"] assms(3) by (auto simp: labeled_edges_path_def edge_log_path_def)
  show "labeled_edges_path base l \<noteq> manifest_path base"
    by (auto simp: labeled_edges_path_def manifest_path_def dest: arg_cong [where f = rev])
  show "edge_log_path (labeled_edges_path base l) \<noteq> manifest_path base"
    by (auto simp: labeled_edges_path_def manifest_path_def edge_log_path_def dest: arg_cong [where f = rev])
qed

section \<open>The files and the manifest\<close>

record 'id multi_env =
  me_edges :: "'id edge_env"
  me_labels :: "string list bincode"

record multi_files =
  mf_manifest :: "byte list option"
  mf_edges :: "string \<Rightarrow> edge_files"

definition no_files :: edge_files where
  "no_files = \<lparr>ef_blob = None, ef_log = None\<rparr>"

definition genlabl_magic :: "byte list" where
  "genlabl_magic = map (of_nat \<circ> of_char) ''GENLABL'' @ [0]"

definition genlabl_version :: u32 where "genlabl_version = 1"

lemma genlabl_length [simp]: "length genlabl_magic = 8"
  by (simp add: genlabl_magic_def)

definition manifest_read :: "'id multi_env \<Rightarrow> byte list option \<Rightarrow> durability_error + string list" where
  "manifest_read E manifest =
     (case manifest of
        None \<Rightarrow> Ok []
      | Some _ \<Rightarrow> tagged_read genlabl_magic genlabl_version (ee_tag (me_edges E)) (me_labels E) manifest)"

definition manifest_write :: "'id multi_env \<Rightarrow> string list \<Rightarrow> multi_files \<Rightarrow> durability_error + multi_files" where
  "manifest_write E labels F =
     map_ok (\<lambda>image. F\<lparr>mf_manifest := Some image\<rparr>)
       (tagged_encode genlabl_magic genlabl_version (ee_tag (me_edges E)) (me_labels E) labels)"

definition with_manifest_labels :: "(string \<times> ('id \<times> 'id) list) list \<Rightarrow> string list \<Rightarrow> (string \<times> ('id \<times> 'id) list) list" where
  "with_manifest_labels relations manifest =
     foldl (\<lambda>all label. if label \<in> set (map fst all) then all else all @ [(label, [])]) relations manifest"

definition put_edges :: "string \<Rightarrow> edge_files \<Rightarrow> multi_files \<Rightarrow> multi_files" where
  "put_edges label f F = F\<lparr>mf_edges := (mf_edges F)(label := f)\<rparr>"

lemma put_edges_simps [simp]:
  "mf_edges (put_edges l f F) l' = (if l' = l then f else mf_edges F l')"
  "mf_manifest (put_edges l f F) = mf_manifest F"
  by (simp_all add: put_edges_def)

section \<open>The loops over the labels\<close>

fun create_relations :: "'id edge_env \<Rightarrow> (string \<times> ('id \<times> 'id) list) list \<Rightarrow> multi_files \<Rightarrow> durability_error + multi_files" where
  "create_relations E [] F = Ok F"
| "create_relations E ((label, edges) # rest) F =
     and_then (ef_create E edges) (\<lambda>f. create_relations E rest (put_edges label f F))"

fun open_relations :: "'id edge_env \<Rightarrow> (string \<times> ('id \<times> 'id) list) list \<Rightarrow> multi_files \<Rightarrow>
    durability_error + (string \<times> ('id \<times> 'id) list) list \<times> multi_files" where
  "open_relations E [] F = Ok ([], F)"
| "open_relations E ((label, edges) # rest) F =
     and_then (ef_open E edges (mf_edges F label)) (\<lambda>(edges, f).
       map_ok (\<lambda>(all, F). ((label, edges) # all, F)) (open_relations E rest (put_edges label f F)))"

fun read_relations :: "'id edge_env \<Rightarrow> (string \<times> ('id \<times> 'id) list) list \<Rightarrow> multi_files \<Rightarrow>
    durability_error + (string \<times> ('id \<times> 'id) list) list" where
  "read_relations E [] F = Ok []"
| "read_relations E ((label, _) # rest) F =
     and_then (edge_blob_read (ee_tag E) (ee_list E) (ef_blob (mf_edges F label))) (\<lambda>edges.
       map_ok (Cons (label, edges)) (read_relations E rest F))"

definition multi_create :: "'id multi_env \<Rightarrow> (string \<times> ('id \<times> 'id) list) list \<Rightarrow> multi_files \<Rightarrow> durability_error + multi_files" where
  "multi_create E relations F =
     and_then (create_relations (me_edges E) relations F) (manifest_write E (map fst relations))"

definition multi_open :: "'id multi_env \<Rightarrow> (string \<times> ('id \<times> 'id) list) list \<Rightarrow> multi_files \<Rightarrow>
    durability_error + (string \<times> ('id \<times> 'id) list) list \<times> multi_files" where
  "multi_open E relations F =
     and_then (manifest_read E (mf_manifest F)) (\<lambda>manifest.
     and_then (open_relations (me_edges E) (with_manifest_labels relations manifest) F) (\<lambda>(all, F).
       map_ok (Pair all) (if map fst all \<noteq> manifest then manifest_write E (map fst all) F else Ok F)))"

definition multi_read :: "'id multi_env \<Rightarrow> string list \<Rightarrow> multi_files \<Rightarrow> durability_error + (string \<times> ('id \<times> 'id) list) list" where
  "multi_read E labels F =
     and_then (manifest_read E (mf_manifest F)) (\<lambda>manifest.
       read_relations (me_edges E) (with_manifest_labels (map (\<lambda>l. (l, [])) labels) manifest) F)"

text \<open>The writes of \<open>link\<close> for a label with no adjacency yet: its empty blob, then the manifest.\<close>

definition create_label :: "'id multi_env \<Rightarrow> string \<Rightarrow> multi_files \<Rightarrow> (durability_error + unit) \<times> multi_files" where
  "create_label E label F =
     (case edge_blob_encode (ee_tag (me_edges E)) (ee_list (me_edges E)) [] of
        Inl e \<Rightarrow> (Inl e, F)
      | Inr blob \<Rightarrow>
          (let F = put_edges label ((mf_edges F label)\<lparr>ef_blob := Some blob\<rparr>) F in
           case manifest_read E (mf_manifest F) of
             Inl e \<Rightarrow> (Inl e, F)
           | Inr labels \<Rightarrow>
               if label \<in> set labels then (Inr (), F)
               else (case manifest_write E (labels @ [label]) F of
                       Inl e \<Rightarrow> (Inl e, F)
                     | Inr F \<Rightarrow> (Inr (), F))))"

text \<open>A write to the files of one label of a layer that may have none.\<close>

definition on_label :: "string \<Rightarrow> (edge_files \<Rightarrow> durability_error + edge_files) \<Rightarrow> multi_files option \<Rightarrow>
    durability_error + multi_files option" where
  "on_label label write files =
     (case files of
        None \<Rightarrow> Ok None
      | Some F \<Rightarrow> map_ok (\<lambda>f. Some (put_edges label f F)) (write (mf_edges F label)))"

lemma on_label_simps [simp]:
  "on_label label write None = Ok None"
  "on_label label write (Some F) = map_ok (\<lambda>f. Some (put_edges label f F)) (write (mf_edges F label))"
  by (simp_all add: on_label_def)

section \<open>What the files hold\<close>

definition multi_serial_ok :: "'id multi_env \<Rightarrow> bool" where
  "multi_serial_ok E \<longleftrightarrow> edge_serial_ok (me_edges E) \<and> bincode_roundtrip (me_labels E) \<and> (\<forall>ls. bc_encode (me_labels E) ls \<noteq> None)"

type_synonym 'id graph = "string \<rightharpoonup> ('id \<times> 'id) set"

definition label_holds :: "'id edge_env \<Rightarrow> ('id \<times> 'id) set option \<Rightarrow> edge_files \<Rightarrow> bool" where
  "label_holds E rel f \<longleftrightarrow> (case rel of None \<Rightarrow> ef_log f = None | Some R \<Rightarrow> edges_durable E R f)"

lemma label_holds_simps [simp]:
  "label_holds E None f \<longleftrightarrow> ef_log f = None"
  "label_holds E (Some R) f \<longleftrightarrow> edges_durable E R f"
  by (simp_all add: label_holds_def)

text \<open>
  The files hold \<open>G\<close>: the manifest names its labels, every label's files hold its relation, and no
  other label has a log.
\<close>

definition multi_durable :: "'id multi_env \<Rightarrow> 'id graph \<Rightarrow> multi_files \<Rightarrow> bool" where
  "multi_durable E G F \<longleftrightarrow>
     (\<exists>ls. manifest_read E (mf_manifest F) = Ok ls \<and> distinct ls \<and> set ls = dom G) \<and>
     (\<forall>l. label_holds (me_edges E) (G l) (mf_edges F l))"

definition rels_graph :: "(string \<times> ('id \<times> 'id) list) list \<Rightarrow> 'id graph" where
  "rels_graph rels = map_of (map (\<lambda>(l, es). (l, sym_rel es)) rels)"

definition rels_ok :: "(string \<times> ('id \<times> 'id) list) list \<Rightarrow> bool" where
  "rels_ok rels \<longleftrightarrow> distinct (map fst rels) \<and> (\<forall>(l, es) \<in> set rels. edges_ok es)"

lemma dom_rels_graph: "dom (rels_graph rels) = set (map fst rels)"
  by (force simp: rels_graph_def dom_map_of_conv_image_fst)

lemma rels_graph_None: "rels_graph rels l = None \<longleftrightarrow> l \<notin> set (map fst rels)"
  using dom_rels_graph [of rels] by (metis domIff)

lemma rels_graph_Cons [simp]: "rels_graph ((l, es) # rels) = (rels_graph rels)(l \<mapsto> sym_rel es)"
  by (simp add: rels_graph_def)

lemma manifest_write_ok:
  assumes "multi_serial_ok E"
  shows "\<exists>F'. manifest_write E ls F = Ok F' \<and> mf_edges F' = mf_edges F \<and> manifest_read E (mf_manifest F') = Ok ls"
proof -
  obtain x where "bc_encode (me_labels E) ls = Some x"
    using assms unfolding multi_serial_ok_def by (meson not_None_eq)
  then obtain b where b: "tagged_encode genlabl_magic genlabl_version (ee_tag (me_edges E)) (me_labels E) ls = Inr b"
    by (simp add: tagged_encode_def)
  have "tagged_read genlabl_magic genlabl_version (ee_tag (me_edges E)) (me_labels E) (Some b) = Inr ls"
    by (rule tagged_read_encode [OF _ b]) (use assms in \<open>simp_all add: multi_serial_ok_def\<close>)
  with b show ?thesis by (simp add: manifest_write_def manifest_read_def)
qed

lemma manifest_write_durable:
  assumes "multi_serial_ok E" "distinct ls" "set ls = dom G"
    and "\<And>l. label_holds (me_edges E) (G l) (mf_edges F l)"
  shows "\<exists>F'. manifest_write E ls F = Ok F' \<and> multi_durable E G F'"
  using manifest_write_ok [OF assms(1), of ls F] assms(2-4) by (auto simp: multi_durable_def)

text \<open>A write to the files of one label.\<close>

lemma multi_durable_put:
  assumes "multi_durable E G F" "G l \<noteq> None" "edges_durable (me_edges E) R f"
  shows "multi_durable E (G(l \<mapsto> R)) (put_edges l f F)"
  using assms unfolding multi_durable_def by (auto simp: insert_absorb domI)

text \<open>Creating the layer's files in a directory without edge logs.\<close>

lemma create_relations_ok:
  assumes "edge_serial_ok E" "rels_ok rels"
  shows "\<exists>F'. create_relations E rels F = Ok F' \<and> mf_manifest F' = mf_manifest F \<and>
     (\<forall>l R. rels_graph rels l = Some R \<longrightarrow> edges_durable E R (mf_edges F' l)) \<and>
     (\<forall>l. l \<notin> set (map fst rels) \<longrightarrow> mf_edges F' l = mf_edges F l)"
  using assms(2)
proof (induction rels arbitrary: F)
  case Nil
  show ?case by (simp add: rels_graph_def)
next
  case (Cons rel rels)
  obtain l es where rel: "rel = (l, es)" by (cases rel)
  from Cons.prems have ok: "edges_ok es" "rels_ok rels" "l \<notin> set (map fst rels)" by (auto simp: rels_ok_def rel)
  from ef_create_durable [OF assms(1) ok(1)] obtain f where f: "ef_create E es = Ok f" "edges_durable E (sym_rel es) f" by blast
  from Cons.IH [OF ok(2), of "put_edges l f F"] obtain F' where F':
    "create_relations E rels (put_edges l f F) = Ok F'" "mf_manifest F' = mf_manifest F"
    "\<And>k R. rels_graph rels k = Some R \<Longrightarrow> edges_durable E R (mf_edges F' k)"
    "\<And>k. k \<notin> set (map fst rels) \<Longrightarrow> mf_edges F' k = mf_edges (put_edges l f F) k"
    by auto
  from F'(4) [OF ok(3)] f(2) have "edges_durable E (sym_rel es) (mf_edges F' l)" by simp
  then have "rels_graph (rel # rels) k = Some R \<Longrightarrow> edges_durable E R (mf_edges F' k)" for k R
    using F'(3) by (auto simp: rel split: if_splits)
  moreover have "k \<notin> set (map fst (rel # rels)) \<Longrightarrow> mf_edges F' k = mf_edges F k" for k
    using F'(4) [of k] by (simp add: rel)
  ultimately show ?case using F'(1,2) f(1) by (simp add: rel)
qed

lemma multi_create_durable:
  assumes "multi_serial_ok E" "rels_ok rels" "\<And>l. l \<notin> set (map fst rels) \<Longrightarrow> ef_log (mf_edges F l) = None"
  shows "\<exists>F'. multi_create E rels F = Ok F' \<and> multi_durable E (rels_graph rels) F'"
proof -
  have ser: "edge_serial_ok (me_edges E)" using assms(1) by (simp add: multi_serial_ok_def)
  from create_relations_ok [OF ser assms(2), of F] obtain F1 where F1: "create_relations (me_edges E) rels F = Ok F1"
    "\<And>l R. rels_graph rels l = Some R \<Longrightarrow> edges_durable (me_edges E) R (mf_edges F1 l)"
    "\<And>l. l \<notin> set (map fst rels) \<Longrightarrow> mf_edges F1 l = mf_edges F l"
    by auto
  have "label_holds (me_edges E) (rels_graph rels l) (mf_edges F1 l)" for l
    using F1(2,3) [of l] assms(3) [of l] rels_graph_None [of rels l] by (cases "rels_graph rels l") auto
  moreover have "distinct (map fst rels)" using assms(2) by (simp add: rels_ok_def)
  ultimately show ?thesis
    using manifest_write_durable [OF assms(1), of "map fst rels" "rels_graph rels" F1] dom_rels_graph [of rels] F1(1)
    by (simp add: multi_create_def)
qed

text \<open>Opening them again, from the blobs alone, with the labels the caller names and the manifest's.\<close>

lemma set_with_manifest: "set (map fst (with_manifest_labels rels ls)) = set (map fst rels) \<union> set ls"
proof (induction ls arbitrary: rels)
  case (Cons l ls)
  then show ?case by (auto simp: with_manifest_labels_def)
qed (simp add: with_manifest_labels_def)

lemma distinct_with_manifest:
  "distinct (map fst rels) \<Longrightarrow> distinct (map fst (with_manifest_labels rels ls))"
proof (induction ls arbitrary: rels)
  case (Cons l ls)
  then show ?case by (simp add: with_manifest_labels_def)
qed (simp add: with_manifest_labels_def)

lemma with_manifest_covered: "set ls \<subseteq> set (map fst rels) \<Longrightarrow> with_manifest_labels rels ls = rels"
  by (induction ls) (simp_all add: with_manifest_labels_def)

lemma read_relations_ok:
  assumes "edge_serial_ok E" "\<forall>l \<in> set (map fst rels). \<exists>R. edges_durable E R (mf_edges F l)"
  shows "\<exists>all. read_relations E rels F = Ok all \<and> map fst all = map fst rels \<and>
     (\<forall>(l, es) \<in> set all. edge_blob_read (ee_tag E) (ee_list E) (ef_blob (mf_edges F l)) = Ok es)"
  using assms(2)
proof (induction rels)
  case (Cons rel rels)
  obtain l es where rel: "rel = (l, es)" by (cases rel)
  from Cons.prems obtain R where "edges_durable E R (mf_edges F l)" by (auto simp: rel)
  then obtain base where b: "edge_blob_read (ee_tag E) (ee_list E) (ef_blob (mf_edges F l)) = Ok base"
    using files_holdD(2) [OF _ assms(1)] by (auto simp: edges_durable_def)
  from Cons.IH Cons.prems obtain all where "read_relations E rels F = Ok all" "map fst all = map fst rels"
    "\<forall>(l, es) \<in> set all. edge_blob_read (ee_tag E) (ee_list E) (ef_blob (mf_edges F l)) = Ok es" by auto
  with b show ?case by (simp add: rel)
qed simp

lemma open_relations_ok:
  assumes "edge_serial_ok E" "distinct (map fst rels)"
    and "\<forall>(l, es) \<in> set rels. edge_blob_read (ee_tag E) (ee_list E) (ef_blob (mf_edges F l)) = Ok es \<and>
      (\<exists>R. G l = Some R \<and> edges_durable E R (mf_edges F l)) \<and> files_apart E es (mf_edges F l)"
  shows "\<exists>all F'. open_relations E rels F = Ok (all, F') \<and> mf_manifest F' = mf_manifest F \<and> map fst all = map fst rels \<and>
     rels_ok all \<and> (\<forall>(l, es) \<in> set all. G l = Some (sym_rel es)) \<and>
     (\<forall>l. label_holds E (G l) (mf_edges F l) \<longrightarrow> label_holds E (G l) (mf_edges F' l))"
  using assms(2,3)
proof (induction rels arbitrary: F)
  case Nil
  show ?case by (simp add: rels_ok_def)
next
  case (Cons rel rels)
  obtain l es where rel: "rel = (l, es)" by (cases rel)
  from Cons.prems(2) obtain R where R: "G l = Some R" "edges_durable E R (mf_edges F l)"
    "edge_blob_read (ee_tag E) (ee_list E) (ef_blob (mf_edges F l)) = Ok es" "files_apart E es (mf_edges F l)"
    by (auto simp: rel)
  from ef_open_durable [OF R(2) assms(1) disjI2 [OF R(3)]] R(4) obtain es' f where
    o: "ef_open E es (mf_edges F l) = Ok (es', f)" "edges_ok es'" "sym_rel es' = R" "edges_durable E R f" by blast
  let ?F = "put_edges l f F"
  from Cons.prems have d: "distinct (map fst rels)" "l \<notin> set (map fst rels)" by (simp_all add: rel)
  have "k \<noteq> l" if "(k, xs) \<in> set rels" for k xs using that d(2) by force
  with Cons.prems(2) have "\<forall>(k, xs) \<in> set rels. edge_blob_read (ee_tag E) (ee_list E) (ef_blob (mf_edges ?F k)) = Ok xs \<and>
      (\<exists>R. G k = Some R \<and> edges_durable E R (mf_edges ?F k)) \<and> files_apart E xs (mf_edges ?F k)" by (auto simp: rel)
  from Cons.IH [OF d(1) this] obtain all F' where
    IH: "open_relations E rels ?F = Ok (all, F')" "mf_manifest F' = mf_manifest ?F" "map fst all = map fst rels" "rels_ok all"
      "\<forall>(l, es) \<in> set all. G l = Some (sym_rel es)"
      "\<And>k. label_holds E (G k) (mf_edges ?F k) \<Longrightarrow> label_holds E (G k) (mf_edges F' k)" by auto
  have "rels_ok ((l, es') # all)" using IH(4) o(2) d(2) unfolding IH(3) [symmetric] by (auto simp: rels_ok_def)
  moreover have "label_holds E (G k) (mf_edges F' k)" if "label_holds E (G k) (mf_edges F k)" for k
    using that IH(6) [of k] R(1) o(4) by (cases "k = l") simp_all
  ultimately show ?case using IH(1,2,3,5) o(1,3) R(1) by (auto simp: rel)
qed

lemma rels_graph_eq:
  assumes "distinct (map fst rels)" "set (map fst rels) = dom G" "\<forall>(l, es) \<in> set rels. G l = Some (sym_rel es)"
  shows "rels_graph rels = G"
proof
  fix l
  show "rels_graph rels l = G l"
  proof (cases "rels_graph rels l")
    case None
    with assms(2) show ?thesis by (metis rels_graph_None domIff)
  next
    case (Some R)
    then have "(l, R) \<in> set (map (\<lambda>(l, es). (l, sym_rel es)) rels)" unfolding rels_graph_def by (rule map_of_SomeD)
    with assms(3) Some show ?thesis by auto
  qed
qed

text \<open>The lists a reopen compares by hash do not collide.\<close>

definition multi_apart :: "'id multi_env \<Rightarrow> multi_files \<Rightarrow> bool" where
  "multi_apart E F \<longleftrightarrow>
     (\<forall>l es. edge_blob_read (ee_tag (me_edges E)) (ee_list (me_edges E)) (ef_blob (mf_edges F l)) = Ok es \<longrightarrow>
       files_apart (me_edges E) es (mf_edges F l))"

lemma multi_reopen:
  fixes E :: "'id multi_env"
  assumes ser: "multi_serial_ok E" and dur: "multi_durable E G F" and apart: "multi_apart E F"
    and labels: "distinct labels" "set labels \<subseteq> dom G"
  shows "\<exists>rels all F'. multi_read E labels F = Ok rels \<and> multi_open E rels F = Ok (all, F') \<and>
     rels_ok all \<and> rels_graph all = G \<and> multi_durable E G F'"
proof -
  have eser: "edge_serial_ok (me_edges E)" using ser by (simp add: multi_serial_ok_def)
  from dur obtain ls where ls: "manifest_read E (mf_manifest F) = Ok ls" "set ls = dom G" "distinct ls"
    and holds: "\<And>l. label_holds (me_edges E) (G l) (mf_edges F l)" by (auto simp: multi_durable_def)
  let ?named = "with_manifest_labels (map (\<lambda>l. (l, [] :: ('id \<times> 'id) list)) labels) ls"
  have named: "set (map fst ?named) = dom G" unfolding set_with_manifest using labels ls(2) by (auto simp: comp_def)
  have ndist: "distinct (map fst ?named)" using labels(1) by (intro distinct_with_manifest) (simp add: comp_def)
  have "\<forall>l \<in> set (map fst ?named). \<exists>R. edges_durable (me_edges E) R (mf_edges F l)"
  proof
    fix l assume "l \<in> set (map fst ?named)"
    then show "\<exists>R. edges_durable (me_edges E) R (mf_edges F l)" using holds [of l] unfolding named by auto
  qed
  from read_relations_ok [OF eser this] obtain rels where
    r: "read_relations (me_edges E) ?named F = Ok rels" "map fst rels = map fst ?named"
      "\<forall>(l, es) \<in> set rels. edge_blob_read (ee_tag (me_edges E)) (ee_list (me_edges E)) (ef_blob (mf_edges F l)) = Ok es"
    by blast
  have rdist: "distinct (map fst rels)" and rdom: "set (map fst rels) = dom G" using ndist named r(2) by simp_all
  have "with_manifest_labels rels ls = rels" using ls(2) rdom by (intro with_manifest_covered) simp
  note wml = this
  have ex: "\<exists>R. G l = Some R \<and> edges_durable (me_edges E) R (mf_edges F l)" if "(l, es) \<in> set rels" for l es
  proof -
    from that have "l \<in> dom G" unfolding rdom [symmetric] by force
    with holds [of l] show ?thesis by auto
  qed
  have "\<forall>(l, es) \<in> set rels. edge_blob_read (ee_tag (me_edges E)) (ee_list (me_edges E)) (ef_blob (mf_edges F l)) = Ok es \<and>
      (\<exists>R. G l = Some R \<and> edges_durable (me_edges E) R (mf_edges F l)) \<and> files_apart (me_edges E) es (mf_edges F l)"
  proof (intro ballI, clarify)
    fix l es assume mem: "(l, es) \<in> set rels"
    with r(3) have read: "edge_blob_read (ee_tag (me_edges E)) (ee_list (me_edges E)) (ef_blob (mf_edges F l)) = Ok es" by auto
    with apart have "files_apart (me_edges E) es (mf_edges F l)" unfolding multi_apart_def by blast
    with read ex [OF mem]
    show "edge_blob_read (ee_tag (me_edges E)) (ee_list (me_edges E)) (ef_blob (mf_edges F l)) = Ok es \<and>
      (\<exists>R. G l = Some R \<and> edges_durable (me_edges E) R (mf_edges F l)) \<and> files_apart (me_edges E) es (mf_edges F l)" by blast
  qed
  from open_relations_ok [OF eser rdist this] obtain all F1 where
    o: "open_relations (me_edges E) rels F = Ok (all, F1)" "mf_manifest F1 = mf_manifest F" "map fst all = map fst rels"
      "rels_ok all" "\<forall>(l, es) \<in> set all. G l = Some (sym_rel es)"
      "\<And>l. label_holds (me_edges E) (G l) (mf_edges F1 l)" using holds by blast
  have graph: "rels_graph all = G" using o(3,5) rdist rdom by (intro rels_graph_eq) simp_all
  have "\<exists>F'. (if map fst all \<noteq> ls then manifest_write E (map fst all) F1 else Ok F1) = Ok F' \<and> multi_durable E G F'"
    using manifest_write_durable [OF ser, of "map fst all" G F1] o(2,3,6) rdist rdom ls by (auto simp: multi_durable_def)
  then obtain F' where "(if map fst all \<noteq> ls then manifest_write E (map fst all) F1 else Ok F1) = Ok F'" "multi_durable E G F'"
    by blast
  then show ?thesis using r(1) o(1,4) graph ls(1)
    by (intro exI [of _ rels] exI [of _ all] exI [of _ F']) (simp add: multi_read_def multi_open_def wml)
qed

text \<open>
  A new label, with a crash between its two writes: after the blob alone the files hold what they
  held, after the manifest too they hold the label with no edges.
\<close>

lemma create_label_crash:
  "multi_durable E G F \<Longrightarrow> G l = None \<Longrightarrow> multi_durable E G (put_edges l ((mf_edges F l)\<lparr>ef_blob := b\<rparr>) F)"
  unfolding multi_durable_def
  by (elim conjE, intro conjI allI) (simp, metis edge_files.select_convs(2) edge_files.surjective edge_files.update_convs(1) label_holds_simps(1) put_edges_simps(1))

lemma create_label_ok:
  assumes ser: "multi_serial_ok E" and dur: "multi_durable E G F" and new: "G l = None"
  shows "\<exists>F'. create_label E l F = (Inr (), F') \<and> multi_durable E (G(l \<mapsto> {})) F'"
proof -
  have eser: "edge_serial_ok (me_edges E)" using ser by (simp add: multi_serial_ok_def)
  from dur obtain ls where ls: "manifest_read E (mf_manifest F) = Ok ls" "set ls = dom G" "distinct ls"
    and holds: "\<And>l. label_holds (me_edges E) (G l) (mf_edges F l)" by (auto simp: multi_durable_def)
  obtain b where b: "edge_blob_encode (ee_tag (me_edges E)) (ee_list (me_edges E)) [] = Inr b" by (rule edge_serial_encode [OF eser])
  let ?F = "put_edges l ((mf_edges F l)\<lparr>ef_blob := Some b\<rparr>) F"
  have log: "ef_log (mf_edges F l) = None" using holds [of l] new by simp
  have "files_hold (me_edges E) [] [] ((mf_edges F l)\<lparr>ef_blob := Some b\<rparr>)"
    using b log by (simp add: files_hold_def log_of_def edges_ok_def)
  then have "edges_durable (me_edges E) {} ((mf_edges F l)\<lparr>ef_blob := Some b\<rparr>)"
    unfolding edges_durable_def by (intro exI [of _ "[]"]) simp
  with holds have "label_holds (me_edges E) ((G(l \<mapsto> {})) k) (mf_edges ?F k)" for k by simp
  moreover from new ls(2) have "l \<notin> set ls" by auto
  ultimately show ?thesis
    using manifest_write_durable [OF ser, of "ls @ [l]" "G(l \<mapsto> {})" ?F] ls b
    by (auto simp: create_label_def Let_def)
qed

text \<open>Linking and unlinking under a label.\<close>

definition multi_files_ok :: "'id multi_env \<Rightarrow> 'id graph \<Rightarrow> multi_files option \<Rightarrow> bool" where
  "multi_files_ok E G files \<longleftrightarrow> (\<forall>F. files = Some F \<longrightarrow> multi_durable E G F)"

lemma multi_files_ok_simps [simp]:
  "multi_files_ok E G None"
  "multi_files_ok E G (Some F) \<longleftrightarrow> multi_durable E G F"
  by (simp_all add: multi_files_ok_def)

lemma on_label_ok:
  assumes "multi_files_ok E G files" "G l = Some R"
    and "\<And>f. edges_durable (me_edges E) R f \<Longrightarrow> \<exists>f'. write f = Ok f' \<and> edges_durable (me_edges E) R' f'"
  shows "\<exists>files'. on_label l write files = Ok files' \<and> multi_files_ok E (G(l \<mapsto> R')) files'"
proof (cases files)
  case (Some F)
  with assms(1) have dur: "multi_durable E G F" by simp
  then have "label_holds (me_edges E) (G l) (mf_edges F l)" unfolding multi_durable_def by blast
  with assms(2,3) obtain f' where f': "write (mf_edges F l) = Ok f'" "edges_durable (me_edges E) R' f'" by auto
  have "multi_durable E (G(l \<mapsto> R')) (put_edges l f' F)" by (rule multi_durable_put [OF dur _ f'(2)]) (simp add: assms(2))
  with f'(1) Some show ?thesis by simp
qed simp

lemma on_label_link:
  assumes "multi_serial_ok E" "multi_files_ok E G files" "G l = Some R" "a \<noteq> b"
  shows "\<exists>files'. on_label l (ef_link (me_edges E) a b) files = Ok files' \<and>
     multi_files_ok E (G(l \<mapsto> insert (b, a) (insert (a, b) R))) files'"
  using assms by (intro on_label_ok ef_link_durable) (simp_all add: multi_serial_ok_def)

lemma on_label_unlink:
  assumes "multi_serial_ok E" "multi_files_ok E G files" "G l = Some R"
  shows "\<exists>files'. on_label l (ef_unlink (me_edges E) k) files = Ok files' \<and>
     multi_files_ok E (G(l \<mapsto> {(a, b) \<in> R. a \<noteq> k \<and> b \<noteq> k})) files'"
  using assms by (intro on_label_ok ef_unlink_durable) (simp_all add: multi_serial_ok_def)

end
