(* ===== verification/Layer_Multi.thy ===== *)
theory Layer_Multi
  imports Layer_Symmetric Multi_Files
begin

text \<open>
  \<open>MultiSymmetric\<close> of \<open>src/generic/store.rs\<close>: any number of labelled undirected relations over one
  record store. A label's adjacency is created by the first \<open>link\<close> under it; a foreign label's
  edges may end in another table's records. The layer keeps the inner store's contract; its own
  abstraction is a graph, a relation for each label.
\<close>

section \<open>The layer\<close>

record ('s, 'id) multi =
  mu_inner :: 's
  mu_adjacency :: "(string, 'id adjacency) hash_map"
  mu_files :: "multi_files option"
  mu_foreign :: "string list"

definition mu_new :: "'s \<Rightarrow> (string \<times> ('id \<times> 'id) list) list \<Rightarrow> ('s, 'id) multi" where
  "mu_new inner relations =
     \<lparr>mu_inner = inner,
      mu_adjacency = hm_collect (map (\<lambda>(label, edges). (label, adj_of_edges edges)) relations),
      mu_files = None, mu_foreign = []\<rparr>"

definition mu_with_path :: "('s, 'id) multi \<Rightarrow> multi_files \<Rightarrow> ('s, 'id) multi" where
  "mu_with_path s F = s\<lparr>mu_files := Some F\<rparr>"

definition with_foreign_labels :: "('s, 'id) multi \<Rightarrow> string list \<Rightarrow> ('s, 'id) multi" where
  "with_foreign_labels s labels = s\<lparr>mu_foreign := labels\<rparr>"

definition is_foreign :: "('s, 'id) multi \<Rightarrow> string \<Rightarrow> bool" where
  "is_foreign s label \<longleftrightarrow> label \<in> set (mu_foreign s)"

definition mu_create :: "'id multi_env \<Rightarrow> 's \<Rightarrow> (string \<times> ('id \<times> 'id) list) list \<Rightarrow> multi_files \<Rightarrow>
    durability_error + ('s, 'id) multi" where
  "mu_create E inner relations F = map_ok (mu_with_path (mu_new inner relations)) (multi_create E relations F)"

definition mu_open :: "'id multi_env \<Rightarrow> 's \<Rightarrow> (string \<times> ('id \<times> 'id) list) list \<Rightarrow> multi_files \<Rightarrow>
    durability_error + ('s, 'id) multi" where
  "mu_open E inner relations F = map_ok (\<lambda>(all, F). mu_with_path (mu_new inner all) F) (multi_open E relations F)"

definition mu_open_portable :: "'id multi_env \<Rightarrow> 's \<Rightarrow> string list \<Rightarrow> multi_files \<Rightarrow> durability_error + ('s, 'id) multi" where
  "mu_open_portable E inner labels F = and_then (multi_read E labels F) (\<lambda>relations. mu_open E inner relations F)"

definition mu_put :: "('s, 'id) multi \<Rightarrow> 's \<Rightarrow> ('s, 'id) multi" where
  "mu_put s i = s\<lparr>mu_inner := i\<rparr>"

text \<open>\<open>link\<close> once the label has an adjacency.\<close>

definition mu_link_under :: "'id multi_env \<Rightarrow> ('s, 'id) multi \<Rightarrow> string \<Rightarrow> 'id adjacency \<Rightarrow> 'id \<Rightarrow> 'id \<Rightarrow>
    ('id link_error, link_outcome, ('s, 'id) multi) outcome" where
  "mu_link_under E s relation adjacency a b =
     (if has_edge adjacency a b then Some (Inr AlreadyLinked, s)
      else (case on_label relation (ef_link (me_edges E) a b) (mu_files s) of
              Inl e \<Rightarrow> Some (Inl (LinkDurability e), s)
            | Inr files \<Rightarrow>
                Some (Inr Linked, s\<lparr>mu_files := files,
                  mu_adjacency := AList.update relation (adj_link a b adjacency) (mu_adjacency s)\<rparr>)))"

definition mu_link :: "'id multi_env \<Rightarrow> ('s, 'id, 'r) store_ops \<Rightarrow> ('s, 'id) multi \<Rightarrow> string \<Rightarrow> 'id \<Rightarrow> 'id \<Rightarrow>
    ('id link_error, link_outcome, ('s, 'id) multi) outcome" where
  "mu_link E Ops s relation a b =
     (if \<not> valid_relation_label relation then Some (Inl (InvalidLabel relation), s)
      else (case op_get Ops (mu_inner s) a of
        None \<Rightarrow> None
      | Some None \<Rightarrow> Some (Inl (UnknownRecord a), s)
      | Some (Some _) \<Rightarrow>
          (case (if is_foreign s relation then Some True else map_option (\<lambda>r. r \<noteq> None) (op_get Ops (mu_inner s) b)) of
             None \<Rightarrow> None
           | Some False \<Rightarrow> Some (Inl (UnknownRecord b), s)
           | Some True \<Rightarrow>
               if a = b then Some (Inl (SelfLoop a), s)
               else (case map_of (mu_adjacency s) relation of
                       Some adjacency \<Rightarrow> mu_link_under E s relation adjacency a b
                     | None \<Rightarrow>
                         (case (case mu_files s of
                                  None \<Rightarrow> (Inr (), None)
                                | Some F \<Rightarrow> map_prod id Some (create_label E relation F)) of
                            (Inl e, files) \<Rightarrow> Some (Inl (LinkDurability e), s\<lparr>mu_files := files\<rparr>)
                          | (Inr _, files) \<Rightarrow>
                              mu_link_under E
                                (s\<lparr>mu_files := files, mu_adjacency := AList.update relation [] (mu_adjacency s)\<rparr>)
                                relation [] a b)))))"

definition neighbors_by_relation :: "('s, 'id) multi \<Rightarrow> string \<Rightarrow> 'id \<Rightarrow> 'id list option" where
  "neighbors_by_relation s relation k = map_option (\<lambda>adj. bucket (map_of adj) k) (map_of (mu_adjacency s) relation)"

definition all_neighbors :: "('s, 'id) multi \<Rightarrow> 'id \<Rightarrow> 'id list" where
  "all_neighbors s k = concat (map (\<lambda>(_, adj). bucket (map_of adj) k) (mu_adjacency s))"

definition relation_kinds :: "('s, 'id) multi \<Rightarrow> string list" where
  "relation_kinds s = map fst (mu_adjacency s)"

definition edge_count :: "('s, 'id) multi \<Rightarrow> string \<Rightarrow> nat option" where
  "edge_count s relation =
     map_option (\<lambda>adj. sum_list (map (\<lambda>(_, ns). length ns) adj) div 2) (map_of (mu_adjacency s) relation)"

definition mu_detach_under :: "'id multi_env \<Rightarrow> ('s, 'id) multi \<Rightarrow> string \<Rightarrow> 'id \<Rightarrow>
    ('id delete_error + nat) \<times> ('s, 'id) multi" where
  "mu_detach_under E s label k =
     (case map_of (mu_adjacency s) label of
        None \<Rightarrow> (Inl (DelNotFound k), s)
      | Some adjacency \<Rightarrow>
          if map_of adjacency k = None then (Inr 0, s)
          else (case on_label label (ef_unlink (me_edges E) k) (mu_files s) of
                  Inl e \<Rightarrow> (Inl (DelDurability e), s)
                | Inr files \<Rightarrow>
                    (let (adjacency, dropped) = drop_edges_of adjacency k in
                     (Inr dropped, s\<lparr>mu_files := files, mu_adjacency := AList.update label adjacency (mu_adjacency s)\<rparr>))))"

definition mu_detach :: "'id multi_env \<Rightarrow> ('s, 'id) multi \<Rightarrow> string \<Rightarrow> 'id \<Rightarrow>
    ('id delete_error, nat, ('s, 'id) multi) outcome" where
  "mu_detach E s relation k = Some (mu_detach_under E s relation k)"

fun detach_all :: "'id multi_env \<Rightarrow> ('s, 'id) multi \<Rightarrow> string list \<Rightarrow> 'id \<Rightarrow>
    ('id delete_error + unit) \<times> ('s, 'id) multi" where
  "detach_all E s [] k = (Inr (), s)"
| "detach_all E s (label # labels) k =
     (case mu_detach_under E s label k of
        (Inl e, s) \<Rightarrow> (Inl e, s)
      | (Inr _, s) \<Rightarrow> detach_all E s labels k)"

definition mu_delete :: "'id multi_env \<Rightarrow> ('s, 'id, 'r) store_ops \<Rightarrow> ('s, 'id) multi \<Rightarrow> 'id \<Rightarrow>
    ('id delete_error, unit, ('s, 'id) multi) outcome" where
  "mu_delete E Ops s k =
     through (op_delete Ops (mu_inner s) k) (mu_put s) (\<lambda>_ s. Some (detach_all E s (map fst (mu_adjacency s)) k))"

fun compact_relations :: "('id::linorder) edge_env \<Rightarrow> (string \<times> 'id adjacency) list \<Rightarrow> multi_files \<Rightarrow>
    (durability_error + nat) \<times> multi_files" where
  "compact_relations E [] F = (Inr 0, F)"
| "compact_relations E ((label, adjacency) # rest) F =
     (case compact_edge_blob E adjacency (mf_edges F label) of
        Inl e \<Rightarrow> (Inl e, F)
      | Inr (folded, f) \<Rightarrow>
          (case compact_relations E rest (put_edges label f F) of
             (r, F) \<Rightarrow> (map_ok (\<lambda>n. if folded then Suc n else n) r, F)))"

definition mu_compact :: "('id::linorder) multi_env \<Rightarrow> ('s, 'id, 'r) store_ops \<Rightarrow> ('s, 'id) multi \<Rightarrow>
    (durability_error, compaction_report, ('s, 'id) multi) outcome" where
  "mu_compact E Ops s =
     through (op_compact Ops (mu_inner s)) (mu_put s) (\<lambda>report s.
       case mu_files s of
         None \<Rightarrow> Some (Inr report, s)
       | Some F \<Rightarrow>
           (case compact_relations (me_edges E) (mu_adjacency s) F of
              (r, F) \<Rightarrow>
                Some (map_ok (\<lambda>n. report\<lparr>cr_edge_logs_folded := cr_edge_logs_folded report + n\<rparr>) r,
                      s\<lparr>mu_files := Some F\<rparr>)))"

definition mu_get :: "('s, 'id, 'r) store_ops \<Rightarrow> ('s, 'id) multi \<Rightarrow> 'id \<Rightarrow> 'r option option" where
  "mu_get Ops s k = op_get Ops (mu_inner s) k"

definition mu_all_ids :: "('s \<Rightarrow> 'id list) \<Rightarrow> ('s, 'id) multi \<Rightarrow> 'id list" where
  "mu_all_ids all_ids s = all_ids (mu_inner s)"

definition mu_insert :: "('s, 'id, 'r) store_ops \<Rightarrow> ('s, 'id) multi \<Rightarrow> 'r \<Rightarrow>
    ('id insert_error, unit, ('s, 'id) multi) outcome" where
  "mu_insert Ops s r = forward (op_insert Ops (mu_inner s) r) (mu_put s)"

definition mu_replace :: "('s, 'id, 'r) store_ops \<Rightarrow> ('s, 'id) multi \<Rightarrow> 'r \<Rightarrow>
    ('id replace_error, unit, ('s, 'id) multi) outcome" where
  "mu_replace Ops s r = forward (op_replace Ops (mu_inner s) r) (mu_put s)"

definition mu_update :: "('s \<Rightarrow> 'id \<Rightarrow> 'v \<Rightarrow> ('id not_found, unit, 's) outcome) \<Rightarrow> ('s, 'id) multi \<Rightarrow> 'id \<Rightarrow> 'v \<Rightarrow>
    ('id not_found, unit, ('s, 'id) multi) outcome" where
  "mu_update update s k v = forward (update (mu_inner s) k v) (mu_put s)"

definition mu_ops :: "('id::linorder) multi_env \<Rightarrow> ('s, 'id, 'r) store_ops \<Rightarrow> (('s, 'id) multi, 'id, 'r) store_ops" where
  "mu_ops E Ops = \<lparr>op_get = mu_get Ops, op_insert = mu_insert Ops, op_replace = mu_replace Ops,
     op_delete = mu_delete E Ops, op_compact = mu_compact E Ops\<rparr>"

section \<open>The contract\<close>

definition mu_graph :: "('s, 'id) multi \<Rightarrow> 'id graph" where
  "mu_graph s = (\<lambda>l. map_option adj_rel (map_of (mu_adjacency s) l))"

text \<open>The ends of a relation's edges: both in this store, or under a foreign label at least one.\<close>

definition anchored :: "bool \<Rightarrow> 'id set \<Rightarrow> ('id \<times> 'id) set \<Rightarrow> bool" where
  "anchored foreign D R \<longleftrightarrow> (\<forall>(a, b) \<in> R. if foreign then a \<in> D \<or> b \<in> D else a \<in> D \<and> b \<in> D)"

definition mu_aux :: "'id multi_env \<Rightarrow> string list \<Rightarrow> ('id \<rightharpoonup> 'r) \<Rightarrow> ('s, 'id) multi \<Rightarrow> bool" where
  "mu_aux E fl m s \<longleftrightarrow> mu_foreign s = fl \<and> hm_wf (mu_adjacency s) \<and>
     (\<forall>l adj. map_of (mu_adjacency s) l = Some adj \<longrightarrow> adj_ok adj \<and> anchored (l \<in> set fl) (dom m) (adj_rel adj)) \<and>
     multi_files_ok E (mu_graph s) (mu_files s)"

lemma mu_put_simps [simp]:
  "mu_graph (mu_put s i) = mu_graph s" "mu_inner (mu_put s i) = i" "mu_adjacency (mu_put s i) = mu_adjacency s"
  "mu_files (mu_put s i) = mu_files s" "mu_foreign (mu_put s i) = mu_foreign s" "is_foreign (mu_put s i) l = is_foreign s l"
  by (simp_all add: mu_graph_def mu_put_def is_foreign_def)

lemma anchored_mono: "anchored f D R \<Longrightarrow> D \<subseteq> D' \<Longrightarrow> anchored f D' R"
  unfolding anchored_def by (cases f) fastforce+

lemma mu_aux_put:
  assumes "mu_aux E fl m s" "dom m \<subseteq> dom m'"
  shows "mu_aux E fl m' (mu_put s i)"
  using assms(1) anchored_mono [OF _ assms(2)] unfolding mu_aux_def by simp

lemma mu_aux_foreign: "mu_aux E fl m s \<Longrightarrow> is_foreign s l \<longleftrightarrow> l \<in> set fl"
  by (simp add: mu_aux_def is_foreign_def)

lemma mu_auxD:
  assumes "mu_aux E fl m s"
  shows "hm_wf (mu_adjacency s)" and "multi_files_ok E (mu_graph s) (mu_files s)"
    and "map_of (mu_adjacency s) l = Some adj \<Longrightarrow> adj_ok adj"
    and "map_of (mu_adjacency s) l = Some adj \<Longrightarrow> anchored (l \<in> set fl) (dom m) (adj_rel adj)"
  using assms by (auto simp: mu_aux_def)

lemma graph_update:
  "mu_graph (s\<lparr>mu_files := files, mu_adjacency := AList.update l adj (mu_adjacency s)\<rparr>) = (mu_graph s)(l \<mapsto> adj_rel adj)"
  by (rule ext) (simp add: mu_graph_def update_conv')

text \<open>Replacing one label's adjacency, its files with it.\<close>

lemma mu_aux_update:
  assumes "mu_aux E fl m s" "adj_ok adj" "anchored (l \<in> set fl) (dom m) (adj_rel adj)"
    and "multi_files_ok E ((mu_graph s)(l \<mapsto> adj_rel adj)) files"
  shows "mu_aux E fl m (s\<lparr>mu_files := files, mu_adjacency := AList.update l adj (mu_adjacency s)\<rparr>)"
  using assms unfolding mu_aux_def graph_update by (simp add: update_conv' is_foreign_def)

lemma keys_update_known: "map_of xs k = Some v \<Longrightarrow> map fst (AList.update k w xs) = map fst xs"
  by (induction xs) (auto split: if_splits)

lemma adj_rel_empty [simp]: "adj_rel [] = {}"
  by (simp add: adj_rel_def)

definition unlinked :: "'id \<Rightarrow> ('id \<times> 'id) set \<Rightarrow> ('id \<times> 'id) set" where
  "unlinked k R = {(a, b) \<in> R. a \<noteq> k \<and> b \<noteq> k}"

lemma unlinked_idem [simp]: "unlinked k (unlinked k R) = unlinked k R"
  by (auto simp: unlinked_def)

lemma detach_under_ok:
  assumes ser: "multi_serial_ok E" and aux: "mu_aux E fl m s" and adj: "map_of (mu_adjacency s) l = Some adj"
  shows "\<exists>s'. mu_detach_under E s l k = (Inr (card {b. (k, b) \<in> adj_rel adj}), s') \<and> mu_aux E fl m s' \<and>
     mu_graph s' = (mu_graph s)(l \<mapsto> unlinked k (adj_rel adj)) \<and> mu_inner s' = mu_inner s \<and>
     mu_foreign s' = mu_foreign s \<and> map fst (mu_adjacency s') = map fst (mu_adjacency s)"
proof (cases "map_of adj k")
  case None
  have ok: "adj_ok adj" by (rule mu_auxD(3) [OF aux adj])
  have "{b. (k, b) \<in> adj_rel adj} = {}" using None by (simp add: adj_rel_def bucket_def)
  moreover have "unlinked k (adj_rel adj) = adj_rel adj" unfolding unlinked_def by (rule unlink_absent [OF ok None])
  moreover have "(mu_graph s)(l \<mapsto> adj_rel adj) = mu_graph s" using adj by (auto simp: mu_graph_def)
  ultimately show ?thesis using None aux adj by (intro exI [of _ s]) (simp add: mu_detach_under_def)
next
  case (Some ns)
  have ok: "adj_ok adj" by (rule mu_auxD(3) [OF aux adj])
  have "mu_graph s l = Some (adj_rel adj)" using adj by (simp add: mu_graph_def)
  from on_label_unlink [OF ser mu_auxD(2) [OF aux] this, of k] obtain files where
    f: "on_label l (ef_unlink (me_edges E) k) (mu_files s) = Ok files"
      "multi_files_ok E ((mu_graph s)(l \<mapsto> unlinked k (adj_rel adj))) files" by (auto simp: unlinked_def)
  let ?d = "drop_edges_of adj k"
  let ?s = "s\<lparr>mu_files := files, mu_adjacency := AList.update l (fst ?d) (mu_adjacency s)\<rparr>"
  note d = drop_edges_of_rel [OF ok, of k, folded unlinked_def]
  have "anchored (l \<in> set fl) (dom m) (unlinked k (adj_rel adj))"
    using mu_auxD(4) [OF aux adj] by (auto simp: anchored_def unlinked_def)
  with f(2) d(1,2) have "mu_aux E fl m ?s" by (intro mu_aux_update [OF aux]) simp_all
  moreover have "mu_detach_under E s l k = (Inr (card {b. (k, b) \<in> adj_rel adj}), ?s)"
    using Some adj f(1) d(3) by (simp add: mu_detach_under_def case_prod_unfold)
  ultimately show ?thesis using graph_update [where s = s and files = files and l = l and adj = "fst ?d"] d(1)
    by (intro exI [of _ ?s]) (simp add: keys_update_known [OF adj])
qed

lemma detach_all_ok:
  assumes ser: "multi_serial_ok E" and "mu_aux E fl m s" and "set ls \<subseteq> set (map fst (mu_adjacency s))"
  shows "\<exists>s'. detach_all E s ls k = (Inr (), s') \<and> mu_aux E fl m s' \<and> mu_inner s' = mu_inner s \<and> mu_foreign s' = mu_foreign s \<and>
     mu_graph s' = (\<lambda>l. if l \<in> set ls then map_option (unlinked k) (mu_graph s l) else mu_graph s l)"
  using assms(2,3)
proof (induction ls arbitrary: s)
  case Nil
  then show ?case by simp
next
  case (Cons l ls)
  from Cons.prems(2) have "l \<in> dom (map_of (mu_adjacency s))" by (simp add: dom_map_of_conv_image_fst)
  then obtain adj where adj: "map_of (mu_adjacency s) l = Some adj" by blast
  from detach_under_ok [OF ser Cons.prems(1) adj, of k] obtain n s1 where
    s1: "mu_detach_under E s l k = (Inr n, s1)" "mu_aux E fl m s1" "mu_graph s1 = (mu_graph s)(l \<mapsto> unlinked k (adj_rel adj))"
      "mu_inner s1 = mu_inner s" "mu_foreign s1 = mu_foreign s" "map fst (mu_adjacency s1) = map fst (mu_adjacency s)" by blast
  from Cons.prems(2) have "set ls \<subseteq> set (map fst (mu_adjacency s1))" unfolding s1(6) by simp
  from Cons.IH [OF s1(2) this] obtain s' where s': "detach_all E s1 ls k = (Inr (), s')" "mu_aux E fl m s'"
    "mu_inner s' = mu_inner s1" "mu_foreign s' = mu_foreign s1"
    "mu_graph s' = (\<lambda>j. if j \<in> set ls then map_option (unlinked k) (mu_graph s1 j) else mu_graph s1 j)" by blast
  have "mu_graph s l = Some (adj_rel adj)" using adj by (simp add: mu_graph_def)
  then have "mu_graph s' = (\<lambda>j. if j \<in> set (l # ls) then map_option (unlinked k) (mu_graph s j) else mu_graph s j)"
    unfolding s'(5) s1(3) by (auto simp: fun_eq_iff)
  with s1 s' show ?case by simp
qed

text \<open>Once every label has let go of an id, the edges stand without its record.\<close>

lemma mu_aux_forget:
  assumes "mu_aux E fl m s" "\<And>l R. mu_graph s l = Some R \<Longrightarrow> unlinked k R = R"
  shows "mu_aux E fl (m(k := None)) s"
proof -
  have "anchored (l \<in> set fl) (dom m - {k}) (adj_rel adj)" if "map_of (mu_adjacency s) l = Some adj" for l adj
  proof -
    from assms(2) [of l "adj_rel adj"] that have "unlinked k (adj_rel adj) = adj_rel adj" by (simp add: mu_graph_def)
    then have "(a, b) \<in> adj_rel adj \<Longrightarrow> a \<noteq> k \<and> b \<noteq> k" for a b by (auto simp: unlinked_def)
    with mu_auxD(4) [OF assms(1) that] show ?thesis by (auto simp: anchored_def split: if_splits)
  qed
  with assms(1) show ?thesis by (simp add: mu_aux_def)
qed

lemma compact_relations_ok:
  assumes ser: "multi_serial_ok E" and dur: "multi_durable E G F"
    and adjs: "\<forall>(l, adj) \<in> set adjs. adj_ok adj \<and> G l = Some (adj_rel adj)"
  shows "\<exists>n F'. compact_relations (me_edges E) adjs F = (Inr n, F') \<and> multi_durable E G F'"
  using dur adjs
proof (induction adjs arbitrary: F)
  case (Cons p adjs)
  obtain l adj where p: "p = (l, adj)" by (cases p)
  from Cons.prems(2) have adj: "adj_ok adj" "G l = Some (adj_rel adj)" by (simp_all add: p)
  have eser: "edge_serial_ok (me_edges E)" using ser by (simp add: multi_serial_ok_def)
  have "label_holds (me_edges E) (G l) (mf_edges F l)" using Cons.prems(1) unfolding multi_durable_def by blast
  with adj(2) have "edges_durable (me_edges E) (adj_rel adj) (mf_edges F l)" by simp
  from compact_durable(1) [OF this eser adj(1)] obtain folded f where
    f: "compact_edge_blob (me_edges E) adj (mf_edges F l) = Ok (folded, f)" "edges_durable (me_edges E) (adj_rel adj) f" by blast
  have "multi_durable E (G(l \<mapsto> adj_rel adj)) (put_edges l f F)"
    by (rule multi_durable_put [OF Cons.prems(1) _ f(2)]) (simp add: adj(2))
  moreover have "G(l \<mapsto> adj_rel adj) = G" using adj(2) by auto
  ultimately obtain n F' where "compact_relations (me_edges E) adjs (put_edges l f F) = (Inr n, F')" "multi_durable E G F'"
    using Cons.IH [of "put_edges l f F"] Cons.prems(2) by auto
  with f(1) show ?case by (simp add: p)
qed simp

locale multi_layer = record_store key okr Ops invar view
  for key :: "'r \<Rightarrow> 'id::linorder" and okr :: "'r \<Rightarrow> bool" and Ops :: "('s, 'id, 'r) store_ops"
    and invar :: "'s \<Rightarrow> bool" and view :: "'s \<Rightarrow> 'id \<rightharpoonup> 'r" +
  fixes E :: "'id multi_env"
    and fl :: "string list"
  assumes serial: "multi_serial_ok E"
begin

lemma delete_graph:
  assumes "mu_aux E fl m s" "op_delete Ops (mu_inner s) k = Some (Inr (), i)"
  shows "\<exists>s'. mu_delete E Ops s k = Some (Inr (), s') \<and> mu_inner s' = i \<and> mu_foreign s' = mu_foreign s \<and>
     mu_aux E fl (m(k := None)) s' \<and> mu_graph s' = (\<lambda>l. map_option (unlinked k) (mu_graph s l))"
proof -
  have aux: "mu_aux E fl m (mu_put s i)" by (rule mu_aux_put [OF assms(1)]) simp
  from detach_all_ok [OF serial aux, of "map fst (mu_adjacency s)" k] obtain s' where
    s': "detach_all E (mu_put s i) (map fst (mu_adjacency s)) k = (Inr (), s')" "mu_aux E fl m s'" "mu_inner s' = i"
      "mu_foreign s' = mu_foreign s"
      "mu_graph s' = (\<lambda>l. if l \<in> set (map fst (mu_adjacency s)) then map_option (unlinked k) (mu_graph s l) else mu_graph s l)"
    unfolding mu_put_simps by blast
  have "mu_graph s l = None" if "l \<notin> set (map fst (mu_adjacency s))" for l
    using that by (simp add: mu_graph_def map_of_eq_None_iff)
  then have graph: "mu_graph s' = (\<lambda>l. map_option (unlinked k) (mu_graph s l))"
    unfolding s'(5) by (auto simp: fun_eq_iff)
  have "mu_aux E fl (m(k := None)) s'"
    by (rule mu_aux_forget [OF s'(2)]) (auto simp: graph)
  with assms(2) s' graph show ?thesis by (intro exI [of _ s']) (simp add: mu_delete_def)
qed

end

sublocale multi_layer \<subseteq> mu: wrapping_layer key okr Ops invar view mu_inner "mu_aux E fl" "mu_ops E Ops"
proof unfold_locales
  fix t :: "('s, 'id) multi" and r old :: 'r and k :: 'id and m i rep e
  show "op_get (mu_ops E Ops) t k = op_get Ops (mu_inner t) k" by (simp add: mu_ops_def mu_get_def)
  have put: "mu_put t (mu_inner t) = t" by (simp add: mu_put_def)
  show "op_insert Ops (mu_inner t) r = Some (Inl e, mu_inner t) \<Longrightarrow> op_insert (mu_ops E Ops) t r = Some (Inl e, t)"
    by (simp add: mu_ops_def mu_insert_def put)
  show "op_replace Ops (mu_inner t) r = Some (Inl (RepNotFound (key r)), mu_inner t) \<Longrightarrow>
      op_replace (mu_ops E Ops) t r = Some (Inl (RepNotFound (key r)), t)"
    by (simp add: mu_ops_def mu_replace_def put)
  show "op_delete Ops (mu_inner t) k = Some (Inl (DelNotFound k), mu_inner t) \<Longrightarrow>
      op_delete (mu_ops E Ops) t k = Some (Inl (DelNotFound k), t)"
    by (simp add: mu_ops_def mu_delete_def put)
  show "mu_aux E fl m t \<Longrightarrow> m (key r) = None \<Longrightarrow> op_insert Ops (mu_inner t) r = Some (Inr (), i) \<Longrightarrow>
      \<exists>t'. op_insert (mu_ops E Ops) t r = Some (Inr (), t') \<and> mu_inner t' = i \<and> mu_aux E fl (m(key r \<mapsto> r)) t'"
    by (intro exI [of _ "mu_put t i"]) (auto simp: mu_ops_def mu_insert_def intro: mu_aux_put)
  show "mu_aux E fl m t \<Longrightarrow> m (key r) = Some old \<Longrightarrow> op_replace Ops (mu_inner t) r = Some (Inr (), i) \<Longrightarrow>
      \<exists>t'. op_replace (mu_ops E Ops) t r = Some (Inr (), t') \<and> mu_inner t' = i \<and> mu_aux E fl (m(key r \<mapsto> r)) t'"
    by (intro exI [of _ "mu_put t i"]) (auto simp: mu_ops_def mu_replace_def intro: mu_aux_put)
  show "mu_aux E fl m t \<Longrightarrow> op_delete Ops (mu_inner t) k = Some (Inr (), i) \<Longrightarrow>
      \<exists>t'. op_delete (mu_ops E Ops) t k = Some (Inr (), t') \<and> mu_inner t' = i \<and> mu_aux E fl (m(k := None)) t'"
    using delete_graph [of m t k i] by (auto simp: mu_ops_def)
  assume aux: "mu_aux E fl m t" and c: "op_compact Ops (mu_inner t) = Some (Inr rep, i)"
  show "\<exists>rep' t'. op_compact (mu_ops E Ops) t = Some (Inr rep', t') \<and> mu_inner t' = i \<and> mu_aux E fl m t'"
  proof (cases "mu_files t")
    case None
    with aux c show ?thesis by (auto simp: mu_ops_def mu_compact_def intro: mu_aux_put)
  next
    case (Some F)
    have "\<forall>(l, adj) \<in> set (mu_adjacency t). adj_ok adj \<and> mu_graph t l = Some (adj_rel adj)"
      using mu_auxD(1,3) [OF aux] by (auto simp: mu_graph_def hm_wf_def map_of_eq_Some_iff)
    moreover have "multi_durable E (mu_graph t) F" using mu_auxD(2) [OF aux] Some by simp
    ultimately obtain n F' where F': "compact_relations (me_edges E) (mu_adjacency t) F = (Inr n, F')"
      "multi_durable E (mu_graph t) F'" using compact_relations_ok [OF serial] by blast
    let ?t = "(mu_put t i)\<lparr>mu_files := Some F'\<rparr>"
    have "mu_aux E fl m ?t" using aux F'(2) by (simp add: mu_aux_def mu_graph_def is_foreign_def)
    with c Some F'(1) show ?thesis by (simp add: mu_ops_def mu_compact_def)
  qed
qed

section \<open>Linking and detaching on graphs\<close>

definition graph_link :: "bool \<Rightarrow> ('id \<rightharpoonup> 'r) \<Rightarrow> 'id graph \<Rightarrow> string \<Rightarrow> 'id \<Rightarrow> 'id \<Rightarrow>
    ('id link_error + link_outcome) \<times> 'id graph" where
  "graph_link foreign m G l a b =
     (if \<not> valid_relation_label l then (Inl (InvalidLabel l), G)
      else if m a = None then (Inl (UnknownRecord a), G)
      else if \<not> foreign \<and> m b = None then (Inl (UnknownRecord b), G)
      else if a = b then (Inl (SelfLoop a), G)
      else (let R = (case G l of None \<Rightarrow> {} | Some R \<Rightarrow> R) in
            if (a, b) \<in> R then (Inr AlreadyLinked, G)
            else (Inr Linked, G(l \<mapsto> insert (b, a) (insert (a, b) R)))))"

definition graph_detach :: "'id graph \<Rightarrow> string \<Rightarrow> 'id \<Rightarrow> ('id delete_error + nat) \<times> 'id graph" where
  "graph_detach G l k =
     (case G l of
        None \<Rightarrow> (Inl (DelNotFound k), G)
      | Some R \<Rightarrow> (Inr (card {b. (k, b) \<in> R}), G(l \<mapsto> unlinked k R)))"

section \<open>Linking, detaching and reopening\<close>

context multi_layer
begin

lemma link_under:
  assumes aux: "mu_aux E fl m s" and adj: "map_of (mu_adjacency s) l = Some adj"
    and ends: "a \<in> dom m" "l \<in> set fl \<or> b \<in> dom m" "a \<noteq> b"
  shows "(a, b) \<in> adj_rel adj \<Longrightarrow> mu_link_under E s l adj a b = Some (Inr AlreadyLinked, s)"
    and "(a, b) \<notin> adj_rel adj \<Longrightarrow> \<exists>s'. mu_link_under E s l adj a b = Some (Inr Linked, s') \<and> mu_aux E fl m s' \<and>
      mu_inner s' = mu_inner s \<and> mu_foreign s' = mu_foreign s \<and>
      mu_graph s' = (mu_graph s)(l \<mapsto> insert (b, a) (insert (a, b) (adj_rel adj)))"
proof -
  show "(a, b) \<in> adj_rel adj \<Longrightarrow> mu_link_under E s l adj a b = Some (Inr AlreadyLinked, s)"
    by (simp add: mu_link_under_def has_edge_iff)
  assume new: "(a, b) \<notin> adj_rel adj"
  have "mu_graph s l = Some (adj_rel adj)" using adj by (simp add: mu_graph_def)
  from on_label_link [OF serial mu_auxD(2) [OF aux] this ends(3)] obtain files where
    f: "on_label l (ef_link (me_edges E) a b) (mu_files s) = Ok files"
      "multi_files_ok E ((mu_graph s)(l \<mapsto> insert (b, a) (insert (a, b) (adj_rel adj)))) files" by blast
  let ?s = "s\<lparr>mu_files := files, mu_adjacency := AList.update l (adj_link a b adj) (mu_adjacency s)\<rparr>"
  have "adj_ok (adj_link a b adj)" using mu_auxD(3) [OF aux adj] ends(3) new by (intro adj_ok_link) (simp_all add: has_edge_iff)
  moreover have "anchored (l \<in> set fl) (dom m) (insert (b, a) (insert (a, b) (adj_rel adj)))"
    using mu_auxD(4) [OF aux adj] ends by (auto simp: anchored_def)
  ultimately have "mu_aux E fl m ?s" using f(2) by (intro mu_aux_update [OF aux]) (simp_all add: adj_rel_link)
  moreover have "mu_link_under E s l adj a b = Some (Inr Linked, ?s)"
    using new f(1) by (simp add: mu_link_under_def has_edge_iff)
  moreover have "mu_graph ?s = (mu_graph s)(l \<mapsto> insert (b, a) (insert (a, b) (adj_rel adj)))"
    unfolding graph_update by (simp add: adj_rel_link)
  ultimately show "\<exists>s'. mu_link_under E s l adj a b = Some (Inr Linked, s') \<and> mu_aux E fl m s' \<and>
      mu_inner s' = mu_inner s \<and> mu_foreign s' = mu_foreign s \<and>
      mu_graph s' = (mu_graph s)(l \<mapsto> insert (b, a) (insert (a, b) (adj_rel adj)))"
    by (intro exI [of _ ?s]) simp
qed

text \<open>The first link under a label: its adjacency and its files first.\<close>

lemma new_label:
  assumes aux: "mu_aux E fl m s" and new: "map_of (mu_adjacency s) l = None"
  shows "\<exists>files. (case mu_files s of None \<Rightarrow> (Inr (), None) | Some F \<Rightarrow> map_prod id Some (create_label E l F)) = (Inr (), files) \<and>
     mu_aux E fl m (s\<lparr>mu_files := files, mu_adjacency := AList.update l [] (mu_adjacency s)\<rparr>)"
proof -
  have none: "mu_graph s l = None" using new by (simp add: mu_graph_def)
  have "\<exists>files. (case mu_files s of None \<Rightarrow> (Inr (), None) | Some F \<Rightarrow> map_prod id Some (create_label E l F)) = (Inr (), files) \<and>
     multi_files_ok E ((mu_graph s)(l \<mapsto> {})) files"
  proof (cases "mu_files s")
    case (Some F)
    with mu_auxD(2) [OF aux] have "multi_durable E (mu_graph s) F" by simp
    from create_label_ok [OF serial this none] Some show ?thesis by auto
  qed simp
  then obtain files where f: "(case mu_files s of None \<Rightarrow> (Inr (), None) | Some F \<Rightarrow> map_prod id Some (create_label E l F)) = (Inr (), files)"
    "multi_files_ok E ((mu_graph s)(l \<mapsto> {})) files" by blast
  have "mu_aux E fl m (s\<lparr>mu_files := files, mu_adjacency := AList.update l [] (mu_adjacency s)\<rparr>)"
    using f(2) by (intro mu_aux_update [OF aux]) (simp_all add: anchored_def)
  with f(1) show ?thesis by blast
qed

lemma link_refines:
  assumes inv: "mu.winvar s"
  shows "\<exists>s'. mu_link E Ops s l a b = Some (fst (graph_link (l \<in> set fl) (mu.wview s) (mu_graph s) l a b), s') \<and>
     mu.winvar s' \<and> mu.wview s' = mu.wview s \<and> mu_foreign s' = mu_foreign s \<and>
     mu_graph s' = snd (graph_link (l \<in> set fl) (mu.wview s) (mu_graph s) l a b)"
proof -
  note inner = mu.winvarD(1) [OF inv] and aux = mu.winvarD(2) [OF inv]
  note get = get_view [OF inner] and foreign = mu_aux_foreign [OF aux]
  let ?ends = "valid_relation_label l \<and> mu.wview s a \<noteq> None \<and> (is_foreign s l \<or> mu.wview s b \<noteq> None) \<and> a \<noteq> b"
  show ?thesis
  proof (cases ?ends)
    case False
    then show ?thesis using inv
      by (intro exI [of _ s]) (auto simp: mu_link_def graph_link_def get mu.wview_def foreign split: if_splits)
  next
    case True
    then have ends: "a \<in> dom (view (mu_inner s))" "l \<in> set fl \<or> b \<in> dom (view (mu_inner s))" "a \<noteq> b"
      by (auto simp: mu.wview_def foreign)
    have go: "mu_link E Ops s l a b =
       (case map_of (mu_adjacency s) l of
          Some adjacency \<Rightarrow> mu_link_under E s l adjacency a b
        | None \<Rightarrow>
            (case (case mu_files s of None \<Rightarrow> (Inr (), None) | Some F \<Rightarrow> map_prod id Some (create_label E l F)) of
               (Inl e, files) \<Rightarrow> Some (Inl (LinkDurability e), s\<lparr>mu_files := files\<rparr>)
             | (Inr _, files) \<Rightarrow>
                 mu_link_under E (s\<lparr>mu_files := files, mu_adjacency := AList.update l [] (mu_adjacency s)\<rparr>) l [] a b))"
      using True by (auto simp: mu_link_def get mu.wview_def)
    show ?thesis
    proof (cases "map_of (mu_adjacency s) l")
      case (Some adj)
      then have G: "mu_graph s l = Some (adj_rel adj)" by (simp add: mu_graph_def)
      from link_under [OF aux Some ends] inv True Some G inner show ?thesis
        by (cases "(a, b) \<in> adj_rel adj")
          (auto simp: go graph_link_def mu.winvar_def mu.wview_def foreign simp del: fun_upd_apply)
    next
      case None
      from new_label [OF aux None] obtain files where
        f: "(case mu_files s of None \<Rightarrow> (Inr (), None) | Some F \<Rightarrow> map_prod id Some (create_label E l F)) = (Inr (), files)"
        "mu_aux E fl (view (mu_inner s)) (s\<lparr>mu_files := files, mu_adjacency := AList.update l [] (mu_adjacency s)\<rparr>)" by blast
      let ?s = "s\<lparr>mu_files := files, mu_adjacency := AList.update l [] (mu_adjacency s)\<rparr>"
      have adj: "map_of (mu_adjacency ?s) l = Some []" by (simp add: update_conv')
      have G: "mu_graph s l = None" using None by (simp add: mu_graph_def)
      from link_under(2) [OF f(2) adj ends] obtain s' where
        "mu_link_under E ?s l [] a b = Some (Inr Linked, s')" "mu_aux E fl (view (mu_inner s)) s'" "mu_inner s' = mu_inner s"
        "mu_foreign s' = mu_foreign s" "mu_graph s' = (mu_graph ?s)(l \<mapsto> {(b, a), (a, b)})" by auto
      with True G inner f(1) None show ?thesis
        by (intro exI [of _ s'])
          (simp add: go graph_link_def mu.winvar_def mu.wview_def graph_update foreign)
    qed
  qed
qed

lemma detach_refines:
  assumes inv: "mu.winvar s"
  shows "\<exists>s'. mu_detach E s l k = Some (fst (graph_detach (mu_graph s) l k), s') \<and>
     mu.winvar s' \<and> mu.wview s' = mu.wview s \<and> mu_foreign s' = mu_foreign s \<and> mu_graph s' = snd (graph_detach (mu_graph s) l k)"
proof (cases "map_of (mu_adjacency s) l")
  case None
  with inv show ?thesis
    by (intro exI [of _ s]) (simp add: mu_detach_def mu_detach_under_def graph_detach_def mu_graph_def)
next
  case (Some adj)
  then have G: "mu_graph s l = Some (adj_rel adj)" by (simp add: mu_graph_def)
  from detach_under_ok [OF serial mu.winvarD(2) [OF inv] Some, of k] G mu.winvarD(1) [OF inv] show ?thesis
    by (auto simp: mu_detach_def graph_detach_def mu.winvar_def mu.wview_def simp del: fun_upd_apply)
qed

lemma delete_refines:
  assumes inv: "mu.winvar s" and k: "mu.wview s k \<noteq> None"
  shows "\<exists>s'. op_delete (mu_ops E Ops) s k = Some (Inr (), s') \<and> mu.winvar s' \<and> mu.wview s' = (mu.wview s)(k := None) \<and>
     mu_foreign s' = mu_foreign s \<and> mu_graph s' = (\<lambda>l. map_option (unlinked k) (mu_graph s l))"
proof -
  obtain i where i: "op_delete Ops (mu_inner s) k = Some (Inr (), i)" "invar i" "view i = (view (mu_inner s))(k := None)"
    using delete_known [OF mu.winvarD(1) [OF inv], of k] k by (auto simp: mu.wview_def)
  from delete_graph [OF mu.winvarD(2) [OF inv] i(1)] i(2,3) show ?thesis
    by (auto simp: mu_ops_def mu.wview_def mu.winvar_def)
qed

text \<open>The other operations leave the graph as it is.\<close>

lemma graph_kept:
  shows "op_insert (mu_ops E Ops) s r = Some (x, s') \<Longrightarrow> mu_graph s' = mu_graph s \<and> mu_foreign s' = mu_foreign s"
    and "op_replace (mu_ops E Ops) s r = Some (y, s') \<Longrightarrow> mu_graph s' = mu_graph s \<and> mu_foreign s' = mu_foreign s"
    and "op_compact (mu_ops E Ops) s = Some (z, s') \<Longrightarrow> mu_graph s' = mu_graph s \<and> mu_foreign s' = mu_foreign s"
  by (auto simp: mu_ops_def mu_insert_def mu_replace_def mu_compact_def forward_def through_def mu_put_def mu_graph_def
      split: option.splits sum.splits prod.splits)

text \<open>The reads.\<close>

lemma reads_graph:
  assumes inv: "mu.winvar s"
  shows "(case neighbors_by_relation s l k of
           None \<Rightarrow> mu_graph s l = None
         | Some ns \<Rightarrow> \<exists>R. mu_graph s l = Some R \<and> distinct ns \<and> set ns = {b. (k, b) \<in> R})"
    and "set (all_neighbors s k) = {b. \<exists>l R. mu_graph s l = Some R \<and> (k, b) \<in> R}"
    and "distinct (relation_kinds s) \<and> set (relation_kinds s) = dom (mu_graph s)"
proof -
  note aux = mu.winvarD(2) [OF inv]
  have wf: "hm_wf (mu_adjacency s)" by (rule mu_auxD(1) [OF aux])
  show "case neighbors_by_relation s l k of
           None \<Rightarrow> mu_graph s l = None
         | Some ns \<Rightarrow> \<exists>R. mu_graph s l = Some R \<and> distinct ns \<and> set ns = {b. (k, b) \<in> R}"
  proof (cases "map_of (mu_adjacency s) l")
    case (Some adj)
    with mu_auxD(3) [OF aux Some] show ?thesis
      by (simp add: neighbors_by_relation_def mu_graph_def adj_ok_def) (simp add: adj_rel_def)
  qed (simp add: neighbors_by_relation_def mu_graph_def)
  show "set (all_neighbors s k) = {b. \<exists>l R. mu_graph s l = Some R \<and> (k, b) \<in> R}"
    using wf by (auto simp: all_neighbors_def mu_graph_def adj_rel_def hm_wf_def map_of_eq_Some_iff)
  show "distinct (relation_kinds s) \<and> set (relation_kinds s) = dom (mu_graph s)"
    using wf by (auto simp: relation_kinds_def hm_wf_def mu_graph_def map_of_eq_Some_iff image_iff) force
qed

lemma edge_count_graph:
  assumes inv: "mu.winvar s"
  shows "edge_count s l = map_option (\<lambda>R. card {(a, b) \<in> R. a < b}) (mu_graph s l)"
proof (cases "map_of (mu_adjacency s) l")
  case (Some adj)
  have ok: "adj_ok adj" by (rule mu_auxD(3) [OF mu.winvarD(2) [OF inv] Some])
  then have d: "finite (adj_rel adj)" "sum_list (map (\<lambda>(_, ns). length ns) adj) = card (adj_rel adj)"
    using degree_sum [of adj] by (simp_all add: adj_ok_def)
  have "card (adj_rel adj) = 2 * card {(a, b) \<in> adj_rel adj. a < b}"
    using ok d(1) by (intro card_sym_irrefl) (simp_all add: adj_ok_def)
  with Some d(2) show ?thesis by (simp add: edge_count_def mu_graph_def)
qed (simp add: edge_count_def mu_graph_def)

end

section \<open>Building the layer\<close>

lemma map_of_map_snd:
  "map_of (map (\<lambda>(label, edges). (label, f edges)) xs) k = map_option f (map_of xs k)"
  by (induction xs) auto

lemma mu_new_graph:
  assumes "rels_ok rels"
  shows "mu_graph (mu_new inner rels) = rels_graph rels"
    and "map_of (mu_adjacency (mu_new inner rels)) l = Some adj \<Longrightarrow> adj_ok adj"
proof -
  have keys: "distinct (map fst (map (\<lambda>(label, edges). (label, adj_of_edges edges)) rels))"
    using assms by (simp add: rels_ok_def comp_def case_prod_unfold)
  have adjs: "mu_adjacency (mu_new inner rels) = map (\<lambda>(label, edges). (label, adj_of_edges edges)) rels"
    unfolding mu_new_def using hm_collect_distinct [OF keys] by simp
  have ok: "edges_ok es" if "map_of rels k = Some es" for k es
    using assms map_of_SomeD [OF that] by (auto simp: rels_ok_def)
  show "map_of (mu_adjacency (mu_new inner rels)) l = Some adj \<Longrightarrow> adj_ok adj"
    unfolding adjs map_of_map_snd using ok adj_of_edges_ok(1) by auto
  show "mu_graph (mu_new inner rels) = rels_graph rels"
  proof
    fix k
    show "mu_graph (mu_new inner rels) k = rels_graph rels k"
      unfolding mu_graph_def adjs map_of_map_snd rels_graph_def using adj_of_edges_ok(2) ok by (cases "map_of rels k") auto
  qed
qed

text \<open>Every edge of the graph has its ends where the foreign labels \<open>ls\<close> say.\<close>

definition graph_anchored :: "string list \<Rightarrow> 'id set \<Rightarrow> 'id graph \<Rightarrow> bool" where
  "graph_anchored ls D G \<longleftrightarrow> (\<forall>l R. G l = Some R \<longrightarrow> anchored (l \<in> set ls) D R)"

lemma mu_aux_build:
  assumes "rels_ok rels" "graph_anchored ls (dom m) (rels_graph rels)" "multi_durable E (rels_graph rels) F"
  shows "mu_aux E ls m (with_foreign_labels (mu_with_path (mu_new inner rels) F) ls)"
proof -
  let ?s = "with_foreign_labels (mu_with_path (mu_new inner rels) F) ls"
  have s: "mu_foreign ?s = ls" "mu_adjacency ?s = mu_adjacency (mu_new inner rels)" "mu_files ?s = Some F"
    by (simp_all add: with_foreign_labels_def mu_with_path_def)
  have graph: "mu_graph ?s = rels_graph rels"
    unfolding mu_new_graph(1) [OF assms(1), of inner, symmetric] by (simp add: mu_graph_def s(2))
  have "anchored (l \<in> set ls) (dom m) (adj_rel adj)" if "map_of (mu_adjacency (mu_new inner rels)) l = Some adj" for l adj
  proof -
    from that mu_new_graph(1) [OF assms(1), of inner] have "rels_graph rels l = Some (adj_rel adj)"
      by (simp add: mu_graph_def fun_eq_iff) (metis option.simps(9))
    with assms(2) show ?thesis unfolding graph_anchored_def by blast
  qed
  with assms(3) mu_new_graph(2) [OF assms(1), of inner] show ?thesis
    unfolding mu_aux_def s graph by (simp add: mu_new_def)
qed

context multi_layer
begin

lemma winvar_anchored:
  assumes "mu.winvar s"
  shows "graph_anchored fl (dom (mu.wview s)) (mu_graph s)"
  using mu_auxD(4) [OF mu.winvarD(2) [OF assms]] mu_aux_foreign [OF mu.winvarD(2) [OF assms]]
  by (auto simp: graph_anchored_def mu_graph_def mu.wview_def)

lemma mu_create_ok:
  assumes "invar inner" "rels_ok rels" "graph_anchored fl (dom (view inner)) (rels_graph rels)"
    and "\<And>l. l \<notin> set (map fst rels) \<Longrightarrow> ef_log (mf_edges F l) = None"
  shows "\<exists>s. mu_create E inner rels F = Ok s \<and> mu.winvar (with_foreign_labels s fl) \<and>
     mu.wview (with_foreign_labels s fl) = view inner \<and> mu_graph (with_foreign_labels s fl) = rels_graph rels"
proof -
  from multi_create_durable [OF serial assms(2,4)] obtain F' where
    F': "multi_create E rels F = Ok F'" "multi_durable E (rels_graph rels) F'" by blast
  let ?s = "mu_with_path (mu_new inner rels) F'"
  have inn: "mu_inner (with_foreign_labels ?s fl) = inner" by (simp add: with_foreign_labels_def mu_with_path_def mu_new_def)
  have "mu_graph (with_foreign_labels ?s fl) = mu_graph (mu_new inner rels)"
    by (simp add: mu_graph_def with_foreign_labels_def mu_with_path_def)
  moreover have "mu.winvar (with_foreign_labels ?s fl)"
    using mu_aux_build [OF assms(2,3) F'(2), of inner] assms(1) inn by (simp add: mu.winvar_def)
  ultimately show ?thesis using F'(1) inn mu_new_graph(1) [OF assms(2)]
    by (intro exI [of _ ?s]) (simp add: mu_create_def mu.wview_def)
qed

lemma mu_reopen:
  assumes dur: "multi_durable E G F" and apart: "multi_apart E F"
    and labels: "distinct labels" "set labels \<subseteq> dom G"
    and inner: "invar inner" "graph_anchored fl (dom (view inner)) G"
  shows "\<exists>s. mu_open_portable E inner labels F = Ok s \<and> mu.winvar (with_foreign_labels s fl) \<and>
     mu.wview (with_foreign_labels s fl) = view inner \<and> mu_graph (with_foreign_labels s fl) = G"
proof -
  from multi_reopen [OF serial dur apart labels] obtain rels all F' where
    r: "multi_read E labels F = Ok rels" "multi_open E rels F = Ok (all, F')" "rels_ok all" "rels_graph all = G"
      "multi_durable E G F'" by blast
  let ?s = "mu_with_path (mu_new inner all) F'"
  have inn: "mu_inner (with_foreign_labels ?s fl) = inner" by (simp add: with_foreign_labels_def mu_with_path_def mu_new_def)
  have "mu_graph (with_foreign_labels ?s fl) = mu_graph (mu_new inner all)"
    by (simp add: mu_graph_def with_foreign_labels_def mu_with_path_def)
  moreover have "mu.winvar (with_foreign_labels ?s fl)"
    using mu_aux_build [OF r(3), of fl "view inner" E F' inner] inner r(4,5) inn by (simp add: mu.winvar_def)
  ultimately show ?thesis using r(1,2,4) inn mu_new_graph(1) [OF r(3)]
    by (intro exI [of _ ?s]) (simp add: mu_open_portable_def mu_open_def mu.wview_def)
qed

end

locale multi_listed = multi_layer key okr Ops invar view E fl + listed_store key okr Ops invar view all_ids
  for key :: "'r \<Rightarrow> 'id::linorder" and okr :: "'r \<Rightarrow> bool" and Ops :: "('s, 'id, 'r) store_ops"
    and invar :: "'s \<Rightarrow> bool" and view :: "'s \<Rightarrow> 'id \<rightharpoonup> 'r" and E :: "'id multi_env"
    and fl :: "string list" and all_ids :: "'s \<Rightarrow> 'id list"

sublocale multi_listed \<subseteq> mu: listed_store key okr "mu_ops E Ops" mu.winvar mu.wview "mu_all_ids all_ids"
  using all_ids_view by unfold_locales (auto simp: mu_all_ids_def mu.wview_def dest!: mu.winvarD(1))

locale multi_updatable = multi_layer key okr Ops invar view E fl +
    updatable_store key okr Ops invar view okv setv update
  for key :: "'r \<Rightarrow> 'id::linorder" and okr :: "'r \<Rightarrow> bool" and Ops :: "('s, 'id, 'r) store_ops"
    and invar :: "'s \<Rightarrow> bool" and view :: "'s \<Rightarrow> 'id \<rightharpoonup> 'r" and E :: "'id multi_env"
    and fl :: "string list" and okv :: "'v \<Rightarrow> bool" and setv :: "'r \<Rightarrow> 'v \<Rightarrow> 'r option"
    and update :: "'s \<Rightarrow> 'id \<Rightarrow> 'v \<Rightarrow> ('id not_found, unit, 's) outcome"

sublocale multi_updatable \<subseteq> mu: wrapping_updatable key okr Ops invar view mu_inner "mu_aux E fl" "mu_ops E Ops"
  okv setv update "mu_update update"
proof unfold_locales
  fix t :: "('s, 'id) multi" and k :: 'id and v :: 'v and m r r' i
  show "update (mu_inner t) k v = Some (Inl (NotFound k), mu_inner t) \<Longrightarrow> mu_update update t k v = Some (Inl (NotFound k), t)"
    by (simp add: mu_update_def mu_put_def)
  assume "mu_aux E fl m t" "m k = Some r" "update (mu_inner t) k v = Some (Inr (), i)"
  then show "\<exists>t'. mu_update update t k v = Some (Inr (), t') \<and> mu_inner t' = i \<and> mu_aux E fl (m(k \<mapsto> r')) t'"
    by (intro exI [of _ "mu_put t i"]) (auto simp: mu_update_def intro: mu_aux_put)
qed

end
