(* ===== verification/Layer_Ordered.thy ===== *)
theory Layer_Ordered
  imports Layer_Spec "HOL-Library.Product_Lexorder"
begin

text \<open>
  \<open>Ordered\<close> of \<open>src/generic/store.rs\<close>: keyset pages in the order of a field, over any inner store.
  The \<open>BTreeSet\<close> of \<open>(key, id)\<close> pairs is a set, iterated in the lexicographic order of pairs;
  \<open>okey\<close> gives the order key (an \<open>i64\<close> is compared as a signed number, so its key is its \<open>sint\<close>).
\<close>

section \<open>Operations\<close>

record ('s, 'ord, 'id) ordered =
  od_inner :: 's
  od_index :: "('ord \<times> 'id) set"

fun od_collect :: "('r \<Rightarrow> 'ord) \<Rightarrow> ('s, 'id, 'r) store_ops \<Rightarrow> 's \<Rightarrow> 'id list \<Rightarrow> ('ord \<times> 'id) set option" where
  "od_collect okey Ops s [] = Some {}"
| "od_collect okey Ops s (k # ks) =
     (case op_get Ops s k of
        None \<Rightarrow> None
      | Some None \<Rightarrow> od_collect okey Ops s ks
      | Some (Some r) \<Rightarrow> map_option (insert (okey r, k)) (od_collect okey Ops s ks))"

definition od_new :: "('r \<Rightarrow> 'ord) \<Rightarrow> ('s, 'id, 'r) store_ops \<Rightarrow> ('s \<Rightarrow> 'id list) \<Rightarrow> 's \<Rightarrow> ('s, 'ord, 'id) ordered option" where
  "od_new okey Ops all_ids inner =
     map_option (\<lambda>ix. \<lparr>od_inner = inner, od_index = ix\<rparr>) (od_collect okey Ops inner (all_ids inner))"

definition od_put :: "('s, 'ord, 'id) ordered \<Rightarrow> 's \<Rightarrow> ('s, 'ord, 'id) ordered" where
  "od_put s i = s\<lparr>od_inner := i\<rparr>"

definition od_page_by :: "('s, 'ord::linorder, 'id::linorder) ordered \<Rightarrow> ('ord \<times> 'id) option \<Rightarrow> nat \<Rightarrow> 'id list" where
  "od_page_by s after limit =
     (let ids = sorted_list_of_set (od_index s) in
      map snd (take limit (case after of None \<Rightarrow> ids | Some cursor \<Rightarrow> filter (\<lambda>p. cursor < p) ids)))"

definition od_insert :: "('r \<Rightarrow> 'id) \<Rightarrow> ('r \<Rightarrow> 'ord) \<Rightarrow> ('s, 'id, 'r) store_ops \<Rightarrow> ('s, 'ord, 'id) ordered \<Rightarrow> 'r \<Rightarrow>
    ('id insert_error, unit, ('s, 'ord, 'id) ordered) outcome" where
  "od_insert key okey Ops s r =
     through (op_insert Ops (od_inner s) r) (od_put s) (\<lambda>_ s.
       Some (Inr (), s\<lparr>od_index := insert (okey r, key r) (od_index s)\<rparr>))"

definition od_replace :: "('r \<Rightarrow> 'id) \<Rightarrow> ('r \<Rightarrow> 'ord) \<Rightarrow> ('s, 'id, 'r) store_ops \<Rightarrow> ('s, 'ord, 'id) ordered \<Rightarrow> 'r \<Rightarrow>
    ('id replace_error, unit, ('s, 'ord, 'id) ordered) outcome" where
  "od_replace key okey Ops s r =
     (case op_get Ops (od_inner s) (key r) of
        None \<Rightarrow> None
      | Some None \<Rightarrow> Some (Inl (RepNotFound (key r)), s)
      | Some (Some old) \<Rightarrow>
          through (op_replace Ops (od_inner s) r) (od_put s) (\<lambda>_ s.
            Some (Inr (), s\<lparr>od_index := insert (okey r, key r) (od_index s - {(okey old, key r)})\<rparr>)))"

definition od_delete :: "('r \<Rightarrow> 'ord) \<Rightarrow> ('s, 'id, 'r) store_ops \<Rightarrow> ('s, 'ord, 'id) ordered \<Rightarrow> 'id \<Rightarrow>
    ('id delete_error, unit, ('s, 'ord, 'id) ordered) outcome" where
  "od_delete okey Ops s k =
     (case op_get Ops (od_inner s) k of
        None \<Rightarrow> None
      | Some None \<Rightarrow> Some (Inl (DelNotFound k), s)
      | Some (Some old) \<Rightarrow>
          through (op_delete Ops (od_inner s) k) (od_put s) (\<lambda>_ s.
            Some (Inr (), s\<lparr>od_index := od_index s - {(okey old, k)}\<rparr>)))"

text \<open>\<open>re_key\<close>: the updated field is the order field (the two markers are the same type).\<close>

definition od_update :: "bool \<Rightarrow> ('r \<Rightarrow> 'ord) \<Rightarrow> ('s, 'id, 'r) store_ops \<Rightarrow>
    ('s \<Rightarrow> 'id \<Rightarrow> 'v \<Rightarrow> ('id not_found, unit, 's) outcome) \<Rightarrow> ('s, 'ord, 'id) ordered \<Rightarrow> 'id \<Rightarrow> 'v \<Rightarrow>
    ('id not_found, unit, ('s, 'ord, 'id) ordered) outcome" where
  "od_update re_key okey Ops update s k v =
     (case (if re_key then op_get Ops (od_inner s) k else Some None) of
        None \<Rightarrow> None
      | Some old \<Rightarrow>
          through (update (od_inner s) k v) (od_put s) (\<lambda>_ s.
            case old of
              None \<Rightarrow> Some (Inr (), s)
            | Some old \<Rightarrow>
                (let s = s\<lparr>od_index := od_index s - {(okey old, k)}\<rparr> in
                 case op_get Ops (od_inner s) k of
                   None \<Rightarrow> None
                 | Some None \<Rightarrow> Some (Inr (), s)
                 | Some (Some new) \<Rightarrow> Some (Inr (), s\<lparr>od_index := insert (okey new, k) (od_index s)\<rparr>))))"

definition od_get :: "('s, 'id, 'r) store_ops \<Rightarrow> ('s, 'ord, 'id) ordered \<Rightarrow> 'id \<Rightarrow> 'r option option" where
  "od_get Ops s k = op_get Ops (od_inner s) k"

definition od_all_ids :: "('s \<Rightarrow> 'id list) \<Rightarrow> ('s, 'ord, 'id) ordered \<Rightarrow> 'id list" where
  "od_all_ids all_ids s = all_ids (od_inner s)"

definition od_compact :: "('s, 'id, 'r) store_ops \<Rightarrow> ('s, 'ord, 'id) ordered \<Rightarrow>
    (durability_error, compaction_report, ('s, 'ord, 'id) ordered) outcome" where
  "od_compact Ops s = forward (op_compact Ops (od_inner s)) (od_put s)"

definition od_ops :: "('r \<Rightarrow> 'id) \<Rightarrow> ('r \<Rightarrow> 'ord) \<Rightarrow> ('s, 'id, 'r) store_ops \<Rightarrow>
    (('s, 'ord, 'id) ordered, 'id, 'r) store_ops" where
  "od_ops key okey Ops = \<lparr>op_get = od_get Ops, op_insert = od_insert key okey Ops,
     op_replace = od_replace key okey Ops, op_delete = od_delete okey Ops, op_compact = od_compact Ops\<rparr>"

section \<open>The index is the records' keys\<close>

definition order_pairs :: "('r \<Rightarrow> 'ord) \<Rightarrow> ('id \<rightharpoonup> 'r) \<Rightarrow> ('ord \<times> 'id) set" where
  "order_pairs okey m = {(x, k). \<exists>r. m k = Some r \<and> x = okey r}"

definition od_aux :: "('r \<Rightarrow> 'ord) \<Rightarrow> ('id \<rightharpoonup> 'r) \<Rightarrow> ('s, 'ord, 'id) ordered \<Rightarrow> bool" where
  "od_aux okey m s \<longleftrightarrow> od_index s = order_pairs okey m"

lemma order_pairs_finite: "finite (dom m) \<Longrightarrow> finite (order_pairs okey m)"
proof -
  assume "finite (dom m)"
  then have "finite ((\<lambda>k. (okey (the (m k)), k)) ` dom m)" by simp
  moreover have "order_pairs okey m = (\<lambda>k. (okey (the (m k)), k)) ` dom m"
    by (auto simp: order_pairs_def image_def)
  ultimately show ?thesis by simp
qed

lemma order_pairs_insert: "m k = None \<Longrightarrow> order_pairs okey (m(k \<mapsto> r)) = insert (okey r, k) (order_pairs okey m)"
  by (auto simp: order_pairs_def)

lemma order_pairs_delete: "m k = Some old \<Longrightarrow> order_pairs okey (m(k := None)) = order_pairs okey m - {(okey old, k)}"
  by (auto simp: order_pairs_def)

lemma order_pairs_replace:
  "m k = Some old \<Longrightarrow> order_pairs okey (m(k \<mapsto> r)) = insert (okey r, k) (order_pairs okey m - {(okey old, k)})"
  by (auto simp: order_pairs_def)

locale ordered_layer = record_store key okr Ops invar view
  for key :: "'r \<Rightarrow> 'id::linorder" and okr :: "'r \<Rightarrow> bool" and Ops :: "('s, 'id, 'r) store_ops"
    and invar :: "'s \<Rightarrow> bool" and view :: "'s \<Rightarrow> 'id \<rightharpoonup> 'r" +
  fixes okey :: "'r \<Rightarrow> 'ord::linorder"

sublocale ordered_layer \<subseteq> od: wrapping_layer key okr Ops invar view od_inner "od_aux okey" "od_ops key okey Ops"
proof unfold_locales
  fix t :: "('s, 'ord, 'id) ordered" and r old :: 'r and k :: 'id and m i rep e
  show "op_get (od_ops key okey Ops) t k = op_get Ops (od_inner t) k"
    by (simp add: od_ops_def od_get_def)
  show "op_insert Ops (od_inner t) r = Some (Inl e, od_inner t) \<Longrightarrow> op_insert (od_ops key okey Ops) t r = Some (Inl e, t)"
    by (simp add: od_ops_def od_insert_def od_put_def)
  show "op_get Ops (od_inner t) (key r) = Some None \<Longrightarrow>
      op_replace (od_ops key okey Ops) t r = Some (Inl (RepNotFound (key r)), t)"
    by (simp add: od_ops_def od_replace_def)
  show "op_get Ops (od_inner t) k = Some None \<Longrightarrow> op_delete (od_ops key okey Ops) t k = Some (Inl (DelNotFound k), t)"
    by (simp add: od_ops_def od_delete_def)
  show "od_aux okey m t \<Longrightarrow> op_compact Ops (od_inner t) = Some (Inr rep, i) \<Longrightarrow>
      \<exists>rep' t'. op_compact (od_ops key okey Ops) t = Some (Inr rep', t') \<and> od_inner t' = i \<and> od_aux okey m t'"
    by (simp add: od_ops_def od_compact_def od_put_def od_aux_def)
  show "od_aux okey m t \<Longrightarrow> m (key r) = None \<Longrightarrow> op_insert Ops (od_inner t) r = Some (Inr (), i) \<Longrightarrow>
      \<exists>t'. op_insert (od_ops key okey Ops) t r = Some (Inr (), t') \<and> od_inner t' = i \<and> od_aux okey (m(key r \<mapsto> r)) t'"
    by (simp add: od_ops_def od_insert_def od_put_def od_aux_def order_pairs_insert)
  show "od_aux okey m t \<Longrightarrow> m k = Some old \<Longrightarrow> op_get Ops (od_inner t) k = Some (Some old) \<Longrightarrow>
      op_delete Ops (od_inner t) k = Some (Inr (), i) \<Longrightarrow>
      \<exists>t'. op_delete (od_ops key okey Ops) t k = Some (Inr (), t') \<and> od_inner t' = i \<and> od_aux okey (m(k := None)) t'"
    by (simp add: od_ops_def od_delete_def od_put_def od_aux_def order_pairs_delete)
  show "od_aux okey m t \<Longrightarrow> m (key r) = Some old \<Longrightarrow> op_get Ops (od_inner t) (key r) = Some (Some old) \<Longrightarrow>
      op_replace Ops (od_inner t) r = Some (Inr (), i) \<Longrightarrow>
      \<exists>t'. op_replace (od_ops key okey Ops) t r = Some (Inr (), t') \<and> od_inner t' = i \<and> od_aux okey (m(key r \<mapsto> r)) t'"
    by (simp add: od_ops_def od_replace_def od_put_def od_aux_def order_pairs_replace)
qed

locale ordered_updatable = ordered_layer key okr Ops invar view okey + updatable_store key okr Ops invar view okv setv update
  for key :: "'r \<Rightarrow> 'id::linorder" and okr :: "'r \<Rightarrow> bool" and Ops :: "('s, 'id, 'r) store_ops"
    and invar :: "'s \<Rightarrow> bool" and view :: "'s \<Rightarrow> 'id \<rightharpoonup> 'r" and okey :: "'r \<Rightarrow> 'ord::linorder"
    and okv :: "'v \<Rightarrow> bool" and setv :: "'r \<Rightarrow> 'v \<Rightarrow> 'r option"
    and update :: "'s \<Rightarrow> 'id \<Rightarrow> 'v \<Rightarrow> ('id not_found, unit, 's) outcome" +
  fixes re_key :: bool
  assumes setv_order: "\<not> re_key \<Longrightarrow> setv r v = Some r' \<Longrightarrow> okey r' = okey r"

sublocale ordered_updatable \<subseteq> od: wrapping_updatable key okr Ops invar view od_inner "od_aux okey" "od_ops key okey Ops"
  okv setv update "od_update re_key okey Ops update"
proof unfold_locales
  fix t :: "('s, 'ord, 'id) ordered" and k :: 'id and v :: 'v and m r r' i
  show "op_get Ops (od_inner t) k = Some None \<Longrightarrow> update (od_inner t) k v = Some (Inl (NotFound k), od_inner t) \<Longrightarrow>
      od_update re_key okey Ops update t k v = Some (Inl (NotFound k), t)"
    by (simp add: od_update_def od_put_def)
  assume aux: "od_aux okey m t" and r: "m k = Some r" "setv r v = Some r'"
    and got: "op_get Ops (od_inner t) k = Some (Some r)" "op_get Ops i k = Some (Some r')"
    and u: "update (od_inner t) k v = Some (Inr (), i)"
  show "\<exists>t'. od_update re_key okey Ops update t k v = Some (Inr (), t') \<and> od_inner t' = i \<and> od_aux okey (m(k \<mapsto> r')) t'"
  proof (cases re_key)
    case True
    with aux r(1) got u show ?thesis
      by (simp add: od_update_def od_put_def od_aux_def order_pairs_replace Let_def)
  next
    case False
    have "(okey r, k) \<in> order_pairs okey m" using r(1) by (auto simp: order_pairs_def)
    with aux r(1) u setv_order [OF False r(2)] False show ?thesis
      by (simp add: od_update_def od_put_def od_aux_def order_pairs_replace insert_absorb)
  qed
qed

locale ordered_listed = ordered_layer key okr Ops invar view okey + listed_store key okr Ops invar view all_ids
  for key :: "'r \<Rightarrow> 'id::linorder" and okr :: "'r \<Rightarrow> bool" and Ops :: "('s, 'id, 'r) store_ops"
    and invar :: "'s \<Rightarrow> bool" and view :: "'s \<Rightarrow> 'id \<rightharpoonup> 'r" and okey :: "'r \<Rightarrow> 'ord::linorder"
    and all_ids :: "'s \<Rightarrow> 'id list"

sublocale ordered_listed \<subseteq> od: listed_store key okr "od_ops key okey Ops" od.winvar od.wview "od_all_ids all_ids"
  using all_ids_view by unfold_locales (auto simp: od_all_ids_def od.wview_def dest!: od.winvarD(1))

context ordered_listed
begin

lemma collect_ok:
  "invar s \<Longrightarrow> set ks \<subseteq> dom (view s) \<Longrightarrow> od_collect okey Ops s ks = Some {(x, k). k \<in> set ks \<and> (\<exists>r. view s k = Some r \<and> x = okey r)}"
proof (induction ks)
  case (Cons k ks)
  then obtain r where "view s k = Some r" by auto
  with Cons get_view [of s k] show ?case by auto
qed simp

lemma od_new_ok:
  assumes "invar inner"
  shows "\<exists>s. od_new okey Ops all_ids inner = Some s \<and> od.winvar s \<and> od.wview s = view inner"
proof -
  note ids = all_ids_view [OF assms]
  have "od_collect okey Ops inner (all_ids inner) = Some (order_pairs okey (view inner))"
    using collect_ok [OF assms, of "all_ids inner"] ids by (auto simp: order_pairs_def)
  with assms show ?thesis by (simp add: od_new_def od.winvar_def od.wview_def od_aux_def)
qed

end

section \<open>Keyset pages\<close>

lemma filter_greater_sorted:
  fixes xs :: "'a::linorder list"
  assumes "sorted xs" "distinct xs" "xs = ys @ c # zs"
  shows "filter (\<lambda>p. c < p) xs = zs"
proof -
  have "\<forall>y \<in> set ys. \<not> c < y" "\<forall>z \<in> set zs. c < z"
    using assms by (auto simp: sorted_append less_le)
  then have "filter (\<lambda>p. c < p) ys = []" "filter (\<lambda>p. c < p) zs = zs" by simp_all
  then show ?thesis by (simp add: assms(3))
qed

text \<open>
  A client walks the pages by passing the last pair it saw as the cursor, and stops at an empty
  page. \<open>fuel\<close> bounds the number of pages; one more than there are records is always enough.
\<close>

fun od_walk :: "('s, 'ord::linorder, 'id::linorder) ordered \<Rightarrow> ('id \<Rightarrow> 'ord) \<Rightarrow> nat \<Rightarrow> nat \<Rightarrow> ('ord \<times> 'id) option \<Rightarrow> 'id list list" where
  "od_walk s key_of limit 0 after = []"
| "od_walk s key_of limit (Suc fuel) after =
     (let page = od_page_by s after limit in
      if page = [] then [] else page # od_walk s key_of limit fuel (Some (key_of (last page), last page)))"

lemma od_walk_concat:
  assumes "0 < limit" "length rest < fuel" "sorted_list_of_set (od_index s) = seen @ rest"
    "after = (if seen = [] then None else Some (last seen))" "\<And>p. p \<in> od_index s \<Longrightarrow> key_of (snd p) = fst p"
    "finite (od_index s)"
  shows "concat (od_walk s key_of limit fuel after) = map snd rest"
  using assms
proof (induction fuel arbitrary: seen rest after)
  case (Suc fuel)
  let ?ids = "sorted_list_of_set (od_index s)"
  have "(case after of None \<Rightarrow> ?ids | Some cursor \<Rightarrow> filter (\<lambda>p. cursor < p) ?ids) = rest"
  proof (cases "seen = []")
    case False
    then obtain ys where "seen = ys @ [last seen]" by (metis append_butlast_last_id)
    then have "?ids = ys @ last seen # rest" using Suc.prems(3) by (metis append.assoc append_Cons append_Nil)
    from filter_greater_sorted [OF _ _ this] False Suc.prems(4) show ?thesis by simp
  qed (use Suc.prems in simp)
  then have page: "od_page_by s after limit = map snd (take limit rest)" by (simp add: od_page_by_def)
  show ?case
  proof (cases "rest = []")
    case True
    with page show ?thesis by simp
  next
    case False
    then have ne: "take limit rest \<noteq> []" using Suc.prems(1) by simp
    have mem: "last (take limit rest) \<in> od_index s"
      using last_in_set [OF ne] set_take_subset [of limit rest] Suc.prems(3,6)
      by (metis Un_iff set_append set_sorted_list_of_set subsetD)
    have l: "last (map snd (take limit rest)) = snd (last (take limit rest))" by (rule last_map [OF ne])
    have "concat (od_walk s key_of limit fuel (Some (last (take limit rest)))) = map snd (drop limit rest)"
    proof (rule Suc.IH [where seen = "seen @ take limit rest"])
      show "length (drop limit rest) < fuel" using False Suc.prems(1,2) by (cases rest) auto
      show "sorted_list_of_set (od_index s) = (seen @ take limit rest) @ drop limit rest" using Suc.prems(3) by simp
      show "Some (last (take limit rest)) = (if seen @ take limit rest = [] then None else Some (last (seen @ take limit rest)))"
        using ne by simp
    qed (use Suc.prems in auto)
    moreover have "(key_of (last (map snd (take limit rest))), last (map snd (take limit rest))) = last (take limit rest)"
      using Suc.prems(5) [OF mem] by (simp add: l)
    ultimately show ?thesis
      using ne by (simp add: page Let_def) (metis append_take_drop_id map_append)
  qed
qed simp

context ordered_layer
begin

text \<open>Walking the pages visits every record once, in the order of key and id.\<close>

lemma walk_all:
  assumes inv: "od.winvar s" and "0 < limit" and fuel: "card (dom (od.wview s)) < fuel"
  shows "concat (od_walk s (\<lambda>k. okey (the (od.wview s k))) limit fuel None) =
      map snd (sorted_list_of_set (order_pairs okey (od.wview s)))"
    and "distinct (map snd (sorted_list_of_set (order_pairs okey (od.wview s))))"
    and "set (map snd (sorted_list_of_set (order_pairs okey (od.wview s)))) = dom (od.wview s)"
proof -
  let ?P = "order_pairs okey (od.wview s)"
  have ix: "od_index s = ?P" using od.winvarD(2) [OF inv] by (simp add: od_aux_def od.wview_def)
  note fin = order_pairs_finite [OF od.w.view_finite [OF inv], of okey]
  have dom: "snd ` ?P = dom (od.wview s)" by (force simp: order_pairs_def)
  moreover have inj: "inj_on snd ?P" by (auto simp: inj_on_def order_pairs_def)
  ultimately have "card ?P = card (dom (od.wview s))" by (metis card_image)
  then have "length (sorted_list_of_set ?P) < fuel" using fuel by simp
  moreover have "okey (the (od.wview s (snd p))) = fst p" if "p \<in> od_index s" for p
    using that ix by (auto simp: order_pairs_def)
  ultimately show "concat (od_walk s (\<lambda>k. okey (the (od.wview s k))) limit fuel None) = map snd (sorted_list_of_set ?P)"
    using od_walk_concat [of limit "sorted_list_of_set ?P" fuel s "[]" None] assms(2) ix fin by simp
  show "distinct (map snd (sorted_list_of_set ?P))" using fin inj by (simp add: distinct_map)
  show "set (map snd (sorted_list_of_set ?P)) = dom (od.wview s)" using fin dom by simp
qed

end

end
