(* ===== verification/Layer_Names.thy ===== *)
theory Layer_Names
  imports Layer_Spec
begin

text \<open>
  \<open>NameIndex\<close> of \<open>src/generic/store.rs\<close>: records by normalised name, over any inner store. A
  record's names (\<open>index_keys\<close>) are strings of ASCII characters here; \<open>split_whitespace\<close> and
  \<open>to_lowercase\<close> are the restrictions of the Unicode functions to them.
\<close>

section \<open>Normalisation\<close>

definition is_space :: "char \<Rightarrow> bool" where
  "is_space c = (let n = of_char c :: nat in (9 \<le> n \<and> n \<le> 13) \<or> n = 32)"

definition to_lower :: "char \<Rightarrow> char" where
  "to_lower c = (let n = of_char c :: nat in if 65 \<le> n \<and> n \<le> 90 then char_of (n + 32) else c)"

fun split_whitespace :: "string \<Rightarrow> string \<Rightarrow> string list" where
  "split_whitespace acc [] = (if acc = [] then [] else [rev acc])"
| "split_whitespace acc (c # cs) =
     (if is_space c then (if acc = [] then split_whitespace [] cs else rev acc # split_whitespace [] cs)
      else split_whitespace (c # acc) cs)"

fun join_space :: "string list \<Rightarrow> string" where
  "join_space [] = []"
| "join_space [w] = w"
| "join_space (w # ws) = w @ CHR '' '' # join_space ws"

definition normalize :: "string \<Rightarrow> string" where
  "normalize key = map to_lower (join_space (split_whitespace [] key))"

definition word_ok :: "string \<Rightarrow> bool" where
  "word_ok w \<longleftrightarrow> w \<noteq> [] \<and> (\<forall>c \<in> set w. \<not> is_space c)"

lemma split_words_ok: "\<forall>c \<in> set acc. \<not> is_space c \<Longrightarrow> \<forall>w \<in> set (split_whitespace acc cs). word_ok w"
proof (induction cs arbitrary: acc)
  case Nil
  then show ?case by (simp add: word_ok_def)
next
  case (Cons c cs)
  from Cons.IH [of "[]"] Cons.IH [of "c # acc"] Cons.prems show ?case by (simp add: word_ok_def)
qed

lemma is_space_blank [simp]: "is_space CHR '' ''"
  by (simp add: is_space_def)

lemma split_word: "\<forall>c \<in> set w. \<not> is_space c \<Longrightarrow> split_whitespace acc (w @ cs) = split_whitespace (rev w @ acc) cs"
  by (induction w arbitrary: acc) auto

lemma split_join: "\<forall>w \<in> set ws. word_ok w \<Longrightarrow> split_whitespace [] (join_space ws) = ws"
proof (induction ws rule: join_space.induct)
  case (2 w)
  with split_word [of w "[]" "[]"] show ?case by (simp add: word_ok_def)
next
  case (3 w v vs)
  with split_word [of w "[]" "CHR '' '' # join_space (v # vs)"] show ?case by (simp add: word_ok_def)
qed simp

lemma to_lower_code: "of_char (to_lower c) = (let n = of_char c :: nat in if 65 \<le> n \<and> n \<le> 90 then n + 32 else n)"
  by (auto simp: to_lower_def Let_def of_char_of)

lemma to_lower_idem [simp]: "to_lower (to_lower c) = to_lower c"
proof -
  have "(of_char (to_lower (to_lower c)) :: nat) = of_char (to_lower c)"
    by (simp add: to_lower_code Let_def)
  then show ?thesis by (simp only: of_char_eq_iff)
qed

lemma is_space_to_lower [simp]: "is_space (to_lower c) \<longleftrightarrow> is_space c"
  by (auto simp: is_space_def to_lower_code Let_def)

lemma map_lower_join: "map to_lower (join_space ws) = join_space (map (map to_lower) ws)"
  by (induction ws rule: join_space.induct) (simp_all add: to_lower_def)

lemma normalize_idem: "normalize (normalize s) = normalize s"
proof -
  let ?ws = "map (map to_lower) (split_whitespace [] s)"
  have "\<forall>w \<in> set ?ws. word_ok w" using split_words_ok [of "[]" s] by (auto simp: word_ok_def)
  from split_join [OF this] have "split_whitespace [] (normalize s) = ?ws"
    by (simp add: normalize_def map_lower_join)
  then show ?thesis by (simp add: normalize_def map_lower_join comp_def)
qed

section \<open>Operations\<close>

record ('s, 'id) name_index =
  nx_inner :: 's
  nx_index :: "string \<rightharpoonup> 'id list"

definition nx_file :: "'id \<Rightarrow> string list \<Rightarrow> (string \<rightharpoonup> 'id list) \<Rightarrow> (string \<rightharpoonup> 'id list)" where
  "nx_file k keys ix = foldl (\<lambda>ix key. bucket_push_new (normalize key) k ix) ix keys"

definition nx_unfile :: "'id \<Rightarrow> string list \<Rightarrow> (string \<rightharpoonup> 'id list) \<Rightarrow> (string \<rightharpoonup> 'id list)" where
  "nx_unfile k keys ix = foldl (\<lambda>ix key. bucket_drop key k ix) ix keys"

fun nx_build :: "('r \<Rightarrow> string list) \<Rightarrow> ('s, 'id, 'r) store_ops \<Rightarrow> 's \<Rightarrow> 'id list \<Rightarrow> (string \<rightharpoonup> 'id list) \<Rightarrow>
    (string \<rightharpoonup> 'id list) option" where
  "nx_build names Ops s [] ix = Some ix"
| "nx_build names Ops s (k # ks) ix =
     (case op_get Ops s k of
        None \<Rightarrow> None
      | Some None \<Rightarrow> nx_build names Ops s ks ix
      | Some (Some r) \<Rightarrow> nx_build names Ops s ks (nx_file k (names r) ix))"

definition nx_new :: "('r \<Rightarrow> string list) \<Rightarrow> ('s, 'id, 'r) store_ops \<Rightarrow> ('s \<Rightarrow> 'id list) \<Rightarrow> 's \<Rightarrow> ('s, 'id) name_index option" where
  "nx_new names Ops all_ids inner =
     map_option (\<lambda>ix. \<lparr>nx_inner = inner, nx_index = ix\<rparr>) (nx_build names Ops inner (all_ids inner) Map.empty)"

definition nx_put :: "('s, 'id) name_index \<Rightarrow> 's \<Rightarrow> ('s, 'id) name_index" where
  "nx_put s i = s\<lparr>nx_inner := i\<rparr>"

definition nx_find_by_name :: "('s, 'id) name_index \<Rightarrow> string \<Rightarrow> 'id list" where
  "nx_find_by_name s name = bucket (nx_index s) (normalize name)"

definition nx_insert :: "('r \<Rightarrow> 'id) \<Rightarrow> ('r \<Rightarrow> string list) \<Rightarrow> ('s, 'id, 'r) store_ops \<Rightarrow> ('s, 'id) name_index \<Rightarrow> 'r \<Rightarrow>
    ('id insert_error, unit, ('s, 'id) name_index) outcome" where
  "nx_insert key names Ops s r =
     through (op_insert Ops (nx_inner s) r) (nx_put s) (\<lambda>_ s.
       Some (Inr (), s\<lparr>nx_index := nx_file (key r) (names r) (nx_index s)\<rparr>))"

definition nx_delete :: "('r \<Rightarrow> string list) \<Rightarrow> ('s, 'id, 'r) store_ops \<Rightarrow> ('s, 'id) name_index \<Rightarrow> 'id \<Rightarrow>
    ('id delete_error, unit, ('s, 'id) name_index) outcome" where
  "nx_delete names Ops s k =
     (case op_get Ops (nx_inner s) k of
        None \<Rightarrow> None
      | Some None \<Rightarrow> Some (Inl (DelNotFound k), s)
      | Some (Some old) \<Rightarrow>
          through (op_delete Ops (nx_inner s) k) (nx_put s) (\<lambda>_ s.
            Some (Inr (), s\<lparr>nx_index := nx_unfile k (map normalize (names old)) (nx_index s)\<rparr>)))"

definition nx_replace :: "('r \<Rightarrow> 'id) \<Rightarrow> ('r \<Rightarrow> string list) \<Rightarrow> ('s, 'id, 'r) store_ops \<Rightarrow> ('s, 'id) name_index \<Rightarrow> 'r \<Rightarrow>
    ('id replace_error, unit, ('s, 'id) name_index) outcome" where
  "nx_replace key names Ops s r =
     (case op_get Ops (nx_inner s) (key r) of
        None \<Rightarrow> None
      | Some None \<Rightarrow> Some (Inl (RepNotFound (key r)), s)
      | Some (Some old) \<Rightarrow>
          through (op_replace Ops (nx_inner s) r) (nx_put s) (\<lambda>_ s.
            (let old_keys = map normalize (names old);
                 new_keys = map normalize (names r);
                 ix = nx_unfile (key r) (filter (\<lambda>k. k \<notin> set new_keys) old_keys) (nx_index s)
             in Some (Inr (), s\<lparr>nx_index := foldl (\<lambda>ix k. bucket_push_new k (key r) ix) ix new_keys\<rparr>))))"

definition nx_get :: "('s, 'id, 'r) store_ops \<Rightarrow> ('s, 'id) name_index \<Rightarrow> 'id \<Rightarrow> 'r option option" where
  "nx_get Ops s k = op_get Ops (nx_inner s) k"

definition nx_all_ids :: "('s \<Rightarrow> 'id list) \<Rightarrow> ('s, 'id) name_index \<Rightarrow> 'id list" where
  "nx_all_ids all_ids s = all_ids (nx_inner s)"

definition nx_update :: "('s \<Rightarrow> 'id \<Rightarrow> 'v \<Rightarrow> ('id not_found, unit, 's) outcome) \<Rightarrow> ('s, 'id) name_index \<Rightarrow> 'id \<Rightarrow> 'v \<Rightarrow>
    ('id not_found, unit, ('s, 'id) name_index) outcome" where
  "nx_update update s k v = forward (update (nx_inner s) k v) (nx_put s)"

definition nx_compact :: "('s, 'id, 'r) store_ops \<Rightarrow> ('s, 'id) name_index \<Rightarrow>
    (durability_error, compaction_report, ('s, 'id) name_index) outcome" where
  "nx_compact Ops s = forward (op_compact Ops (nx_inner s)) (nx_put s)"

definition nx_ops :: "('r \<Rightarrow> 'id) \<Rightarrow> ('r \<Rightarrow> string list) \<Rightarrow> ('s, 'id, 'r) store_ops \<Rightarrow>
    (('s, 'id) name_index, 'id, 'r) store_ops" where
  "nx_ops key names Ops = \<lparr>op_get = nx_get Ops, op_insert = nx_insert key names Ops,
     op_replace = nx_replace key names Ops, op_delete = nx_delete names Ops, op_compact = nx_compact Ops\<rparr>"

section \<open>The index follows the names\<close>

definition names_of :: "('r \<Rightarrow> string list) \<Rightarrow> 'r \<Rightarrow> string set" where
  "names_of names r = normalize ` set (names r)"

definition nx_aux :: "('r \<Rightarrow> string list) \<Rightarrow> ('id \<rightharpoonup> 'r) \<Rightarrow> ('s, 'id) name_index \<Rightarrow> bool" where
  "nx_aux names m s \<longleftrightarrow> no_empty_bucket (nx_index s) \<and> tracks (names_of names) m (nx_index s)"

lemma bucket_push_all:
  "bucket (foldl (\<lambda>ix k. bucket_push_new k i ix) ix ks) v =
     (if v \<in> set ks \<and> i \<notin> set (bucket ix v) then bucket ix v @ [i] else bucket ix v)"
  by (induction ks arbitrary: ix) (auto simp: bucket_simps)

lemma nx_file_push: "nx_file i ks ix = foldl (\<lambda>ix k. bucket_push_new k i ix) ix (map normalize ks)"
  unfolding nx_file_def by (induction ks arbitrary: ix) auto

lemma bucket_unfile:
  "bucket (nx_unfile i ks ix) v = (if v \<in> set ks then filter (\<lambda>j. j \<noteq> i) (bucket ix v) else bucket ix v)"
  unfolding nx_unfile_def by (induction ks arbitrary: ix) (auto simp: bucket_simps)

lemma no_empty_names [intro]:
  "no_empty_bucket ix \<Longrightarrow> no_empty_bucket (foldl (\<lambda>ix k. bucket_push_new k i ix) ix ks)"
  "no_empty_bucket ix \<Longrightarrow> no_empty_bucket (nx_unfile i ks ix)"
  unfolding nx_unfile_def by (induction ks arbitrary: ix) auto

lemma tracks_file:
  assumes "tracks (names_of names) m ix" "m k = None"
  shows "tracks (names_of names) (m(k \<mapsto> r)) (nx_file k (names r) ix)"
proof (rule tracks_insert [where m = m and k = k, OF assms])
  fix v
  have "k \<notin> set (bucket ix v)" using tracks_bucket(2) [OF assms(1), of v] assms(2) by simp
  then show "bucket (nx_file k (names r) ix) v = (if v \<in> names_of names r then bucket ix v @ [k] else bucket ix v)"
    by (simp add: nx_file_push bucket_push_all names_of_def)
qed

lemma tracks_unfile:
  assumes "tracks (names_of names) m ix" "m k = Some old"
  shows "tracks (names_of names) (m(k := None)) (nx_unfile k (map normalize (names old)) ix)"
  by (rule tracks_delete [where m = m and k = k, OF assms]) (simp add: bucket_unfile names_of_def)

lemma tracks_refile:
  assumes "tracks (names_of names) m ix" "m k = Some old"
  shows "tracks (names_of names) (m(k \<mapsto> r))
     (foldl (\<lambda>ix n. bucket_push_new n k ix)
        (nx_unfile k (filter (\<lambda>n. n \<notin> set (map normalize (names r))) (map normalize (names old))) ix) (map normalize (names r)))"
proof (rule tracks_replace [where m = m and k = k, OF assms])
  fix v
  have "k \<in> set (bucket ix v) \<longleftrightarrow> v \<in> names_of names old"
    using tracks_bucket(2) [OF assms(1), of v] assms(2) by simp
  then show "bucket (foldl (\<lambda>ix n. bucket_push_new n k ix)
        (nx_unfile k (filter (\<lambda>n. n \<notin> set (map normalize (names r))) (map normalize (names old))) ix) (map normalize (names r))) v =
      (if v \<in> names_of names r then (if v \<in> names_of names old then bucket ix v else bucket ix v @ [k])
       else if v \<in> names_of names old then filter (\<lambda>j. j \<noteq> k) (bucket ix v) else bucket ix v)"
    by (auto simp: bucket_push_all bucket_unfile names_of_def)
qed

locale named_layer = record_store key okr Ops invar view
  for key :: "'r \<Rightarrow> 'id" and okr :: "'r \<Rightarrow> bool" and Ops :: "('s, 'id, 'r) store_ops"
    and invar :: "'s \<Rightarrow> bool" and view :: "'s \<Rightarrow> 'id \<rightharpoonup> 'r" +
  fixes names :: "'r \<Rightarrow> string list"

sublocale named_layer \<subseteq> nx: wrapping_layer key okr Ops invar view nx_inner "nx_aux names" "nx_ops key names Ops"
proof unfold_locales
  fix t :: "('s, 'id) name_index" and r old :: 'r and k :: 'id and m i rep e
  show "op_get (nx_ops key names Ops) t k = op_get Ops (nx_inner t) k"
    by (simp add: nx_ops_def nx_get_def)
  show "op_insert Ops (nx_inner t) r = Some (Inl e, nx_inner t) \<Longrightarrow> op_insert (nx_ops key names Ops) t r = Some (Inl e, t)"
    by (simp add: nx_ops_def nx_insert_def nx_put_def)
  show "op_get Ops (nx_inner t) (key r) = Some None \<Longrightarrow>
      op_replace (nx_ops key names Ops) t r = Some (Inl (RepNotFound (key r)), t)"
    by (simp add: nx_ops_def nx_replace_def)
  show "op_get Ops (nx_inner t) k = Some None \<Longrightarrow> op_delete (nx_ops key names Ops) t k = Some (Inl (DelNotFound k), t)"
    by (simp add: nx_ops_def nx_delete_def)
  show "nx_aux names m t \<Longrightarrow> op_compact Ops (nx_inner t) = Some (Inr rep, i) \<Longrightarrow>
      \<exists>rep' t'. op_compact (nx_ops key names Ops) t = Some (Inr rep', t') \<and> nx_inner t' = i \<and> nx_aux names m t'"
    by (simp add: nx_ops_def nx_compact_def nx_put_def nx_aux_def)
  show "nx_aux names m t \<Longrightarrow> m (key r) = None \<Longrightarrow> op_insert Ops (nx_inner t) r = Some (Inr (), i) \<Longrightarrow>
      \<exists>t'. op_insert (nx_ops key names Ops) t r = Some (Inr (), t') \<and> nx_inner t' = i \<and> nx_aux names (m(key r \<mapsto> r)) t'"
    using tracks_file [of names m "nx_index t" "key r" r] no_empty_names(1) [of "nx_index t" "key r" "map normalize (names r)"]
    by (simp add: nx_ops_def nx_insert_def nx_put_def nx_aux_def nx_file_push del: fun_upd_apply)
  show "nx_aux names m t \<Longrightarrow> m k = Some old \<Longrightarrow> op_get Ops (nx_inner t) k = Some (Some old) \<Longrightarrow>
      op_delete Ops (nx_inner t) k = Some (Inr (), i) \<Longrightarrow>
      \<exists>t'. op_delete (nx_ops key names Ops) t k = Some (Inr (), t') \<and> nx_inner t' = i \<and> nx_aux names (m(k := None)) t'"
    using tracks_unfile [of names m "nx_index t" k old] no_empty_names(2) [of "nx_index t" k "map normalize (names old)"]
    by (simp add: nx_ops_def nx_delete_def nx_put_def nx_aux_def del: fun_upd_apply)
  show "nx_aux names m t \<Longrightarrow> m (key r) = Some old \<Longrightarrow> op_get Ops (nx_inner t) (key r) = Some (Some old) \<Longrightarrow>
      op_replace Ops (nx_inner t) r = Some (Inr (), i) \<Longrightarrow>
      \<exists>t'. op_replace (nx_ops key names Ops) t r = Some (Inr (), t') \<and> nx_inner t' = i \<and> nx_aux names (m(key r \<mapsto> r)) t'"
    using tracks_refile [of names m "nx_index t" "key r" old r]
    by (auto simp: nx_ops_def nx_replace_def nx_put_def nx_aux_def Let_def simp del: fun_upd_apply)
qed

locale named_listed = named_layer key okr Ops invar view names + listed_store key okr Ops invar view all_ids
  for key :: "'r \<Rightarrow> 'id" and okr :: "'r \<Rightarrow> bool" and Ops :: "('s, 'id, 'r) store_ops"
    and invar :: "'s \<Rightarrow> bool" and view :: "'s \<Rightarrow> 'id \<rightharpoonup> 'r" and names :: "'r \<Rightarrow> string list"
    and all_ids :: "'s \<Rightarrow> 'id list"

sublocale named_listed \<subseteq> nx: listed_store key okr "nx_ops key names Ops" nx.winvar nx.wview "nx_all_ids all_ids"
  using all_ids_view by unfold_locales (auto simp: nx_all_ids_def nx.wview_def dest!: nx.winvarD(1))

locale named_updatable = named_layer key okr Ops invar view names + updatable_store key okr Ops invar view okv setv update
  for key :: "'r \<Rightarrow> 'id" and okr :: "'r \<Rightarrow> bool" and Ops :: "('s, 'id, 'r) store_ops"
    and invar :: "'s \<Rightarrow> bool" and view :: "'s \<Rightarrow> 'id \<rightharpoonup> 'r" and names :: "'r \<Rightarrow> string list"
    and okv :: "'v \<Rightarrow> bool" and setv :: "'r \<Rightarrow> 'v \<Rightarrow> 'r option"
    and update :: "'s \<Rightarrow> 'id \<Rightarrow> 'v \<Rightarrow> ('id not_found, unit, 's) outcome" +
  assumes setv_names: "setv r v = Some r' \<Longrightarrow> names r' = names r"

sublocale named_updatable \<subseteq> nx: wrapping_updatable key okr Ops invar view nx_inner "nx_aux names" "nx_ops key names Ops"
  okv setv update "nx_update update"
proof unfold_locales
  fix t :: "('s, 'id) name_index" and k :: 'id and v :: 'v and m r r' i
  show "update (nx_inner t) k v = Some (Inl (NotFound k), nx_inner t) \<Longrightarrow> nx_update update t k v = Some (Inl (NotFound k), t)"
    by (simp add: nx_update_def nx_put_def)
  assume aux: "nx_aux names m t" and r: "m k = Some r" "setv r v = Some r'"
    and u: "update (nx_inner t) k v = Some (Inr (), i)"
  have "tracks (names_of names) (m(k \<mapsto> r')) (nx_index t)"
    using aux unfolding nx_aux_def by (elim conjE tracks_cong) (simp add: r(1) setv_names [OF r(2)] names_of_def)
  with aux u show "\<exists>t'. nx_update update t k v = Some (Inr (), t') \<and> nx_inner t' = i \<and> nx_aux names (m(k \<mapsto> r')) t'"
    by (simp add: nx_update_def nx_put_def nx_aux_def)
qed

context named_layer
begin

lemma find_by_name_view:
  assumes "nx.winvar s"
  shows "distinct (nx_find_by_name s name)"
    and "set (nx_find_by_name s name) = {k. \<exists>r. nx.wview s k = Some r \<and> normalize name \<in> names_of names r}"
  using nx.winvarD(2) [OF assms] by (auto simp: nx_aux_def nx_find_by_name_def nx.wview_def tracks_def)

end

context named_listed
begin

lemma build_ok:
  assumes "invar s"
  shows "distinct ks \<Longrightarrow> set ks \<subseteq> dom (view s) \<Longrightarrow> \<forall>k \<in> set ks. m k = None \<Longrightarrow>
     tracks (names_of names) m ix \<Longrightarrow> no_empty_bucket ix \<Longrightarrow>
     \<exists>ix'. nx_build names Ops s ks ix = Some ix' \<and> no_empty_bucket ix' \<and>
       tracks (names_of names) (m ++ (view s |` set ks)) ix'"
proof (induction ks arbitrary: m ix)
  case (Cons k ks)
  then obtain r where r: "view s k = Some r" by auto
  have tr: "tracks (names_of names) (m(k \<mapsto> r)) (nx_file k (names r) ix)"
    using Cons.prems by (intro tracks_file) auto
  have ne: "no_empty_bucket (nx_file k (names r) ix)" using Cons.prems(5) by (simp add: nx_file_push no_empty_names)
  have "distinct ks" "set ks \<subseteq> dom (view s)" "\<forall>j \<in> set ks. (m(k \<mapsto> r)) j = None"
    using Cons.prems(1-3) by auto
  from Cons.IH [OF this tr ne] obtain ix' where ix': "nx_build names Ops s ks (nx_file k (names r) ix) = Some ix'" "no_empty_bucket ix'"
    "tracks (names_of names) (m(k \<mapsto> r) ++ (view s |` set ks)) ix'"
    by blast
  have "m(k \<mapsto> r) ++ (view s |` set ks) = m ++ (view s |` set (k # ks))"
    using r Cons.prems(1) by (auto simp: fun_eq_iff map_add_def restrict_map_def split: option.splits)
  with ix' r get_view [OF assms, of k] show ?case by simp
qed simp

lemma nx_new_ok:
  assumes "invar inner"
  shows "\<exists>s. nx_new names Ops all_ids inner = Some s \<and> nx.winvar s \<and> nx.wview s = view inner"
proof -
  note ids = all_ids_view [OF assms]
  have "view inner |` dom (view inner) = view inner" by (simp add: fun_eq_iff restrict_map_def domIff)
  moreover have "tracks (names_of names) Map.empty (Map.empty :: string \<rightharpoonup> 'id list)" by (simp add: tracks_def)
  ultimately obtain ix where "nx_build names Ops inner (all_ids inner) Map.empty = Some ix" "no_empty_bucket ix"
    "tracks (names_of names) (view inner) ix"
    using build_ok [OF assms, of "all_ids inner" Map.empty Map.empty] ids by auto
  with assms show ?thesis by (simp add: nx_new_def nx.winvar_def nx.wview_def nx_aux_def)
qed

end

end
