(* ===== verification/Graph_Store.thy ===== *)
theory Graph_Store
  imports Layer_Multi Layer_Ordered Layer_Names
begin

text \<open>
  What the server's tables ask of a stack with relations: record operations, field updates, links
  and detaches, against the specification of a map from ids to records beside a graph. The
  contract is proved of \<open>MultiSymmetric\<close> and kept by the layers of \<open>src/generic/store.rs\<close> that forward
  \<open>MultiLink\<close>, \<open>MultiNeighbors\<close> and \<open>Detach\<close> above it.
\<close>

section \<open>The operations\<close>

record ('s, 'id, 'r, 'v) graph_ops =
  g_store :: "('s, 'id, 'r) store_ops"
  g_update :: "'s \<Rightarrow> 'id \<Rightarrow> 'v \<Rightarrow> ('id not_found, unit, 's) outcome"
  g_link :: "'s \<Rightarrow> string \<Rightarrow> 'id \<Rightarrow> 'id \<Rightarrow> ('id link_error, link_outcome, 's) outcome"
  g_detach :: "'s \<Rightarrow> string \<Rightarrow> 'id \<Rightarrow> ('id delete_error, nat, 's) outcome"

datatype ('id, 'r, 'v) g_op =
    GInsert 'r | GReplace 'r | GDelete 'id | GUpdate 'id 'v | GLink string 'id 'id | GDetach string 'id | GCompact

datatype 'id g_reply =
    RInsert "'id insert_error + unit"
  | RReplace "'id replace_error + unit"
  | RDelete "'id delete_error + unit"
  | RUpdate "'id not_found + unit"
  | RLink "'id link_error + link_outcome"
  | RDetach "'id delete_error + nat"
  | RCompact "durability_error + unit"

text \<open>One client call and its reply; \<open>None\<close> is a panic.\<close>

definition g_step :: "('s, 'id, 'r, 'v) graph_ops \<Rightarrow> 's \<Rightarrow> ('id, 'r, 'v) g_op \<Rightarrow> ('id g_reply \<times> 's) option" where
  "g_step G s op =
     (case op of
        GInsert r \<Rightarrow> map_option (map_prod RInsert id) (op_insert (g_store G) s r)
      | GReplace r \<Rightarrow> map_option (map_prod RReplace id) (op_replace (g_store G) s r)
      | GDelete k \<Rightarrow> map_option (map_prod RDelete id) (op_delete (g_store G) s k)
      | GUpdate k v \<Rightarrow> map_option (map_prod RUpdate id) (g_update G s k v)
      | GLink l a b \<Rightarrow> map_option (map_prod RLink id) (g_link G s l a b)
      | GDetach l k \<Rightarrow> map_option (map_prod RDetach id) (g_detach G s l k)
      | GCompact \<Rightarrow> map_option (map_prod (RCompact \<circ> map_ok (\<lambda>_. ())) id) (op_compact (g_store G) s))"

fun g_run :: "('s, 'id, 'r, 'v) graph_ops \<Rightarrow> 's \<Rightarrow> ('id, 'r, 'v) g_op list \<Rightarrow> ('id g_reply list \<times> 's) option" where
  "g_run G s [] = Some ([], s)"
| "g_run G s (op # ops) =
     (case g_step G s op of
        None \<Rightarrow> None
      | Some (x, s) \<Rightarrow> map_option (\<lambda>(xs, s). (x # xs, s)) (g_run G s ops))"

text \<open>The specification: a map and a graph. \<open>fl\<close> are the foreign labels.\<close>

definition g_spec :: "('r \<Rightarrow> 'id) \<Rightarrow> ('r \<Rightarrow> 'v \<Rightarrow> 'r option) \<Rightarrow> string list \<Rightarrow> ('id \<rightharpoonup> 'r) \<times> 'id graph \<Rightarrow>
    ('id, 'r, 'v) g_op \<Rightarrow> 'id g_reply \<times> ('id \<rightharpoonup> 'r) \<times> 'id graph" where
  "g_spec key setv fl st op =
     (case st of (m, G) \<Rightarrow>
      (case op of
        GInsert r \<Rightarrow>
          if m (key r) \<noteq> None then (RInsert (Inl (InsDuplicate (key r))), m, G)
          else (RInsert (Inr ()), m(key r \<mapsto> r), G)
      | GReplace r \<Rightarrow>
          if m (key r) = None then (RReplace (Inl (RepNotFound (key r))), m, G)
          else (RReplace (Inr ()), m(key r \<mapsto> r), G)
      | GDelete k \<Rightarrow>
          if m k = None then (RDelete (Inl (DelNotFound k)), m, G)
          else (RDelete (Inr ()), m(k := None), \<lambda>l. map_option (unlinked k) (G l))
      | GUpdate k v \<Rightarrow>
          (case m k of
             None \<Rightarrow> (RUpdate (Inl (NotFound k)), m, G)
           | Some r \<Rightarrow> (RUpdate (Inr ()), m(k := setv r v), G))
      | GLink l a b \<Rightarrow> (case graph_link (l \<in> set fl) m G l a b of (x, G') \<Rightarrow> (RLink x, m, G'))
      | GDetach l k \<Rightarrow> (case graph_detach G l k of (x, G') \<Rightarrow> (RDetach x, m, G'))
      | GCompact \<Rightarrow> (RCompact (Inr ()), m, G)))"

fun g_spec_run :: "('r \<Rightarrow> 'id) \<Rightarrow> ('r \<Rightarrow> 'v \<Rightarrow> 'r option) \<Rightarrow> string list \<Rightarrow> ('id \<rightharpoonup> 'r) \<times> 'id graph \<Rightarrow>
    ('id, 'r, 'v) g_op list \<Rightarrow> 'id g_reply list \<times> ('id \<rightharpoonup> 'r) \<times> 'id graph" where
  "g_spec_run key setv fl st [] = ([], st)"
| "g_spec_run key setv fl st (op # ops) =
     (case g_spec key setv fl st op of
        (x, st) \<Rightarrow> (case g_spec_run key setv fl st ops of (xs, st) \<Rightarrow> (x # xs, st)))"

definition g_op_ok :: "('r \<Rightarrow> bool) \<Rightarrow> ('v \<Rightarrow> bool) \<Rightarrow> ('id, 'r, 'v) g_op \<Rightarrow> bool" where
  "g_op_ok okr okv op =
     (case op of GInsert r \<Rightarrow> okr r | GReplace r \<Rightarrow> okr r | GUpdate k v \<Rightarrow> okv v | _ \<Rightarrow> True)"

section \<open>The contract\<close>

locale graph_store = updatable_store key okr "g_store G" invar view okv setv "g_update G"
  for key :: "'r \<Rightarrow> 'id" and okr :: "'r \<Rightarrow> bool" and G :: "('s, 'id, 'r, 'v) graph_ops"
    and invar :: "'s \<Rightarrow> bool" and view :: "'s \<Rightarrow> 'id \<rightharpoonup> 'r" and okv :: "'v \<Rightarrow> bool" and setv :: "'r \<Rightarrow> 'v \<Rightarrow> 'r option" +
  fixes fl :: "string list"
    and graph :: "'s \<Rightarrow> 'id graph"
  assumes link_graph: "invar s \<Longrightarrow>
      \<exists>s'. g_link G s l a b = Some (fst (graph_link (l \<in> set fl) (view s) (graph s) l a b), s') \<and>
        invar s' \<and> view s' = view s \<and> graph s' = snd (graph_link (l \<in> set fl) (view s) (graph s) l a b)"
    and detach_graph: "invar s \<Longrightarrow>
      \<exists>s'. g_detach G s l k = Some (fst (graph_detach (graph s) l k), s') \<and>
        invar s' \<and> view s' = view s \<and> graph s' = snd (graph_detach (graph s) l k)"
    and insert_graph: "invar s \<Longrightarrow> op_insert (g_store G) s r = Some (Inr (), s') \<Longrightarrow> graph s' = graph s"
    and replace_graph: "invar s \<Longrightarrow> op_replace (g_store G) s r = Some (Inr (), s') \<Longrightarrow> graph s' = graph s"
    and delete_graph: "invar s \<Longrightarrow> op_delete (g_store G) s k = Some (Inr (), s') \<Longrightarrow>
      graph s' = (\<lambda>l. map_option (unlinked k) (graph s l))"
    and update_graph: "invar s \<Longrightarrow> g_update G s k v = Some (Inr (), s') \<Longrightarrow> graph s' = graph s"
    and compact_graph: "invar s \<Longrightarrow> op_compact (g_store G) s = Some (Inr rep, s') \<Longrightarrow> graph s' = graph s"
begin

lemma g_step_refines:
  assumes inv: "invar s" and op: "g_op_ok okr okv op"
  shows "\<exists>s'. g_step G s op = Some (fst (g_spec key setv fl (view s, graph s) op), s') \<and> invar s' \<and>
     (view s', graph s') = snd (g_spec key setv fl (view s, graph s) op)"
proof (cases op)
  case (GInsert r)
  with op have "okr r" by (simp add: g_op_ok_def)
  from inv this show ?thesis
  proof (cases rule: insert_cases)
    case dup
    with inv GInsert show ?thesis by (auto simp: g_step_def g_spec_def)
  next
    case (fresh s')
    with insert_graph [OF inv fresh(2)] GInsert show ?thesis by (simp add: g_step_def g_spec_def)
  qed
next
  case (GReplace r)
  with op have "okr r" by (simp add: g_op_ok_def)
  from inv this show ?thesis
  proof (cases rule: replace_cases)
    case miss
    with inv GReplace show ?thesis by (simp add: g_step_def g_spec_def)
  next
    case (hit old s')
    with replace_graph [OF inv hit(2)] GReplace show ?thesis by (simp add: g_step_def g_spec_def)
  qed
next
  case (GDelete k)
  from inv show ?thesis
  proof (cases rule: delete_cases [where k = k])
    case miss
    with inv GDelete show ?thesis by (simp add: g_step_def g_spec_def)
  next
    case (hit old s')
    with delete_graph [OF inv hit(2)] GDelete show ?thesis by (simp add: g_step_def g_spec_def)
  qed
next
  case (GUpdate k v)
  show ?thesis
  proof (cases "view s k")
    case None
    with update_unknown [OF inv None] inv GUpdate show ?thesis by (simp add: g_step_def g_spec_def)
  next
    case (Some r)
    from op GUpdate have "okv v" by (simp add: g_op_ok_def)
    from update_known [OF inv this Some] obtain s' where
      "g_update G s k v = Some (Inr (), s')" "invar s'" "view s' = (view s)(k := setv r v)" by blast
    with update_graph [OF inv this(1)] Some GUpdate show ?thesis by (simp add: g_step_def g_spec_def)
  qed
next
  case (GLink l a b)
  with link_graph [OF inv, of l a b] show ?thesis by (auto simp: g_step_def g_spec_def split: prod.splits)
next
  case (GDetach l k)
  with detach_graph [OF inv, of l k] show ?thesis by (auto simp: g_step_def g_spec_def split: prod.splits)
next
  case GCompact
  from compact_view [OF inv] obtain rep s' where
    "op_compact (g_store G) s = Some (Inr rep, s')" "invar s'" "view s' = view s" by blast
  with compact_graph [OF inv this(1)] GCompact show ?thesis by (simp add: g_step_def g_spec_def)
qed

lemma g_run_refines:
  assumes "invar s" "\<forall>op \<in> set ops. g_op_ok okr okv op"
  shows "\<exists>s'. g_run G s ops = Some (fst (g_spec_run key setv fl (view s, graph s) ops), s') \<and> invar s' \<and>
     (view s', graph s') = snd (g_spec_run key setv fl (view s, graph s) ops)"
  using assms
proof (induction ops arbitrary: s)
  case (Cons op ops)
  from g_step_refines [OF Cons.prems(1), of op] Cons.prems(2) obtain s1 where
    s1: "g_step G s op = Some (fst (g_spec key setv fl (view s, graph s) op), s1)" "invar s1"
      "(view s1, graph s1) = snd (g_spec key setv fl (view s, graph s) op)" by auto
  from Cons.IH [OF s1(2)] Cons.prems(2) s1(1) show ?case
    unfolding s1(3) by (auto split: prod.splits)
qed simp

end

section \<open>\<open>MultiSymmetric\<close> keeps it\<close>

definition mu_gops :: "('id::linorder) multi_env \<Rightarrow> ('s, 'id, 'r) store_ops \<Rightarrow>
    ('s \<Rightarrow> 'id \<Rightarrow> 'v \<Rightarrow> ('id not_found, unit, 's) outcome) \<Rightarrow> (('s, 'id) multi, 'id, 'r, 'v) graph_ops" where
  "mu_gops E Ops update = \<lparr>g_store = mu_ops E Ops, g_update = mu_update update, g_link = mu_link E Ops, g_detach = mu_detach E\<rparr>"

lemma mu_gops_simps [simp]:
  "g_store (mu_gops E Ops update) = mu_ops E Ops" "g_update (mu_gops E Ops update) = mu_update update"
  "g_link (mu_gops E Ops update) = mu_link E Ops" "g_detach (mu_gops E Ops update) = mu_detach E"
  by (simp_all add: mu_gops_def)

sublocale multi_updatable \<subseteq> gs: graph_store key okr "mu_gops E Ops update" mu.winvar mu.wview okv setv fl mu_graph
proof -
  have upd: "updatable_store key okr (g_store (mu_gops E Ops update)) mu.winvar mu.wview okv setv (g_update (mu_gops E Ops update))"
    using mu.w.updatable_store_axioms by simp
  show "graph_store key okr (mu_gops E Ops update) mu.winvar mu.wview okv setv fl mu_graph"
  proof (rule graph_store.intro [OF upd], unfold_locales)
    fix s s' :: "('s, 'id) multi" and l a b k r v rep
    assume inv: "mu.winvar s"
    show "\<exists>s'. g_link (mu_gops E Ops update) s l a b = Some (fst (graph_link (l \<in> set fl) (mu.wview s) (mu_graph s) l a b), s') \<and>
        mu.winvar s' \<and> mu.wview s' = mu.wview s \<and> mu_graph s' = snd (graph_link (l \<in> set fl) (mu.wview s) (mu_graph s) l a b)"
      using link_refines [OF inv, of l a b] by auto
    show "\<exists>s'. g_detach (mu_gops E Ops update) s l k = Some (fst (graph_detach (mu_graph s) l k), s') \<and>
        mu.winvar s' \<and> mu.wview s' = mu.wview s \<and> mu_graph s' = snd (graph_detach (mu_graph s) l k)"
      using detach_refines [OF inv, of l k] by auto
    show "op_insert (g_store (mu_gops E Ops update)) s r = Some (Inr (), s') \<Longrightarrow> mu_graph s' = mu_graph s"
      and "op_replace (g_store (mu_gops E Ops update)) s r = Some (Inr (), s') \<Longrightarrow> mu_graph s' = mu_graph s"
      and "op_compact (g_store (mu_gops E Ops update)) s = Some (Inr rep, s') \<Longrightarrow> mu_graph s' = mu_graph s"
      using graph_kept by auto
    show "g_update (mu_gops E Ops update) s k v = Some (Inr (), s') \<Longrightarrow> mu_graph s' = mu_graph s"
      by (auto simp: mu_update_def forward_def)
    assume del: "op_delete (g_store (mu_gops E Ops update)) s k = Some (Inr (), s')"
    show "mu_graph s' = (\<lambda>l. map_option (unlinked k) (mu_graph s l))"
    proof (cases "mu.wview s k")
      case None
      with del mu.w.delete_unknown [OF inv None] show ?thesis by simp
    next
      case (Some r)
      with del delete_refines [OF inv, of k] show ?thesis by auto
    qed
  qed
qed

section \<open>Layers above\<close>

text \<open>
  A layer over such a stack that forwards links and detaches to it: \<open>put\<close> is the layer with its
  inner store exchanged.
\<close>

definition fwd_link :: "('t \<Rightarrow> 's) \<Rightarrow> ('t \<Rightarrow> 's \<Rightarrow> 't) \<Rightarrow> ('s, 'id, 'r, 'v) graph_ops \<Rightarrow> 't \<Rightarrow> string \<Rightarrow> 'id \<Rightarrow> 'id \<Rightarrow>
    ('id link_error, link_outcome, 't) outcome" where
  "fwd_link inn put G t l a b = forward (g_link G (inn t) l a b) (put t)"

definition fwd_detach :: "('t \<Rightarrow> 's) \<Rightarrow> ('t \<Rightarrow> 's \<Rightarrow> 't) \<Rightarrow> ('s, 'id, 'r, 'v) graph_ops \<Rightarrow> 't \<Rightarrow> string \<Rightarrow> 'id \<Rightarrow>
    ('id delete_error, nat, 't) outcome" where
  "fwd_detach inn put G t l k = forward (g_detach G (inn t) l k) (put t)"

locale wrapping_graph =
  inner: graph_store key okr G invar view okv setv fl graph +
  wrapping_updatable key okr "g_store G" invar view inn aux L okv setv "g_update G" updateL
  for key :: "'r \<Rightarrow> 'id" and okr :: "'r \<Rightarrow> bool" and G :: "('s, 'id, 'r, 'v) graph_ops"
    and invar :: "'s \<Rightarrow> bool" and view :: "'s \<Rightarrow> 'id \<rightharpoonup> 'r" and okv :: "'v \<Rightarrow> bool" and setv :: "'r \<Rightarrow> 'v \<Rightarrow> 'r option"
    and fl :: "string list" and graph :: "'s \<Rightarrow> 'id graph"
    and inn :: "'t \<Rightarrow> 's" and aux :: "('id \<rightharpoonup> 'r) \<Rightarrow> 't \<Rightarrow> bool" and L :: "('t, 'id, 'r) store_ops"
    and updateL :: "'t \<Rightarrow> 'id \<Rightarrow> 'v \<Rightarrow> ('id not_found, unit, 't) outcome" +
  fixes put :: "'t \<Rightarrow> 's \<Rightarrow> 't"
  assumes inn_put: "inn (put t i) = i"
    and aux_put: "aux m (put t i) = aux m t"
    and inn_insert: "op_insert L t r = Some (Inr (), t') \<Longrightarrow> op_insert (g_store G) (inn t) r = Some (Inr (), inn t')"
    and inn_replace: "op_replace L t r = Some (Inr (), t') \<Longrightarrow> op_replace (g_store G) (inn t) r = Some (Inr (), inn t')"
    and inn_delete: "op_delete L t k = Some (Inr (), t') \<Longrightarrow> op_delete (g_store G) (inn t) k = Some (Inr (), inn t')"
    and inn_update: "updateL t k v = Some (Inr (), t') \<Longrightarrow> g_update G (inn t) k v = Some (Inr (), inn t')"
    and inn_compact: "op_compact L t = Some (Inr rep, t') \<Longrightarrow> \<exists>rep'. op_compact (g_store G) (inn t) = Some (Inr rep', inn t')"
begin

definition gops :: "('t, 'id, 'r, 'v) graph_ops" where
  "gops = \<lparr>g_store = L, g_update = updateL, g_link = fwd_link inn put G, g_detach = fwd_detach inn put G\<rparr>"

lemma gops_simps [simp]:
  "g_store gops = L" "g_update gops = updateL" "g_link gops = fwd_link inn put G" "g_detach gops = fwd_detach inn put G"
  by (simp_all add: gops_def)

end

sublocale wrapping_graph \<subseteq> wg: graph_store key okr gops winvar wview okv setv fl "\<lambda>t. graph (inn t)"
proof -
  have upd: "updatable_store key okr (g_store gops) winvar wview okv setv (g_update gops)"
    using w.updatable_store_axioms by simp
  show "graph_store key okr gops winvar wview okv setv fl (\<lambda>t. graph (inn t))"
  proof (rule graph_store.intro [OF upd], unfold_locales)
    fix t t' :: 't and l a b k r v rep
    assume inv: "winvar t"
    note i = winvarD(1) [OF inv]
    have put: "winvar (put t s') \<and> wview (put t s') = wview t" if "invar s'" "view s' = view (inn t)" for s'
      using that winvarD(2) [OF inv] by (simp add: winvar_def wview_def inn_put aux_put)
    show "\<exists>s'. g_link gops t l a b = Some (fst (graph_link (l \<in> set fl) (wview t) (graph (inn t)) l a b), s') \<and>
        winvar s' \<and> wview s' = wview t \<and> graph (inn s') = snd (graph_link (l \<in> set fl) (wview t) (graph (inn t)) l a b)"
    proof -
      obtain s' where "g_link G (inn t) l a b = Some (fst (graph_link (l \<in> set fl) (wview t) (graph (inn t)) l a b), s')"
        "invar s'" "view s' = view (inn t)" "graph s' = snd (graph_link (l \<in> set fl) (wview t) (graph (inn t)) l a b)"
        using inner.link_graph [OF i, of l a b] by (auto simp: wview_def)
      with put [of s'] show ?thesis by (intro exI [of _ "put t s'"]) (simp add: fwd_link_def inn_put)
    qed
    show "\<exists>s'. g_detach gops t l k = Some (fst (graph_detach (graph (inn t)) l k), s') \<and>
        winvar s' \<and> wview s' = wview t \<and> graph (inn s') = snd (graph_detach (graph (inn t)) l k)"
    proof -
      obtain s' where "g_detach G (inn t) l k = Some (fst (graph_detach (graph (inn t)) l k), s')"
        "invar s'" "view s' = view (inn t)" "graph s' = snd (graph_detach (graph (inn t)) l k)"
        using inner.detach_graph [OF i, of l k] by auto
      with put [of s'] show ?thesis by (intro exI [of _ "put t s'"]) (simp add: fwd_detach_def inn_put)
    qed
    show "op_insert (g_store gops) t r = Some (Inr (), t') \<Longrightarrow> graph (inn t') = graph (inn t)"
      using inner.insert_graph [OF i inn_insert] by simp
    show "op_replace (g_store gops) t r = Some (Inr (), t') \<Longrightarrow> graph (inn t') = graph (inn t)"
      using inner.replace_graph [OF i inn_replace] by simp
    show "op_delete (g_store gops) t k = Some (Inr (), t') \<Longrightarrow> graph (inn t') = (\<lambda>l. map_option (unlinked k) (graph (inn t) l))"
      using inner.delete_graph [OF i inn_delete] by simp
    show "g_update gops t k v = Some (Inr (), t') \<Longrightarrow> graph (inn t') = graph (inn t)"
      using inner.update_graph [OF i inn_update] by simp
    show "op_compact (g_store gops) t = Some (Inr rep, t') \<Longrightarrow> graph (inn t') = graph (inn t)"
      using inn_compact [of t rep t'] inner.compact_graph [OF i] by auto
  qed
qed

text \<open>\<open>Ordered\<close> and \<open>NameIndex\<close> are such layers.\<close>

locale ordered_graph = graph_store key okr G invar view okv setv fl graph +
    ordered_updatable key okr "g_store G" invar view okey okv setv "g_update G" re_key
  for key :: "'r \<Rightarrow> 'id::linorder" and okr :: "'r \<Rightarrow> bool" and G :: "('s, 'id, 'r, 'v) graph_ops"
    and invar :: "'s \<Rightarrow> bool" and view :: "'s \<Rightarrow> 'id \<rightharpoonup> 'r" and okv :: "'v \<Rightarrow> bool" and setv :: "'r \<Rightarrow> 'v \<Rightarrow> 'r option"
    and fl :: "string list" and graph :: "'s \<Rightarrow> 'id graph" and okey :: "'r \<Rightarrow> 'ord::linorder" and re_key :: bool

sublocale ordered_graph \<subseteq> og: wrapping_graph key okr G invar view okv setv fl graph od_inner "od_aux okey"
  "od_ops key okey (g_store G)" "od_update re_key okey (g_store G) (g_update G)" od_put
  by unfold_locales
    (auto simp: od_put_def od_aux_def od_ops_def od_insert_def od_replace_def od_delete_def od_update_def od_compact_def
      through_def forward_def Let_def split: option.splits prod.splits sum.splits if_splits)

locale named_graph = graph_store key okr G invar view okv setv fl graph +
    named_updatable key okr "g_store G" invar view names okv setv "g_update G"
  for key :: "'r \<Rightarrow> 'id" and okr :: "'r \<Rightarrow> bool" and G :: "('s, 'id, 'r, 'v) graph_ops"
    and invar :: "'s \<Rightarrow> bool" and view :: "'s \<Rightarrow> 'id \<rightharpoonup> 'r" and okv :: "'v \<Rightarrow> bool" and setv :: "'r \<Rightarrow> 'v \<Rightarrow> 'r option"
    and fl :: "string list" and graph :: "'s \<Rightarrow> 'id graph" and names :: "'r \<Rightarrow> string list"

sublocale named_graph \<subseteq> ng: wrapping_graph key okr G invar view okv setv fl graph nx_inner "nx_aux names"
  "nx_ops key names (g_store G)" "nx_update (g_update G)" nx_put
  by unfold_locales
    (auto simp: nx_put_def nx_aux_def nx_ops_def nx_insert_def nx_replace_def nx_delete_def nx_update_def nx_compact_def
      through_def forward_def Let_def split: option.splits prod.splits sum.splits if_splits)

end
