(* ===== verification/Layer_Mmap.thy ===== *)
theory Layer_Mmap
  imports Layer_Spec
begin

text \<open>
  \<open>GenericMmapStore\<close> under the traits of \<open>src/generic/query.rs\<close>: the store that the durable stacks put
  at the bottom keeps the contract that the layers of \<open>src/generic/store.rs\<close> build on.
\<close>

text \<open>A \<open>&mut self\<close> call whose error leaves the store as it was.\<close>

definition keep :: "'s \<Rightarrow> 'e + 's \<Rightarrow> ('e, unit, 's) outcome" where
  "keep s res = Some (case res of Inl e \<Rightarrow> (Inl e, s) | Inr s' \<Rightarrow> (Inr (), s'))"

lemma keep_simps [simp]:
  "keep s (Inl e) = Some (Inl e, s)"
  "keep s (Inr s') = Some (Inr (), s')"
  by (simp_all add: keep_def)

definition mmap_ops :: "('id, 'iv, 'sv, 'r) store_env \<Rightarrow> (('id, 'iv, 'r) mmap_store, 'id, 'r) store_ops" where
  "mmap_ops E = \<lparr>op_get = ms_get E,
     op_insert = \<lambda>s r. keep s (ms_insert E s r),
     op_replace = \<lambda>s r. keep s (ms_replace E s r),
     op_delete = \<lambda>s k. keep s (ms_delete E s k),
     op_compact = \<lambda>s. map_option (\<lambda>res. case res of Inl e \<Rightarrow> (Inl e, s) | Inr (rep, s') \<Rightarrow> (Inr rep, s')) (ms_compact E s)\<rparr>"

definition mmap_update :: "('id, 'iv, 'sv, 'r) store_env \<Rightarrow> ('id, 'iv, 'r) mmap_store \<Rightarrow> 'id \<Rightarrow> 'sv \<Rightarrow>
    ('id not_found, unit, ('id, 'iv, 'r) mmap_store) outcome" where
  "mmap_update E s k v = keep s (ms_update E s k v)"

definition mmap_okv :: "('id, 'iv, 'sv, 'r) store_env \<Rightarrow> 'sv \<Rightarrow> bool" where
  "mmap_okv E v \<longleftrightarrow> (\<forall>r. set_scannable_value E r v \<noteq> None)"

locale serial_mmap = mmap_layer E for E :: "('id, 'iv, 'sv, 'r) store_env" +
  assumes serial: "serial_ok E"
begin

lemma ok_obtain:
  assumes "ms_ok E s"
  obtains ss base es where "ms_rep E ss s" "ms_durable E base es s"
  using assms by (auto simp: ms_ok_def)

lemma ok_None: "ms_ok E s \<Longrightarrow> ms_map E s k = None \<longleftrightarrow> map_of (ms_records s) k = None"
  using rep_dom by (metis domIff ms_ok_def)

lemma ok_finite: "ms_ok E s \<Longrightarrow> finite (dom (ms_map E s))"
  using rep_dom by (metis finite_dom_map_of ms_ok_def)

end

sublocale serial_mmap \<subseteq> ms: record_store "rid E" "encodes_small (rec_codec E)" "mmap_ops E" "ms_ok E" "ms_map E"
proof unfold_locales
  fix s r k
  assume ok: "ms_ok E s"
  obtain ss base es where rep: "ms_rep E ss s" and dur: "ms_durable E base es s" by (rule ok_obtain [OF ok])
  note none = ok_None [OF ok]
  show "finite (dom (ms_map E s))" by (rule ok_finite [OF ok])
  show "op_get (mmap_ops E) s k = Some (ms_map E s k)" using ok_get [OF ok] by (simp add: mmap_ops_def)
  show "ms_map E s k = Some r \<Longrightarrow> rid E r = k"
  proof -
    assume r: "ms_map E s k = Some r"
    with none [of k] obtain q where q: "map_of (ms_records s) k = Some q" by auto
    obtain p w where "committed_at ss p k w" using rep_committed [OF rep q] by blast
    with rep_value [OF rep q] r have "set_scannable_value E q w = Some r" by (metis option.inject)
    from set_frame [OF this] rep q show "rid E r = k" by (simp add: ms_rep_def)
  qed
  show "ms_map E s (rid E r) \<noteq> None \<Longrightarrow> op_insert (mmap_ops E) s r = Some (Inl (InsDuplicate (rid E r)), s)"
    using insert_duplicate [of s r] none by (auto simp: mmap_ops_def)
  show "encodes_small (rec_codec E) r \<Longrightarrow> ms_map E s (rid E r) = None \<Longrightarrow>
      \<exists>s'. op_insert (mmap_ops E) s r = Some (Inr (), s') \<and> ms_ok E s' \<and> ms_map E s' = (ms_map E s)(rid E r \<mapsto> r)"
    using insert_new [OF rep dur] none by (fastforce simp: mmap_ops_def intro: ms_okI)
  show "ms_map E s (rid E r) = None \<Longrightarrow> op_replace (mmap_ops E) s r = Some (Inl (RepNotFound (rid E r)), s)"
    using replace_unknown [of s r] none by (auto simp: mmap_ops_def)
  show "encodes_small (rec_codec E) r \<Longrightarrow> ms_map E s (rid E r) \<noteq> None \<Longrightarrow>
      \<exists>s'. op_replace (mmap_ops E) s r = Some (Inr (), s') \<and> ms_ok E s' \<and> ms_map E s' = (ms_map E s)(rid E r \<mapsto> r)"
  proof -
    assume r: "encodes_small (rec_codec E) r" and "ms_map E s (rid E r) \<noteq> None"
    then obtain old where "map_of (ms_records s) (rid E r) = Some old" using none [of "rid E r"] by auto
    from replace_known [OF rep dur r this] show ?thesis by (auto simp: mmap_ops_def intro: ms_okI)
  qed
  show "ms_map E s k = None \<Longrightarrow> op_delete (mmap_ops E) s k = Some (Inl (DelNotFound k), s)"
    using delete_unknown [of s k] none by (auto simp: mmap_ops_def)
  show "ms_map E s k \<noteq> None \<Longrightarrow>
      \<exists>s'. op_delete (mmap_ops E) s k = Some (Inr (), s') \<and> ms_ok E s' \<and> ms_map E s' = (ms_map E s)(k := None)"
  proof -
    assume "ms_map E s k \<noteq> None"
    then obtain old where "map_of (ms_records s) k = Some old" using none [of k] by auto
    from delete_known [OF rep dur serial this] show ?thesis by (auto simp: mmap_ops_def intro: ms_okI)
  qed
  show "\<exists>rep s'. op_compact (mmap_ops E) s = Some (Inr rep, s') \<and> ms_ok E s' \<and> ms_map E s' = ms_map E s"
    using compact_ok [OF rep dur serial] by (fastforce simp: mmap_ops_def intro: ms_okI)
qed

sublocale serial_mmap \<subseteq> ms: listed_store "rid E" "encodes_small (rec_codec E)" "mmap_ops E" "ms_ok E" "ms_map E" ms_all_ids
proof unfold_locales
  fix s
  assume "ms_ok E s"
  then obtain ss base es where rep: "ms_rep E ss s" "ms_durable E base es s" by (rule ok_obtain)
  then show "distinct (ms_all_ids s) \<and> set (ms_all_ids s) = dom (ms_map E s)"
    using rep_dom [OF rep(1)] by (simp add: ms_all_ids_def ms_rep_def hm_wf_def dom_map_of_conv_image_fst)
qed

sublocale serial_mmap \<subseteq> ms: updatable_store "rid E" "encodes_small (rec_codec E)" "mmap_ops E" "ms_ok E" "ms_map E"
  "mmap_okv E" "set_scannable_value E" "mmap_update E"
proof unfold_locales
  show "mmap_okv E v \<Longrightarrow> set_scannable_value E r v \<noteq> None" for v r by (simp add: mmap_okv_def)
  fix s k v r
  assume ok: "ms_ok E s"
  obtain ss base es where rep: "ms_rep E ss s" and dur: "ms_durable E base es s" by (rule ok_obtain [OF ok])
  note none = ok_None [OF ok]
  show "ms_map E s k = None \<Longrightarrow> mmap_update E s k v = Some (Inl (NotFound k), s)"
    using update_unknown [OF rep] none by (simp add: mmap_update_def)
  assume v: "mmap_okv E v" and r: "ms_map E s k = Some r"
  with none [of k] obtain q where q: "map_of (ms_records s) k = Some q" by auto
  obtain p w where "committed_at ss p k w" using rep_committed [OF rep q] by blast
  from rep_map_Some [OF rep q this] r set_set have "set_scannable_value E r v = set_scannable_value E q v" by metis
  with update_known [OF rep dur q, of v] v r
  show "\<exists>s'. mmap_update E s k v = Some (Inr (), s') \<and> ms_ok E s' \<and> ms_map E s' = (ms_map E s)(k := set_scannable_value E r v)"
    by (auto simp: mmap_update_def mmap_okv_def valid_value_def intro: ms_okI)
qed

end
