(* ===== verification/Wire_Codec.thy ===== *)
theory Wire_Codec
  imports Order_Codec
begin

text \<open>
  Self-delimiting serialisers and their combinators, to instantiate the codec parameters of the
  stores with concrete ones for records that hold strings and lists: each satisfies the laws that
  the theorems assume of the third-party serialiser, so their hypotheses can hold.
\<close>

record 'a wire =
  wr_put :: "'a \<Rightarrow> byte list"
  wr_get :: "byte list \<Rightarrow> ('a \<times> byte list) option"

definition wire_ok :: "'a wire \<Rightarrow> bool" where
  "wire_ok w \<longleftrightarrow> (\<forall>a r. wr_get w (wr_put w a @ r) = Some (a, r))"

named_theorems wire_intros \<open>the combinators keep \<open>wire_ok\<close>\<close>

lemma wire_okD: "wire_ok w \<Longrightarrow> wr_get w (wr_put w a @ r) = Some (a, r)"
  by (simp add: wire_ok_def)

definition w_word :: "nat \<Rightarrow> ('a::len word) wire" where
  "w_word n = \<lparr>wr_put = le_bytes n,
     wr_get = \<lambda>bs. if length bs < n then None else Some (le_word (take n bs), drop n bs)\<rparr>"

definition w_pair :: "'a wire \<Rightarrow> 'b wire \<Rightarrow> ('a \<times> 'b) wire" where
  "w_pair u v = \<lparr>wr_put = \<lambda>(a, b). wr_put u a @ wr_put v b,
     wr_get = \<lambda>bs. case wr_get u bs of None \<Rightarrow> None
       | Some (a, bs) \<Rightarrow> (case wr_get v bs of None \<Rightarrow> None | Some (b, bs) \<Rightarrow> Some ((a, b), bs))\<rparr>"

definition w_conv :: "('a \<Rightarrow> 'b) \<Rightarrow> ('b \<Rightarrow> 'a) \<Rightarrow> 'b wire \<Rightarrow> 'a wire" where
  "w_conv f g w = \<lparr>wr_put = \<lambda>a. wr_put w (f a), wr_get = \<lambda>bs. map_option (\<lambda>(b, r). (g b, r)) (wr_get w bs)\<rparr>"

fun get_many :: "(byte list \<Rightarrow> ('a \<times> byte list) option) \<Rightarrow> nat \<Rightarrow> byte list \<Rightarrow> ('a list \<times> byte list) option" where
  "get_many get 0 bs = None"
| "get_many get (Suc n) [] = None"
| "get_many get (Suc n) (b # bs) =
     (if b = 0 then Some ([], bs)
      else (case get bs of None \<Rightarrow> None | Some (a, bs) \<Rightarrow> map_option (\<lambda>(as, r). (a # as, r)) (get_many get n bs)))"

definition put_many :: "('a \<Rightarrow> byte list) \<Rightarrow> 'a list \<Rightarrow> byte list" where
  "put_many put xs = concat (map (\<lambda>x. 1 # put x) xs) @ [0]"

definition w_list :: "'a wire \<Rightarrow> 'a list wire" where
  "w_list w = \<lparr>wr_put = put_many (wr_put w), wr_get = \<lambda>bs. get_many (wr_get w) (length bs) bs\<rparr>"

definition w_char :: "char wire" where
  "w_char = w_conv (\<lambda>c. of_nat (of_char c) :: byte) (\<lambda>b. char_of (unat b)) (w_word 1)"

lemma w_word_ok [wire_intros]: "LENGTH('a::len) = 8 * n \<Longrightarrow> wire_ok (w_word n :: 'a word wire)"
  by (simp add: wire_ok_def w_word_def le_word_le_bytes_full)

lemma w_pair_ok [wire_intros]: "wire_ok u \<Longrightarrow> wire_ok v \<Longrightarrow> wire_ok (w_pair u v)"
  by (simp add: wire_ok_def w_pair_def)

lemma w_conv_ok [wire_intros]: "wire_ok w \<Longrightarrow> (\<And>a. g (f a) = a) \<Longrightarrow> wire_ok (w_conv f g w)"
  by (simp add: wire_ok_def w_conv_def)

lemma get_put_many:
  assumes "wire_ok w"
  shows "length xs < n \<Longrightarrow> get_many (wr_get w) n (put_many (wr_put w) xs @ r) = Some (xs, r)"
proof (induction xs arbitrary: n)
  case Nil
  then show ?case by (cases n) (simp_all add: put_many_def)
next
  case (Cons x xs)
  then obtain m where m: "n = Suc m" "length xs < m" by (cases n) auto
  have "put_many (wr_put w) (x # xs) @ r = 1 # wr_put w x @ put_many (wr_put w) xs @ r" by (simp add: put_many_def)
  with Cons.IH [OF m(2)] m(1) show ?case by (simp add: wire_okD [OF assms])
qed

lemma length_put_many: "length xs < length (put_many put xs)"
  by (induction xs) (auto simp: put_many_def)

lemma w_list_ok [wire_intros]: "wire_ok w \<Longrightarrow> wire_ok (w_list w)"
  using length_put_many get_put_many
  by (auto simp: wire_ok_def w_list_def intro!: get_put_many trans_less_add1)

lemma w_char_ok [wire_intros]: "wire_ok w_char"
proof -
  have "unat (of_nat (of_char c) :: byte) = of_char c" for c
  proof -
    have "of_char c mod (256 :: nat) = of_char c" by (metis char_of_char of_char_of)
    then show ?thesis by (simp add: unat_of_nat)
  qed
  then show ?thesis unfolding w_char_def by (intro wire_intros) simp_all
qed

definition wire_codec :: "'a wire \<Rightarrow> 'a bincode" where
  "wire_codec w = \<lparr>bc_encode = \<lambda>a. Some (wr_put w a),
     bc_decode = \<lambda>bs. case wr_get w bs of Some (a, []) \<Rightarrow> Some a | _ \<Rightarrow> None\<rparr>"

lemma wire_codec_roundtrip: "wire_ok w \<Longrightarrow> bincode_roundtrip (wire_codec w)"
  using wire_okD [of w _ "[]"] by (simp add: bincode_roundtrip_def wire_codec_def)

lemma wire_encodes: "bc_encode (wire_codec w) a = Some (wr_put w a)"
  by (simp add: wire_codec_def)

definition w_string :: "string wire" where
  "w_string = w_list w_char"

definition w_uuid :: "uuid wire" where
  "w_uuid = w_word 16"

definition w_i64 :: "i64 wire" where
  "w_i64 = w_word 8"

lemma w_basic_ok [wire_intros]: "wire_ok w_string" "wire_ok w_uuid" "wire_ok w_i64"
  unfolding w_string_def w_uuid_def w_i64_def by (intro wire_intros; simp)+

end
