(* ===== verification/Domains.thy ===== *)
theory Domains
  imports Wire_Codec Multi_Files Layer_Names
begin

text \<open>
  The record types of \<open>src/generic/entity.rs\<close>, \<open>memory.rs\<close> and \<open>relation.rs\<close> with their trait impls:
  the field each is indexed by, the field each scans, the names an entity is filed under, the key
  a memory or a relation is ordered by. A \<open>String\<close> is a list of characters.
\<close>

section \<open>\<open>Entity\<close>\<close>

record entity =
  ent_id :: uuid
  ent_label :: string
  ent_kind :: string
  mention_count :: i64
  aliases :: "string list"

definition entity_env :: "entity bincode \<Rightarrow> entity list bincode \<Rightarrow> uuid bincode \<Rightarrow> (uuid, string, i64, entity) store_env" where
  "entity_env c cs ck =
     \<lparr>rid = ent_id, indexed_value = ent_kind, scannable_value = mention_count,
      set_scannable_value = \<lambda>r v. Some (r\<lparr>mention_count := v\<rparr>),
      id_field = uuid_field, val_field = i64_field,
      rec_codec = c, recs_codec = cs, key_codec = ck,
      schema_tag = map (of_nat \<circ> of_char) ''entity::Entity''\<rparr>"

definition entity_index_keys :: "entity \<Rightarrow> string list" where
  "entity_index_keys r = ent_label r # aliases r"

definition entity_relation_labels :: "string list" where
  "entity_relation_labels = [''relates_to'', ''mentioned_with'']"

text \<open>\<open>entity_id\<close>: the first sixteen bytes of the digest (a parameter) of the normalised name.\<close>

definition entity_id_of :: "(byte list \<Rightarrow> byte list) \<Rightarrow> string \<Rightarrow> uuid" where
  "entity_id_of sha256 name =
     read_le uuid_field (take 16 (sha256 (map (of_nat \<circ> of_char) (normalize name))))"

section \<open>\<open>Memory\<close>\<close>

record memory =
  mem_id :: uuid
  content :: string
  category :: string
  tags :: "string list"
  mem_source :: string
  metadata_json :: string
  mem_created_at :: i64
  mem_updated_at :: i64
  memory_type :: string
  mem_status :: string
  sensitive :: bool
  access_count :: i64
  mem_deleted_at :: i64
  mem_node_id :: string

definition memory_env :: "memory bincode \<Rightarrow> memory list bincode \<Rightarrow> uuid bincode \<Rightarrow> (uuid, string, i64, memory) store_env" where
  "memory_env c cs ck =
     \<lparr>rid = mem_id, indexed_value = category, scannable_value = access_count,
      set_scannable_value = \<lambda>r v. Some (r\<lparr>access_count := v\<rparr>),
      id_field = uuid_field, val_field = i64_field,
      rec_codec = c, recs_codec = cs, key_codec = ck,
      schema_tag = map (of_nat \<circ> of_char) ''memory::Memory@2''\<rparr>"

definition memory_relation_labels :: "string list" where
  "memory_relation_labels = [''mentions'']"

text \<open>An \<open>i64\<close> is compared as a signed number.\<close>

definition memory_order_key :: "memory \<Rightarrow> int" where
  "memory_order_key r = sint (mem_updated_at r)"

section \<open>\<open>Relation\<close>\<close>

record relation =
  rel_id :: uuid
  subject :: string
  rel_name :: string
  object :: string
  rel_created_at :: i64
  rel_updated_at :: i64
  rel_node_id :: string
  rel_deleted_at :: i64

definition relation_env :: "relation bincode \<Rightarrow> relation list bincode \<Rightarrow> uuid bincode \<Rightarrow> (uuid, string, i64, relation) store_env" where
  "relation_env c cs ck =
     \<lparr>rid = rel_id, indexed_value = subject, scannable_value = rel_updated_at,
      set_scannable_value = \<lambda>r v. Some (r\<lparr>rel_updated_at := v\<rparr>),
      id_field = uuid_field, val_field = i64_field,
      rec_codec = c, recs_codec = cs, key_codec = ck,
      schema_tag = map (of_nat \<circ> of_char) ''relation::Relation''\<rparr>"

definition relation_order_key :: "relation \<Rightarrow> int" where
  "relation_order_key r = sint (rel_updated_at r)"

section \<open>The laws of the traits\<close>

interpretation entity_rec: record_laws "entity_env c cs ck"
  by unfold_locales (auto simp: entity_env_def)

interpretation memory_rec: record_laws "memory_env c cs ck"
  by unfold_locales (auto simp: memory_env_def)

interpretation relation_rec: record_laws "relation_env c cs ck"
  by unfold_locales (auto simp: relation_env_def)

interpretation entity_store: mmap_layer "entity_env c cs ck"
  unfolding mmap_layer_def slot_codecs_def
  using entity_rec.record_laws_axioms uuid_f.mmap_field_value_axioms i64_f.mmap_field_value_axioms
  by (simp add: entity_env_def)

interpretation memory_store: mmap_layer "memory_env c cs ck"
  unfolding mmap_layer_def slot_codecs_def
  using memory_rec.record_laws_axioms uuid_f.mmap_field_value_axioms i64_f.mmap_field_value_axioms
  by (simp add: memory_env_def)

interpretation relation_store: mmap_layer "relation_env c cs ck"
  unfolding mmap_layer_def slot_codecs_def
  using relation_rec.record_laws_axioms uuid_f.mmap_field_value_axioms i64_f.mmap_field_value_axioms
  by (simp add: relation_env_def)

section \<open>Concrete serialisers\<close>

definition w_entity :: "entity wire" where
  "w_entity = w_conv (\<lambda>r. (ent_id r, ent_label r, ent_kind r, mention_count r, aliases r))
     (\<lambda>(i, l, k, n, al). \<lparr>ent_id = i, ent_label = l, ent_kind = k, mention_count = n, aliases = al\<rparr>)
     (w_pair w_uuid (w_pair w_string (w_pair w_string (w_pair w_i64 (w_list w_string)))))"

definition w_bool :: "bool wire" where
  "w_bool = w_conv (\<lambda>b. if b then 1 else 0 :: byte) (\<lambda>v. v = 1) (w_word 1)"

definition w_memory :: "memory wire" where
  "w_memory = w_conv
     (\<lambda>r. (mem_id r, content r, category r, tags r, mem_source r, metadata_json r, mem_created_at r, mem_updated_at r,
        memory_type r, mem_status r, sensitive r, access_count r, mem_deleted_at r, mem_node_id r))
     (\<lambda>(i, c, g, ts, s, j, ca, ua, t, st, b, n, d, nd). \<lparr>mem_id = i, content = c, category = g, tags = ts, mem_source = s,
        metadata_json = j, mem_created_at = ca, mem_updated_at = ua, memory_type = t, mem_status = st, sensitive = b,
        access_count = n, mem_deleted_at = d, mem_node_id = nd\<rparr>)
     (w_pair w_uuid (w_pair w_string (w_pair w_string (w_pair (w_list w_string) (w_pair w_string (w_pair w_string
       (w_pair w_i64 (w_pair w_i64 (w_pair w_string (w_pair w_string (w_pair w_bool (w_pair w_i64 (w_pair w_i64 w_string)))))))))))))"

definition w_relation :: "relation wire" where
  "w_relation = w_conv
     (\<lambda>r. (rel_id r, subject r, rel_name r, object r, rel_created_at r, rel_updated_at r, rel_node_id r, rel_deleted_at r))
     (\<lambda>(i, s, n, ob, ca, ua, nd, d). \<lparr>rel_id = i, subject = s, rel_name = n, object = ob, rel_created_at = ca,
        rel_updated_at = ua, rel_node_id = nd, rel_deleted_at = d\<rparr>)
     (w_pair w_uuid (w_pair w_string (w_pair w_string (w_pair w_string (w_pair w_i64 (w_pair w_i64 (w_pair w_string w_i64)))))))"

lemma w_records_ok [wire_intros]: "wire_ok w_entity" "wire_ok w_bool" "wire_ok w_memory" "wire_ok w_relation"
  unfolding w_entity_def w_bool_def w_memory_def w_relation_def by (intro wire_intros; simp)+

definition demo_entities :: "(uuid, string, i64, entity) store_env" where
  "demo_entities = entity_env (wire_codec w_entity) (wire_codec (w_list w_entity)) (fixed_codec uuid_field)"

definition demo_memories :: "(uuid, string, i64, memory) store_env" where
  "demo_memories = memory_env (wire_codec w_memory) (wire_codec (w_list w_memory)) (fixed_codec uuid_field)"

definition demo_relations :: "(uuid, string, i64, relation) store_env" where
  "demo_relations = relation_env (wire_codec w_relation) (wire_codec (w_list w_relation)) (fixed_codec uuid_field)"

lemma wire_serial_ok:
  assumes "wire_ok w" "rec_codec E = wire_codec w" "recs_codec E = wire_codec (w_list w)" "key_codec E = fixed_codec uuid_field"
  shows "serial_ok E"
  using assms wire_codec_roundtrip [OF assms(1)] wire_codec_roundtrip [OF w_list_ok [OF assms(1)]]
    uuid_f.write_width uuid_f.read_write
  by (simp add: serial_ok_def wire_encodes bincode_roundtrip_def fixed_codec_def encodes_small_def uuid_field_def)

lemma demo_serial: "serial_ok demo_entities" "serial_ok demo_memories" "serial_ok demo_relations"
  by (rule wire_serial_ok [OF w_records_ok(1)] wire_serial_ok [OF w_records_ok(3)] wire_serial_ok [OF w_records_ok(4)];
      simp add: demo_entities_def demo_memories_def demo_relations_def entity_env_def memory_env_def relation_env_def)+

text \<open>The edge files of a relation over \<open>uuid\<close> ids, and the label manifest.\<close>

definition w_edge :: "(uuid \<times> uuid) wire" where
  "w_edge = w_pair w_uuid w_uuid"

definition demo_edges :: "byte list \<Rightarrow> uuid edge_env" where
  "demo_edges tag = \<lparr>ee_pair = wire_codec w_edge, ee_list = wire_codec (w_list w_edge), ee_key = wire_codec w_uuid, ee_tag = tag\<rparr>"

definition demo_multi :: "byte list \<Rightarrow> uuid multi_env" where
  "demo_multi tag = \<lparr>me_edges = demo_edges tag, me_labels = wire_codec (w_list w_string)\<rparr>"

lemma w_edge_ok [wire_intros]: "wire_ok w_edge"
  unfolding w_edge_def by (intro wire_intros)

lemma demo_edges_serial: "edge_serial_ok (demo_edges tag)"
proof -
  have "encodes_small (wire_codec w_edge) p" "encodes_small (wire_codec w_uuid) k" for p k
    by (auto simp: encodes_small_def wire_codec_def w_edge_def w_pair_def w_uuid_def w_word_def split: prod.split)
  then show ?thesis
    by (simp add: edge_serial_ok_def demo_edges_def wire_encodes)
      (intro conjI wire_codec_roundtrip wire_intros)
qed

lemma demo_multi_serial: "multi_serial_ok (demo_multi tag)"
  using demo_edges_serial [of tag]
  by (simp add: multi_serial_ok_def demo_multi_def wire_encodes) (intro wire_codec_roundtrip wire_intros)

end
