(* ===== verification/Stacks.thy ===== *)
theory Stacks
  imports Graph_Store Layer_Mmap Domains
begin

text \<open>
  The production stacks of \<open>src/generic/entity.rs\<close> and \<open>memory.rs\<close>: how each is put together from the
  mapped store and the layers, fresh and from the files of an earlier process, and what the
  assembled stack answers. The files are the store's \<open>disk\<close> and the layer's \<open>multi_files\<close>; a
  constructor's outer option is a panic.
\<close>

section \<open>Relations over the mapped store\<close>

locale mmap_graph = serial_mmap E for E :: "('id::linorder, 'iv, 'sv, 'r) store_env" +
  fixes ME :: "'id multi_env"
    and fl :: "string list"
  assumes multi_serial: "multi_serial_ok ME"

sublocale mmap_graph \<subseteq> mg: multi_updatable "rid E" "encodes_small (rec_codec E)" "mmap_ops E" "ms_ok E" "ms_map E"
  ME fl "mmap_okv E" "set_scannable_value E" "mmap_update E"
  by unfold_locales (rule multi_serial)

sublocale mmap_graph \<subseteq> mg: multi_listed "rid E" "encodes_small (rec_codec E)" "mmap_ops E" "ms_ok E" "ms_map E"
  ME fl ms_all_ids
  by unfold_locales

locale mmap_named = mmap_graph E ME fl for E :: "('id::linorder, 'iv, 'sv, 'r) store_env" and ME fl +
  fixes names :: "'r \<Rightarrow> string list"
  assumes names_frame: "set_scannable_value E r v = Some r' \<Longrightarrow> names r' = names r"

sublocale mmap_named \<subseteq> mn: named_graph "rid E" "encodes_small (rec_codec E)" "mu_gops ME (mmap_ops E) (mmap_update E)"
  mg.mu.winvar mg.mu.wview "mmap_okv E" "set_scannable_value E" fl mu_graph names
  by unfold_locales (rule names_frame)

sublocale mmap_named \<subseteq> ml: named_listed "rid E" "encodes_small (rec_codec E)" "mu_ops ME (mmap_ops E)"
  mg.mu.winvar mg.mu.wview names "mu_all_ids ms_all_ids"
  by unfold_locales

locale mmap_ordered = mmap_graph E ME fl for E :: "('id::linorder, 'iv, 'sv, 'r) store_env" and ME fl +
  fixes okey :: "'r \<Rightarrow> 'ord::linorder"
    and re_key :: bool
  assumes okey_frame: "\<not> re_key \<Longrightarrow> set_scannable_value E r v = Some r' \<Longrightarrow> okey r' = okey r"

sublocale mmap_ordered \<subseteq> mo: ordered_graph "rid E" "encodes_small (rec_codec E)" "mu_gops ME (mmap_ops E) (mmap_update E)"
  mg.mu.winvar mg.mu.wview "mmap_okv E" "set_scannable_value E" fl mu_graph okey re_key
  by unfold_locales (rule okey_frame)

sublocale mmap_ordered \<subseteq> ml: ordered_listed "rid E" "encodes_small (rec_codec E)" "mu_ops ME (mmap_ops E)"
  mg.mu.winvar mg.mu.wview okey "mu_all_ids ms_all_ids"
  by unfold_locales

section \<open>Assembling a stack\<close>

text \<open>\<open>EntityProductionStack\<close> is a \<open>NameIndex\<close>, \<open>MemoryProductionStack\<close> an \<open>Ordered\<close>, over the same two layers.\<close>

type_synonym ('id, 'iv, 'r) mmap_multi = "(('id, 'iv, 'r) mmap_store, 'id) multi"

definition named_stack :: "('id::linorder, 'iv, 'sv, 'r) store_env \<Rightarrow> 'id multi_env \<Rightarrow> ('r \<Rightarrow> string list) \<Rightarrow>
    durability_error + ('id, 'iv, 'r) mmap_multi \<Rightarrow> (durability_error + (('id, 'iv, 'r) mmap_multi, 'id) name_index) option" where
  "named_stack E ME names inner =
     (case inner of
        Inl e \<Rightarrow> Some (Inl e)
      | Inr m \<Rightarrow> map_option Inr (nx_new names (mu_ops ME (mmap_ops E)) (mu_all_ids ms_all_ids) m))"

definition ordered_stack :: "('id::linorder, 'iv, 'sv, 'r) store_env \<Rightarrow> 'id multi_env \<Rightarrow> ('r \<Rightarrow> 'ord) \<Rightarrow>
    durability_error + ('id, 'iv, 'r) mmap_multi \<Rightarrow> (durability_error + (('id, 'iv, 'r) mmap_multi, 'ord, 'id) ordered) option" where
  "ordered_stack E ME okey inner =
     (case inner of
        Inl e \<Rightarrow> Some (Inl e)
      | Inr m \<Rightarrow> map_option Inr (od_new okey (mu_ops ME (mmap_ops E)) (mu_all_ids ms_all_ids) m))"

definition create_entity_production_stack :: "(uuid, string, i64, entity) store_env \<Rightarrow> uuid multi_env \<Rightarrow> entity list \<Rightarrow>
    (uuid \<times> uuid) list \<Rightarrow> (uuid \<times> uuid) list \<Rightarrow> multi_files \<Rightarrow>
    (durability_error + ((uuid, string, entity) mmap_multi, uuid) name_index) option" where
  "create_entity_production_stack E ME entities relates_to_edges mentioned_with_edges F =
     named_stack E ME entity_index_keys
       (and_then (ms_create E entities) (\<lambda>core.
          mu_create ME core
            [(entity_relation_labels ! 0, relates_to_edges), (entity_relation_labels ! 1, mentioned_with_edges)] F))"

definition open_entity_production_stack_portable :: "(uuid, string, i64, entity) store_env \<Rightarrow> uuid multi_env \<Rightarrow> disk \<Rightarrow> multi_files \<Rightarrow>
    (durability_error + ((uuid, string, entity) mmap_multi, uuid) name_index) option" where
  "open_entity_production_stack_portable E ME d F =
     named_stack E ME entity_index_keys
       (and_then (read_portable_records E d) (\<lambda>entities.
        and_then (ms_open E entities d) (\<lambda>core.
          mu_open_portable ME core entity_relation_labels F)))"

definition create_memory_production_stack :: "(uuid, string, i64, memory) store_env \<Rightarrow> uuid multi_env \<Rightarrow> memory list \<Rightarrow>
    (uuid \<times> uuid) list \<Rightarrow> multi_files \<Rightarrow>
    (durability_error + ((uuid, string, memory) mmap_multi, int, uuid) ordered) option" where
  "create_memory_production_stack E ME memories mentions F =
     ordered_stack E ME memory_order_key
       (and_then (ms_create E memories) (\<lambda>core.
          map_ok (\<lambda>m. with_foreign_labels m memory_relation_labels)
            (mu_create ME core [(memory_relation_labels ! 0, mentions)] F)))"

definition open_memory_production_stack_portable :: "(uuid, string, i64, memory) store_env \<Rightarrow> uuid multi_env \<Rightarrow> disk \<Rightarrow> multi_files \<Rightarrow>
    (durability_error + ((uuid, string, memory) mmap_multi, int, uuid) ordered) option" where
  "open_memory_production_stack_portable E ME d F =
     ordered_stack E ME memory_order_key
       (and_then (ms_open_portable E d) (\<lambda>core.
          map_ok (\<lambda>m. with_foreign_labels m memory_relation_labels)
            (mu_open_portable ME core memory_relation_labels F)))"

text \<open>What the layers forward of the relations below.\<close>

definition nx_neighbors_by_relation :: "('s, 'id) name_index \<Rightarrow> ('s \<Rightarrow> string \<Rightarrow> 'id \<Rightarrow> 'id list option) \<Rightarrow> string \<Rightarrow> 'id \<Rightarrow> 'id list option" where
  "nx_neighbors_by_relation s neighbors l k = neighbors (nx_inner s) l k"

definition od_neighbors_by_relation :: "('s, 'ord, 'id) ordered \<Rightarrow> ('s \<Rightarrow> string \<Rightarrow> 'id \<Rightarrow> 'id list option) \<Rightarrow> string \<Rightarrow> 'id \<Rightarrow> 'id list option" where
  "od_neighbors_by_relation s neighbors l k = neighbors (od_inner s) l k"

definition named_gops :: "('id::linorder, 'iv, 'sv, 'r) store_env \<Rightarrow> 'id multi_env \<Rightarrow> ('r \<Rightarrow> string list) \<Rightarrow>
    ((('id, 'iv, 'r) mmap_multi, 'id) name_index, 'id, 'r, 'sv) graph_ops" where
  "named_gops E ME names =
     \<lparr>g_store = nx_ops (rid E) names (mu_ops ME (mmap_ops E)),
      g_update = nx_update (mu_update (mmap_update E)),
      g_link = fwd_link nx_inner nx_put (mu_gops ME (mmap_ops E) (mmap_update E)),
      g_detach = fwd_detach nx_inner nx_put (mu_gops ME (mmap_ops E) (mmap_update E))\<rparr>"

definition ordered_gops :: "('id::linorder, 'iv, 'sv, 'r) store_env \<Rightarrow> 'id multi_env \<Rightarrow> ('r \<Rightarrow> 'ord) \<Rightarrow> bool \<Rightarrow>
    ((('id, 'iv, 'r) mmap_multi, 'ord, 'id) ordered, 'id, 'r, 'sv) graph_ops" where
  "ordered_gops E ME okey re_key =
     \<lparr>g_store = od_ops (rid E) okey (mu_ops ME (mmap_ops E)),
      g_update = od_update re_key okey (mu_ops ME (mmap_ops E)) (mu_update (mmap_update E)),
      g_link = fwd_link od_inner od_put (mu_gops ME (mmap_ops E) (mmap_update E)),
      g_detach = fwd_detach od_inner od_put (mu_gops ME (mmap_ops E) (mmap_update E))\<rparr>"

section \<open>The assembled stacks\<close>

text \<open>
  The two lists that a reopen compares by hash (the records with the log folded in, the blob's) do
  not collide; with no log they are the same list.
\<close>

definition records_apart :: "('id, 'iv, 'sv, 'r) store_env \<Rightarrow> disk \<Rightarrow> bool" where
  "records_apart E d \<longleftrightarrow>
     (\<forall>base es x y. record_blob_read (schema_tag E) (recs_codec E) (d_blob d) = Ok base \<longrightarrow>
        read_entries (rec_codec E) (key_codec E) (schema_tag E) (d_log d) = Ok es \<longrightarrow>
        bc_encode (recs_codec E) (merge_log E (merge_log E base es) es) = Some x \<longrightarrow>
        bc_encode (recs_codec E) base = Some y \<longrightarrow> fnv1a64 x = fnv1a64 y \<longrightarrow> merge_log E (merge_log E base es) es = base)"

context serial_mmap
begin

lemma core_create:
  assumes "distinct (map (rid E) rs)"
  shows "\<exists>s. ms_create E rs = Ok s \<and> ms_ok E s \<and> ms_map E s = keyed (rid E) rs"
  using create_ok [OF serial assms] unfolding ms_ok_def by blast

lemma core_reopen:
  assumes ok: "ms_ok E s" and apart: "records_apart E (disk_of s)"
  shows "\<exists>s'. ms_open_portable E (disk_of s) = Ok s' \<and> ms_ok E s' \<and> ms_map E s' = ms_map E s"
proof -
  obtain ss base es where rep: "ms_rep E ss s" and dur: "ms_durable E base es s" by (rule ok_obtain [OF ok])
  note d = ms_ok_disk(1) [OF rep dur serial]
  from d have rd: "read_entries (rec_codec E) (key_codec E) (schema_tag E) (d_log (disk_of s)) = Ok es"
    and b: "\<exists>b. d_blob (disk_of s) = Some b \<and> record_blob_encode (schema_tag E) (recs_codec E) base = Inr b"
    by (auto simp: disk_holds_def)
  from b have "record_blob_read (schema_tag E) (recs_codec E) (d_blob (disk_of s)) = Ok base"
    using serial tagged_read_encode [of "recs_codec E" genblob_magic genblob_version "schema_tag E" base]
    by (auto simp: record_blob_read_def record_blob_encode_def serial_ok_def)
  with apart rd have "told_apart (merge_log E (merge_log E base es) es) base"
    unfolding told_apart_def records_apart_def by blast
  with reopen_disk [OF rep dur serial d] serves_map show ?thesis by blast
qed

end

lemma no_foreign_labels:
  "map_ok (\<lambda>m. with_foreign_labels m []) (mu_create ME core rels F) = mu_create ME core rels F"
  "map_ok (\<lambda>m. with_foreign_labels m []) (mu_open_portable ME core labels F) = mu_open_portable ME core labels F"
proof -
  have new: "with_foreign_labels (mu_with_path (mu_new i rs) G) [] = mu_with_path (mu_new i rs) G" for i rs G
    by (simp add: with_foreign_labels_def mu_with_path_def mu_new_def)
  show "map_ok (\<lambda>m. with_foreign_labels m []) (mu_create ME core rels F) = mu_create ME core rels F"
    by (cases "multi_create ME rels F") (simp_all add: mu_create_def new)
  show "map_ok (\<lambda>m. with_foreign_labels m []) (mu_open_portable ME core labels F) = mu_open_portable ME core labels F"
    by (auto simp: mu_open_portable_def mu_open_def and_then_def map_ok_def new split: sum.splits)
qed

context mmap_graph
begin

lemma multi_create_core:
  assumes "distinct (map (rid E) rs)" "rels_ok rels" "graph_anchored fl (set (map (rid E) rs)) (rels_graph rels)"
    and "\<And>l. l \<notin> set (map fst rels) \<Longrightarrow> ef_log (mf_edges F l) = None"
  shows "\<exists>m. and_then (ms_create E rs) (\<lambda>core. map_ok (\<lambda>m. with_foreign_labels m fl) (mu_create ME core rels F)) = Ok m \<and>
     mg.mu.winvar m \<and> mg.mu.wview m = keyed (rid E) rs \<and> mu_graph m = rels_graph rels"
proof -
  from core_create [OF assms(1)] obtain core where core: "ms_create E rs = Ok core" "ms_ok E core"
    "ms_map E core = keyed (rid E) rs" by blast
  have "dom (keyed (rid E) rs) = set (map (rid E) rs)" by (force simp: keyed_def dom_map_of_conv_image_fst)
  with assms(3) core(3) have "graph_anchored fl (dom (ms_map E core)) (rels_graph rels)" by simp
  from mg.mu_create_ok [OF core(2) assms(2) this assms(4)] core show ?thesis by auto
qed

lemma multi_reopen_core:
  assumes inv: "mg.mu.winvar m" and F: "mu_files m = Some F"
    and apart: "records_apart E (disk_of (mu_inner m))" "multi_apart ME F"
    and labels: "distinct labels" "set labels \<subseteq> dom (mu_graph m)"
  shows "\<exists>m'. and_then (ms_open_portable E (disk_of (mu_inner m)))
       (\<lambda>core. map_ok (\<lambda>m. with_foreign_labels m fl) (mu_open_portable ME core labels F)) = Ok m' \<and>
     mg.mu.winvar m' \<and> mg.mu.wview m' = mg.mu.wview m \<and> mu_graph m' = mu_graph m"
proof -
  from core_reopen [OF mg.mu.winvarD(1) [OF inv] apart(1)] obtain core where
    core: "ms_open_portable E (disk_of (mu_inner m)) = Ok core" "ms_ok E core" "ms_map E core = mg.mu.wview m"
    by (auto simp: mg.mu.wview_def)
  have "multi_durable ME (mu_graph m) F" using mu_auxD(2) [OF mg.mu.winvarD(2) [OF inv]] F by simp
  moreover have "graph_anchored fl (dom (ms_map E core)) (mu_graph m)"
    using mg.winvar_anchored [OF inv] core(3) by simp
  ultimately show ?thesis using mg.mu_reopen [OF _ apart(2) labels core(2)] core by auto
qed

end

context mmap_named
begin

lemma named_build:
  assumes "mg.mu.winvar m"
  shows "\<exists>s. named_stack E ME names (Ok m) = Some (Ok s) \<and> mn.nx.winvar s \<and> mn.nx.wview s = mg.mu.wview m \<and>
     mu_graph (nx_inner s) = mu_graph m"
proof -
  from ml.nx_new_ok [OF assms] obtain s where
    "nx_new names (mu_ops ME (mmap_ops E)) (mu_all_ids ms_all_ids) m = Some s" "mn.nx.winvar s" "mn.nx.wview s = mg.mu.wview m"
    by blast
  then show ?thesis by (auto simp: named_stack_def nx_new_def)
qed

lemma named_gops_eq: "named_gops E ME names = mn.ng.gops"
  unfolding mn.ng.gops_def by (simp add: named_gops_def)

text \<open>Every read of the stack, from its records and its graph.\<close>

lemma named_reads:
  assumes "mn.nx.winvar s"
  shows "op_get (g_store (named_gops E ME names)) s k = Some (mn.nx.wview s k)"
    and "set (nx_find_by_name s name) = {k. \<exists>r. mn.nx.wview s k = Some r \<and> normalize name \<in> normalize ` set (names r)}"
    and "distinct (nx_find_by_name s name)"
  using mn.nx.w.get_view [OF assms] mn.find_by_name_view [OF assms]
  by (simp_all add: named_gops_def names_of_def)

lemma named_neighbors:
  assumes "mn.nx.winvar s" "mu_graph (nx_inner s) = G"
  shows "map_option set (neighbors_by_relation (nx_inner s) l k) = map_option (\<lambda>R. {b. (k, b) \<in> R}) (G l)"
  using mg.reads_graph(1) [OF mn.nx.winvarD(1) [OF assms(1)], of l k] assms(2)
  by (auto split: option.splits)

end

context mmap_ordered
begin

lemma ordered_build:
  assumes "mg.mu.winvar m"
  shows "\<exists>s. ordered_stack E ME okey (Ok m) = Some (Ok s) \<and> mo.od.winvar s \<and> mo.od.wview s = mg.mu.wview m \<and>
     mu_graph (od_inner s) = mu_graph m"
proof -
  from ml.od_new_ok [OF assms] obtain s where
    "od_new okey (mu_ops ME (mmap_ops E)) (mu_all_ids ms_all_ids) m = Some s" "mo.od.winvar s" "mo.od.wview s = mg.mu.wview m"
    by blast
  then show ?thesis by (auto simp: ordered_stack_def od_new_def)
qed

lemma ordered_gops_eq: "ordered_gops E ME okey re_key = mo.og.gops"
  unfolding mo.og.gops_def by (simp add: ordered_gops_def)

lemma ordered_reads:
  assumes "mo.od.winvar s"
  shows "op_get (g_store (ordered_gops E ME okey re_key)) s k = Some (mo.od.wview s k)"
    and "0 < limit \<Longrightarrow> card (dom (mo.od.wview s)) < fuel \<Longrightarrow>
      concat (od_walk s (\<lambda>k. okey (the (mo.od.wview s k))) limit fuel None) =
        map snd (sorted_list_of_set (order_pairs okey (mo.od.wview s)))"
  using mo.od.w.get_view [OF assms] ml.walk_all [OF assms, of limit fuel]
  by (simp_all add: ordered_gops_def)

lemma ordered_neighbors:
  assumes "mo.od.winvar s" "mu_graph (od_inner s) = G"
  shows "map_option set (neighbors_by_relation (od_inner s) l k) = map_option (\<lambda>R. {b. (k, b) \<in> R}) (G l)"
  using mg.reads_graph(1) [OF mo.od.winvarD(1) [OF assms(1)], of l k] assms(2)
  by (auto split: option.splits)

end

section \<open>Runs\<close>

text \<open>A label, once created, stays.\<close>

lemma spec_labels_stay:
  "dom (snd st) \<subseteq> dom (snd (snd (g_spec_run key setv fl st ops)))"
proof (induction ops arbitrary: st)
  case (Cons op ops)
  obtain x st' where st': "g_spec key setv fl st op = (x, st')" by (cases "g_spec key setv fl st op")
  obtain m G where st: "st = (m, G)" by (cases st)
  have "dom (snd st) \<subseteq> dom (snd st')"
    using st' by (cases op) (auto simp: st g_spec_def graph_link_def graph_detach_def Let_def split: option.splits prod.splits if_splits)
  also have "\<dots> \<subseteq> dom (snd (snd (g_spec_run key setv fl st' ops)))" by (rule Cons.IH)
  finally show ?case by (simp add: st' case_prod_unfold)
qed simp

context mmap_named
begin

lemma named_run:
  assumes "distinct (map (rid E) rs)" "rels_ok rels" "graph_anchored fl (set (map (rid E) rs)) (rels_graph rels)"
    and "\<And>l. l \<notin> set (map fst rels) \<Longrightarrow> ef_log (mf_edges F l) = None"
    and ops: "\<forall>op \<in> set ops. g_op_ok (encodes_small (rec_codec E)) (mmap_okv E) op"
    and spec: "(xs, m, G) = g_spec_run (rid E) (set_scannable_value E) fl (keyed (rid E) rs, rels_graph rels) ops"
  shows "\<exists>s0 s. named_stack E ME names (and_then (ms_create E rs)
       (\<lambda>core. map_ok (\<lambda>m. with_foreign_labels m fl) (mu_create ME core rels F))) = Some (Ok s0) \<and>
     g_run (named_gops E ME names) s0 ops = Some (xs, s) \<and> mn.nx.winvar s \<and> mn.nx.wview s = m \<and> mu_graph (nx_inner s) = G"
proof -
  from multi_create_core [OF assms(1-4)] obtain m0 where m0:
    "and_then (ms_create E rs) (\<lambda>core. map_ok (\<lambda>m. with_foreign_labels m fl) (mu_create ME core rels F)) = Ok m0"
    "mg.mu.winvar m0" "mg.mu.wview m0 = keyed (rid E) rs" "mu_graph m0 = rels_graph rels" by auto
  from named_build [OF m0(2)] obtain s0 where s0: "named_stack E ME names (Ok m0) = Some (Ok s0)" "mn.nx.winvar s0"
    "mn.nx.wview s0 = keyed (rid E) rs" "mu_graph (nx_inner s0) = rels_graph rels" using m0(3,4) by auto
  from mn.ng.wg.g_run_refines [OF s0(2) ops] show ?thesis
    unfolding named_gops_eq s0(3,4) spec [symmetric] using m0(1) s0(1) by auto
qed

lemma named_integrity:
  assumes "mn.nx.winvar s"
  shows "graph_anchored fl (dom (mn.nx.wview s)) (mu_graph (nx_inner s))"
  using mg.winvar_anchored [OF mn.nx.winvarD(1) [OF assms]] by (simp add: mn.nx.wview_def)

lemma named_mu_aux: "mn.nx.winvar s \<Longrightarrow> mu_aux ME fl (ms_map E (mu_inner (nx_inner s))) (nx_inner s)"
  using mg.mu.winvarD(2) [OF mn.nx.winvarD(1)] by blast

lemma named_relation:
  assumes "mn.nx.winvar s" "mu_graph (nx_inner s) l = Some R"
  shows "sym R \<and> irrefl R"
  using assms(2) mu_auxD(3) [OF mg.mu.winvarD(2) [OF mn.nx.winvarD(1) [OF assms(1)]], of l]
  by (auto simp: mu_graph_def adj_ok_def)

lemma named_reopen:
  assumes inv: "mn.nx.winvar s" and F: "mu_files (nx_inner s) = Some F"
    and apart: "records_apart E (disk_of (mu_inner (nx_inner s)))" "multi_apart ME F"
    and labels: "distinct labels" "set labels \<subseteq> dom (mu_graph (nx_inner s))"
  shows "\<exists>s'. named_stack E ME names (and_then (ms_open_portable E (disk_of (mu_inner (nx_inner s))))
       (\<lambda>core. map_ok (\<lambda>m. with_foreign_labels m fl) (mu_open_portable ME core labels F))) = Some (Ok s') \<and>
     mn.nx.winvar s' \<and> mn.nx.wview s' = mn.nx.wview s \<and> mu_graph (nx_inner s') = mu_graph (nx_inner s)"
proof -
  from multi_reopen_core [OF mn.nx.winvarD(1) [OF inv] F apart labels] obtain m' where m':
    "and_then (ms_open_portable E (disk_of (mu_inner (nx_inner s))))
       (\<lambda>core. map_ok (\<lambda>m. with_foreign_labels m fl) (mu_open_portable ME core labels F)) = Ok m'"
    "mg.mu.winvar m'" "mg.mu.wview m' = mg.mu.wview (nx_inner s)" "mu_graph m' = mu_graph (nx_inner s)" by auto
  from named_build [OF m'(2)] m' show ?thesis by (auto simp: mn.nx.wview_def)
qed

end

context mmap_ordered
begin

lemma ordered_run:
  assumes "distinct (map (rid E) rs)" "rels_ok rels" "graph_anchored fl (set (map (rid E) rs)) (rels_graph rels)"
    and "\<And>l. l \<notin> set (map fst rels) \<Longrightarrow> ef_log (mf_edges F l) = None"
    and ops: "\<forall>op \<in> set ops. g_op_ok (encodes_small (rec_codec E)) (mmap_okv E) op"
    and spec: "(xs, m, G) = g_spec_run (rid E) (set_scannable_value E) fl (keyed (rid E) rs, rels_graph rels) ops"
  shows "\<exists>s0 s. ordered_stack E ME okey (and_then (ms_create E rs)
       (\<lambda>core. map_ok (\<lambda>m. with_foreign_labels m fl) (mu_create ME core rels F))) = Some (Ok s0) \<and>
     g_run (ordered_gops E ME okey re_key) s0 ops = Some (xs, s) \<and> mo.od.winvar s \<and> mo.od.wview s = m \<and> mu_graph (od_inner s) = G"
proof -
  from multi_create_core [OF assms(1-4)] obtain m0 where m0:
    "and_then (ms_create E rs) (\<lambda>core. map_ok (\<lambda>m. with_foreign_labels m fl) (mu_create ME core rels F)) = Ok m0"
    "mg.mu.winvar m0" "mg.mu.wview m0 = keyed (rid E) rs" "mu_graph m0 = rels_graph rels" by auto
  from ordered_build [OF m0(2)] obtain s0 where s0: "ordered_stack E ME okey (Ok m0) = Some (Ok s0)" "mo.od.winvar s0"
    "mo.od.wview s0 = keyed (rid E) rs" "mu_graph (od_inner s0) = rels_graph rels" using m0(3,4) by auto
  from mo.og.wg.g_run_refines [OF s0(2) ops] show ?thesis
    unfolding ordered_gops_eq s0(3,4) spec [symmetric] using m0(1) s0(1) by auto
qed

lemma ordered_mu_aux: "mo.od.winvar s \<Longrightarrow> mu_aux ME fl (ms_map E (mu_inner (od_inner s))) (od_inner s)"
  using mg.mu.winvarD(2) [OF mo.od.winvarD(1)] by blast

lemma ordered_index: "mo.od.winvar s \<Longrightarrow> od_index s = order_pairs okey (mo.od.wview s)"
  using mo.od.winvarD(2) by (simp add: od_aux_def mo.od.wview_def)

lemma ordered_reopen:
  assumes inv: "mo.od.winvar s" and F: "mu_files (od_inner s) = Some F"
    and apart: "records_apart E (disk_of (mu_inner (od_inner s)))" "multi_apart ME F"
    and labels: "distinct labels" "set labels \<subseteq> dom (mu_graph (od_inner s))"
  shows "\<exists>s'. ordered_stack E ME okey (and_then (ms_open_portable E (disk_of (mu_inner (od_inner s))))
       (\<lambda>core. map_ok (\<lambda>m. with_foreign_labels m fl) (mu_open_portable ME core labels F))) = Some (Ok s') \<and>
     mo.od.winvar s' \<and> mo.od.wview s' = mo.od.wview s \<and> mu_graph (od_inner s') = mu_graph (od_inner s)"
proof -
  from multi_reopen_core [OF mo.od.winvarD(1) [OF inv] F apart labels] obtain m' where m':
    "and_then (ms_open_portable E (disk_of (mu_inner (od_inner s))))
       (\<lambda>core. map_ok (\<lambda>m. with_foreign_labels m fl) (mu_open_portable ME core labels F)) = Ok m'"
    "mg.mu.winvar m'" "mg.mu.wview m' = mg.mu.wview (od_inner s)" "mu_graph m' = mu_graph (od_inner s)" by auto
  from ordered_build [OF m'(2)] m' show ?thesis by (auto simp: mo.od.wview_def)
qed

end

section \<open>The domains\<close>

definition lawful_entity :: "entity bincode \<Rightarrow> entity list bincode \<Rightarrow> uuid bincode \<Rightarrow> uuid multi_env \<Rightarrow> bool" where
  "lawful_entity c cs ck ME \<longleftrightarrow> serial_ok (entity_env c cs ck) \<and> multi_serial_ok ME"

definition lawful_memory :: "memory bincode \<Rightarrow> memory list bincode \<Rightarrow> uuid bincode \<Rightarrow> uuid multi_env \<Rightarrow> bool" where
  "lawful_memory c cs ck ME \<longleftrightarrow> serial_ok (memory_env c cs ck) \<and> multi_serial_ok ME"

lemma entity_stack: "lawful_entity c cs ck ME \<Longrightarrow> mmap_named (entity_env c cs ck) ME entity_index_keys"
  by (intro mmap_named.intro mmap_graph.intro serial_mmap.intro entity_store.mmap_layer_axioms)
    (auto simp: lawful_entity_def serial_mmap_axioms_def mmap_graph_axioms_def mmap_named_axioms_def entity_env_def
      entity_index_keys_def)

lemma memory_stack: "lawful_memory c cs ck ME \<Longrightarrow> mmap_ordered (memory_env c cs ck) ME memory_order_key False"
  by (intro mmap_ordered.intro mmap_graph.intro serial_mmap.intro memory_store.mmap_layer_axioms)
    (auto simp: lawful_memory_def serial_mmap_axioms_def mmap_graph_axioms_def mmap_ordered_axioms_def memory_env_def
      memory_order_key_def)

end
