(* ===== verification/Stack_Properties.thy ===== *)
theory Stack_Properties
  imports Stacks
begin

text \<open>
  The properties of the entity and memory stacks: functional correctness against a map and a graph,
  referential integrity, keyset pages, name lookup, reopening from the files. \<open>c\<close>, \<open>cs\<close>, \<open>ck\<close> and \<open>ME\<close>
  are the serialisers; the witnesses take those of \<open>Domains\<close>.
\<close>

section \<open>Inputs\<close>

definition entity_rels :: "(uuid \<times> uuid) list \<Rightarrow> (uuid \<times> uuid) list \<Rightarrow> (string \<times> (uuid \<times> uuid) list) list" where
  "entity_rels relates mentioned = [(entity_relation_labels ! 0, relates), (entity_relation_labels ! 1, mentioned)]"

definition memory_rels :: "(uuid \<times> uuid) list \<Rightarrow> (string \<times> (uuid \<times> uuid) list) list" where
  "memory_rels mentions = [(memory_relation_labels ! 0, mentions)]"

text \<open>
  What a fresh stack is built from: distinct ids, edge lists without self-loops or repeated edges,
  whose ends are records (under a foreign label \<open>fl\<close> one of them), in a directory without edge logs.
\<close>

definition start_ok :: "string list \<Rightarrow> uuid list \<Rightarrow> (string \<times> (uuid \<times> uuid) list) list \<Rightarrow> multi_files \<Rightarrow> bool" where
  "start_ok fl ids rels F \<longleftrightarrow> distinct ids \<and> rels_ok rels \<and> graph_anchored fl (set ids) (rels_graph rels) \<and>
     (\<forall>l. ef_log (mf_edges F l) = None)"

definition entity_ops_ok :: "entity bincode \<Rightarrow> (uuid, entity, i64) g_op list \<Rightarrow> bool" where
  "entity_ops_ok c ops \<longleftrightarrow> (\<forall>op \<in> set ops. g_op_ok (encodes_small c) (\<lambda>_. True) op)"

definition memory_ops_ok :: "memory bincode \<Rightarrow> (uuid, memory, i64) g_op list \<Rightarrow> bool" where
  "memory_ops_ok c ops \<longleftrightarrow> (\<forall>op \<in> set ops. g_op_ok (encodes_small c) (\<lambda>_. True) op)"

lemma entity_env_simps [simp]:
  "rid (entity_env c cs ck) = ent_id" "rec_codec (entity_env c cs ck) = c"
  "mmap_okv (entity_env c cs ck) = (\<lambda>_. True)"
  by (simp_all add: entity_env_def mmap_okv_def fun_eq_iff)

lemma memory_env_simps [simp]:
  "rid (memory_env c cs ck) = mem_id" "rec_codec (memory_env c cs ck) = c"
  "mmap_okv (memory_env c cs ck) = (\<lambda>_. True)"
  by (simp_all add: memory_env_def mmap_okv_def fun_eq_iff)

lemma create_entity_unfold:
  "create_entity_production_stack E ME entities es1 es2 F =
     named_stack E ME entity_index_keys (and_then (ms_create E entities)
       (\<lambda>core. map_ok (\<lambda>m. with_foreign_labels m []) (mu_create ME core (entity_rels es1 es2) F)))"
  unfolding no_foreign_labels by (simp add: create_entity_production_stack_def entity_rels_def)

lemma map_ok_and_then: "map_ok f (and_then r g) = and_then r (\<lambda>x. map_ok f (g x))"
  by (cases r) simp_all

lemma open_entity_unfold:
  "open_entity_production_stack_portable E ME d F =
     named_stack E ME entity_index_keys (and_then (ms_open_portable E d)
       (\<lambda>core. map_ok (\<lambda>m. with_foreign_labels m []) (mu_open_portable ME core entity_relation_labels F)))"
  unfolding no_foreign_labels
  by (cases "read_portable_records E d") (simp_all add: open_entity_production_stack_portable_def ms_open_portable_def)

lemma create_memory_unfold:
  "create_memory_production_stack E ME memories es F =
     ordered_stack E ME memory_order_key (and_then (ms_create E memories)
       (\<lambda>core. map_ok (\<lambda>m. with_foreign_labels m memory_relation_labels) (mu_create ME core (memory_rels es) F)))"
  by (simp add: create_memory_production_stack_def memory_rels_def)

lemma entity_start:
  assumes "start_ok [] (map ent_id entities) (entity_rels es1 es2) F" "entity_ops_ok c ops" "lawful_entity c cs ck ME"
    and "(xs, m, G) = g_spec_run ent_id (set_scannable_value (entity_env c cs ck)) []
      (keyed ent_id entities, rels_graph (entity_rels es1 es2)) ops"
  shows "\<exists>s0 s. create_entity_production_stack (entity_env c cs ck) ME entities es1 es2 F = Some (Ok s0) \<and>
     g_run (named_gops (entity_env c cs ck) ME entity_index_keys) s0 ops = Some (xs, s) \<and>
     wrapping_layer.winvar (wrapping_layer.winvar (ms_ok (entity_env c cs ck)) (ms_map (entity_env c cs ck)) mu_inner (mu_aux ME []))
       (wrapping_layer.wview (ms_map (entity_env c cs ck)) mu_inner) nx_inner (nx_aux entity_index_keys) s \<and>
     wrapping_layer.wview (wrapping_layer.wview (ms_map (entity_env c cs ck)) mu_inner) nx_inner s = m \<and> mu_graph (nx_inner s) = G"
  using mmap_named.named_run [OF entity_stack [OF assms(3)], where rs = entities and fl = "[]" and
      rels = "entity_rels es1 es2" and F = F and ops = ops and xs = xs and m = m and G = G]
    assms(1,2,4)
  unfolding create_entity_unfold by (simp add: start_ok_def entity_ops_ok_def)

section \<open>The entity stack\<close>

text \<open>C1. Functional correctness of the entity stack (\<open>NameIndex\<close> over \<open>MultiSymmetric\<close> over
  \<open>GenericMmapStore\<close>). For any sequence of inserts, replaces, deletes, updates, links, detaches and
  compactions on a fresh stack no call panics, and every reply, the refusals with the error they
  carry included, is the one the same calls on a map and a graph give; afterwards every \<open>get\<close>
  answers that map, \<open>find_by_name\<close> lists, once each, exactly the records with a key that normalises
  alike, and the neighbours under every label are the graph's.\<close>

theorem entity_stack_refines:
  assumes "lawful_entity c cs ck ME"
    and "start_ok [] (map ent_id entities) (entity_rels es1 es2) F" and "entity_ops_ok c ops"
  shows "case g_spec_run ent_id (set_scannable_value (entity_env c cs ck)) []
       (keyed ent_id entities, rels_graph (entity_rels es1 es2)) ops of (xs, m, G) \<Rightarrow>
     \<exists>s0 s. create_entity_production_stack (entity_env c cs ck) ME entities es1 es2 F = Some (Ok s0) \<and>
       g_run (named_gops (entity_env c cs ck) ME entity_index_keys) s0 ops = Some (xs, s) \<and>
       (\<forall>k. op_get (g_store (named_gops (entity_env c cs ck) ME entity_index_keys)) s k = Some (m k)) \<and>
       (\<forall>name. distinct (nx_find_by_name s name) \<and>
         set (nx_find_by_name s name) = {k. \<exists>r. m k = Some r \<and> normalize name \<in> normalize ` set (entity_index_keys r)}) \<and>
       (\<forall>l k. map_option set (neighbors_by_relation (nx_inner s) l k) = map_option (\<lambda>R. {b. (k, b) \<in> R}) (G l))"
proof -
  note st = entity_stack [OF assms(1)]
  obtain xs m G where spec: "(xs, m, G) = g_spec_run ent_id (set_scannable_value (entity_env c cs ck)) []
      (keyed ent_id entities, rels_graph (entity_rels es1 es2)) ops"
    by (cases "g_spec_run ent_id (set_scannable_value (entity_env c cs ck)) []
      (keyed ent_id entities, rels_graph (entity_rels es1 es2)) ops") auto
  from entity_start [OF assms(2,3,1) spec] mmap_named.named_reads [OF st] mmap_named.named_neighbors [OF st]
  show ?thesis unfolding spec [symmetric] by fastforce
qed

definition ada :: entity where
  "ada = \<lparr>ent_id = 1, ent_label = ''Ada'', ent_kind = ''person'', mention_count = 0, aliases = [''Countess  Lovelace'']\<rparr>"

definition babbage :: entity where
  "babbage = \<lparr>ent_id = 2, ent_label = ''Charles Babbage'', ent_kind = ''person'', mention_count = 3, aliases = []\<rparr>"

lemma demo_entity_lawful: "lawful_entity (wire_codec w_entity) (wire_codec (w_list w_entity)) (fixed_codec uuid_field) (demo_multi tag)"
  using demo_serial(1) demo_multi_serial by (simp add: lawful_entity_def demo_entities_def)

definition empty_files :: multi_files where
  "empty_files = \<lparr>mf_manifest = None, mf_edges = \<lambda>_. no_files\<rparr>"

lemma demo_entity_start: "start_ok [] (map ent_id [ada, babbage]) (entity_rels [(1, 2)] []) empty_files"
  by (auto simp: start_ok_def entity_rels_def entity_relation_labels_def rels_ok_def edges_ok_def rels_graph_def
      graph_anchored_def anchored_def sym_rel_def ada_def babbage_def empty_files_def no_files_def split: if_splits)

lemma demo_entity_small: "encodes_small (wire_codec w_entity) ada" "encodes_small (wire_codec w_entity) babbage"
  by (simp_all add: encodes_small_def wire_codec_def w_entity_def w_conv_def w_pair_def w_uuid_def w_word_def w_string_def
      w_list_def put_many_def w_char_def w_i64_def ada_def babbage_def)

theorem entity_stack_refines_witness:
  "case g_spec_run ent_id (set_scannable_value (entity_env (wire_codec w_entity) (wire_codec (w_list w_entity)) (fixed_codec uuid_field))) []
       (keyed ent_id [ada, babbage], rels_graph (entity_rels [(1, 2)] []))
       [GLink ''mentioned_with'' 2 1, GDelete 1, GInsert ada] of (xs, m, G) \<Rightarrow>
     \<exists>s0 s. create_entity_production_stack (entity_env (wire_codec w_entity) (wire_codec (w_list w_entity)) (fixed_codec uuid_field))
         (demo_multi []) [ada, babbage] [(1, 2)] [] empty_files = Some (Ok s0) \<and>
       g_run (named_gops (entity_env (wire_codec w_entity) (wire_codec (w_list w_entity)) (fixed_codec uuid_field)) (demo_multi [])
           entity_index_keys) s0 [GLink ''mentioned_with'' 2 1, GDelete 1, GInsert ada] = Some (xs, s) \<and>
       (\<forall>k. op_get (g_store (named_gops (entity_env (wire_codec w_entity) (wire_codec (w_list w_entity)) (fixed_codec uuid_field))
           (demo_multi []) entity_index_keys)) s k = Some (m k)) \<and>
       (\<forall>name. distinct (nx_find_by_name s name) \<and>
         set (nx_find_by_name s name) = {k. \<exists>r. m k = Some r \<and> normalize name \<in> normalize ` set (entity_index_keys r)}) \<and>
       (\<forall>l k. map_option set (neighbors_by_relation (nx_inner s) l k) = map_option (\<lambda>R. {b. (k, b) \<in> R}) (G l))"
  by (rule entity_stack_refines [OF demo_entity_lawful demo_entity_start])
    (simp add: entity_ops_ok_def g_op_ok_def demo_entity_small)

text \<open>C11. Referential integrity. Whatever calls were made on a fresh entity stack, deletes included,
  every edge that a neighbour query shows has both ends among the stored records, shows from both
  ends, and is no self-loop.\<close>

theorem entity_edges_have_records:
  assumes "lawful_entity c cs ck ME"
    and "start_ok [] (map ent_id entities) (entity_rels es1 es2) F" and "entity_ops_ok c ops"
    and "create_entity_production_stack (entity_env c cs ck) ME entities es1 es2 F = Some (Ok s0)"
    and "g_run (named_gops (entity_env c cs ck) ME entity_index_keys) s0 ops = Some (xs, s)"
    and "neighbors_by_relation (nx_inner s) l a = Some ns" and "b \<in> set ns"
  shows "op_get (g_store (named_gops (entity_env c cs ck) ME entity_index_keys)) s a \<noteq> Some None \<and>
     op_get (g_store (named_gops (entity_env c cs ck) ME entity_index_keys)) s b \<noteq> Some None \<and> a \<noteq> b \<and>
     (\<exists>ms. neighbors_by_relation (nx_inner s) l b = Some ms \<and> a \<in> set ms)"
proof -
  note st = entity_stack [OF assms(1)]
  obtain ys m G where spec: "(ys, m, G) = g_spec_run ent_id (set_scannable_value (entity_env c cs ck)) []
      (keyed ent_id entities, rels_graph (entity_rels es1 es2)) ops"
    by (cases "g_spec_run ent_id (set_scannable_value (entity_env c cs ck)) []
      (keyed ent_id entities, rels_graph (entity_rels es1 es2)) ops") auto
  from entity_start [OF assms(2,3,1) spec] assms(4,5) have
    inv: "wrapping_layer.winvar (wrapping_layer.winvar (ms_ok (entity_env c cs ck)) (ms_map (entity_env c cs ck)) mu_inner (mu_aux ME []))
       (wrapping_layer.wview (ms_map (entity_env c cs ck)) mu_inner) nx_inner (nx_aux entity_index_keys) s"
    and m: "wrapping_layer.wview (wrapping_layer.wview (ms_map (entity_env c cs ck)) mu_inner) nx_inner s = m"
    and G: "mu_graph (nx_inner s) = G" by auto
  have nb: "map_option set (neighbors_by_relation (nx_inner s) l k) = map_option (\<lambda>R. {b. (k, b) \<in> R}) (G l)" for k
    by (rule mmap_named.named_neighbors [OF st inv G])
  from nb [of a] assms(6) obtain R where "G l = Some R" "set ns = {b. (a, b) \<in> R}" by (cases "G l") auto
  with assms(7) have R: "G l = Some R" "(a, b) \<in> R" by auto
  from mmap_named.named_relation [OF st inv, of l R] R(1) G have rel: "sym R" "irrefl R" by auto
  have "graph_anchored [] (dom m) G" using mmap_named.named_integrity [OF st, where fl = "[]", OF inv] m G by simp
  with R(1) have "anchored False (dom m) R" by (auto simp: graph_anchored_def)
  with R(2) have "a \<in> dom m" "b \<in> dom m" by (auto simp: anchored_def)
  moreover have "a \<noteq> b" using rel(2) R(2) by (auto simp: irrefl_def)
  moreover have "(b, a) \<in> R" using rel(1) R(2) by (auto simp: sym_def)
  ultimately show ?thesis
    using mmap_named.named_reads(1) [OF st inv] m nb [of b] R(1) by auto
qed

abbreviation demo_entity_env :: "(uuid, string, i64, entity) store_env" where
  "demo_entity_env \<equiv> entity_env (wire_codec w_entity) (wire_codec (w_list w_entity)) (fixed_codec uuid_field)"

lemma demo_entity_run:
  "\<exists>s0 s xs ns. create_entity_production_stack demo_entity_env (demo_multi []) [ada, babbage] [(1, 2)] [] empty_files = Some (Ok s0) \<and>
     g_run (named_gops demo_entity_env (demo_multi []) entity_index_keys) s0 [GUpdate 1 7, GReplace babbage] = Some (xs, s) \<and>
     neighbors_by_relation (nx_inner s) ''relates_to'' 1 = Some ns \<and> 2 \<in> set ns"
proof -
  let ?ops = "[GUpdate 1 7, GReplace babbage] :: (uuid, entity, i64) g_op list"
  have ok: "entity_ops_ok (wire_codec w_entity) ?ops" by (simp add: entity_ops_ok_def g_op_ok_def demo_entity_small)
  obtain xs m G where spec: "(xs, m, G) = g_spec_run ent_id (set_scannable_value demo_entity_env) []
      (keyed ent_id [ada, babbage], rels_graph (entity_rels [(1, 2)] [])) ?ops"
    by (cases "g_spec_run ent_id (set_scannable_value demo_entity_env) []
      (keyed ent_id [ada, babbage], rels_graph (entity_rels [(1, 2)] [])) ?ops") auto
  then have "G = rels_graph (entity_rels [(1, 2)] [])" by (simp add: g_spec_def split: option.splits if_splits)
  then have G: "G ''relates_to'' = Some {(1, 2), (2, 1)}"
    by (auto simp: entity_rels_def entity_relation_labels_def rels_graph_def sym_rel_def)
  from entity_start [OF demo_entity_start ok demo_entity_lawful spec] obtain s0 s where
    s: "create_entity_production_stack demo_entity_env (demo_multi []) [ada, babbage] [(1, 2)] [] empty_files = Some (Ok s0)"
      "g_run (named_gops demo_entity_env (demo_multi []) entity_index_keys) s0 ?ops = Some (xs, s)"
      "wrapping_layer.winvar (wrapping_layer.winvar (ms_ok demo_entity_env) (ms_map demo_entity_env) mu_inner (mu_aux (demo_multi []) []))
       (wrapping_layer.wview (ms_map demo_entity_env) mu_inner) nx_inner (nx_aux entity_index_keys) s"
      "mu_graph (nx_inner s) = G" by blast
  from mmap_named.named_neighbors [OF entity_stack [OF demo_entity_lawful] s(3,4), of "''relates_to''" 1] G
  show ?thesis using s(1,2) by (cases "neighbors_by_relation (nx_inner s) ''relates_to'' 1") auto
qed

theorem entity_edges_have_records_witness:
  "\<exists>s0 s xs ns. create_entity_production_stack demo_entity_env (demo_multi []) [ada, babbage] [(1, 2)] [] empty_files = Some (Ok s0) \<and>
     g_run (named_gops demo_entity_env (demo_multi []) entity_index_keys) s0 [GUpdate 1 7, GReplace babbage] = Some (xs, s) \<and>
     neighbors_by_relation (nx_inner s) ''relates_to'' 1 = Some ns \<and> 2 \<in> set ns \<and>
     op_get (g_store (named_gops demo_entity_env (demo_multi []) entity_index_keys)) s 1 \<noteq> Some None \<and>
     op_get (g_store (named_gops demo_entity_env (demo_multi []) entity_index_keys)) s 2 \<noteq> Some None \<and> (1 :: uuid) \<noteq> 2 \<and>
     (\<exists>ms. neighbors_by_relation (nx_inner s) ''relates_to'' 2 = Some ms \<and> 1 \<in> set ms)"
proof -
  have ok: "entity_ops_ok (wire_codec w_entity) [GUpdate 1 7, GReplace babbage]"
    by (simp add: entity_ops_ok_def g_op_ok_def demo_entity_small)
  from demo_entity_run obtain s0 s xs ns where
    s: "create_entity_production_stack demo_entity_env (demo_multi []) [ada, babbage] [(1, 2)] [] empty_files = Some (Ok s0)"
      "g_run (named_gops demo_entity_env (demo_multi []) entity_index_keys) s0 [GUpdate 1 7, GReplace babbage] = Some (xs, s)"
      "neighbors_by_relation (nx_inner s) ''relates_to'' 1 = Some ns" "2 \<in> set ns" by blast
  from entity_edges_have_records [OF demo_entity_lawful demo_entity_start ok s] s show ?thesis by blast
qed

end
