(* ===== verification/Stack_Runs.thy ===== *)
theory Stack_Runs
  imports Stack_Properties
begin

text \<open>
  Runs that end in a compaction, and reopening after them: the logs are gone, so that the reopened
  stack compares every blob with its own list and no hash collision can mislead it.
\<close>

section \<open>The files stay\<close>

lemma g_run_snoc:
  "g_run G s (ops @ [op]) = Some (ys, s') \<Longrightarrow> \<exists>xs x s1. g_run G s ops = Some (xs, s1) \<and> g_step G s1 op = Some (x, s') \<and> ys = xs @ [x]"
  by (induction ops arbitrary: s ys) (fastforce split: option.splits)+

lemma g_spec_run_compact:
  "g_spec_run key setv fl st (ops @ [GCompact]) =
     (case g_spec_run key setv fl st ops of (xs, st') \<Rightarrow> (xs @ [RCompact (Inr ())], st'))"
  by (induction ops arbitrary: st) (auto simp: g_spec_def split: prod.splits)

lemma detach_under_files: "mu_files s \<noteq> None \<Longrightarrow> mu_files (snd (mu_detach_under E s l k)) \<noteq> None"
  by (auto simp: mu_detach_under_def on_label_def map_ok_def Let_def split: option.splits sum.splits prod.splits)

lemma detach_all_files: "mu_files s \<noteq> None \<Longrightarrow> mu_files (snd (detach_all E s ls k)) \<noteq> None"
proof (induction ls arbitrary: s)
  case (Cons l ls)
  obtain r t where rt: "mu_detach_under E s l k = (r, t)" by fastforce
  then have "mu_files t \<noteq> None" using detach_under_files [OF Cons.prems, of E l k] by simp
  with Cons.IH rt show ?case by (cases r) auto
qed simp

lemma link_under_files:
  "mu_files s \<noteq> None \<Longrightarrow> mu_link_under E s l adj a b = Some (x, s') \<Longrightarrow> mu_files s' \<noteq> None"
  by (auto simp: mu_link_under_def on_label_def map_ok_def split: option.splits sum.splits if_splits)

lemma link_files:
  assumes "mu_files s \<noteq> None" "mu_link E Ops s l a b = Some (x, s')"
  shows "mu_files s' \<noteq> None"
proof -
  from assms(1) obtain F where F: "mu_files s = Some F" by auto
  obtain r F' where c: "create_label E l F = (r, F')" by fastforce
  show ?thesis
    using assms(2) F c
    by (auto simp: mu_link_def split: option.splits sum.splits if_splits bool.splits dest: link_under_files [rotated])
qed

lemma mu_put_files [simp]: "mu_files (mu_put s i) = mu_files s"
  by (simp add: mu_put_def)

lemma mu_step_files:
  assumes "g_step (mu_gops E Ops update) s op = Some (x, s')" "mu_files s \<noteq> None"
  shows "mu_files s' \<noteq> None"
proof (cases op)
  case (GDelete k)
  with assms show ?thesis
    using detach_all_files [of "mu_put s _" E "map fst (mu_adjacency s)" k]
    by (auto simp: g_step_def mu_ops_def mu_delete_def through_def mu_put_def split: option.splits sum.splits prod.splits)
      (metis mu_put_def mu_put_files option.distinct(1) snd_conv)+
next
  case (GLink l a b)
  with assms show ?thesis by (auto simp: g_step_def dest: link_files [rotated])
next
  case (GDetach l k)
  with assms detach_under_files [of s E l k] show ?thesis
    by (cases "mu_detach_under E s l k") (auto simp: g_step_def mu_detach_def)
next
  case GCompact
  with assms show ?thesis
    by (auto simp: g_step_def mu_ops_def mu_compact_def through_def split: option.splits sum.splits prod.splits)
qed (use assms in \<open>auto simp: g_step_def mu_ops_def mu_insert_def mu_replace_def mu_update_def forward_def\<close>)

text \<open>What the layers above do to the inner stack is a step of it, or nothing.\<close>

lemma named_step_inner:
  assumes "g_step (named_gops E ME names) s op = Some (x, s')"
  shows "nx_inner s' = nx_inner s \<or> (\<exists>y. g_step (mu_gops ME (mmap_ops E) (mmap_update E)) (nx_inner s) op = Some (y, nx_inner s'))"
  using assms
  by (cases op)
    (auto simp: g_step_def named_gops_def nx_ops_def nx_insert_def nx_replace_def nx_delete_def nx_update_def nx_compact_def
      fwd_link_def fwd_detach_def nx_put_def through_def forward_def Let_def map_prod_def
      split: option.splits sum.splits prod.splits if_splits)

lemma ordered_step_inner:
  assumes "g_step (ordered_gops E ME okey re_key) s op = Some (x, s')"
  shows "od_inner s' = od_inner s \<or> (\<exists>y. g_step (mu_gops ME (mmap_ops E) (mmap_update E)) (od_inner s) op = Some (y, od_inner s'))"
  using assms
  by (cases op)
    (auto simp: g_step_def ordered_gops_def od_ops_def od_insert_def od_replace_def od_delete_def od_update_def od_compact_def
      fwd_link_def fwd_detach_def od_put_def through_def forward_def Let_def map_prod_def
      split: option.splits sum.splits prod.splits if_splits)

lemma named_run_files:
  "g_run (named_gops E ME names) s ops = Some (xs, s') \<Longrightarrow> mu_files (nx_inner s) \<noteq> None \<Longrightarrow> mu_files (nx_inner s') \<noteq> None"
proof (induction ops arbitrary: s xs)
  case (Cons op ops)
  then obtain x s1 ys where s1: "g_step (named_gops E ME names) s op = Some (x, s1)" "g_run (named_gops E ME names) s1 ops = Some (ys, s')"
    by (auto split: option.splits)
  have "mu_files (nx_inner s1) \<noteq> None"
    using named_step_inner [OF s1(1)] mu_step_files Cons.prems(2) by metis
  from Cons.IH [OF s1(2) this] show ?case .
qed simp

lemma ordered_run_files:
  "g_run (ordered_gops E ME okey re_key) s ops = Some (xs, s') \<Longrightarrow> mu_files (od_inner s) \<noteq> None \<Longrightarrow> mu_files (od_inner s') \<noteq> None"
proof (induction ops arbitrary: s xs)
  case (Cons op ops)
  then obtain x s1 ys where s1: "g_step (ordered_gops E ME okey re_key) s op = Some (x, s1)"
    "g_run (ordered_gops E ME okey re_key) s1 ops = Some (ys, s')" by (auto split: option.splits)
  have "mu_files (od_inner s1) \<noteq> None"
    using ordered_step_inner [OF s1(1)] mu_step_files Cons.prems(2) by metis
  from Cons.IH [OF s1(2) this] show ?case .
qed simp

section \<open>A compaction clears the logs\<close>

lemma compact_relations_log:
  "compact_relations E adjs F = (Inr n, F') \<Longrightarrow>
     ef_log (mf_edges F' l) = (if l \<in> set (map fst adjs) then None else ef_log (mf_edges F l))"
proof (induction adjs arbitrary: F n)
  case (Cons p adjs)
  obtain label adj where p: "p = (label, adj)" by (cases p)
  with Cons.prems obtain folded f r where f: "compact_edge_blob E adj (mf_edges F label) = Ok (folded, f)"
    "compact_relations E adjs (put_edges label f F) = (Inr r, F')"
    by (auto simp: map_ok_def split: sum.splits prod.splits)
  from f(1) have "ef_log f = None"
    by (auto simp: compact_edge_blob_def and_then_def map_ok_def log_clear_def Let_def split: sum.splits if_splits)
  with Cons.IH [OF f(2)] p show ?case by auto
qed simp

definition logs_clear :: "('id, 'iv, 'r) mmap_multi \<Rightarrow> bool" where
  "logs_clear m \<longleftrightarrow> ms_log (mu_inner m) = None \<and> (\<forall>l. ef_log (mf_edges (the (mu_files m)) l) = None)"

lemma mmap_compact_no_log: "op_compact (mmap_ops E) s = Some (Inr rep, s') \<Longrightarrow> ms_log s' = None"
  by (auto simp: mmap_ops_def ms_compact_def log_clear_def map_ok_def split: option.splits sum.splits)

lemma mu_compact_no_logs:
  assumes "mu_compact ME (mmap_ops E) m = Some (Inr rep, m')" "mu_files m = Some F" "mu_aux ME fl v m"
  shows "logs_clear m'"
proof -
  from assms(1,2) obtain r i n F' where i: "op_compact (mmap_ops E) (mu_inner m) = Some (Inr r, i)"
    "compact_relations (me_edges ME) (mu_adjacency m) F = (Inr n, F')" "m' = (mu_put m i)\<lparr>mu_files := Some F'\<rparr>"
    by (auto simp: mu_compact_def through_def mu_put_def map_ok_def split: option.splits prod.splits sum.splits)
  have "ef_log (mf_edges F l) = None" if "l \<notin> set (map fst (mu_adjacency m))" for l
  proof -
    from that have "map_of (mu_adjacency m) l = None" by (simp add: map_of_eq_None_iff)
    then have "mu_graph m l = None" by (simp add: mu_graph_def)
    moreover have "multi_durable ME (mu_graph m) F" using mu_auxD(2) [OF assms(3)] assms(2) by simp
    ultimately show ?thesis by (metis multi_durable_def label_holds_simps(1))
  qed
  with compact_relations_log [OF i(2)] mmap_compact_no_log [OF i(1)] i(3) show ?thesis
    by (auto simp: logs_clear_def mu_put_def)
qed

lemma logs_clear_apart:
  assumes "logs_clear m"
  shows "records_apart E (disk_of (mu_inner m))" and "multi_apart ME (the (mu_files m))"
proof -
  from assms have "d_log (disk_of (mu_inner m)) = None" by (simp add: logs_clear_def disk_of_def)
  then show "records_apart E (disk_of (mu_inner m))"
    by (auto simp: records_apart_def read_entries_def read_raw_def merge_log_def)
  show "multi_apart ME (the (mu_files m))"
    using assms by (auto simp: logs_clear_def multi_apart_def files_apart_def edges_told_apart_def read_entries_def read_raw_def
      merge_edge_lists_def and_then_def map_ok_def split: sum.splits)
qed

end
