(* ===== verification/Stack_Reopen.thy ===== *)
theory Stack_Reopen
  imports Stack_Runs
begin

text \<open>
  The memory stack against its specification, its keyset pages, and both production stacks opened
  again from their files.
\<close>

section \<open>The memory stack\<close>

lemma memory_start:
  assumes "start_ok memory_relation_labels (map mem_id memories) (memory_rels es) F" "memory_ops_ok c ops" "lawful_memory c cs ck ME"
    and "(xs, m, G) = g_spec_run mem_id (set_scannable_value (memory_env c cs ck)) memory_relation_labels
      (keyed mem_id memories, rels_graph (memory_rels es)) ops"
  shows "\<exists>s0 s. create_memory_production_stack (memory_env c cs ck) ME memories es F = Some (Ok s0) \<and>
     g_run (ordered_gops (memory_env c cs ck) ME memory_order_key False) s0 ops = Some (xs, s) \<and>
     wrapping_layer.winvar (wrapping_layer.winvar (ms_ok (memory_env c cs ck)) (ms_map (memory_env c cs ck)) mu_inner (mu_aux ME memory_relation_labels))
       (wrapping_layer.wview (ms_map (memory_env c cs ck)) mu_inner) od_inner (od_aux memory_order_key) s \<and>
     wrapping_layer.wview (wrapping_layer.wview (ms_map (memory_env c cs ck)) mu_inner) od_inner s = m \<and> mu_graph (od_inner s) = G"
  using mmap_ordered.ordered_run [OF memory_stack [OF assms(3)], where rs = memories and fl = memory_relation_labels and
      rels = "memory_rels es" and F = F and ops = ops and xs = xs and m = m and G = G]
    assms(1,2,4)
  unfolding create_memory_unfold by (simp add: start_ok_def memory_ops_ok_def)

text \<open>C8. Functional correctness of the memory stack (\<open>Ordered\<close> over \<open>MultiSymmetric\<close> over
  \<open>GenericMmapStore\<close>). Any calls on a fresh stack are answered, refusals included, as on a map and a
  graph, where the far end of a \<open>mentions\<close> edge need not be a record of this table; afterwards every
  \<open>get\<close> and every neighbour query answers that map and graph, and walking the keyset pages by the last
  pair seen, whatever the page size, ends and lists every record exactly once, by update time and id.\<close>

theorem memory_stack_refines:
  assumes "lawful_memory c cs ck ME"
    and "start_ok memory_relation_labels (map mem_id memories) (memory_rels es) F" and "memory_ops_ok c ops"
  shows "case g_spec_run mem_id (set_scannable_value (memory_env c cs ck)) memory_relation_labels
       (keyed mem_id memories, rels_graph (memory_rels es)) ops of (xs, m, G) \<Rightarrow>
     \<exists>s0 s. create_memory_production_stack (memory_env c cs ck) ME memories es F = Some (Ok s0) \<and>
       g_run (ordered_gops (memory_env c cs ck) ME memory_order_key False) s0 ops = Some (xs, s) \<and>
       (\<forall>k. op_get (g_store (ordered_gops (memory_env c cs ck) ME memory_order_key False)) s k = Some (m k)) \<and>
       (\<forall>l k. map_option set (neighbors_by_relation (od_inner s) l k) = map_option (\<lambda>R. {b. (k, b) \<in> R}) (G l)) \<and>
       (\<forall>limit fuel. 0 < limit \<and> card (dom m) < fuel \<longrightarrow>
         concat (od_walk s (\<lambda>k. memory_order_key (the (m k))) limit fuel None) =
           map snd (sorted_list_of_set {(memory_order_key r, k) | k r. m k = Some r}))"
proof -
  note st = memory_stack [OF assms(1)]
  obtain xs m G where spec: "(xs, m, G) = g_spec_run mem_id (set_scannable_value (memory_env c cs ck)) memory_relation_labels
      (keyed mem_id memories, rels_graph (memory_rels es)) ops"
    by (cases "g_spec_run mem_id (set_scannable_value (memory_env c cs ck)) memory_relation_labels
      (keyed mem_id memories, rels_graph (memory_rels es)) ops") auto
  obtain s0 s where s: "create_memory_production_stack (memory_env c cs ck) ME memories es F = Some (Ok s0)"
      "g_run (ordered_gops (memory_env c cs ck) ME memory_order_key False) s0 ops = Some (xs, s)"
      "wrapping_layer.winvar (wrapping_layer.winvar (ms_ok (memory_env c cs ck)) (ms_map (memory_env c cs ck)) mu_inner (mu_aux ME memory_relation_labels))
       (wrapping_layer.wview (ms_map (memory_env c cs ck)) mu_inner) od_inner (od_aux memory_order_key) s"
      "wrapping_layer.wview (wrapping_layer.wview (ms_map (memory_env c cs ck)) mu_inner) od_inner s = m" "mu_graph (od_inner s) = G"
    using memory_start [OF assms(2,3,1) spec] by blast
  have pairs: "order_pairs memory_order_key m = {(memory_order_key r, k) | k r. m k = Some r}" by (auto simp: order_pairs_def)
  note reads = mmap_ordered.ordered_reads [OF st s(3), unfolded s(4) pairs]
  have "\<forall>l k. map_option set (neighbors_by_relation (od_inner s) l k) = map_option (\<lambda>R. {b. (k, b) \<in> R}) (G l)"
    using mmap_ordered.ordered_neighbors [OF st s(3,5)] by blast
  with s(1,2) reads show ?thesis unfolding spec [symmetric] by auto
qed

definition memo :: "uuid \<Rightarrow> i64 \<Rightarrow> memory" where
  "memo k updated = \<lparr>mem_id = k, content = ''note'', category = ''general'', tags = [], mem_source = ''s'', metadata_json = '''',
     mem_created_at = 1, mem_updated_at = updated, memory_type = ''fact'', mem_status = ''active'', sensitive = False,
     access_count = 0, mem_deleted_at = 0, mem_node_id = ''''\<rparr>"

abbreviation demo_memory_env :: "(uuid, string, i64, memory) store_env" where
  "demo_memory_env \<equiv> memory_env (wire_codec w_memory) (wire_codec (w_list w_memory)) (fixed_codec uuid_field)"

lemma demo_memory_lawful: "lawful_memory (wire_codec w_memory) (wire_codec (w_list w_memory)) (fixed_codec uuid_field) (demo_multi tag)"
  using demo_serial(2) demo_multi_serial by (simp add: lawful_memory_def demo_memories_def)

lemma demo_memory_small: "encodes_small (wire_codec w_memory) (memo k updated)"
  by (simp add: encodes_small_def wire_codec_def w_memory_def w_conv_def w_pair_def w_uuid_def w_word_def w_string_def
      w_list_def put_many_def w_char_def w_i64_def w_bool_def memo_def)

lemma demo_memory_start: "start_ok memory_relation_labels (map mem_id [memo 1 30, memo 2 20]) (memory_rels [(1, 9)]) empty_files"
  by (auto simp: start_ok_def memory_rels_def memory_relation_labels_def rels_ok_def edges_ok_def rels_graph_def
      graph_anchored_def anchored_def sym_rel_def memo_def empty_files_def no_files_def split: if_splits)

lemma demo_memory_ops:
  "memory_ops_ok (wire_codec w_memory) [GInsert (memo 3 20), GLink ''mentions'' 3 77, GReplace (memo 1 5), GDelete 2]"
  "memory_ops_ok (wire_codec w_memory) [GInsert (memo 3 20), GLink ''mentions'' 3 77, GDelete 2, GCompact]"
  by (simp_all add: memory_ops_ok_def g_op_ok_def demo_memory_small)

theorem memory_stack_refines_witness:
  "case g_spec_run mem_id (set_scannable_value demo_memory_env) memory_relation_labels
       (keyed mem_id [memo 1 30, memo 2 20], rels_graph (memory_rels [(1, 9)]))
       [GInsert (memo 3 20), GLink ''mentions'' 3 77, GReplace (memo 1 5), GDelete 2] of (xs, m, G) \<Rightarrow>
     \<exists>s0 s. create_memory_production_stack demo_memory_env (demo_multi []) [memo 1 30, memo 2 20] [(1, 9)] empty_files = Some (Ok s0) \<and>
       g_run (ordered_gops demo_memory_env (demo_multi []) memory_order_key False) s0
         [GInsert (memo 3 20), GLink ''mentions'' 3 77, GReplace (memo 1 5), GDelete 2] = Some (xs, s) \<and>
       (\<forall>k. op_get (g_store (ordered_gops demo_memory_env (demo_multi []) memory_order_key False)) s k = Some (m k)) \<and>
       (\<forall>l k. map_option set (neighbors_by_relation (od_inner s) l k) = map_option (\<lambda>R. {b. (k, b) \<in> R}) (G l)) \<and>
       (\<forall>limit fuel. 0 < limit \<and> card (dom m) < fuel \<longrightarrow>
         concat (od_walk s (\<lambda>k. memory_order_key (the (m k))) limit fuel None) =
           map snd (sorted_list_of_set {(memory_order_key r, k) | k r. m k = Some r}))"
  by (rule memory_stack_refines [OF demo_memory_lawful demo_memory_start demo_memory_ops(1)])

section \<open>Reopening\<close>

lemma named_gops_files:
  assumes "create_entity_production_stack E ME entities es1 es2 F = Some (Ok s0)"
  shows "mu_files (nx_inner s0) \<noteq> None"
  using assms
  by (auto simp: create_entity_production_stack_def named_stack_def and_then_def mu_create_def mu_with_path_def nx_new_def
      map_ok_def split: sum.splits)

lemma ordered_gops_files:
  assumes "create_memory_production_stack E ME memories es F = Some (Ok s0)"
  shows "mu_files (od_inner s0) \<noteq> None"
  using assms
  by (auto simp: create_memory_production_stack_def ordered_stack_def and_then_def mu_create_def mu_with_path_def od_new_def
      with_foreign_labels_def map_ok_def split: sum.splits)

lemma entity_labels: "distinct entity_relation_labels" "set entity_relation_labels = dom (rels_graph (entity_rels es1 es2))"
  by (simp add: entity_relation_labels_def)
    (auto simp add: dom_rels_graph entity_rels_def entity_relation_labels_def)

lemma memory_labels: "distinct memory_relation_labels" "set memory_relation_labels = dom (rels_graph (memory_rels es))"
  by (simp_all add: memory_relation_labels_def dom_rels_graph memory_rels_def)

text \<open>C4. The entity stack comes back from its files. After any calls on a fresh stack, the slot file, the
  record blob, the insert log, the label manifest and each label's edge blob and log alone reopen to a
  stack with the same record under every id, the same name index and the same neighbours under every
  label, runtime-created labels included; for runs in which the freshness hashes do not collide.\<close>

theorem entity_stack_reopens:
  assumes law: "lawful_entity c cs ck ME"
    and start: "start_ok [] (map ent_id entities) (entity_rels es1 es2) F" and ops: "entity_ops_ok c ops"
    and run: "create_entity_production_stack (entity_env c cs ck) ME entities es1 es2 F = Some (Ok s0)"
      "g_run (named_gops (entity_env c cs ck) ME entity_index_keys) s0 ops = Some (xs, s)"
    and apart: "records_apart (entity_env c cs ck) (disk_of (mu_inner (nx_inner s)))" "multi_apart ME (the (mu_files (nx_inner s)))"
  shows "\<exists>s'. open_entity_production_stack_portable (entity_env c cs ck) ME (disk_of (mu_inner (nx_inner s)))
       (the (mu_files (nx_inner s))) = Some (Ok s') \<and>
     (\<forall>k. op_get (g_store (named_gops (entity_env c cs ck) ME entity_index_keys)) s' k =
        op_get (g_store (named_gops (entity_env c cs ck) ME entity_index_keys)) s k) \<and>
     (\<forall>name. set (nx_find_by_name s' name) = set (nx_find_by_name s name)) \<and>
     (\<forall>l k. map_option set (neighbors_by_relation (nx_inner s') l k) = map_option set (neighbors_by_relation (nx_inner s) l k))"
proof -
  note st = entity_stack [OF law]
  obtain ys m G where spec: "(ys, m, G) = g_spec_run ent_id (set_scannable_value (entity_env c cs ck)) []
      (keyed ent_id entities, rels_graph (entity_rels es1 es2)) ops"
    by (cases "g_spec_run ent_id (set_scannable_value (entity_env c cs ck)) []
      (keyed ent_id entities, rels_graph (entity_rels es1 es2)) ops") auto
  from entity_start [OF start ops law spec] run have
    inv: "wrapping_layer.winvar (wrapping_layer.winvar (ms_ok (entity_env c cs ck)) (ms_map (entity_env c cs ck)) mu_inner (mu_aux ME []))
       (wrapping_layer.wview (ms_map (entity_env c cs ck)) mu_inner) nx_inner (nx_aux entity_index_keys) s"
    and G: "mu_graph (nx_inner s) = G" by auto
  have files: "mu_files (nx_inner s) = Some (the (mu_files (nx_inner s)))"
    using named_run_files [OF run(2) named_gops_files [OF run(1)]] by simp
  have "set entity_relation_labels \<subseteq> dom (mu_graph (nx_inner s))"
    using spec_labels_stay [of "(keyed ent_id entities, rels_graph (entity_rels es1 es2))" ent_id "set_scannable_value (entity_env c cs ck)" "[]" ops]
      entity_labels(2) [of es1 es2] by (simp add: spec [symmetric] G)
  from mmap_named.named_reopen [OF st, where fl = "[]", OF inv files apart entity_labels(1) this] obtain s' where
    s': "open_entity_production_stack_portable (entity_env c cs ck) ME (disk_of (mu_inner (nx_inner s))) (the (mu_files (nx_inner s))) = Some (Ok s')"
      "wrapping_layer.winvar (wrapping_layer.winvar (ms_ok (entity_env c cs ck)) (ms_map (entity_env c cs ck)) mu_inner (mu_aux ME []))
       (wrapping_layer.wview (ms_map (entity_env c cs ck)) mu_inner) nx_inner (nx_aux entity_index_keys) s'"
      "wrapping_layer.wview (wrapping_layer.wview (ms_map (entity_env c cs ck)) mu_inner) nx_inner s' =
       wrapping_layer.wview (wrapping_layer.wview (ms_map (entity_env c cs ck)) mu_inner) nx_inner s"
      "mu_graph (nx_inner s') = mu_graph (nx_inner s)"
    unfolding open_entity_unfold [symmetric] by blast
  show ?thesis
    using s'(1) mmap_named.named_reads(1,2) [OF st inv] mmap_named.named_reads(1,2) [OF st s'(2)] s'(3)
      mmap_named.named_neighbors [OF st inv refl] mmap_named.named_neighbors [OF st s'(2,4)]
    by (intro exI [of _ s']) simp
qed


text \<open>After a run that ends in a compaction the hypotheses on the hashes hold.\<close>

lemma named_compact_logs:
  assumes "g_step (named_gops E ME names) s GCompact = Some (RCompact (Inr ()), s')" "mu_files (nx_inner s) \<noteq> None"
    and "mu_aux ME fl v (nx_inner s)"
  shows "logs_clear (nx_inner s')"
proof -
  from assms(1) obtain res t where c: "mu_compact ME (mmap_ops E) (nx_inner s) = Some (res, t)" "map_ok (\<lambda>_. ()) res = Inr ()" "nx_inner s' = t"
    by (auto simp: named_gops_def g_step_def nx_ops_def nx_compact_def mu_ops_def forward_def nx_put_def)
  then obtain rep where "mu_compact ME (mmap_ops E) (nx_inner s) = Some (Inr rep, t)" by (cases res) auto
  with mu_compact_no_logs [OF this _ assms(3)] assms(2) c(3) show ?thesis by auto
qed

lemma ordered_compact_logs:
  assumes "g_step (ordered_gops E ME okey re_key) s GCompact = Some (RCompact (Inr ()), s')" "mu_files (od_inner s) \<noteq> None"
    and "mu_aux ME fl v (od_inner s)"
  shows "logs_clear (od_inner s')"
proof -
  from assms(1) obtain res t where c: "mu_compact ME (mmap_ops E) (od_inner s) = Some (res, t)" "map_ok (\<lambda>_. ()) res = Inr ()" "od_inner s' = t"
    by (auto simp: ordered_gops_def g_step_def od_ops_def od_compact_def mu_ops_def forward_def od_put_def)
  then obtain rep where "mu_compact ME (mmap_ops E) (od_inner s) = Some (Inr rep, t)" by (cases res) auto
  with mu_compact_no_logs [OF this _ assms(3)] assms(2) c(3) show ?thesis by auto
qed

lemma entity_compacted_run:
  assumes "lawful_entity c cs ck ME" "start_ok [] (map ent_id entities) (entity_rels es1 es2) F" "entity_ops_ok c (ops @ [GCompact])"
  shows "\<exists>s0 xs s. create_entity_production_stack (entity_env c cs ck) ME entities es1 es2 F = Some (Ok s0) \<and>
     g_run (named_gops (entity_env c cs ck) ME entity_index_keys) s0 (ops @ [GCompact]) = Some (xs, s) \<and> logs_clear (nx_inner s)"
proof -
  let ?E = "entity_env c cs ck" and ?st = "(keyed ent_id entities, rels_graph (entity_rels es1 es2))"
  let ?G = "named_gops (entity_env c cs ck) ME entity_index_keys"
  let ?run = "g_spec_run ent_id (set_scannable_value ?E) [] ?st"
  have ops: "entity_ops_ok c ops" using assms(3) by (simp add: entity_ops_ok_def)
  obtain zs m G where spec: "(zs, m, G) = ?run ops" by (cases "?run ops") auto
  then have spec': "(zs @ [RCompact (Inr ())], m, G) = ?run (ops @ [GCompact])" by (simp add: g_spec_run_compact spec [symmetric])
  from entity_start [OF assms(2,3,1) spec'] obtain s0 s where
    s: "create_entity_production_stack ?E ME entities es1 es2 F = Some (Ok s0)"
      "g_run ?G s0 (ops @ [GCompact]) = Some (zs @ [RCompact (Inr ())], s)" by blast
  from g_run_snoc [OF s(2)] obtain s1 where s1: "g_run ?G s0 ops = Some (zs, s1)" "g_step ?G s1 GCompact = Some (RCompact (Inr ()), s)" by auto
  from entity_start [OF assms(2) ops assms(1) spec] s(1) s1(1) have
    "wrapping_layer.winvar (wrapping_layer.winvar (ms_ok ?E) (ms_map ?E) mu_inner (mu_aux ME []))
       (wrapping_layer.wview (ms_map ?E) mu_inner) nx_inner (nx_aux entity_index_keys) s1" by auto
  from mmap_named.named_mu_aux [OF entity_stack [OF assms(1)], where fl = "[]", OF this]
  have "mu_aux ME [] (ms_map ?E (mu_inner (nx_inner s1))) (nx_inner s1)" .
  from named_compact_logs [OF s1(2) named_run_files [OF s1(1) named_gops_files [OF s(1)]] this] s show ?thesis by blast
qed

theorem entity_stack_reopens_witness:
  "\<exists>s0 xs s s'. create_entity_production_stack demo_entity_env (demo_multi []) [ada, babbage] [(1, 2)] [] empty_files = Some (Ok s0) \<and>
     g_run (named_gops demo_entity_env (demo_multi []) entity_index_keys) s0 [GLink ''works_at'' 2 1, GUpdate 1 7, GCompact] = Some (xs, s) \<and>
     open_entity_production_stack_portable demo_entity_env (demo_multi []) (disk_of (mu_inner (nx_inner s)))
       (the (mu_files (nx_inner s))) = Some (Ok s') \<and>
     (\<forall>k. op_get (g_store (named_gops demo_entity_env (demo_multi []) entity_index_keys)) s' k =
        op_get (g_store (named_gops demo_entity_env (demo_multi []) entity_index_keys)) s k) \<and>
     (\<forall>name. set (nx_find_by_name s' name) = set (nx_find_by_name s name)) \<and>
     (\<forall>l k. map_option set (neighbors_by_relation (nx_inner s') l k) = map_option set (neighbors_by_relation (nx_inner s) l k))"
proof -
  have ops: "entity_ops_ok (wire_codec w_entity) ([GLink ''works_at'' 2 1, GUpdate 1 7] @ [GCompact])"
    by (simp add: entity_ops_ok_def g_op_ok_def)
  from entity_compacted_run [OF demo_entity_lawful demo_entity_start ops] obtain s0 xs s where
    s: "create_entity_production_stack demo_entity_env (demo_multi []) [ada, babbage] [(1, 2)] [] empty_files = Some (Ok s0)"
      "g_run (named_gops demo_entity_env (demo_multi []) entity_index_keys) s0 ([GLink ''works_at'' 2 1, GUpdate 1 7] @ [GCompact]) = Some (xs, s)"
      "logs_clear (nx_inner s)" by blast
  from entity_stack_reopens [OF demo_entity_lawful demo_entity_start ops s(1,2) logs_clear_apart [OF s(3)]] s(1,2)
  show ?thesis by auto
qed

text \<open>C13. The memory stack comes back from its files: after any calls on a fresh stack the files alone
  reopen to a stack with the same record under every id, the same neighbours and the same keyset page
  after every cursor; for runs in which the freshness hashes do not collide.\<close>

theorem memory_stack_reopens:
  assumes law: "lawful_memory c cs ck ME"
    and start: "start_ok memory_relation_labels (map mem_id memories) (memory_rels es) F" and ops: "memory_ops_ok c ops"
    and run: "create_memory_production_stack (memory_env c cs ck) ME memories es F = Some (Ok s0)"
      "g_run (ordered_gops (memory_env c cs ck) ME memory_order_key False) s0 ops = Some (xs, s)"
    and apart: "records_apart (memory_env c cs ck) (disk_of (mu_inner (od_inner s)))" "multi_apart ME (the (mu_files (od_inner s)))"
  shows "\<exists>s'. open_memory_production_stack_portable (memory_env c cs ck) ME (disk_of (mu_inner (od_inner s)))
       (the (mu_files (od_inner s))) = Some (Ok s') \<and>
     (\<forall>k. op_get (g_store (ordered_gops (memory_env c cs ck) ME memory_order_key False)) s' k =
        op_get (g_store (ordered_gops (memory_env c cs ck) ME memory_order_key False)) s k) \<and>
     (\<forall>l k. map_option set (neighbors_by_relation (od_inner s') l k) = map_option set (neighbors_by_relation (od_inner s) l k)) \<and>
     (\<forall>after limit. od_page_by s' after limit = od_page_by s after limit)"
proof -
  let ?E = "memory_env c cs ck"
  note st = memory_stack [OF law]
  obtain ys m G where spec: "(ys, m, G) = g_spec_run mem_id (set_scannable_value ?E) memory_relation_labels
      (keyed mem_id memories, rels_graph (memory_rels es)) ops"
    by (cases "g_spec_run mem_id (set_scannable_value ?E) memory_relation_labels (keyed mem_id memories, rels_graph (memory_rels es)) ops") auto
  from memory_start [OF start ops law spec] run have
    inv: "wrapping_layer.winvar (wrapping_layer.winvar (ms_ok ?E) (ms_map ?E) mu_inner (mu_aux ME memory_relation_labels))
       (wrapping_layer.wview (ms_map ?E) mu_inner) od_inner (od_aux memory_order_key) s"
    and G: "mu_graph (od_inner s) = G" by auto
  have files: "mu_files (od_inner s) = Some (the (mu_files (od_inner s)))"
    using ordered_run_files [OF run(2) ordered_gops_files [OF run(1)]] by simp
  have "set memory_relation_labels \<subseteq> dom (mu_graph (od_inner s))"
    using spec_labels_stay [of "(keyed mem_id memories, rels_graph (memory_rels es))" mem_id "set_scannable_value ?E" memory_relation_labels ops]
      memory_labels(2) [of es] by (simp add: spec [symmetric] G)
  from mmap_ordered.ordered_reopen [OF st, where fl = memory_relation_labels, OF inv files apart memory_labels(1) this]
  obtain s' where
    s': "open_memory_production_stack_portable ?E ME (disk_of (mu_inner (od_inner s))) (the (mu_files (od_inner s))) = Some (Ok s')"
      "wrapping_layer.winvar (wrapping_layer.winvar (ms_ok ?E) (ms_map ?E) mu_inner (mu_aux ME memory_relation_labels))
       (wrapping_layer.wview (ms_map ?E) mu_inner) od_inner (od_aux memory_order_key) s'"
      "wrapping_layer.wview (wrapping_layer.wview (ms_map ?E) mu_inner) od_inner s' =
       wrapping_layer.wview (wrapping_layer.wview (ms_map ?E) mu_inner) od_inner s"
      "mu_graph (od_inner s') = mu_graph (od_inner s)"
    unfolding open_memory_production_stack_portable_def by blast
  have "od_page_by s' after limit = od_page_by s after limit" for after limit
    using mmap_ordered.ordered_index [OF st, where fl = memory_relation_labels, OF inv]
      mmap_ordered.ordered_index [OF st, where fl = memory_relation_labels, OF s'(2)] s'(3) by (simp add: od_page_by_def)
  then show ?thesis
    using s'(1) mmap_ordered.ordered_reads(1) [OF st inv] mmap_ordered.ordered_reads(1) [OF st s'(2)] s'(3)
      mmap_ordered.ordered_neighbors [OF st inv refl] mmap_ordered.ordered_neighbors [OF st s'(2,4)]
    by (intro exI [of _ s']) simp
qed


lemma memory_compacted_run:
  assumes "lawful_memory c cs ck ME" "start_ok memory_relation_labels (map mem_id memories) (memory_rels es) F"
    "memory_ops_ok c (ops @ [GCompact])"
  shows "\<exists>s0 xs s. create_memory_production_stack (memory_env c cs ck) ME memories es F = Some (Ok s0) \<and>
     g_run (ordered_gops (memory_env c cs ck) ME memory_order_key False) s0 (ops @ [GCompact]) = Some (xs, s) \<and> logs_clear (od_inner s)"
proof -
  let ?E = "memory_env c cs ck" and ?st = "(keyed mem_id memories, rels_graph (memory_rels es))"
  let ?G = "ordered_gops (memory_env c cs ck) ME memory_order_key False"
  let ?run = "g_spec_run mem_id (set_scannable_value ?E) memory_relation_labels ?st"
  have ops: "memory_ops_ok c ops" using assms(3) by (simp add: memory_ops_ok_def)
  obtain zs m G where spec: "(zs, m, G) = ?run ops" by (cases "?run ops") auto
  then have spec': "(zs @ [RCompact (Inr ())], m, G) = ?run (ops @ [GCompact])" by (simp add: g_spec_run_compact spec [symmetric])
  from memory_start [OF assms(2,3,1) spec'] obtain s0 s where
    s: "create_memory_production_stack ?E ME memories es F = Some (Ok s0)"
      "g_run ?G s0 (ops @ [GCompact]) = Some (zs @ [RCompact (Inr ())], s)" by blast
  from g_run_snoc [OF s(2)] obtain s1 where s1: "g_run ?G s0 ops = Some (zs, s1)" "g_step ?G s1 GCompact = Some (RCompact (Inr ()), s)" by auto
  from memory_start [OF assms(2) ops assms(1) spec] s(1) s1(1) have
    "wrapping_layer.winvar (wrapping_layer.winvar (ms_ok ?E) (ms_map ?E) mu_inner (mu_aux ME memory_relation_labels))
       (wrapping_layer.wview (ms_map ?E) mu_inner) od_inner (od_aux memory_order_key) s1" by auto
  from mmap_ordered.ordered_mu_aux [OF memory_stack [OF assms(1)], where fl = memory_relation_labels, OF this]
  have "mu_aux ME memory_relation_labels (ms_map ?E (mu_inner (od_inner s1))) (od_inner s1)" .
  from ordered_compact_logs [OF s1(2) ordered_run_files [OF s1(1) ordered_gops_files [OF s(1)]] this] s show ?thesis by blast
qed

theorem memory_stack_reopens_witness:
  "\<exists>s0 xs s s'. create_memory_production_stack demo_memory_env (demo_multi []) [memo 1 30, memo 2 20] [(1, 9)] empty_files = Some (Ok s0) \<and>
     g_run (ordered_gops demo_memory_env (demo_multi []) memory_order_key False) s0
       [GInsert (memo 3 20), GLink ''mentions'' 3 77, GDelete 2, GCompact] = Some (xs, s) \<and>
     open_memory_production_stack_portable demo_memory_env (demo_multi []) (disk_of (mu_inner (od_inner s)))
       (the (mu_files (od_inner s))) = Some (Ok s') \<and>
     (\<forall>k. op_get (g_store (ordered_gops demo_memory_env (demo_multi []) memory_order_key False)) s' k =
        op_get (g_store (ordered_gops demo_memory_env (demo_multi []) memory_order_key False)) s k) \<and>
     (\<forall>l k. map_option set (neighbors_by_relation (od_inner s') l k) = map_option set (neighbors_by_relation (od_inner s) l k)) \<and>
     (\<forall>after limit. od_page_by s' after limit = od_page_by s after limit)"
proof -
  have ops: "memory_ops_ok (wire_codec w_memory) ([GInsert (memo 3 20), GLink ''mentions'' 3 77, GDelete 2] @ [GCompact])"
    using demo_memory_ops(2) by simp
  from memory_compacted_run [OF demo_memory_lawful demo_memory_start ops] obtain s0 xs s where
    s: "create_memory_production_stack demo_memory_env (demo_multi []) [memo 1 30, memo 2 20] [(1, 9)] empty_files = Some (Ok s0)"
      "g_run (ordered_gops demo_memory_env (demo_multi []) memory_order_key False) s0
       ([GInsert (memo 3 20), GLink ''mentions'' 3 77, GDelete 2] @ [GCompact]) = Some (xs, s)"
      "logs_clear (od_inner s)" by blast
  from memory_stack_reopens [OF demo_memory_lawful demo_memory_start ops s(1,2) logs_clear_apart [OF s(3)]] s(1,2)
  show ?thesis by auto
qed

end
