(* ===== verification/Layer_Reversed.thy ===== *)
theory Layer_Reversed
  imports Layer_Spec
begin

text \<open>
  \<open>Reversed\<close> of \<open>src/generic/store.rs\<close>, the children of a parent over any inner store of the child
  records, and the blanket \<open>Parent\<close> impl.
\<close>

section \<open>\<open>Parent\<close> and \<open>Reversed\<close>\<close>

definition parent_of :: "('r \<Rightarrow> 'pid option) \<Rightarrow> ('s, 'id, 'r) store_ops \<Rightarrow> 's \<Rightarrow> 'id \<Rightarrow>
    ('id not_found + 'pid option) option" where
  "parent_of parent_id Ops s k =
     (case op_get Ops s k of
        None \<Rightarrow> None
      | Some None \<Rightarrow> Some (Inl (NotFound k))
      | Some (Some child) \<Rightarrow> Some (Inr (parent_id child)))"

record ('s, 'pid, 'id) reversed =
  rv_inner :: 's
  rv_children_of :: "'pid \<rightharpoonup> 'id list"

definition rv_new :: "('r \<Rightarrow> 'id) \<Rightarrow> ('r \<Rightarrow> 'pid option) \<Rightarrow> 's \<Rightarrow> 'r list \<Rightarrow> ('s, 'pid, 'id) reversed" where
  "rv_new key parent_id inner children =
     \<lparr>rv_inner = inner,
      rv_children_of = foldl (\<lambda>m c. case parent_id c of None \<Rightarrow> m | Some p \<Rightarrow> bucket_push p (key c) m) Map.empty children\<rparr>"

definition rv_put :: "('s, 'pid, 'id) reversed \<Rightarrow> 's \<Rightarrow> ('s, 'pid, 'id) reversed" where
  "rv_put s i = s\<lparr>rv_inner := i\<rparr>"

definition rv_insert :: "('r \<Rightarrow> 'id) \<Rightarrow> ('r \<Rightarrow> 'pid option) \<Rightarrow> ('s, 'id, 'r) store_ops \<Rightarrow>
    ('s, 'pid, 'id) reversed \<Rightarrow> 'r \<Rightarrow> ('id insert_error, unit, ('s, 'pid, 'id) reversed) outcome" where
  "rv_insert key parent_id Ops s r =
     through (op_insert Ops (rv_inner s) r) (rv_put s) (\<lambda>_ s.
       case parent_id r of
         None \<Rightarrow> Some (Inr (), s)
       | Some p \<Rightarrow> Some (Inr (), s\<lparr>rv_children_of := bucket_push p (key r) (rv_children_of s)\<rparr>))"

definition rv_delete :: "('r \<Rightarrow> 'pid option) \<Rightarrow> ('s, 'id, 'r) store_ops \<Rightarrow> ('s, 'pid, 'id) reversed \<Rightarrow> 'id \<Rightarrow>
    ('id delete_error, unit, ('s, 'pid, 'id) reversed) outcome" where
  "rv_delete parent_id Ops s k =
     (case op_get Ops (rv_inner s) k of
        None \<Rightarrow> None
      | Some None \<Rightarrow> Some (Inl (DelNotFound k), s)
      | Some (Some old) \<Rightarrow>
          through (op_delete Ops (rv_inner s) k) (rv_put s) (\<lambda>_ s.
            case parent_id old of
              None \<Rightarrow> Some (Inr (), s)
            | Some p \<Rightarrow> Some (Inr (), s\<lparr>rv_children_of := bucket_drop p k (rv_children_of s)\<rparr>)))"

definition rv_replace :: "('r \<Rightarrow> 'id) \<Rightarrow> ('r \<Rightarrow> 'pid option) \<Rightarrow> ('s, 'id, 'r) store_ops \<Rightarrow>
    ('s, 'pid, 'id) reversed \<Rightarrow> 'r \<Rightarrow> ('id replace_error, unit, ('s, 'pid, 'id) reversed) outcome" where
  "rv_replace key parent_id Ops s r =
     (case op_get Ops (rv_inner s) (key r) of
        None \<Rightarrow> None
      | Some None \<Rightarrow> Some (Inl (RepNotFound (key r)), s)
      | Some (Some old) \<Rightarrow>
          through (op_replace Ops (rv_inner s) r) (rv_put s) (\<lambda>_ s.
            if parent_id old = parent_id r then Some (Inr (), s)
            else
              (let children = (case parent_id old of
                     None \<Rightarrow> rv_children_of s | Some p \<Rightarrow> bucket_drop p (key r) (rv_children_of s));
                   children = (case parent_id r of
                     None \<Rightarrow> children | Some p \<Rightarrow> bucket_push p (key r) children)
               in Some (Inr (), s\<lparr>rv_children_of := children\<rparr>))))"

definition rv_children :: "('s, 'pid, 'id) reversed \<Rightarrow> 'pid \<Rightarrow> 'id list" where
  "rv_children s p = bucket (rv_children_of s) p"

definition rv_get :: "('s, 'id, 'r) store_ops \<Rightarrow> ('s, 'pid, 'id) reversed \<Rightarrow> 'id \<Rightarrow> 'r option option" where
  "rv_get Ops s k = op_get Ops (rv_inner s) k"

definition rv_all_ids :: "('s \<Rightarrow> 'id list) \<Rightarrow> ('s, 'pid, 'id) reversed \<Rightarrow> 'id list" where
  "rv_all_ids all_ids s = all_ids (rv_inner s)"

definition rv_update :: "('s \<Rightarrow> 'id \<Rightarrow> 'v \<Rightarrow> ('id not_found, unit, 's) outcome) \<Rightarrow> ('s, 'pid, 'id) reversed \<Rightarrow>
    'id \<Rightarrow> 'v \<Rightarrow> ('id not_found, unit, ('s, 'pid, 'id) reversed) outcome" where
  "rv_update update s k v = forward (update (rv_inner s) k v) (rv_put s)"

definition rv_compact :: "('s, 'id, 'r) store_ops \<Rightarrow> ('s, 'pid, 'id) reversed \<Rightarrow>
    (durability_error, compaction_report, ('s, 'pid, 'id) reversed) outcome" where
  "rv_compact Ops s = forward (op_compact Ops (rv_inner s)) (rv_put s)"

definition rv_ops :: "('r \<Rightarrow> 'id) \<Rightarrow> ('r \<Rightarrow> 'pid option) \<Rightarrow> ('s, 'id, 'r) store_ops \<Rightarrow>
    (('s, 'pid, 'id) reversed, 'id, 'r) store_ops" where
  "rv_ops key parent_id Ops = \<lparr>op_get = rv_get Ops, op_insert = rv_insert key parent_id Ops,
     op_replace = rv_replace key parent_id Ops, op_delete = rv_delete parent_id Ops, op_compact = rv_compact Ops\<rparr>"

definition rv_aux :: "('r \<Rightarrow> 'pid option) \<Rightarrow> ('id \<rightharpoonup> 'r) \<Rightarrow> ('s, 'pid, 'id) reversed \<Rightarrow> bool" where
  "rv_aux parent_id m s \<longleftrightarrow> no_empty_bucket (rv_children_of s) \<and>
     tracks (\<lambda>r. set_option (parent_id r)) m (rv_children_of s)"

locale reversed_layer = record_store key okr Ops invar view
  for key :: "'r \<Rightarrow> 'id" and okr :: "'r \<Rightarrow> bool" and Ops :: "('s, 'id, 'r) store_ops"
    and invar :: "'s \<Rightarrow> bool" and view :: "'s \<Rightarrow> 'id \<rightharpoonup> 'r" +
  fixes parent_id :: "'r \<Rightarrow> 'pid option"

sublocale reversed_layer \<subseteq> rv: wrapping_layer key okr Ops invar view rv_inner "rv_aux parent_id"
  "rv_ops key parent_id Ops"
proof unfold_locales
  fix t :: "('s, 'pid, 'id) reversed" and r old :: 'r and k :: 'id and m i rep e
  let ?vals = "\<lambda>r. set_option (parent_id r)"
  show "op_get (rv_ops key parent_id Ops) t k = op_get Ops (rv_inner t) k"
    by (simp add: rv_ops_def rv_get_def)
  show "op_insert Ops (rv_inner t) r = Some (Inl e, rv_inner t) \<Longrightarrow> op_insert (rv_ops key parent_id Ops) t r = Some (Inl e, t)"
    by (simp add: rv_ops_def rv_insert_def rv_put_def)
  show "op_get Ops (rv_inner t) (key r) = Some None \<Longrightarrow>
      op_replace (rv_ops key parent_id Ops) t r = Some (Inl (RepNotFound (key r)), t)"
    by (simp add: rv_ops_def rv_replace_def)
  show "op_get Ops (rv_inner t) k = Some None \<Longrightarrow>
      op_delete (rv_ops key parent_id Ops) t k = Some (Inl (DelNotFound k), t)"
    by (simp add: rv_ops_def rv_delete_def)
  show "rv_aux parent_id m t \<Longrightarrow> op_compact Ops (rv_inner t) = Some (Inr rep, i) \<Longrightarrow>
      \<exists>rep' t'. op_compact (rv_ops key parent_id Ops) t = Some (Inr rep', t') \<and> rv_inner t' = i \<and> rv_aux parent_id m t'"
    by (simp add: rv_ops_def rv_compact_def rv_put_def rv_aux_def)
  show "rv_aux parent_id m t \<Longrightarrow> m (key r) = None \<Longrightarrow> op_insert Ops (rv_inner t) r = Some (Inr (), i) \<Longrightarrow>
      \<exists>t'. op_insert (rv_ops key parent_id Ops) t r = Some (Inr (), t') \<and> rv_inner t' = i \<and>
        rv_aux parent_id (m(key r \<mapsto> r)) t'"
    using tracks_insert [of ?vals m "rv_children_of t" "key r"
      "case parent_id r of None \<Rightarrow> rv_children_of t | Some p \<Rightarrow> bucket_push p (key r) (rv_children_of t)" r]
    by (cases "parent_id r") (simp_all add: rv_ops_def rv_insert_def rv_put_def rv_aux_def bucket_simps)
  show "rv_aux parent_id m t \<Longrightarrow> m k = Some old \<Longrightarrow> op_get Ops (rv_inner t) k = Some (Some old) \<Longrightarrow>
      op_delete Ops (rv_inner t) k = Some (Inr (), i) \<Longrightarrow>
      \<exists>t'. op_delete (rv_ops key parent_id Ops) t k = Some (Inr (), t') \<and> rv_inner t' = i \<and>
        rv_aux parent_id (m(k := None)) t'"
    using tracks_delete [of ?vals m "rv_children_of t" k old
      "case parent_id old of None \<Rightarrow> rv_children_of t | Some p \<Rightarrow> bucket_drop p k (rv_children_of t)"]
    by (cases "parent_id old") (simp_all add: rv_ops_def rv_delete_def rv_put_def rv_aux_def bucket_simps)
  show "rv_aux parent_id m t \<Longrightarrow> m (key r) = Some old \<Longrightarrow> op_get Ops (rv_inner t) (key r) = Some (Some old) \<Longrightarrow>
      op_replace Ops (rv_inner t) r = Some (Inr (), i) \<Longrightarrow>
      \<exists>t'. op_replace (rv_ops key parent_id Ops) t r = Some (Inr (), t') \<and> rv_inner t' = i \<and>
        rv_aux parent_id (m(key r \<mapsto> r)) t'"
    using tracks_replace [of ?vals m "rv_children_of t" "key r" old
      "if parent_id old = parent_id r then rv_children_of t
       else (let c = (case parent_id old of None \<Rightarrow> rv_children_of t | Some p \<Rightarrow> bucket_drop p (key r) (rv_children_of t))
             in case parent_id r of None \<Rightarrow> c | Some p \<Rightarrow> bucket_push p (key r) c)" r]
    by (cases "parent_id old"; cases "parent_id r")
      (auto simp: rv_ops_def rv_replace_def rv_put_def rv_aux_def bucket_simps Let_def)
qed

context reversed_layer
begin

text \<open>\<open>children\<close> and \<open>parent\<close> are inverse: an id is listed under exactly the parent its record names.\<close>

lemma children_parent:
  assumes inv: "rv.winvar s"
  shows "distinct (rv_children s p)"
    and "k \<in> set (rv_children s p) \<longleftrightarrow> parent_of parent_id (rv_ops key parent_id Ops) s k = Some (Inr (Some p))"
proof -
  from rv.winvarD(2) [OF inv] have tr: "tracks (\<lambda>r. set_option (parent_id r)) (rv.wview s) (rv_children_of s)"
    by (simp add: rv_aux_def rv.wview_def)
  show "distinct (rv_children s p)" using tracks_bucket(1) [OF tr] by (simp add: rv_children_def)
  show "k \<in> set (rv_children s p) \<longleftrightarrow> parent_of parent_id (rv_ops key parent_id Ops) s k = Some (Inr (Some p))"
    using tracks_bucket(2) [OF tr, of p] rv.w.get_view [OF inv, of k]
    by (auto simp: rv_children_def parent_of_def split: option.splits)
qed

lemma rv_new_view:
  assumes "invar inner" "distinct (map key rs)"
    and same: "\<And>k. map_option parent_id (view inner k) = map_option parent_id (keyed key rs k)"
  shows "rv.winvar (rv_new key parent_id inner rs)" and "rv.wview (rv_new key parent_id inner rs) = view inner"
proof -
  have inn [simp]: "rv_inner (rv_new key parent_id inner xs) = inner" for xs by (simp add: rv_new_def)
  have "rv_aux parent_id (keyed key rs) (rv_new key parent_id inner rs)" using assms(2)
  proof (induction rs rule: rev_induct)
    case Nil
    show ?case by (simp add: rv_aux_def rv_new_def tracks_def)
  next
    case (snoc c rs)
    then have "keyed key rs (key c) = None" by (simp add: keyed_fresh)
    note keyed_snoc [OF this] this
    moreover note tracks_insert [of "\<lambda>r. set_option (parent_id r)" "keyed key rs"
        "rv_children_of (rv_new key parent_id inner rs)" "key c"
        "rv_children_of (rv_new key parent_id inner (rs @ [c]))" c]
    ultimately show ?case using snoc
      by (cases "parent_id c") (simp_all add: rv_aux_def rv_new_def bucket_simps del: fun_upd_apply)
  qed
  then have bk: "no_empty_bucket (rv_children_of (rv_new key parent_id inner rs))"
    and tr: "tracks (\<lambda>r. set_option (parent_id r)) (keyed key rs) (rv_children_of (rv_new key parent_id inner rs))"
    by (simp_all add: rv_aux_def)
  have "map_option (\<lambda>r. set_option (parent_id r)) (view inner k) = map_option (\<lambda>r. set_option (parent_id r)) (keyed key rs k)" for k
    using same [of k] by (cases "view inner k"; cases "keyed key rs k") auto
  from tracks_cong [OF tr this] bk have "rv_aux parent_id (view inner) (rv_new key parent_id inner rs)"
    by (simp add: rv_aux_def)
  with assms(1) show "rv.winvar (rv_new key parent_id inner rs)" by (intro rv.winvarI) simp_all
  show "rv.wview (rv_new key parent_id inner rs) = view inner" by (simp add: rv.wview_def)
qed

lemma rv_new_ok:
  assumes "invar inner" "view inner = keyed key rs" "distinct (map key rs)"
  shows "rv.winvar (rv_new key parent_id inner rs)" and "rv.wview (rv_new key parent_id inner rs) = keyed key rs"
  using rv_new_view [OF assms(1,3)] assms(2) by simp_all

end

locale reversed_listed = reversed_layer key okr Ops invar view parent_id + listed_store key okr Ops invar view all_ids
  for key :: "'r \<Rightarrow> 'id" and okr :: "'r \<Rightarrow> bool" and Ops :: "('s, 'id, 'r) store_ops"
    and invar :: "'s \<Rightarrow> bool" and view :: "'s \<Rightarrow> 'id \<rightharpoonup> 'r" and parent_id :: "'r \<Rightarrow> 'pid option"
    and all_ids :: "'s \<Rightarrow> 'id list"

sublocale reversed_listed \<subseteq> rv: listed_store key okr "rv_ops key parent_id Ops" rv.winvar rv.wview "rv_all_ids all_ids"
  using all_ids_view by unfold_locales (auto simp: rv_all_ids_def rv.wview_def dest!: rv.winvarD(1))

text \<open>An update of a field other than the parent leaves the index as it is.\<close>

locale reversed_updatable = reversed_layer key okr Ops invar view parent_id +
    updatable_store key okr Ops invar view okv setv update
  for key :: "'r \<Rightarrow> 'id" and okr :: "'r \<Rightarrow> bool" and Ops :: "('s, 'id, 'r) store_ops"
    and invar :: "'s \<Rightarrow> bool" and view :: "'s \<Rightarrow> 'id \<rightharpoonup> 'r" and parent_id :: "'r \<Rightarrow> 'pid option"
    and okv :: "'v \<Rightarrow> bool" and setv :: "'r \<Rightarrow> 'v \<Rightarrow> 'r option"
    and update :: "'s \<Rightarrow> 'id \<Rightarrow> 'v \<Rightarrow> ('id not_found, unit, 's) outcome" +
  assumes setv_parent: "setv r v = Some r' \<Longrightarrow> parent_id r' = parent_id r"

sublocale reversed_updatable \<subseteq> rv: wrapping_updatable key okr Ops invar view rv_inner "rv_aux parent_id"
  "rv_ops key parent_id Ops" okv setv update "rv_update update"
proof unfold_locales
  fix t :: "('s, 'pid, 'id) reversed" and k :: 'id and v :: 'v and m r r' i
  show "update (rv_inner t) k v = Some (Inl (NotFound k), rv_inner t) \<Longrightarrow> rv_update update t k v = Some (Inl (NotFound k), t)"
    by (simp add: rv_update_def rv_put_def)
  assume aux: "rv_aux parent_id m t" and r: "m k = Some r" "setv r v = Some r'"
    and u: "update (rv_inner t) k v = Some (Inr (), i)"
  have "tracks (\<lambda>r. set_option (parent_id r)) (m(k \<mapsto> r')) (rv_children_of t)"
    using aux unfolding rv_aux_def by (elim conjE tracks_cong) (simp add: r(1) setv_parent [OF r(2)])
  with aux u show "\<exists>t'. rv_update update t k v = Some (Inr (), t') \<and> rv_inner t' = i \<and> rv_aux parent_id (m(k \<mapsto> r')) t'"
    by (simp add: rv_update_def rv_put_def rv_aux_def)
qed

end
