(* ===== verification/Relation_Store.thy ===== *)
theory Relation_Store
  imports Layer_Symmetric Layer_Reversed
begin

text \<open>
  A stack with one undirected relation and a parent field: \<open>Reversed\<close> over \<open>Symmetric\<close> over any
  record store with a field update (\<open>src/generic/store.rs\<close>), the shape of the employee stacks. Its
  client calls against the specification of a map from ids to records beside a set of edges.
\<close>

section \<open>Client calls\<close>

record ('s, 'id, 'r, 'v) relation_ops =
  e_store :: "('s, 'id, 'r) store_ops"
  e_update :: "'s \<Rightarrow> 'id \<Rightarrow> 'v \<Rightarrow> ('id not_found, unit, 's) outcome"
  e_link :: "'s \<Rightarrow> 'id \<Rightarrow> 'id \<Rightarrow> ('id link_error, link_outcome, 's) outcome"

datatype ('id, 'r, 'v) e_op = EInsert 'r | EReplace 'r | EDelete 'id | EUpdate 'id 'v | ELink 'id 'id | ECompact

datatype 'id e_reply =
    EInserted "'id insert_error + unit"
  | EReplaced "'id replace_error + unit"
  | EDeleted "'id delete_error + unit"
  | EUpdated "'id not_found + unit"
  | ELinked "'id link_error + link_outcome"
  | ECompacted "durability_error + unit"

definition e_step :: "('s, 'id, 'r, 'v) relation_ops \<Rightarrow> 's \<Rightarrow> ('id, 'r, 'v) e_op \<Rightarrow> ('id e_reply \<times> 's) option" where
  "e_step G s op =
     (case op of
        EInsert r \<Rightarrow> map_option (map_prod EInserted id) (op_insert (e_store G) s r)
      | EReplace r \<Rightarrow> map_option (map_prod EReplaced id) (op_replace (e_store G) s r)
      | EDelete k \<Rightarrow> map_option (map_prod EDeleted id) (op_delete (e_store G) s k)
      | EUpdate k v \<Rightarrow> map_option (map_prod EUpdated id) (e_update G s k v)
      | ELink a b \<Rightarrow> map_option (map_prod ELinked id) (e_link G s a b)
      | ECompact \<Rightarrow> map_option (map_prod (ECompacted \<circ> map_ok (\<lambda>_. ())) id) (op_compact (e_store G) s))"

fun e_run :: "('s, 'id, 'r, 'v) relation_ops \<Rightarrow> 's \<Rightarrow> ('id, 'r, 'v) e_op list \<Rightarrow> ('id e_reply list \<times> 's) option" where
  "e_run G s [] = Some ([], s)"
| "e_run G s (op # ops) =
     (case e_step G s op of
        None \<Rightarrow> None
      | Some (x, s) \<Rightarrow> map_option (\<lambda>(xs, s). (x # xs, s)) (e_run G s ops))"

definition e_spec_link :: "('id \<rightharpoonup> 'r) \<Rightarrow> ('id \<times> 'id) set \<Rightarrow> 'id \<Rightarrow> 'id \<Rightarrow>
    ('id link_error + link_outcome) \<times> ('id \<times> 'id) set" where
  "e_spec_link m R a b =
     (if m a = None then (Inl (UnknownRecord a), R)
      else if m b = None then (Inl (UnknownRecord b), R)
      else if a = b then (Inl (SelfLoop a), R)
      else if (a, b) \<in> R then (Inr AlreadyLinked, R)
      else (Inr Linked, insert (b, a) (insert (a, b) R)))"

definition e_spec :: "('r \<Rightarrow> 'id) \<Rightarrow> ('r \<Rightarrow> 'v \<Rightarrow> 'r option) \<Rightarrow> ('id \<rightharpoonup> 'r) \<times> ('id \<times> 'id) set \<Rightarrow>
    ('id, 'r, 'v) e_op \<Rightarrow> 'id e_reply \<times> ('id \<rightharpoonup> 'r) \<times> ('id \<times> 'id) set" where
  "e_spec key setv st op =
     (case st of (m, R) \<Rightarrow>
      (case op of
        EInsert r \<Rightarrow>
          if m (key r) \<noteq> None then (EInserted (Inl (InsDuplicate (key r))), m, R)
          else (EInserted (Inr ()), m(key r \<mapsto> r), R)
      | EReplace r \<Rightarrow>
          if m (key r) = None then (EReplaced (Inl (RepNotFound (key r))), m, R)
          else (EReplaced (Inr ()), m(key r \<mapsto> r), R)
      | EDelete k \<Rightarrow>
          if m k = None then (EDeleted (Inl (DelNotFound k)), m, R)
          else (EDeleted (Inr ()), m(k := None), {(a, b) \<in> R. a \<noteq> k \<and> b \<noteq> k})
      | EUpdate k v \<Rightarrow>
          (case m k of
             None \<Rightarrow> (EUpdated (Inl (NotFound k)), m, R)
           | Some r \<Rightarrow> (EUpdated (Inr ()), m(k := setv r v), R))
      | ELink a b \<Rightarrow> (case e_spec_link m R a b of (x, R') \<Rightarrow> (ELinked x, m, R'))
      | ECompact \<Rightarrow> (ECompacted (Inr ()), m, R)))"

fun e_spec_run :: "('r \<Rightarrow> 'id) \<Rightarrow> ('r \<Rightarrow> 'v \<Rightarrow> 'r option) \<Rightarrow> ('id \<rightharpoonup> 'r) \<times> ('id \<times> 'id) set \<Rightarrow>
    ('id, 'r, 'v) e_op list \<Rightarrow> 'id e_reply list \<times> ('id \<rightharpoonup> 'r) \<times> ('id \<times> 'id) set" where
  "e_spec_run key setv st [] = ([], st)"
| "e_spec_run key setv st (op # ops) =
     (case e_spec key setv st op of
        (x, st) \<Rightarrow> (case e_spec_run key setv st ops of (xs, st) \<Rightarrow> (x # xs, st)))"

definition e_op_ok :: "('r \<Rightarrow> bool) \<Rightarrow> ('v \<Rightarrow> bool) \<Rightarrow> ('id, 'r, 'v) e_op \<Rightarrow> bool" where
  "e_op_ok okr okv op =
     (case op of EInsert r \<Rightarrow> okr r | EReplace r \<Rightarrow> okr r | EUpdate k v \<Rightarrow> okv v | _ \<Rightarrow> True)"

section \<open>The stack\<close>

text \<open>\<open>Reversed\<close> forwards \<open>Link\<close> and \<open>Neighbors\<close> to the layer below.\<close>

definition rv_link :: "('s \<Rightarrow> 'id \<Rightarrow> 'id \<Rightarrow> ('id link_error, link_outcome, 's) outcome) \<Rightarrow> ('s, 'pid, 'id) reversed \<Rightarrow>
    'id \<Rightarrow> 'id \<Rightarrow> ('id link_error, link_outcome, ('s, 'pid, 'id) reversed) outcome" where
  "rv_link link s a b = forward (link (rv_inner s) a b) (rv_put s)"

definition rv_neighbors :: "('s \<Rightarrow> 'id \<Rightarrow> 'id list) \<Rightarrow> ('s, 'pid, 'id) reversed \<Rightarrow> 'id \<Rightarrow> 'id list" where
  "rv_neighbors neighbors s k = neighbors (rv_inner s) k"

type_synonym ('s, 'pid, 'id) family = "(('s, 'id) symmetric, 'pid, 'id) reversed"

definition family_ops :: "('r \<Rightarrow> 'id::linorder) \<Rightarrow> ('r \<Rightarrow> 'pid option) \<Rightarrow> 'id edge_env \<Rightarrow> ('s, 'id, 'r) store_ops \<Rightarrow>
    ('s \<Rightarrow> 'id \<Rightarrow> 'v \<Rightarrow> ('id not_found, unit, 's) outcome) \<Rightarrow> (('s, 'pid, 'id) family, 'id, 'r, 'v) relation_ops" where
  "family_ops key parent_id E Ops update =
     \<lparr>e_store = rv_ops key parent_id (sy_ops E Ops), e_update = rv_update (sy_update update), e_link = rv_link (sy_link E Ops)\<rparr>"

lemma family_ops_simps [simp]:
  "e_store (family_ops key parent_id E Ops update) = rv_ops key parent_id (sy_ops E Ops)"
  "e_update (family_ops key parent_id E Ops update) = rv_update (sy_update update)"
  "e_link (family_ops key parent_id E Ops update) = rv_link (sy_link E Ops)"
  by (simp_all add: family_ops_def)

locale family = symmetric_updatable key okr Ops invar view E okv setv update
  for key :: "'r \<Rightarrow> 'id::linorder" and okr :: "'r \<Rightarrow> bool" and Ops :: "('s, 'id, 'r) store_ops"
    and invar :: "'s \<Rightarrow> bool" and view :: "'s \<Rightarrow> 'id \<rightharpoonup> 'r" and E :: "'id edge_env"
    and okv :: "'v \<Rightarrow> bool" and setv :: "'r \<Rightarrow> 'v \<Rightarrow> 'r option"
    and update :: "'s \<Rightarrow> 'id \<Rightarrow> 'v \<Rightarrow> ('id not_found, unit, 's) outcome" +
  fixes parent_id :: "'r \<Rightarrow> 'pid option"
  assumes setv_parent_id: "setv r v = Some r' \<Longrightarrow> parent_id r' = parent_id r"

sublocale family \<subseteq> fam: reversed_updatable key okr "sy_ops E Ops" sy.winvar sy.wview parent_id okv setv "sy_update update"
  by unfold_locales (rule setv_parent_id)

context family
begin

definition family_rel :: "('s, 'pid, 'id) family \<Rightarrow> ('id \<times> 'id) set" where
  "family_rel s = sy_rel (rv_inner s)"

lemma sy_rel_kept:
  "op_insert (sy_ops E Ops) t r = Some (Inr (), t') \<Longrightarrow> sy_rel t' = sy_rel t"
  "op_replace (sy_ops E Ops) t r = Some (Inr (), t') \<Longrightarrow> sy_rel t' = sy_rel t"
  "sy_update update t k v = Some (Inr (), t') \<Longrightarrow> sy_rel t' = sy_rel t"
  "op_compact (sy_ops E Ops) t = Some (Inr rep, t') \<Longrightarrow> sy_rel t' = sy_rel t"
  by (auto simp: sy_ops_def sy_insert_def sy_replace_def sy_update_def sy_compact_def forward_def through_def sy_rel_def sy_put_def
      split: option.splits prod.splits sum.splits)

lemma rel_kept:
  "op_insert (rv_ops key parent_id (sy_ops E Ops)) t r = Some (Inr (), t') \<Longrightarrow> family_rel t' = family_rel t"
  "op_replace (rv_ops key parent_id (sy_ops E Ops)) t r = Some (Inr (), t') \<Longrightarrow> family_rel t' = family_rel t"
  "rv_update (sy_update update) t k v = Some (Inr (), t') \<Longrightarrow> family_rel t' = family_rel t"
  "op_compact (rv_ops key parent_id (sy_ops E Ops)) t = Some (Inr rep, t') \<Longrightarrow> family_rel t' = family_rel t"
  using sy_rel_kept(1) [of "rv_inner t" r "rv_inner t'"] sy_rel_kept(2) [of "rv_inner t" r "rv_inner t'"]
    sy_rel_kept(3) [of "rv_inner t" k v "rv_inner t'"] sy_rel_kept(4) [of "rv_inner t" _ "rv_inner t'"]
  by (auto simp: rv_ops_def rv_insert_def rv_replace_def rv_update_def rv_compact_def rv_put_def family_rel_def
      through_def forward_def Let_def split: option.splits prod.splits sum.splits if_splits)

lemma delete_rel_family:
  assumes "fam.rv.winvar t" "fam.rv.wview t k \<noteq> None"
  shows "\<exists>t'. op_delete (rv_ops key parent_id (sy_ops E Ops)) t k = Some (Inr (), t') \<and> fam.rv.winvar t' \<and>
     fam.rv.wview t' = (fam.rv.wview t)(k := None) \<and> family_rel t' = {(a, b) \<in> family_rel t. a \<noteq> k \<and> b \<noteq> k}"
proof -
  from delete_rel [OF fam.rv.winvarD(1) [OF assms(1)], of k] assms(2) obtain i where
    i: "op_delete (sy_ops E Ops) (rv_inner t) k = Some (Inr (), i)"
      "sy_rel i = {(a, b) \<in> sy_rel (rv_inner t). a \<noteq> k \<and> b \<noteq> k}"
    by (auto simp: fam.rv.wview_def)
  from fam.rv.w.delete_known [OF assms] obtain t' where
    t': "op_delete (rv_ops key parent_id (sy_ops E Ops)) t k = Some (Inr (), t')" "fam.rv.winvar t'"
      "fam.rv.wview t' = (fam.rv.wview t)(k := None)" by blast
  from t'(1) i(1) have "rv_inner t' = i"
    by (auto simp: rv_ops_def rv_delete_def rv_put_def split: option.splits)
  with i(2) t' show ?thesis by (auto simp: family_rel_def)
qed

lemma link_family:
  assumes inv: "fam.rv.winvar t"
  shows "\<exists>t'. rv_link (sy_link E Ops) t a b = Some (fst (e_spec_link (fam.rv.wview t) (family_rel t) a b), t') \<and>
     fam.rv.winvar t' \<and> fam.rv.wview t' = fam.rv.wview t \<and>
     family_rel t' = snd (e_spec_link (fam.rv.wview t) (family_rel t) a b)"
proof -
  let ?s = "rv_inner t"
  have put: "rv_put t ?s = t" by (simp add: rv_put_def)
  have keep: "fam.rv.winvar (rv_put t i) \<and> fam.rv.wview (rv_put t i) = fam.rv.wview t \<and> family_rel (rv_put t i) = sy_rel i"
    if "sy.winvar i" "sy.wview i = sy.wview ?s" for i
    using that fam.rv.winvarD(2) [OF inv] by (simp add: fam.rv.winvar_def fam.rv.wview_def rv_put_def rv_aux_def family_rel_def)
  note spec = link_spec [OF fam.rv.winvarD(1) [OF inv]]
  have v: "fam.rv.wview t = sy.wview ?s" by (simp add: fam.rv.wview_def)
  consider "sy.wview ?s a = None" | "sy.wview ?s a \<noteq> None" "sy.wview ?s b = None"
    | "sy.wview ?s a \<noteq> None" "sy.wview ?s b \<noteq> None" "a = b"
    | "sy.wview ?s a \<noteq> None" "sy.wview ?s b \<noteq> None" "a \<noteq> b" "(a, b) \<in> sy_rel ?s"
    | "sy.wview ?s a \<noteq> None" "sy.wview ?s b \<noteq> None" "a \<noteq> b" "(a, b) \<notin> sy_rel ?s" by blast
  then show ?thesis
  proof cases
    case 5
    from spec(5) [OF 5] obtain i where "sy_link E Ops ?s a b = Some (Inr Linked, i)" "sy.winvar i" "sy.wview i = sy.wview ?s"
      "sy_rel i = insert (b, a) (insert (a, b) (sy_rel ?s))" by blast
    with keep [of i] 5 show ?thesis by (auto simp: rv_link_def e_spec_link_def v family_rel_def)
  qed (use inv put spec in \<open>auto simp: rv_link_def e_spec_link_def v family_rel_def\<close>)
qed

lemma e_step_refines:
  assumes inv: "fam.rv.winvar s" and op: "e_op_ok okr okv op"
  shows "\<exists>s'. e_step (family_ops key parent_id E Ops update) s op = Some (fst (e_spec key setv (fam.rv.wview s, family_rel s) op), s') \<and>
     fam.rv.winvar s' \<and> (fam.rv.wview s', family_rel s') = snd (e_spec key setv (fam.rv.wview s, family_rel s) op)"
proof (cases op)
  case (EInsert r)
  with op have "okr r" by (simp add: e_op_ok_def)
  from inv this show ?thesis
  proof (cases rule: fam.rv.w.insert_cases)
    case (fresh s')
    with rel_kept(1) [OF fresh(2)] EInsert show ?thesis by (simp add: e_step_def e_spec_def)
  qed (use EInsert inv in \<open>auto simp: e_step_def e_spec_def\<close>)
next
  case (EReplace r)
  with op have "okr r" by (simp add: e_op_ok_def)
  from inv this show ?thesis
  proof (cases rule: fam.rv.w.replace_cases)
    case (hit old s')
    with rel_kept(2) [OF hit(2)] EReplace show ?thesis by (simp add: e_step_def e_spec_def)
  qed (use EReplace inv in \<open>auto simp: e_step_def e_spec_def\<close>)
next
  case (EDelete k)
  show ?thesis
  proof (cases "fam.rv.wview s k = None")
    case True
    with EDelete inv fam.rv.w.delete_unknown [OF inv True] show ?thesis by (simp add: e_step_def e_spec_def)
  next
    case False
    with EDelete delete_rel_family [OF inv False] show ?thesis by (auto simp: e_step_def e_spec_def)
  qed
next
  case (EUpdate k v)
  show ?thesis
  proof (cases "fam.rv.wview s k")
    case None
    with fam.rv.w.update_unknown [OF inv None] inv EUpdate show ?thesis by (simp add: e_step_def e_spec_def)
  next
    case (Some r)
    from op EUpdate have "okv v" by (simp add: e_op_ok_def)
    from fam.rv.w.update_known [OF inv this Some] obtain s' where
      "rv_update (sy_update update) s k v = Some (Inr (), s')" "fam.rv.winvar s'" "fam.rv.wview s' = (fam.rv.wview s)(k := setv r v)" by blast
    with rel_kept(3) [OF this(1)] Some EUpdate show ?thesis by (simp add: e_step_def e_spec_def)
  qed
next
  case (ELink a b)
  with link_family [OF inv, of a b] show ?thesis by (auto simp: e_step_def e_spec_def split: prod.splits)
next
  case ECompact
  from fam.rv.w.compact_view [OF inv] obtain rep s' where
    "op_compact (rv_ops key parent_id (sy_ops E Ops)) s = Some (Inr rep, s')" "fam.rv.winvar s'" "fam.rv.wview s' = fam.rv.wview s" by blast
  with rel_kept(4) [OF this(1)] ECompact show ?thesis by (simp add: e_step_def e_spec_def)
qed

lemma e_run_refines:
  assumes "fam.rv.winvar s" "\<forall>op \<in> set ops. e_op_ok okr okv op"
  shows "\<exists>s'. e_run (family_ops key parent_id E Ops update) s ops =
       Some (fst (e_spec_run key setv (fam.rv.wview s, family_rel s) ops), s') \<and>
     fam.rv.winvar s' \<and> (fam.rv.wview s', family_rel s') = snd (e_spec_run key setv (fam.rv.wview s, family_rel s) ops)"
  using assms
proof (induction ops arbitrary: s)
  case (Cons op ops)
  from e_step_refines [OF Cons.prems(1), of op] Cons.prems(2) obtain s1 where
    s1: "e_step (family_ops key parent_id E Ops update) s op = Some (fst (e_spec key setv (fam.rv.wview s, family_rel s) op), s1)"
      "fam.rv.winvar s1" "(fam.rv.wview s1, family_rel s1) = snd (e_spec key setv (fam.rv.wview s, family_rel s) op)" by auto
  from Cons.IH [OF s1(2)] Cons.prems(2) s1(1) show ?case
    unfolding s1(3) by (auto split: prod.splits)
qed simp

text \<open>Every read of the stack, from its records and its edges.\<close>

lemma family_reads:
  assumes "fam.rv.winvar s"
  shows "op_get (e_store (family_ops key parent_id E Ops update)) s k = Some (fam.rv.wview s k)"
    and "distinct (rv_children s p)" and "set (rv_children s p) = {k. \<exists>r. fam.rv.wview s k = Some r \<and> parent_id r = Some p}"
    and "distinct (rv_neighbors sy_neighbors s k)" and "set (rv_neighbors sy_neighbors s k) = {b. (k, b) \<in> family_rel s}"
proof -
  show "op_get (e_store (family_ops key parent_id E Ops update)) s k = Some (fam.rv.wview s k)"
    by (simp add: fam.rv.w.get_view [OF assms])
  show "distinct (rv_children s p)" by (rule fam.children_parent(1) [OF assms])
  show "set (rv_children s p) = {k. \<exists>r. fam.rv.wview s k = Some r \<and> parent_id r = Some p}"
    using fam.children_parent(2) [OF assms, of _ p] fam.rv.w.get_view [OF assms]
    by (auto simp: parent_of_def split: option.splits)
  note nb = neighbors_rel [OF fam.rv.winvarD(1) [OF assms], of k]
  show "distinct (rv_neighbors sy_neighbors s k)" "set (rv_neighbors sy_neighbors s k) = {b. (k, b) \<in> family_rel s}"
    using nb by (simp_all add: rv_neighbors_def family_rel_def)
qed

lemma family_integrity:
  assumes "fam.rv.winvar s"
  shows "sym (family_rel s)" "irrefl (family_rel s)" "within (dom (fam.rv.wview s)) (family_rel s)"
  using sy_rel_props [OF fam.rv.winvarD(1) [OF assms]] by (simp_all add: family_rel_def fam.rv.wview_def)

end

end
