(* ===== verification/Layer_Memory.thy ===== *)
theory Layer_Memory
  imports Layer_Spec
begin

text \<open>
  The in-memory layers of \<open>src/generic/store.rs\<close>: \<open>BaseStore\<close>, the record map; \<open>Indexed\<close>, an equality
  index over any inner store; \<open>Scanned\<close>, a column of one field beside any inner store, with its
  swap-remove. Each is an interpretation or a sublocale of \<open>record_store\<close>.
\<close>

section \<open>\<open>BaseStore\<close>\<close>

type_synonym ('id, 'r) base_store = "'id \<rightharpoonup> 'r"

definition base_new :: "('r \<Rightarrow> 'id) \<Rightarrow> 'r list \<Rightarrow> ('id, 'r) base_store" where
  "base_new key records = foldl (\<lambda>m r. m(key r \<mapsto> r)) Map.empty records"

definition base_get :: "('id, 'r) base_store \<Rightarrow> 'id \<Rightarrow> 'r option option" where
  "base_get s k = Some (s k)"

definition base_insert :: "('r \<Rightarrow> 'id) \<Rightarrow> ('id, 'r) base_store \<Rightarrow> 'r \<Rightarrow>
    ('id insert_error, unit, ('id, 'r) base_store) outcome" where
  "base_insert key s r =
     (if s (key r) \<noteq> None then Some (Inl (InsDuplicate (key r)), s) else Some (Inr (), s(key r \<mapsto> r)))"

definition base_replace :: "('r \<Rightarrow> 'id) \<Rightarrow> ('id, 'r) base_store \<Rightarrow> 'r \<Rightarrow>
    ('id replace_error, unit, ('id, 'r) base_store) outcome" where
  "base_replace key s r =
     (if s (key r) = None then Some (Inl (RepNotFound (key r)), s) else Some (Inr (), s(key r \<mapsto> r)))"

definition base_delete :: "('id, 'r) base_store \<Rightarrow> 'id \<Rightarrow>
    ('id delete_error, unit, ('id, 'r) base_store) outcome" where
  "base_delete s k = Some (if s k = None then Inl (DelNotFound k) else Inr (), s(k := None))"

definition base_compact :: "('id, 'r) base_store \<Rightarrow>
    (durability_error, compaction_report, ('id, 'r) base_store) outcome" where
  "base_compact s = Some (Inr \<lparr>cr_records = 0, cr_slots_reclaimed = 0, cr_log_entries_folded = 0,
     cr_edge_logs_folded = 0\<rparr>, s)"

definition base_ops :: "('r \<Rightarrow> 'id) \<Rightarrow> (('id, 'r) base_store, 'id, 'r) store_ops" where
  "base_ops key = \<lparr>op_get = base_get, op_insert = base_insert key, op_replace = base_replace key,
     op_delete = base_delete, op_compact = base_compact\<rparr>"

definition base_invar :: "('r \<Rightarrow> 'id) \<Rightarrow> ('id, 'r) base_store \<Rightarrow> bool" where
  "base_invar key s \<longleftrightarrow> finite (dom s) \<and> (\<forall>k r. s k = Some r \<longrightarrow> key r = k)"

interpretation base: record_store key "\<lambda>_. True" "base_ops key" "base_invar key" "\<lambda>s. s"
proof unfold_locales
  fix s :: "('b, 'a) base_store" and k
  show "base_invar key s \<Longrightarrow> s k = None \<Longrightarrow> op_delete (base_ops key) s k = Some (Inl (DelNotFound k), s)"
    by (simp add: base_ops_def base_delete_def fun_upd_idem)
qed (auto simp: base_invar_def base_ops_def base_get_def base_insert_def base_replace_def
    base_delete_def base_compact_def)

lemma base_new_ok:
  assumes "distinct (map key rs)"
  shows "base_invar key (base_new key rs)" and "base_new key rs = keyed key rs"
proof -
  have new: "base_new key xs k = map_of (rev (map (\<lambda>r. (key r, r)) xs)) k" for k xs
    by (induction xs rule: rev_induct) (auto simp: base_new_def)
  show eq: "base_new key rs = keyed key rs"
    using keyed_rev [OF assms] new [of rs] by (simp add: fun_eq_iff)
  show "base_invar key (base_new key rs)"
    unfolding eq base_invar_def by (auto simp: dom_keyed dest: keyed_SomeD)
qed

section \<open>\<open>Indexed\<close>\<close>

record ('s, 'id, 'iv) indexed =
  ix_inner :: 's
  ix_index :: "'iv \<rightharpoonup> 'id list"

definition ix_new :: "('r \<Rightarrow> 'id) \<Rightarrow> ('r \<Rightarrow> 'iv) \<Rightarrow> 's \<Rightarrow> 'r list \<Rightarrow> ('s, 'id, 'iv) indexed" where
  "ix_new key iv inner records =
     \<lparr>ix_inner = inner, ix_index = foldl (\<lambda>m r. bucket_push (iv r) (key r) m) Map.empty records\<rparr>"

definition ix_put :: "('s, 'id, 'iv) indexed \<Rightarrow> 's \<Rightarrow> ('s, 'id, 'iv) indexed" where
  "ix_put s i = s\<lparr>ix_inner := i\<rparr>"

definition ix_insert :: "('r \<Rightarrow> 'id) \<Rightarrow> ('r \<Rightarrow> 'iv) \<Rightarrow> ('s, 'id, 'r) store_ops \<Rightarrow> ('s, 'id, 'iv) indexed \<Rightarrow> 'r \<Rightarrow>
    ('id insert_error, unit, ('s, 'id, 'iv) indexed) outcome" where
  "ix_insert key iv Ops s r =
     through (op_insert Ops (ix_inner s) r) (ix_put s) (\<lambda>_ s.
       Some (Inr (), s\<lparr>ix_index := bucket_push (iv r) (key r) (ix_index s)\<rparr>))"

definition ix_delete :: "('r \<Rightarrow> 'iv) \<Rightarrow> ('s, 'id, 'r) store_ops \<Rightarrow> ('s, 'id, 'iv) indexed \<Rightarrow> 'id \<Rightarrow>
    ('id delete_error, unit, ('s, 'id, 'iv) indexed) outcome" where
  "ix_delete iv Ops s k =
     (case op_get Ops (ix_inner s) k of
        None \<Rightarrow> None
      | Some None \<Rightarrow> Some (Inl (DelNotFound k), s)
      | Some (Some old) \<Rightarrow>
          through (op_delete Ops (ix_inner s) k) (ix_put s) (\<lambda>_ s.
            Some (Inr (), s\<lparr>ix_index := bucket_drop (iv old) k (ix_index s)\<rparr>)))"

definition ix_replace :: "('r \<Rightarrow> 'id) \<Rightarrow> ('r \<Rightarrow> 'iv) \<Rightarrow> ('s, 'id, 'r) store_ops \<Rightarrow> ('s, 'id, 'iv) indexed \<Rightarrow> 'r \<Rightarrow>
    ('id replace_error, unit, ('s, 'id, 'iv) indexed) outcome" where
  "ix_replace key iv Ops s r =
     (case op_get Ops (ix_inner s) (key r) of
        None \<Rightarrow> None
      | Some None \<Rightarrow> Some (Inl (RepNotFound (key r)), s)
      | Some (Some old) \<Rightarrow>
          through (op_replace Ops (ix_inner s) r) (ix_put s) (\<lambda>_ s.
            if iv old \<noteq> iv r
            then Some (Inr (), s\<lparr>ix_index := bucket_push (iv r) (key r) (bucket_drop (iv old) (key r) (ix_index s))\<rparr>)
            else Some (Inr (), s)))"

definition ix_filter_eq :: "('s, 'id, 'iv) indexed \<Rightarrow> 'iv \<Rightarrow> 'id list" where
  "ix_filter_eq s v = bucket (ix_index s) v"

definition ix_compact :: "('s, 'id, 'r) store_ops \<Rightarrow> ('s, 'id, 'iv) indexed \<Rightarrow>
    (durability_error, compaction_report, ('s, 'id, 'iv) indexed) outcome" where
  "ix_compact Ops s = forward (op_compact Ops (ix_inner s)) (ix_put s)"

definition ix_get :: "('s, 'id, 'r) store_ops \<Rightarrow> ('s, 'id, 'iv) indexed \<Rightarrow> 'id \<Rightarrow> 'r option option" where
  "ix_get Ops s k = op_get Ops (ix_inner s) k"

definition ix_ops :: "('r \<Rightarrow> 'id) \<Rightarrow> ('r \<Rightarrow> 'iv) \<Rightarrow> ('s, 'id, 'r) store_ops \<Rightarrow>
    (('s, 'id, 'iv) indexed, 'id, 'r) store_ops" where
  "ix_ops key iv Ops = \<lparr>op_get = ix_get Ops, op_insert = ix_insert key iv Ops,
     op_replace = ix_replace key iv Ops, op_delete = ix_delete iv Ops, op_compact = ix_compact Ops\<rparr>"

definition ix_aux :: "('r \<Rightarrow> 'iv) \<Rightarrow> ('id \<rightharpoonup> 'r) \<Rightarrow> ('s, 'id, 'iv) indexed \<Rightarrow> bool" where
  "ix_aux iv m s \<longleftrightarrow> no_empty_bucket (ix_index s) \<and> tracks (\<lambda>r. {iv r}) m (ix_index s)"

locale indexed_layer = record_store key okr Ops invar view
  for key :: "'r \<Rightarrow> 'id" and okr :: "'r \<Rightarrow> bool" and Ops :: "('s, 'id, 'r) store_ops"
    and invar :: "'s \<Rightarrow> bool" and view :: "'s \<Rightarrow> 'id \<rightharpoonup> 'r" +
  fixes iv :: "'r \<Rightarrow> 'iv"

sublocale indexed_layer \<subseteq> ix: wrapping_layer key okr Ops invar view ix_inner "ix_aux iv" "ix_ops key iv Ops"
proof unfold_locales
  fix t :: "('s, 'id, 'iv) indexed" and r old :: 'r and k :: 'id and m i rep e
  show "op_get (ix_ops key iv Ops) t k = op_get Ops (ix_inner t) k"
    by (simp add: ix_ops_def ix_get_def)
  show "op_insert Ops (ix_inner t) r = Some (Inl e, ix_inner t) \<Longrightarrow> op_insert (ix_ops key iv Ops) t r = Some (Inl e, t)"
    by (simp add: ix_ops_def ix_insert_def ix_put_def)
  show "op_get Ops (ix_inner t) (key r) = Some None \<Longrightarrow>
      op_replace (ix_ops key iv Ops) t r = Some (Inl (RepNotFound (key r)), t)"
    by (simp add: ix_ops_def ix_replace_def)
  show "op_get Ops (ix_inner t) k = Some None \<Longrightarrow> op_delete (ix_ops key iv Ops) t k = Some (Inl (DelNotFound k), t)"
    by (simp add: ix_ops_def ix_delete_def)
  show "ix_aux iv m t \<Longrightarrow> op_compact Ops (ix_inner t) = Some (Inr rep, i) \<Longrightarrow>
      \<exists>rep' t'. op_compact (ix_ops key iv Ops) t = Some (Inr rep', t') \<and> ix_inner t' = i \<and> ix_aux iv m t'"
    by (simp add: ix_ops_def ix_compact_def ix_put_def ix_aux_def)
  show "ix_aux iv m t \<Longrightarrow> m (key r) = None \<Longrightarrow> op_insert Ops (ix_inner t) r = Some (Inr (), i) \<Longrightarrow>
      \<exists>t'. op_insert (ix_ops key iv Ops) t r = Some (Inr (), t') \<and> ix_inner t' = i \<and> ix_aux iv (m(key r \<mapsto> r)) t'"
    using tracks_insert [of "\<lambda>r. {iv r}" m "ix_index t" "key r" "bucket_push (iv r) (key r) (ix_index t)" r]
    by (simp add: ix_ops_def ix_insert_def ix_put_def ix_aux_def bucket_simps)
  show "ix_aux iv m t \<Longrightarrow> m k = Some old \<Longrightarrow> op_get Ops (ix_inner t) k = Some (Some old) \<Longrightarrow>
      op_delete Ops (ix_inner t) k = Some (Inr (), i) \<Longrightarrow>
      \<exists>t'. op_delete (ix_ops key iv Ops) t k = Some (Inr (), t') \<and> ix_inner t' = i \<and> ix_aux iv (m(k := None)) t'"
    using tracks_delete [of "\<lambda>r. {iv r}" m "ix_index t" k old "bucket_drop (iv old) k (ix_index t)"]
    by (simp add: ix_ops_def ix_delete_def ix_put_def ix_aux_def bucket_simps)
  show "ix_aux iv m t \<Longrightarrow> m (key r) = Some old \<Longrightarrow> op_get Ops (ix_inner t) (key r) = Some (Some old) \<Longrightarrow>
      op_replace Ops (ix_inner t) r = Some (Inr (), i) \<Longrightarrow>
      \<exists>t'. op_replace (ix_ops key iv Ops) t r = Some (Inr (), t') \<and> ix_inner t' = i \<and> ix_aux iv (m(key r \<mapsto> r)) t'"
    using tracks_replace [of "\<lambda>r. {iv r}" m "ix_index t" "key r" old
      "if iv old \<noteq> iv r then bucket_push (iv r) (key r) (bucket_drop (iv old) (key r) (ix_index t)) else ix_index t" r]
    by (auto simp: ix_ops_def ix_replace_def ix_put_def ix_aux_def bucket_simps)
qed

context indexed_layer
begin

lemma filter_eq_view:
  assumes "ix.winvar s"
  shows "distinct (ix_filter_eq s v)"
    and "set (ix_filter_eq s v) = {k. \<exists>r. ix.wview s k = Some r \<and> iv r = v}"
  using ix.winvarD(2) [OF assms] by (auto simp: ix_aux_def ix_filter_eq_def ix.wview_def tracks_def)

end

lemma index_of_records:
  assumes "distinct (map key rs)"
  shows "tracks (\<lambda>r. {iv r}) (keyed key rs) (foldl (\<lambda>m r. bucket_push (iv r) (key r) m) Map.empty rs)"
  using assms
proof (induction rs rule: rev_induct)
  case Nil
  then show ?case by (simp add: tracks_def)
next
  case (snoc r rs)
  then have new: "keyed key rs (key r) = None"
    using dom_keyed [of key rs] by (auto simp: domIff)
  then have "keyed key (rs @ [r]) = (keyed key rs)(key r \<mapsto> r)" by (rule keyed_snoc)
  moreover have "tracks (\<lambda>r. {iv r}) ((keyed key rs)(key r \<mapsto> r))
      (bucket_push (iv r) (key r) (foldl (\<lambda>m r. bucket_push (iv r) (key r) m) Map.empty rs))"
  proof (rule tracks_insert)
    show "tracks (\<lambda>r. {iv r}) (keyed key rs) (foldl (\<lambda>m r. bucket_push (iv r) (key r) m) Map.empty rs)"
      using snoc by simp
  qed (use new in \<open>simp_all add: bucket_simps\<close>)
  ultimately show ?case by (simp only: foldl_append foldl_Cons foldl_Nil)
qed

context indexed_layer
begin

lemma ix_new_ok:
  assumes "invar inner" "view inner = keyed key rs" "distinct (map key rs)"
  shows "ix.winvar (ix_new key iv inner rs)" and "ix.wview (ix_new key iv inner rs) = keyed key rs"
proof -
  have "no_empty_bucket (foldl (\<lambda>m r. bucket_push (iv r) (key r) m) Map.empty rs)"
    by (induction rs rule: rev_induct) auto
  with assms index_of_records [OF assms(3)] show "ix.winvar (ix_new key iv inner rs)"
    by (intro ix.winvarI) (simp_all add: ix_aux_def ix_new_def)
  show "ix.wview (ix_new key iv inner rs) = keyed key rs"
    using assms by (simp add: ix.wview_def ix_new_def)
qed

end

section \<open>Scannable fields\<close>

text \<open>What a layer relies on of \<open>ScannableField\<close>: the setter writes that field and no other.\<close>

locale scan_field =
  fixes key :: "'r \<Rightarrow> 'id"
    and sv :: "'r \<Rightarrow> 'v"
    and setv :: "'r \<Rightarrow> 'v \<Rightarrow> 'r option"
    and okv :: "'v \<Rightarrow> bool"
  assumes setv_frame: "setv r v = Some r' \<Longrightarrow> key r' = key r \<and> sv r' = v"
    and setv_same: "setv r (sv r) = Some r"
    and setv_setv: "setv r v = Some r' \<Longrightarrow> setv r' w = setv r w"
    and setv_okv: "setv r v = None \<longleftrightarrow> \<not> okv v"

sublocale record_laws \<subseteq> scan_field "rid E" "scannable_value E" "set_scannable_value E" valid_value
proof unfold_locales
  show "set_scannable_value E r v = None \<longleftrightarrow> \<not> valid_value v" for r v
    unfolding valid_iff [of v r] by simp
qed (use set_frame set_same in \<open>auto dest: set_set\<close>)

section \<open>\<open>Scanned\<close>\<close>

record ('s, 'id, 'v) scanned =
  sc_inner :: 's
  sc_position_index :: "('id, nat) hash_map"
  sc_cache :: "'v list"

definition sc_new :: "('r \<Rightarrow> 'id) \<Rightarrow> ('r \<Rightarrow> 'v) \<Rightarrow> 's \<Rightarrow> 'r list \<Rightarrow> ('s, 'id, 'v) scanned" where
  "sc_new key sv inner records =
     \<lparr>sc_inner = inner,
      sc_position_index = hm_collect (map (\<lambda>(p, r). (key r, p)) (enumerate 0 records)),
      sc_cache = map sv records\<rparr>"

definition sc_put :: "('s, 'id, 'v) scanned \<Rightarrow> 's \<Rightarrow> ('s, 'id, 'v) scanned" where
  "sc_put s i = s\<lparr>sc_inner := i\<rparr>"

definition sc_insert :: "('r \<Rightarrow> 'id) \<Rightarrow> ('r \<Rightarrow> 'v) \<Rightarrow> ('s, 'id, 'r) store_ops \<Rightarrow> ('s, 'id, 'v) scanned \<Rightarrow> 'r \<Rightarrow>
    ('id insert_error, unit, ('s, 'id, 'v) scanned) outcome" where
  "sc_insert key sv Ops s r =
     through (op_insert Ops (sc_inner s) r) (sc_put s) (\<lambda>_ s.
       Some (Inr (), s\<lparr>sc_position_index := AList.update (key r) (length (sc_cache s)) (sc_position_index s),
                       sc_cache := sc_cache s @ [sv r]\<rparr>))"

text \<open>The swap-remove: the last value moves into the freed place. \<open>None\<close>: an index out of range.\<close>

definition sc_take_out :: "('id, nat) hash_map \<Rightarrow> 'v list \<Rightarrow> nat \<Rightarrow> (('id, nat) hash_map \<times> 'v list) option" where
  "sc_take_out pos cache p =
     (if cache = [] then None
      else let last = length cache - 1 in
        if p \<noteq> last then
          (if p < length cache then
             Some (case List.find (\<lambda>(_, q). q = last) pos of
                     Some (moved, _) \<Rightarrow> AList.update moved p pos
                   | None \<Rightarrow> pos,
                   butlast (cache[p := cache ! last, last := cache ! p]))
           else None)
        else Some (pos, butlast cache))"

definition sc_delete :: "('s, 'id, 'r) store_ops \<Rightarrow> ('s, 'id, 'v) scanned \<Rightarrow> 'id \<Rightarrow>
    ('id delete_error, unit, ('s, 'id, 'v) scanned) outcome" where
  "sc_delete Ops s k =
     through (op_delete Ops (sc_inner s) k) (sc_put s) (\<lambda>_ s.
       case map_of (sc_position_index s) k of
         None \<Rightarrow> Some (Inr (), s)
       | Some p \<Rightarrow>
           (case sc_take_out (AList.delete k (sc_position_index s)) (sc_cache s) p of
              None \<Rightarrow> None
            | Some (pos, cache) \<Rightarrow> Some (Inr (), s\<lparr>sc_position_index := pos, sc_cache := cache\<rparr>)))"

definition sc_replace :: "('r \<Rightarrow> 'id) \<Rightarrow> ('r \<Rightarrow> 'v) \<Rightarrow> ('s, 'id, 'r) store_ops \<Rightarrow> ('s, 'id, 'v) scanned \<Rightarrow> 'r \<Rightarrow>
    ('id replace_error, unit, ('s, 'id, 'v) scanned) outcome" where
  "sc_replace key sv Ops s r =
     through (op_replace Ops (sc_inner s) r) (sc_put s) (\<lambda>_ s.
       case map_of (sc_position_index s) (key r) of
         None \<Rightarrow> Some (Inl (RepNotFound (key r)), s)
       | Some p \<Rightarrow> (if p < length (sc_cache s)
                   then Some (Inr (), s\<lparr>sc_cache := (sc_cache s)[p := sv r]\<rparr>) else None))"

definition sc_scan :: "('s, 'id, 'v) scanned \<Rightarrow> 'v list" where
  "sc_scan s = sc_cache s"

definition sc_update :: "('s, 'id, 'v) scanned \<Rightarrow> 'id \<Rightarrow> 'v \<Rightarrow>
    ('id not_found, unit, ('s, 'id, 'v) scanned) outcome" where
  "sc_update s k v =
     (case map_of (sc_position_index s) k of
        None \<Rightarrow> Some (Inl (NotFound k), s)
      | Some p \<Rightarrow> (if p < length (sc_cache s)
                  then Some (Inr (), s\<lparr>sc_cache := (sc_cache s)[p := v]\<rparr>) else None))"

definition sc_get :: "('r \<Rightarrow> 'v \<Rightarrow> 'r option) \<Rightarrow> ('s, 'id, 'r) store_ops \<Rightarrow> ('s, 'id, 'v) scanned \<Rightarrow> 'id \<Rightarrow>
    'r option option" where
  "sc_get setv Ops s k =
     (case op_get Ops (sc_inner s) k of
        None \<Rightarrow> None
      | Some None \<Rightarrow> Some None
      | Some (Some r) \<Rightarrow>
          (case map_of (sc_position_index s) k of
             None \<Rightarrow> Some (Some r)
           | Some p \<Rightarrow> (if p < length (sc_cache s) then map_option Some (setv r (sc_cache s ! p)) else None)))"

definition sc_compact :: "('s, 'id, 'r) store_ops \<Rightarrow> ('s, 'id, 'v) scanned \<Rightarrow>
    (durability_error, compaction_report, ('s, 'id, 'v) scanned) outcome" where
  "sc_compact Ops s = forward (op_compact Ops (sc_inner s)) (sc_put s)"

text \<open>\<open>FilterEq\<close> of the layer below.\<close>

definition sc_filter_eq :: "('s \<Rightarrow> 'iv \<Rightarrow> 'id list) \<Rightarrow> ('s, 'id, 'v) scanned \<Rightarrow> 'iv \<Rightarrow> 'id list" where
  "sc_filter_eq inner_filter s v = inner_filter (sc_inner s) v"

definition sc_ops :: "('r \<Rightarrow> 'id) \<Rightarrow> ('r \<Rightarrow> 'v) \<Rightarrow> ('r \<Rightarrow> 'v \<Rightarrow> 'r option) \<Rightarrow> ('s, 'id, 'r) store_ops \<Rightarrow>
    (('s, 'id, 'v) scanned, 'id, 'r) store_ops" where
  "sc_ops key sv setv Ops = \<lparr>op_get = sc_get setv Ops, op_insert = sc_insert key sv Ops,
     op_replace = sc_replace key sv Ops, op_delete = sc_delete Ops, op_compact = sc_compact Ops\<rparr>"

text \<open>Positions and cache together are a column: a value for each id, every place used once.\<close>

definition column :: "('id, nat) hash_map \<Rightarrow> 'v list \<Rightarrow> 'id \<rightharpoonup> 'v" where
  "column pos cache k = map_option ((!) cache) (map_of pos k)"

definition column_ok :: "('id, nat) hash_map \<Rightarrow> 'v list \<Rightarrow> bool" where
  "column_ok pos cache \<longleftrightarrow> hm_wf pos \<and>
     (\<forall>k p. map_of pos k = Some p \<longrightarrow> p < length cache) \<and>
     (\<forall>k j p. map_of pos k = Some p \<and> map_of pos j = Some p \<longrightarrow> k = j) \<and>
     (\<forall>p < length cache. \<exists>k. map_of pos k = Some p)"

lemma dom_column: "dom (column pos cache) = dom (map_of pos)"
  by (auto simp: column_def domIff)

lemma column_append:
  assumes "column_ok pos cache" "map_of pos k = None"
  shows "column_ok (AList.update k (length cache) pos) (cache @ [v])"
    and "column (AList.update k (length cache) pos) (cache @ [v]) = (column pos cache)(k \<mapsto> v)"
proof -
  from assms(1) have lt: "\<And>j p. map_of pos j = Some p \<Longrightarrow> p < length cache"
    and onto: "\<And>p. p < length cache \<Longrightarrow> \<exists>k. map_of pos k = Some p"
    by (auto simp: column_ok_def)
  have "\<exists>j. map_of (AList.update k (length cache) pos) j = Some p" if "p < Suc (length cache)" for p
  proof (cases "p = length cache")
    case False
    with that onto [of p] obtain j where "map_of pos j = Some p" by auto
    moreover from this assms(2) have "j \<noteq> k" by auto
    ultimately show ?thesis by (intro exI [of _ j]) (simp add: update_conv')
  qed (auto simp: update_conv')
  with assms show "column_ok (AList.update k (length cache) pos) (cache @ [v])"
    by (auto simp: column_ok_def update_conv' less_Suc_eq dest: lt split: if_splits)
  show "column (AList.update k (length cache) pos) (cache @ [v]) = (column pos cache)(k \<mapsto> v)"
  proof
    fix j
    show "column (AList.update k (length cache) pos) (cache @ [v]) j = ((column pos cache)(k \<mapsto> v)) j"
      by (cases "map_of pos j") (auto simp: column_def update_conv' nth_append dest: lt)
  qed
qed

lemma column_set:
  assumes "column_ok pos cache" "map_of pos k = Some p"
  shows "p < length cache" and "column_ok pos (cache[p := v])"
    and "column pos (cache[p := v]) = (column pos cache)(k \<mapsto> v)"
proof -
  show lt: "p < length cache" using assms by (auto simp: column_ok_def)
  show "column_ok pos (cache[p := v])" using assms(1) by (simp add: column_ok_def)
  show "column pos (cache[p := v]) = (column pos cache)(k \<mapsto> v)"
  proof
    fix j
    show "column pos (cache[p := v]) j = ((column pos cache)(k \<mapsto> v)) j"
      using assms lt by (cases "map_of pos j") (auto simp: column_def column_ok_def nth_list_update)
  qed
qed

lemma find_unique:
  assumes "x \<in> set xs" "P x" "\<And>y. y \<in> set xs \<Longrightarrow> P y \<Longrightarrow> y = x"
  shows "List.find P xs = Some x"
  using assms
proof (induction xs)
  case (Cons z zs)
  show ?case
  proof (cases "P z")
    case True
    with Cons.prems(3) [of z] have "z = x" by simp
    with True show ?thesis by simp
  next
    case False
    with Cons.prems(1,2) have "x \<in> set zs" by auto
    from Cons.IH [OF this Cons.prems(2)] Cons.prems(3) have "List.find P zs = Some x" by simp
    with False show ?thesis by simp
  qed
qed simp

lemma column_okI:
  assumes "hm_wf pos" "\<And>j q. map_of pos j = Some q \<Longrightarrow> q < length cache"
    "\<And>i j q. map_of pos i = Some q \<Longrightarrow> map_of pos j = Some q \<Longrightarrow> i = j"
    "\<And>q. q < length cache \<Longrightarrow> \<exists>j. map_of pos j = Some q"
  shows "column_ok pos cache"
  unfolding column_ok_def using assms by blast

lemma column_okD:
  assumes "column_ok pos cache"
  shows "hm_wf pos" "map_of pos j = Some q \<Longrightarrow> q < length cache"
    "map_of pos i = Some q \<Longrightarrow> map_of pos j = Some q \<Longrightarrow> i = j"
    "q < length cache \<Longrightarrow> \<exists>j. map_of pos j = Some q"
  using assms unfolding column_ok_def by blast+

lemma hm_wf_map_of: "hm_wf m \<Longrightarrow> (k, v) \<in> set m \<Longrightarrow> map_of m k = Some v"
  by (simp add: hm_wf_def)

text \<open>Taking out the last place drops it; any other place is refilled with the last value.\<close>

lemma column_take_last:
  assumes ok: "column_ok pos cache" and k: "map_of pos k = Some p" and last: "p = length cache - 1"
  shows "sc_take_out (AList.delete k pos) cache p = Some (AList.delete k pos, butlast cache)"
    "column_ok (AList.delete k pos) (butlast cache)"
    "column (AList.delete k pos) (butlast cache) = (column pos cache)(k := None)"
proof -
  note okD = column_okD [OF ok]
  have del: "map_of (AList.delete k pos) = (map_of pos)(k := None)" by (rule delete_conv')
  have lt: "q < length (butlast cache)" if "map_of pos j = Some q" "j \<noteq> k" for j q
  proof -
    from that(2) okD(3) [OF that(1)] k have "q \<noteq> p" by auto
    with okD(2) [OF that(1)] last show ?thesis by simp
  qed
  show "sc_take_out (AList.delete k pos) cache p = Some (AList.delete k pos, butlast cache)"
    using okD(2) [OF k] last by (auto simp: sc_take_out_def Let_def)
  show "column_ok (AList.delete k pos) (butlast cache)"
  proof (rule column_okI)
    show "\<exists>j. map_of (AList.delete k pos) j = Some q" if "q < length (butlast cache)" for q
    proof -
      from that have "q < length cache" by simp
      from okD(4) [OF this] obtain j where j: "map_of pos j = Some q" ..
      with k that last have "j \<noteq> k" by auto
      with j show ?thesis by (auto simp: del)
    qed
  qed (use okD(1,3) lt in \<open>auto simp: del split: if_splits\<close>)
  show "column (AList.delete k pos) (butlast cache) = (column pos cache)(k := None)"
  proof
    fix j
    show "column (AList.delete k pos) (butlast cache) j = ((column pos cache)(k := None)) j"
      by (cases "map_of pos j") (auto simp: column_def del nth_butlast dest: lt)
  qed
qed

lemma column_take_swap:
  assumes ok: "column_ok pos cache" and k: "map_of pos k = Some p" and ne: "p \<noteq> length cache - 1"
  obtains pos' where "sc_take_out (AList.delete k pos) cache p =
      Some (pos', butlast (cache[p := cache ! (length cache - 1), length cache - 1 := cache ! p]))"
    "column_ok pos' (butlast (cache[p := cache ! (length cache - 1), length cache - 1 := cache ! p]))"
    "column pos' (butlast (cache[p := cache ! (length cache - 1), length cache - 1 := cache ! p])) =
      (column pos cache)(k := None)"
proof -
  note okD = column_okD [OF ok]
  define last where "last = length cache - 1"
  note pl = okD(2) [OF k]
  have del: "map_of (AList.delete k pos) = (map_of pos)(k := None)" by (rule delete_conv')
  have wf': "hm_wf (AList.delete k pos)" using okD(1) by simp
  have lt': "p < last" "last < length cache" "length cache - 1 = last" using pl ne by (auto simp: last_def)
  from okD(4) [OF lt'(2)] obtain moved where moved: "map_of pos moved = Some last" ..
  with k lt'(1) have mk: "moved \<noteq> k" by auto
  let ?pos = "AList.update moved p (AList.delete k pos)"
  let ?cache = "butlast (cache[p := cache ! last, last := cache ! p])"
  have len: "length ?cache = last" using lt' by simp
  have pos': "map_of ?pos j = (if j = moved then Some p else if j = k then None else map_of pos j)" for j
    by (simp add: update_conv' del)
  have q_lt: "q < last \<and> q \<noteq> p" if q: "map_of pos j = Some q" and "j \<noteq> k" "j \<noteq> moved" for j q
    using okD(2) [OF q] okD(3) [OF q, of k] okD(3) [OF q, of moved] k moved that(2,3) lt'
    by (cases "q = last"; cases "q = p") auto
  have "List.find (\<lambda>(_, q). q = last) (AList.delete k pos) = Some (moved, last)"
  proof (rule find_unique)
    show "(moved, last) \<in> set (AList.delete k pos)"
      using moved mk map_of_SomeD [of "AList.delete k pos" moved last] by (simp add: del)
    show "x = (moved, last)" if x: "x \<in> set (AList.delete k pos)" "case x of (_, q) \<Rightarrow> q = last" for x
    proof -
      obtain i q where iq: "x = (i, q)" by (cases x)
      with x(1) hm_wf_map_of [OF wf', of i q] have "map_of pos i = Some q" by (auto simp: del split: if_splits)
      with iq x(2) okD(3) [OF moved, of i] show ?thesis by simp
    qed
  qed simp
  then have out: "sc_take_out (AList.delete k pos) cache p = Some (?pos, ?cache)"
    using ne pl lt' by (auto simp: sc_take_out_def Let_def)
  have "column_ok ?pos ?cache"
  proof (rule column_okI)
    show "\<exists>j. map_of ?pos j = Some q" if "q < length ?cache" for q
    proof (cases "q = p")
      case False
      from that len lt' have "q < length cache" by simp
      from okD(4) [OF this] obtain j where j: "map_of pos j = Some q" ..
      with False k moved that len have "j \<noteq> k" "j \<noteq> moved" by auto
      with j show ?thesis by (auto simp: pos')
    qed (auto simp: pos')
    show "q < length ?cache" if "map_of ?pos j = Some q" for j q
      using that q_lt [of j q] lt' unfolding len by (auto simp: pos' split: if_splits)
    show "i = j" if "map_of ?pos i = Some q" "map_of ?pos j = Some q" for i j q
      using that q_lt [of i q] q_lt [of j q] okD(3) [of i q j] by (auto simp: pos' split: if_splits)
  qed (use wf' in simp)
  moreover have "column ?pos ?cache = (column pos cache)(k := None)"
  proof
    fix j
    show "column ?pos ?cache j = ((column pos cache)(k := None)) j"
    proof (cases "j = moved \<or> j = k \<or> map_of pos j = None")
      case True
      with mk moved lt' show ?thesis by (auto simp: column_def pos' nth_butlast)
    next
      case False
      then obtain q where q: "map_of pos j = Some q" by auto
      with False q_lt [OF q] lt' show ?thesis by (auto simp: column_def pos' nth_butlast nth_list_update)
    qed
  qed
  ultimately show thesis using that [of ?pos] out by (simp only: lt'(3))
qed

lemma column_take_out:
  assumes ok: "column_ok pos cache" and k: "map_of pos k = Some p"
  obtains pos' cache' where "sc_take_out (AList.delete k pos) cache p = Some (pos', cache')"
    "column_ok pos' cache'" "column pos' cache' = (column pos cache)(k := None)" "set cache' \<subseteq> set cache"
proof (cases "p = length cache - 1")
  case True
  have "set (butlast cache) \<subseteq> set cache" by (meson in_set_butlastD subsetI)
  with column_take_last [OF ok k True] that show thesis by blast
next
  case False
  have "p < length cache" "length cache - 1 < length cache" using column_okD(2) [OF ok k] by auto
  then have "set (cache[p := cache ! (length cache - 1), length cache - 1 := cache ! p]) = set cache"
    by (rule set_swap)
  then have "set (butlast (cache[p := cache ! (length cache - 1), length cache - 1 := cache ! p])) \<subseteq> set cache"
    using in_set_butlastD by (metis subsetI)
  then show thesis using column_take_swap [OF ok k False] that by metis
qed

definition sc_invar :: "('v \<Rightarrow> bool) \<Rightarrow> ('s \<Rightarrow> bool) \<Rightarrow> ('s \<Rightarrow> 'id \<rightharpoonup> 'r) \<Rightarrow> ('s, 'id, 'v) scanned \<Rightarrow> bool" where
  "sc_invar okv invar view s \<longleftrightarrow> invar (sc_inner s) \<and> column_ok (sc_position_index s) (sc_cache s) \<and>
     dom (column (sc_position_index s) (sc_cache s)) = dom (view (sc_inner s)) \<and> (\<forall>v \<in> set (sc_cache s). okv v)"

definition sc_view :: "('r \<Rightarrow> 'v \<Rightarrow> 'r option) \<Rightarrow> ('s \<Rightarrow> 'id \<rightharpoonup> 'r) \<Rightarrow> ('s, 'id, 'v) scanned \<Rightarrow> 'id \<rightharpoonup> 'r" where
  "sc_view setv view s k =
     (case view (sc_inner s) k of
        None \<Rightarrow> None
      | Some r \<Rightarrow> (case column (sc_position_index s) (sc_cache s) k of None \<Rightarrow> Some r | Some v \<Rightarrow> setv r v))"

locale scanned_layer = record_store key okr Ops invar view + scan_field key sv setv okv
  for key :: "'r \<Rightarrow> 'id" and okr :: "'r \<Rightarrow> bool" and Ops :: "('s, 'id, 'r) store_ops"
    and invar :: "'s \<Rightarrow> bool" and view :: "'s \<Rightarrow> 'id \<rightharpoonup> 'r"
    and sv :: "'r \<Rightarrow> 'v" and setv :: "'r \<Rightarrow> 'v \<Rightarrow> 'r option" and okv :: "'v \<Rightarrow> bool"
begin

abbreviation "scinv \<equiv> sc_invar okv invar view"
abbreviation "scview \<equiv> sc_view setv view"

lemma okv_sv [simp]: "okv (sv r)"
  using setv_same [of r] setv_okv [of r "sv r"] by simp

lemma scinvD:
  assumes "scinv s"
  shows "invar (sc_inner s)" "column_ok (sc_position_index s) (sc_cache s)"
    "view (sc_inner s) k = None \<longleftrightarrow> map_of (sc_position_index s) k = None"
    "map_of (sc_position_index s) k = Some p \<Longrightarrow> p < length (sc_cache s) \<and> okv (sc_cache s ! p)"
proof -
  from assms show ok: "invar (sc_inner s)" "column_ok (sc_position_index s) (sc_cache s)"
    by (simp_all add: sc_invar_def)
  from assms have "dom (map_of (sc_position_index s)) = dom (view (sc_inner s))"
    by (simp add: sc_invar_def dom_column)
  then show "view (sc_inner s) k = None \<longleftrightarrow> map_of (sc_position_index s) k = None"
    by (metis domIff)
  show "map_of (sc_position_index s) k = Some p \<Longrightarrow> p < length (sc_cache s) \<and> okv (sc_cache s ! p)"
    using column_okD(2) [OF ok(2)] assms by (auto simp: sc_invar_def)
qed

lemma scview_None: "scinv s \<Longrightarrow> scview s k = None \<longleftrightarrow> view (sc_inner s) k = None"
  using scinvD(4) [of s k] setv_okv
  by (auto simp: sc_view_def column_def split: option.splits)

lemma scview_Some:
  assumes "scinv s" "view (sc_inner s) k = Some r"
  obtains p r' where "map_of (sc_position_index s) k = Some p" "p < length (sc_cache s)"
    "setv r (sc_cache s ! p) = Some r'" "scview s k = Some r'"
proof -
  from scinvD(3) [OF assms(1), of k] assms(2) obtain p where p: "map_of (sc_position_index s) k = Some p" by auto
  from scinvD(4) [OF assms(1) p] setv_okv [of r "sc_cache s ! p"] obtain r' where
    "p < length (sc_cache s)" "setv r (sc_cache s ! p) = Some r'" by auto
  with p assms(2) that show thesis by (simp add: sc_view_def column_def)
qed

lemma scview_upd:
  assumes "view i = (view (sc_inner s))(k \<mapsto> r)" "column pos cache = (column (sc_position_index s) (sc_cache s))(k \<mapsto> sv r)"
  shows "scview (s\<lparr>sc_inner := i, sc_position_index := pos, sc_cache := cache\<rparr>) = (scview s)(k \<mapsto> r)"
  using setv_same by (auto simp: fun_eq_iff sc_view_def assms split: option.split)

lemma scinv_upd:
  assumes "scinv s" "invar i" "view i = (view (sc_inner s))(k := x)" "column_ok pos cache"
    "column pos cache = (column (sc_position_index s) (sc_cache s))(k := y)" "x = None \<longleftrightarrow> y = None"
    "\<forall>v \<in> set cache. okv v"
  shows "scinv (s\<lparr>sc_inner := i, sc_position_index := pos, sc_cache := cache\<rparr>)"
  using assms by (auto simp: sc_invar_def dom_fun_upd split: if_splits)

lemma sc_put_set: "(sc_put s i)\<lparr>sc_position_index := pos, sc_cache := cache\<rparr> =
     s\<lparr>sc_inner := i, sc_position_index := pos, sc_cache := cache\<rparr>"
  by (simp add: sc_put_def)

lemma sc_insert_fresh:
  assumes inv: "scinv s" and ok: "okr r" and none: "view (sc_inner s) (key r) = None"
  shows "\<exists>s'. sc_insert key sv Ops s r = Some (Inr (), s') \<and> scinv s' \<and> scview s' = (scview s)(key r \<mapsto> r)"
proof -
  obtain i where i: "op_insert Ops (sc_inner s) r = Some (Inr (), i)" "invar i"
    "view i = (view (sc_inner s))(key r \<mapsto> r)" using insert_fresh [OF scinvD(1) [OF inv] ok none] by blast
  have "map_of (sc_position_index s) (key r) = None" using scinvD(3) [OF inv] none by blast
  note col = column_append [OF scinvD(2) [OF inv] this, of "sv r"]
  have "\<forall>v \<in> set (sc_cache s @ [sv r]). okv v" using inv by (simp add: sc_invar_def)
  from scinv_upd [OF inv i(2,3) col _ this] scview_upd [OF i(3) col(2)] show ?thesis
    by (simp add: sc_insert_def i(1) sc_put_def)
qed

lemma sc_replace_known:
  assumes inv: "scinv s" and ok: "okr r" and some: "view (sc_inner s) (key r) = Some old"
  shows "\<exists>s'. sc_replace key sv Ops s r = Some (Inr (), s') \<and> scinv s' \<and> scview s' = (scview s)(key r \<mapsto> r)"
proof -
  obtain i where i: "op_replace Ops (sc_inner s) r = Some (Inr (), i)" "invar i"
    "view i = (view (sc_inner s))(key r \<mapsto> r)" using replace_known [OF scinvD(1) [OF inv] ok] some by blast
  from scview_Some [OF inv some] obtain p where p: "map_of (sc_position_index s) (key r) = Some p"
    "p < length (sc_cache s)" by blast
  note col = column_set(2,3) [OF scinvD(2) [OF inv] p(1), where v = "sv r"]
  have "\<forall>v \<in> set ((sc_cache s)[p := sv r]). okv v"
    using inv set_update_subset_insert [of "sc_cache s" p "sv r"] by (auto simp: sc_invar_def)
  from scinv_upd [OF inv i(2,3) col _ this] scview_upd [OF i(3) col(2)] p show ?thesis
    by (simp add: sc_replace_def i(1) sc_put_def)
qed

lemma sc_delete_known:
  assumes inv: "scinv s" and some: "view (sc_inner s) k = Some old"
  shows "\<exists>s'. sc_delete Ops s k = Some (Inr (), s') \<and> scinv s' \<and> scview s' = (scview s)(k := None)"
proof -
  obtain i where i: "op_delete Ops (sc_inner s) k = Some (Inr (), i)" "invar i"
    "view i = (view (sc_inner s))(k := None)" using delete_known [OF scinvD(1) [OF inv]] some by blast
  from scview_Some [OF inv some] obtain p where p: "map_of (sc_position_index s) k = Some p" by blast
  obtain pos cache where t: "sc_take_out (AList.delete k (sc_position_index s)) (sc_cache s) p = Some (pos, cache)"
    "column_ok pos cache" "column pos cache = (column (sc_position_index s) (sc_cache s))(k := None)"
    "set cache \<subseteq> set (sc_cache s)" by (rule column_take_out [OF scinvD(2) [OF inv] p])
  have "\<forall>v \<in> set cache. okv v" using inv t(4) by (auto simp: sc_invar_def)
  from scinv_upd [OF inv i(2,3) t(2,3) _ this] i(3) t(1,3) p show ?thesis
    by (simp add: sc_delete_def i(1) sc_put_def) (auto simp: fun_eq_iff sc_view_def split: option.split)
qed

lemma sc_update_known:
  assumes inv: "scinv s" and ok: "okv v" and some: "scview s k = Some r"
  shows "\<exists>s'. sc_update s k v = Some (Inr (), s') \<and> scinv s' \<and> scview s' = (scview s)(k := setv r v)"
proof -
  from some scview_None [OF inv, of k] obtain q where q: "view (sc_inner s) k = Some q" by auto
  from scview_Some [OF inv q] some obtain p where p: "map_of (sc_position_index s) k = Some p"
    "p < length (sc_cache s)" "setv q (sc_cache s ! p) = Some r" by auto
  note col = column_set(2,3) [OF scinvD(2) [OF inv] p(1), where v = v]
  have "\<forall>w \<in> set ((sc_cache s)[p := v]). okv w"
    using inv ok set_update_subset_insert [of "sc_cache s" p v] by (auto simp: sc_invar_def)
  moreover have "view (sc_inner s) = (view (sc_inner s))(k := Some q)" using q by (simp add: fun_upd_idem)
  ultimately have "scinv (s\<lparr>sc_inner := sc_inner s, sc_position_index := sc_position_index s, sc_cache := (sc_cache s)[p := v]\<rparr>)"
    using scinvD(1) [OF inv] col by (intro scinv_upd [OF inv]) auto
  moreover have "scview (s\<lparr>sc_cache := (sc_cache s)[p := v]\<rparr>) = (scview s)(k := setv r v)"
    using q setv_setv [OF p(3)] by (auto simp: fun_eq_iff sc_view_def col(2) split: option.split)
  ultimately show ?thesis using p by (simp add: sc_update_def)
qed

lemma sc_get_view: "scinv s \<Longrightarrow> sc_get setv Ops s k = Some (scview s k)"
proof -
  assume inv: "scinv s"
  show ?thesis
  proof (cases "view (sc_inner s) k")
    case None
    then show ?thesis by (simp add: sc_get_def get_view [OF scinvD(1) [OF inv]] sc_view_def)
  next
    case (Some r)
    obtain p r' where "map_of (sc_position_index s) k = Some p" "p < length (sc_cache s)"
      "setv r (sc_cache s ! p) = Some r'" "scview s k = Some r'" by (rule scview_Some [OF inv Some])
    then show ?thesis by (simp add: sc_get_def get_view [OF scinvD(1) [OF inv]] Some)
  qed
qed

end

sublocale scanned_layer \<subseteq> sc: record_store key okr "sc_ops key sv setv Ops" "sc_invar okv invar view" "sc_view setv view"
proof unfold_locales
  fix s :: "('s, 'id, 'v) scanned" and r :: 'r and k :: 'id
  assume inv: "scinv s"
  note inner = scinvD(1) [OF inv]
  show "scview s k = Some r \<Longrightarrow> key r = k"
  proof -
    assume r: "scview s k = Some r"
    with scview_None [OF inv, of k] obtain q where q: "view (sc_inner s) k = Some q" by auto
    from scview_Some [OF inv q] r obtain p where "setv q (sc_cache s ! p) = Some r" by auto
    with setv_frame view_key [OF inner q] show ?thesis by simp
  qed
  show "finite (dom (scview s))"
    using view_finite [OF inner] scview_None [OF inv] by (simp add: dom_def)
  show "op_get (sc_ops key sv setv Ops) s k = Some (scview s k)"
    using sc_get_view [OF inv] by (simp add: sc_ops_def)
  show "scview s (key r) \<noteq> None \<Longrightarrow>
      op_insert (sc_ops key sv setv Ops) s r = Some (Inl (InsDuplicate (key r)), s)"
    using insert_duplicate [OF inner, of r] scview_None [OF inv] by (simp add: sc_ops_def sc_insert_def sc_put_def)
  show "scview s (key r) = None \<Longrightarrow>
      op_replace (sc_ops key sv setv Ops) s r = Some (Inl (RepNotFound (key r)), s)"
    using replace_unknown [OF inner, of r] scview_None [OF inv] by (simp add: sc_ops_def sc_replace_def sc_put_def)
  show "scview s k = None \<Longrightarrow> op_delete (sc_ops key sv setv Ops) s k = Some (Inl (DelNotFound k), s)"
    using delete_unknown [OF inner, of k] scview_None [OF inv] by (simp add: sc_ops_def sc_delete_def sc_put_def)
  show "\<exists>rep s'. op_compact (sc_ops key sv setv Ops) s = Some (Inr rep, s') \<and> scinv s' \<and> scview s' = scview s"
    using compact_view [OF inner] inv
    by (auto simp: sc_ops_def sc_compact_def sc_put_def sc_invar_def sc_view_def fun_eq_iff split: option.split)
  show "okr r \<Longrightarrow> scview s (key r) = None \<Longrightarrow> \<exists>s'. op_insert (sc_ops key sv setv Ops) s r = Some (Inr (), s') \<and>
      scinv s' \<and> scview s' = (scview s)(key r \<mapsto> r)"
    using sc_insert_fresh [OF inv] scview_None [OF inv] by (simp add: sc_ops_def)
  show "scview s k \<noteq> None \<Longrightarrow> \<exists>s'. op_delete (sc_ops key sv setv Ops) s k = Some (Inr (), s') \<and>
      scinv s' \<and> scview s' = (scview s)(k := None)"
    using sc_delete_known [OF inv] scview_None [OF inv] by (auto simp: sc_ops_def)
  show "okr r \<Longrightarrow> scview s (key r) \<noteq> None \<Longrightarrow> \<exists>s'. op_replace (sc_ops key sv setv Ops) s r = Some (Inr (), s') \<and>
      scinv s' \<and> scview s' = (scview s)(key r \<mapsto> r)"
    using sc_replace_known [OF inv] scview_None [OF inv] by (auto simp: sc_ops_def)
qed

sublocale scanned_layer \<subseteq> sc: updatable_store key okr "sc_ops key sv setv Ops" "sc_invar okv invar view" "sc_view setv view"
    okv setv sc_update
proof unfold_locales
  show "okv v \<Longrightarrow> setv r v \<noteq> None" for r v using setv_okv by blast
  show "sc_update s k v = Some (Inl (NotFound k), s)" if "scinv s" "scview s k = None" for s k v
    using that scview_None scinvD(3) by (simp add: sc_update_def)
qed (rule sc_update_known)

context scanned_layer
begin

text \<open>A scan returns one value per record, the one a read of the record shows.\<close>

lemma scan_view:
  assumes inv: "scinv s"
  shows "mset (sc_scan s) = image_mset (\<lambda>k. sv (the (scview s k))) (mset_set (dom (scview s)))"
proof -
  let ?pos = "sc_position_index s"
  note okD = column_okD [OF scinvD(2) [OF inv]]
  have dom: "dom (scview s) = set (map fst ?pos)"
  proof -
    have "scview s k \<noteq> None \<longleftrightarrow> map_of ?pos k \<noteq> None" for k
      using scview_None [OF inv, of k] scinvD(3) [OF inv, of k] by simp
    then have "dom (scview s) = dom (map_of ?pos)" by (simp add: dom_def)
    then show ?thesis by (simp add: dom_map_of_conv_image_fst)
  qed
  have wf: "distinct (map fst ?pos)" using okD(1) by (simp add: hm_wf_def)
  have val: "sc_cache s ! snd x = sv (the (scview s (fst x)))" if "x \<in> set ?pos" for x
  proof -
    from that wf have p: "map_of ?pos (fst x) = Some (snd x)" by simp
    with scinvD(3) [OF inv, of "fst x"] obtain q where q: "view (sc_inner s) (fst x) = Some q" by auto
    from scview_Some [OF inv q] p setv_frame show ?thesis by fastforce
  qed
  have "mset (map snd ?pos) = mset [0..<length (sc_cache s)]"
  proof (rule set_eq_iff_mset_eq_distinct [THEN iffD1])
    have "inj_on snd (set ?pos)"
    proof (rule inj_onI)
      fix x y assume x: "x \<in> set ?pos" and y: "y \<in> set ?pos" and eq: "snd x = snd y"
      from x y wf have "map_of ?pos (fst x) = Some (snd x)" "map_of ?pos (fst y) = Some (snd y)" by simp_all
      with okD(3) eq show "x = y" by (metis prod_eqI)
    qed
    then show "distinct (map snd ?pos)" using wf by (simp add: distinct_map)
    show "set (map snd ?pos) = set [0..<length (sc_cache s)]"
    proof (intro set_eqI iffI)
      fix p assume "p \<in> set (map snd ?pos)"
      then obtain x where "x \<in> set ?pos" "snd x = p" by auto
      with wf have "map_of ?pos (fst x) = Some p" by (metis map_of_is_SomeI prod.collapse)
      with okD(2) show "p \<in> set [0..<length (sc_cache s)]" by auto
    next
      fix p assume "p \<in> set [0..<length (sc_cache s)]"
      then have "p < length (sc_cache s)" by simp
      from okD(4) [OF this] obtain k where "map_of ?pos k = Some p" ..
      then show "p \<in> set (map snd ?pos)" by (metis image_eqI list.set_map map_of_SomeD snd_conv)
    qed
  qed simp
  then have "mset (map ((!) (sc_cache s)) (map snd ?pos)) = mset (map ((!) (sc_cache s)) [0..<length (sc_cache s)])"
    by (metis mset_map)
  then have "mset (sc_cache s) = mset (map (\<lambda>x. sc_cache s ! snd x) ?pos)"
    by (simp add: map_nth comp_def multiset.map_comp)
  also have "map (\<lambda>x. sc_cache s ! snd x) ?pos = map (\<lambda>x. sv (the (scview s (fst x)))) ?pos"
    using val by simp
  also have "mset \<dots> = image_mset (\<lambda>k. sv (the (scview s k))) (mset (map fst ?pos))"
    by (simp add: multiset.map_comp comp_def)
  finally show ?thesis using mset_set_set [OF wf] by (simp add: sc_scan_def dom)
qed

end

lemma sc_new_column:
  assumes "distinct (map key rs)"
  shows "column_ok (sc_position_index (sc_new key sv inner rs)) (sc_cache (sc_new key sv inner rs))"
    and "column (sc_position_index (sc_new key sv inner rs)) (sc_cache (sc_new key sv inner rs)) =
      (\<lambda>k. map_option sv (keyed key rs k))"
  using assms
proof (induction rs rule: rev_induct)
  case Nil
  { case 1 show ?case by (simp add: sc_new_def hm_collect_def column_ok_def) }
  { case 2 show ?case by (simp add: sc_new_def hm_collect_def column_def fun_eq_iff) }
next
  case (snoc r rs)
  let ?s = "sc_new key sv inner rs"
  have new: "sc_position_index (sc_new key sv inner (rs @ [r])) =
      AList.update (key r) (length (sc_cache ?s)) (sc_position_index ?s)"
    "sc_cache (sc_new key sv inner (rs @ [r])) = sc_cache ?s @ [sv r]"
    by (simp_all add: sc_new_def enumerate_append_eq hm_collect_snoc)
  { case 1
    then have "keyed key rs (key r) = None" using dom_keyed [of key rs] by (auto simp: domIff)
    with fun_cong [OF snoc(2), of "key r"] 1 have "map_of (sc_position_index ?s) (key r) = None"
      by (simp add: column_def)
    with column_append(1) snoc(1) 1 show ?case unfolding new by simp }
  { case 2
    then have "keyed key rs (key r) = None" using dom_keyed [of key rs] by (auto simp: domIff)
    with fun_cong [OF snoc(2), of "key r"] 2 have no: "map_of (sc_position_index ?s) (key r) = None"
      by (simp add: column_def)
    have "keyed key (rs @ [r]) = (keyed key rs)(key r \<mapsto> r)"
      using \<open>keyed key rs (key r) = None\<close> by (simp add: keyed_snoc)
    moreover have "distinct (map key rs)" using 2 by simp
    ultimately show ?case
      unfolding new column_append(2) [OF snoc(1) no, OF \<open>distinct (map key rs)\<close>] snoc(2) [OF \<open>distinct (map key rs)\<close>]
      by (simp add: fun_eq_iff) }
qed

context scanned_layer
begin

lemma sc_new_ok:
  assumes "invar inner" "view inner = keyed key rs" "distinct (map key rs)"
  shows "scinv (sc_new key sv inner rs)" and "scview (sc_new key sv inner rs) = keyed key rs"
proof -
  note col = sc_new_column [OF assms(3), of sv inner]
  have [simp]: "sc_inner (sc_new key sv inner rs) = inner" by (simp add: sc_new_def)
  have "\<forall>v \<in> set (sc_cache (sc_new key sv inner rs)). okv v" by (auto simp: sc_new_def)
  moreover have "dom (\<lambda>k. map_option sv (keyed key rs k)) = dom (keyed key rs)" by (auto simp: dom_def)
  ultimately show "scinv (sc_new key sv inner rs)"
    using assms(1,2) col by (simp add: sc_invar_def)
  show "scview (sc_new key sv inner rs) = keyed key rs"
    using assms(2) setv_same by (auto simp: sc_view_def col(2) fun_eq_iff split: option.split)
qed

end

end
