(* ===== verification/Employee_Stack.thy ===== *)
theory Employee_Stack
  imports Relation_Store Layer_Memory Stacks
begin

text \<open>
  The \<open>Employee\<close> domain (\<open>src/generic_spike/employee_impl.rs\<close>): its record and traits, the in-memory
  stack and the durable one, which share the shape \<open>Reversed\<close> over \<open>Symmetric\<close> and differ below it.
\<close>

section \<open>The record\<close>

datatype department = Engineering | Sales | Support

record employee =
  emp_id :: uuid
  emp_name :: string
  emp_department :: department
  salary_cents :: i64
  manager_id :: "uuid option"

definition set_salary :: "employee \<Rightarrow> i64 \<Rightarrow> employee option" where
  "set_salary r v = Some (r\<lparr>salary_cents := v\<rparr>)"

definition employee_env :: "employee bincode \<Rightarrow> employee list bincode \<Rightarrow> uuid bincode \<Rightarrow>
    (uuid, department, i64, employee) store_env" where
  "employee_env c cs ck =
     \<lparr>rid = emp_id, indexed_value = emp_department, scannable_value = salary_cents, set_scannable_value = set_salary,
      id_field = uuid_field, val_field = i64_field,
      rec_codec = c, recs_codec = cs, key_codec = ck,
      schema_tag = map (of_nat \<circ> of_char) ''employee::Employee''\<rparr>"

lemma employee_env_simps [simp]:
  "rid (employee_env c cs ck) = emp_id" "indexed_value (employee_env c cs ck) = emp_department"
  "scannable_value (employee_env c cs ck) = salary_cents" "set_scannable_value (employee_env c cs ck) = set_salary"
  "rec_codec (employee_env c cs ck) = c" "mmap_okv (employee_env c cs ck) = (\<lambda>_. True)"
  by (simp_all add: employee_env_def mmap_okv_def set_salary_def fun_eq_iff)

interpretation employee_rec: record_laws "employee_env c cs ck"
  by unfold_locales (auto simp: set_salary_def)

interpretation employee_store: mmap_layer "employee_env c cs ck"
  unfolding mmap_layer_def slot_codecs_def
  using employee_rec.record_laws_axioms uuid_f.mmap_field_value_axioms i64_f.mmap_field_value_axioms
  by (simp add: employee_env_def)

interpretation salary: scan_field emp_id salary_cents set_salary "\<lambda>_. True"
  by unfold_locales (auto simp: set_salary_def)

section \<open>In memory\<close>

type_synonym employee_scanned = "(((uuid, employee) base_store, uuid, department) indexed, uuid, i64) scanned"
type_synonym employee_generic_store = "(employee_scanned, uuid, uuid) family"

definition build_employee_generic_store :: "employee list \<Rightarrow> (uuid \<times> uuid) list \<Rightarrow> employee_generic_store" where
  "build_employee_generic_store employees collaboration_edges =
     (let base = base_new emp_id employees;
          indexed = ix_new emp_id emp_department base employees;
          scanned = sc_new emp_id salary_cents indexed employees;
          symmetric = sy_new scanned collaboration_edges
      in rv_new emp_id manager_id symmetric employees)"

abbreviation employee_indexed_ops where
  "employee_indexed_ops \<equiv> ix_ops emp_id emp_department (base_ops emp_id)"

abbreviation employee_scanned_ops where
  "employee_scanned_ops \<equiv> sc_ops emp_id salary_cents set_salary employee_indexed_ops"

definition employee_memory_ops :: "uuid edge_env \<Rightarrow> (employee_generic_store, uuid, employee, i64) relation_ops" where
  "employee_memory_ops E = family_ops emp_id manager_id E employee_scanned_ops sc_update"

interpretation employee_ix: indexed_layer emp_id "\<lambda>_. True" "base_ops emp_id" "base_invar emp_id" "\<lambda>s. s" emp_department
  by unfold_locales

interpretation employee_sc: scanned_layer emp_id "\<lambda>_. True" employee_indexed_ops employee_ix.ix.winvar employee_ix.ix.wview
  salary_cents set_salary "\<lambda>_. True"
  by unfold_locales

lemma employee_memory_family:
  assumes "edge_serial_ok E"
  shows "family emp_id (\<lambda>_. True) employee_scanned_ops employee_sc.scinv employee_sc.scview E (\<lambda>_. True) set_salary sc_update manager_id"
  by unfold_locales (use assms in \<open>auto simp: set_salary_def\<close>)

section \<open>On disk\<close>

type_synonym employee_mmap = "(uuid, department, employee) mmap_store"
type_synonym employee_production_stack = "(employee_mmap, uuid, uuid) family"

definition employee_disk_ops :: "(uuid, department, i64, employee) store_env \<Rightarrow> uuid edge_env \<Rightarrow>
    (employee_production_stack, uuid, employee, i64) relation_ops" where
  "employee_disk_ops E EE = family_ops emp_id manager_id EE (mmap_ops E) (mmap_update E)"

definition create_employee_production_stack :: "(uuid, department, i64, employee) store_env \<Rightarrow> uuid edge_env \<Rightarrow>
    employee list \<Rightarrow> (uuid \<times> uuid) list \<Rightarrow> durability_error + employee_production_stack" where
  "create_employee_production_stack E EE employees collaboration_edges =
     and_then (ms_create E employees) (\<lambda>core.
     map_ok (\<lambda>symmetric. rv_new emp_id manager_id symmetric employees) (sy_create EE core collaboration_edges))"

definition open_employee_production_stack :: "(uuid, department, i64, employee) store_env \<Rightarrow> uuid edge_env \<Rightarrow>
    employee list \<Rightarrow> (uuid \<times> uuid) list \<Rightarrow> disk \<Rightarrow> edge_files \<Rightarrow> durability_error + employee_production_stack" where
  "open_employee_production_stack E EE employees collaboration_edges d f =
     and_then (ms_open E employees d) (\<lambda>core.
     map_ok (\<lambda>symmetric. rv_new emp_id manager_id symmetric employees) (sy_open EE core collaboration_edges f))"

definition open_employee_production_stack_portable :: "(uuid, department, i64, employee) store_env \<Rightarrow> uuid edge_env \<Rightarrow>
    disk \<Rightarrow> edge_files \<Rightarrow> durability_error + employee_production_stack" where
  "open_employee_production_stack_portable E EE d f =
     and_then (read_portable_records E d) (\<lambda>employees.
     and_then (ms_open E employees d) (\<lambda>core.
     map_ok (\<lambda>symmetric. rv_new emp_id manager_id symmetric employees) (sy_open_portable EE core f)))"

definition lawful_employee :: "employee bincode \<Rightarrow> employee list bincode \<Rightarrow> uuid bincode \<Rightarrow> uuid edge_env \<Rightarrow> bool" where
  "lawful_employee c cs ck EE \<longleftrightarrow> serial_ok (employee_env c cs ck) \<and> edge_serial_ok EE"

lemma employee_serial_mmap: "lawful_employee c cs ck EE \<Longrightarrow> serial_mmap (employee_env c cs ck)"
  by (intro serial_mmap.intro employee_store.mmap_layer_axioms) (simp add: lawful_employee_def serial_mmap_axioms_def)

context serial_mmap
begin

lemma serial_updatable:
  "updatable_store (rid E) (encodes_small (rec_codec E)) (mmap_ops E) (ms_ok E) (ms_map E) (mmap_okv E)
     (set_scannable_value E) (mmap_update E)"
  by (rule ms.updatable_store_axioms)

end

lemma employee_disk_family:
  assumes "lawful_employee c cs ck EE"
  shows "family emp_id (encodes_small c) (mmap_ops (employee_env c cs ck)) (ms_ok (employee_env c cs ck)) (ms_map (employee_env c cs ck))
     EE (\<lambda>_. True) set_salary (mmap_update (employee_env c cs ck)) manager_id"
  using serial_mmap.serial_updatable [OF employee_serial_mmap [OF assms]] assms
  by (simp add: family_def symmetric_updatable_def symmetric_layer_def symmetric_layer_axioms_def family_axioms_def
      lawful_employee_def updatable_store_def set_salary_def)

section \<open>Fresh stacks\<close>

definition team_ok :: "employee list \<Rightarrow> (uuid \<times> uuid) list \<Rightarrow> bool" where
  "team_ok employees es \<longleftrightarrow> distinct (map emp_id employees) \<and> edges_ok es \<and> within (set (map emp_id employees)) (sym_rel es)"

lemma dom_keyed_ids: "dom (keyed key rs) = set (map key rs)"
  by (force simp: keyed_def dom_map_of_conv_image_fst)

context family
begin

lemma rv_new_family:
  assumes "sy.winvar t" "sy.wview t = keyed key rs" "distinct (map key rs)"
  shows "fam.rv.winvar (rv_new key parent_id t rs)" and "fam.rv.wview (rv_new key parent_id t rs) = keyed key rs"
    and "family_rel (rv_new key parent_id t rs) = sy_rel t"
  using fam.rv_new_ok [OF assms] by (simp_all add: family_rel_def rv_new_def)

lemma sy_new_family:
  assumes "invar t" "edges_ok es" "within (dom (view t)) (sym_rel es)"
  shows "sy.winvar (sy_new t es)" "sy.wview (sy_new t es) = view t" "sy_rel (sy_new t es) = sym_rel es"
  using assms adj_of_edges_ok [OF assms(2)]
  by (simp_all add: sy.winvar_def sy.wview_def sy_new_def sy_aux_def sy_rel_def)

end

lemma employee_memory_start:
  assumes "edge_serial_ok E" "team_ok employees es"
  defines "s \<equiv> build_employee_generic_store employees es"
  shows "wrapping_layer.winvar (wrapping_layer.winvar employee_sc.scinv employee_sc.scview sy_inner (sy_aux E))
       (wrapping_layer.wview employee_sc.scview sy_inner) rv_inner (rv_aux manager_id) s"
    and "wrapping_layer.wview (wrapping_layer.wview employee_sc.scview sy_inner) rv_inner s = keyed emp_id employees"
    and "sy_rel (rv_inner s) = sym_rel es"
proof -
  have d: "distinct (map emp_id employees)" and e: "edges_ok es" and w: "within (dom (keyed emp_id employees)) (sym_rel es)"
    using assms(2) by (simp_all add: team_ok_def dom_keyed_ids)
  note b = base_new_ok [OF d]
  note ix = employee_ix.ix_new_ok [OF b d]
  note sc = employee_sc.sc_new_ok [OF ix d]
  note fam = employee_memory_family [OF assms(1)]
  note sy = family.sy_new_family [OF fam sc(1) e, unfolded sc(2), OF w]
  note rv = family.rv_new_family [OF fam sy(1,2) d]
  have s: "s = rv_new emp_id manager_id (sy_new (sc_new emp_id salary_cents (ix_new emp_id emp_department (base_new emp_id employees) employees) employees) es) employees"
    by (simp add: s_def build_employee_generic_store_def Let_def)
  show "wrapping_layer.winvar (wrapping_layer.winvar employee_sc.scinv employee_sc.scview sy_inner (sy_aux E))
       (wrapping_layer.wview employee_sc.scview sy_inner) rv_inner (rv_aux manager_id) s"
    "wrapping_layer.wview (wrapping_layer.wview employee_sc.scview sy_inner) rv_inner s = keyed emp_id employees"
    unfolding s by (rule rv(1), rule rv(2))
  show "sy_rel (rv_inner s) = sym_rel es" unfolding s using sy(3) by (simp add: rv_new_def)
qed

lemma employee_disk_start:
  assumes "lawful_employee c cs ck EE" "team_ok employees es"
  shows "\<exists>s. create_employee_production_stack (employee_env c cs ck) EE employees es = Ok s \<and>
     wrapping_layer.winvar (wrapping_layer.winvar (ms_ok (employee_env c cs ck)) (ms_map (employee_env c cs ck)) sy_inner (sy_aux EE))
       (wrapping_layer.wview (ms_map (employee_env c cs ck)) sy_inner) rv_inner (rv_aux manager_id) s \<and>
     wrapping_layer.wview (wrapping_layer.wview (ms_map (employee_env c cs ck)) sy_inner) rv_inner s = keyed emp_id employees \<and>
     sy_rel (rv_inner s) = sym_rel es"
proof -
  have d: "distinct (map emp_id employees)" and e: "edges_ok es" and w: "within (dom (keyed emp_id employees)) (sym_rel es)"
    using assms(2) by (simp_all add: team_ok_def dom_keyed_ids)
  note fam = employee_disk_family [OF assms(1)]
  from serial_mmap.core_create [OF employee_serial_mmap [OF assms(1)], of employees] d obtain core where
    core: "ms_create (employee_env c cs ck) employees = Ok core" "ms_ok (employee_env c cs ck) core"
      "ms_map (employee_env c cs ck) core = keyed emp_id employees" by auto
  note layer = symmetric_updatable.axioms(1) [OF family.axioms(1) [OF fam]]
  from symmetric_layer.sy_create_ok [OF layer core(2) e] w core(3) obtain t where
    t: "sy_create EE core es = Ok t"
      "wrapping_layer.winvar (ms_ok (employee_env c cs ck)) (ms_map (employee_env c cs ck)) sy_inner (sy_aux EE) t"
      "wrapping_layer.wview (ms_map (employee_env c cs ck)) sy_inner t = keyed emp_id employees" "sy_rel t = sym_rel es"
    by auto
  note rv = family.rv_new_family [OF fam t(2,3) d]
  show ?thesis using core(1) t(1,4) rv(1,2)
    by (intro exI [of _ "rv_new emp_id manager_id t employees"]) (simp add: create_employee_production_stack_def rv_new_def)
qed

end
