(* ===== verification/Employee_Properties.thy ===== *)
theory Employee_Properties
  imports Employee_Stack
begin

text \<open>
  The properties of the employee stacks: the in-memory and the durable one are interchangeable, the
  durable one comes back from its files, edges and children stay consistent with the records.
\<close>

section \<open>Reopening\<close>

context serial_mmap
begin

lemma core_reopen_records:
  assumes ok: "ms_ok E s" and apart: "records_apart E (disk_of s)"
  shows "\<exists>rs s'. read_portable_records E (disk_of s) = Ok rs \<and> ms_open E rs (disk_of s) = Ok s' \<and> distinct (map (rid E) rs) \<and>
     ms_ok E s' \<and> ms_map E s' = ms_map E s \<and>
     (\<forall>k. case keyed (rid E) rs k of None \<Rightarrow> ms_map E s k = None
       | Some r \<Rightarrow> (\<exists>v q. ms_map E s k = Some q \<and> set_scannable_value E r v = Some q))"
proof -
  obtain ss base es where rep: "ms_rep E ss s" and dur: "ms_durable E base es s" by (rule ok_obtain [OF ok])
  note d = ms_ok_disk(1) [OF rep dur serial]
  then have b: "distinct (map (rid E) base)" "read_entries (rec_codec E) (key_codec E) (schema_tag E) (d_log (disk_of s)) = Ok es"
    by (simp_all add: disk_holds_def)
  from d have "\<exists>b. d_blob (disk_of s) = Some b \<and> record_blob_encode (schema_tag E) (recs_codec E) base = Inr b"
    by (simp add: disk_holds_def)
  then have "record_blob_read (schema_tag E) (recs_codec E) (d_blob (disk_of s)) = Ok base"
    using serial tagged_read_encode [of "recs_codec E" genblob_magic genblob_version "schema_tag E" base]
    by (auto simp: record_blob_read_def record_blob_encode_def serial_ok_def)
  with b(2) have read: "read_portable_records E (disk_of s) = Ok (merge_log E base es)"
    by (simp add: read_portable_records_def)
  from core_reopen [OF ok apart] obtain s' where s': "ms_open_portable E (disk_of s) = Ok s'" "ms_ok E s'" "ms_map E s' = ms_map E s"
    by blast
  with read have op: "ms_open E (merge_log E base es) (disk_of s) = Ok s'" by (simp add: ms_open_portable_def)
  note dm = durable_map [OF rep dur refl]
  have "case keyed (rid E) (merge_log E base es) k of None \<Rightarrow> ms_map E s k = None
       | Some r \<Rightarrow> (\<exists>v q. ms_map E s k = Some q \<and> set_scannable_value E r v = Some q)" for k
  proof (cases "keyed (rid E) (merge_log E base es) k")
    case None
    then show ?thesis by (simp add: dm(1) merge_log_ok(2) [OF b(1)])
  next
    case (Some r)
    then have m: "foldl (apply_entry E) (keyed (rid E) base) es k = Some r" by (simp add: merge_log_ok(2) [OF b(1)])
    from dm(3) [OF m] obtain p v where pv: "lookup_slot ss k = Some (p, v)" by (metis option.exhaust prod.exhaust)
    then have "ms_map E s k = set_scannable_value E r v" by (simp add: dm(1) m)
    moreover have "ms_map E s k \<noteq> None" using dm(2) [of k] m ok_None [OF ok, of k] by simp
    ultimately show ?thesis using Some by auto
  qed
  with read op merge_log_ok(1) [OF b(1), of es] s' show ?thesis by blast
qed

lemma compacted_apart:
  assumes "d_log d = None"
  shows "records_apart E d"
  using assms by (auto simp: records_apart_def read_entries_def read_raw_def merge_log_def)

end

definition edge_files_apart :: "'id edge_env \<Rightarrow> edge_files \<Rightarrow> bool" where
  "edge_files_apart E f \<longleftrightarrow> (\<forall>es. ef_read_portable E f = Ok es \<longrightarrow> files_apart E es f)"

lemma no_edge_log_apart: "ef_log f = None \<Longrightarrow> edge_files_apart E f"
  by (auto simp: edge_files_apart_def files_apart_def ef_read_portable_def edges_told_apart_def read_entries_def read_raw_def
      merge_edge_lists_def and_then_def map_ok_def split: sum.splits)

context family
begin

lemma family_core: "fam.rv.winvar s \<Longrightarrow> invar (sy_inner (rv_inner s))"
  by (intro sy.winvarD(1) fam.rv.winvarD(1))

lemma family_reopen:
  assumes inv: "fam.rv.winvar s" and F: "sy_files (rv_inner s) = Some f" and apart: "edge_files_apart E f"
    and core: "invar t" "view t = view (sy_inner (rv_inner s))"
    and rs: "distinct (map key rs)"
    and same: "\<And>k. map_option parent_id (view t k) = map_option parent_id (keyed key rs k)"
  shows "\<exists>t'. sy_open_portable E t f = Ok t' \<and> fam.rv.winvar (rv_new key parent_id t' rs) \<and>
     fam.rv.wview (rv_new key parent_id t' rs) = fam.rv.wview s \<and> family_rel (rv_new key parent_id t' rs) = family_rel s"
proof -
  note si = fam.rv.winvarD(1) [OF inv]
  have dur: "edges_durable E (sy_rel (rv_inner s)) f"
    using sy.winvarD(2) [OF si] F by (simp add: sy_aux_def)
  have "within (dom (view t)) (sy_rel (rv_inner s))" using sy_rel_props(3) [OF si] core(2) by (simp add: sy.wview_def)
  from sy_reopen [OF dur core(1) this] apart obtain t' where
    t': "sy_open_portable E t f = Ok t'" "sy.winvar t'" "sy.wview t' = view t" "sy_rel t' = sy_rel (rv_inner s)"
    by (auto simp: edge_files_apart_def)
  have "fam.rv.winvar (rv_new key parent_id t' rs)" "fam.rv.wview (rv_new key parent_id t' rs) = sy.wview t'"
    by (rule fam.rv_new_view [OF t'(2) rs]; simp add: t'(3) same)+
  with t' core(2) show ?thesis by (auto simp: family_rel_def fam.rv.wview_def sy.wview_def rv_new_def)
qed

end

lemma e_run_files:
  assumes "e_run (family_ops key pid E Ops update) s ops = Some (xs, s')" "sy_files (rv_inner s) \<noteq> None"
  shows "sy_files (rv_inner s') \<noteq> None"
  using assms
proof (induction ops arbitrary: s xs)
  case (Cons op ops)
  from Cons.prems(1) obtain x s1 ys where s1: "e_step (family_ops key pid E Ops update) s op = Some (x, s1)"
    "e_run (family_ops key pid E Ops update) s1 ops = Some (ys, s')" by (auto split: option.splits)
  have "sy_files (rv_inner s1) \<noteq> None"
  proof (cases op)
    case (EDelete k)
    with s1(1) Cons.prems(2) show ?thesis
      by (auto simp: e_step_def rv_ops_def rv_delete_def rv_put_def sy_ops_def sy_delete_def sy_put_def through_def on_files_def
        map_ok_def split: option.splits prod.splits sum.splits if_splits)
  next
    case (ELink a b)
    with s1(1) Cons.prems(2) show ?thesis
      by (auto simp: e_step_def rv_link_def rv_put_def sy_link_def forward_def on_files_def map_ok_def
        split: option.splits prod.splits sum.splits if_splits)
  next
    case ECompact
    with s1(1) Cons.prems(2) show ?thesis
      by (auto simp: e_step_def rv_ops_def rv_compact_def rv_put_def sy_ops_def sy_compact_def sy_put_def forward_def through_def
        split: option.splits prod.splits sum.splits)
  qed (use s1(1) Cons.prems(2) in \<open>auto simp: e_step_def rv_ops_def rv_insert_def rv_replace_def rv_update_def rv_put_def
        sy_ops_def sy_insert_def sy_replace_def sy_update_def sy_put_def forward_def through_def Let_def
        split: option.splits prod.splits sum.splits if_splits\<close>)
  from Cons.IH [OF s1(2) this] show ?case .
qed simp


section \<open>Properties\<close>

definition employee_ops_ok :: "employee bincode \<Rightarrow> (uuid, employee, i64) e_op list \<Rightarrow> bool" where
  "employee_ops_ok c ops \<longleftrightarrow> (\<forall>op \<in> set ops. e_op_ok (encodes_small c) (\<lambda>_. True) op)"

lemma employee_disk_run:
  assumes "lawful_employee c cs ck EE" "team_ok employees es" "employee_ops_ok c ops"
    and "(xs, m, R) = e_spec_run emp_id set_salary (keyed emp_id employees, sym_rel es) ops"
  shows "\<exists>s0 s. create_employee_production_stack (employee_env c cs ck) EE employees es = Ok s0 \<and>
     e_run (employee_disk_ops (employee_env c cs ck) EE) s0 ops = Some (xs, s) \<and>
     wrapping_layer.winvar (wrapping_layer.winvar (ms_ok (employee_env c cs ck)) (ms_map (employee_env c cs ck)) sy_inner (sy_aux EE))
       (wrapping_layer.wview (ms_map (employee_env c cs ck)) sy_inner) rv_inner (rv_aux manager_id) s \<and>
     wrapping_layer.wview (wrapping_layer.wview (ms_map (employee_env c cs ck)) sy_inner) rv_inner s = m \<and>
     sy_rel (rv_inner s) = R \<and> sy_files (rv_inner s) \<noteq> None"
proof -
  note fam = employee_disk_family [OF assms(1)]
  obtain s0 where s0: "create_employee_production_stack (employee_env c cs ck) EE employees es = Ok s0"
     "wrapping_layer.winvar (wrapping_layer.winvar (ms_ok (employee_env c cs ck)) (ms_map (employee_env c cs ck)) sy_inner (sy_aux EE))
       (wrapping_layer.wview (ms_map (employee_env c cs ck)) sy_inner) rv_inner (rv_aux manager_id) s0"
     "wrapping_layer.wview (wrapping_layer.wview (ms_map (employee_env c cs ck)) sy_inner) rv_inner s0 = keyed emp_id employees"
     "sy_rel (rv_inner s0) = sym_rel es"
    using employee_disk_start [OF assms(1,2)] by blast
  from s0(1) have files: "sy_files (rv_inner s0) \<noteq> None"
    by (auto simp: create_employee_production_stack_def and_then_def map_ok_def sy_create_def sy_with_path_def rv_new_def
      split: sum.splits)
  have rel: "family.family_rel s0 = sym_rel es" using s0(4) by (simp add: family.family_rel_def [OF fam])
  have ops: "\<forall>op \<in> set ops. e_op_ok (encodes_small c) (\<lambda>_. True) op" using assms(3) by (simp add: employee_ops_ok_def)
  from family.e_run_refines [OF fam s0(2) ops] obtain s where
    s: "e_run (employee_disk_ops (employee_env c cs ck) EE) s0 ops = Some (xs, s)"
     "wrapping_layer.winvar (wrapping_layer.winvar (ms_ok (employee_env c cs ck)) (ms_map (employee_env c cs ck)) sy_inner (sy_aux EE))
       (wrapping_layer.wview (ms_map (employee_env c cs ck)) sy_inner) rv_inner (rv_aux manager_id) s"
     "(wrapping_layer.wview (wrapping_layer.wview (ms_map (employee_env c cs ck)) sy_inner) rv_inner s, family.family_rel s) = (m, R)"
    unfolding s0(3) rel assms(4) [symmetric] employee_disk_ops_def by auto
  from e_run_files [OF s(1) [unfolded employee_disk_ops_def] files] s s0(1) show ?thesis
    by (auto simp: family.family_rel_def [OF fam])
qed


text \<open>C10. Interchangeability of the employee stacks. The in-memory stack (\<open>Reversed\<close> over \<open>Symmetric\<close> over
  \<open>Scanned\<close> over \<open>Indexed\<close> over \<open>BaseStore\<close>) and the durable one (\<open>Reversed\<close> over \<open>Symmetric\<close> over
  \<open>GenericMmapStore\<close>), built from the same employees and edges and sent the same calls, never panic and
  give the same replies, the refusals with their errors included: the ones of a map of records beside a
  set of edges. Afterwards both answer every \<open>get\<close>, \<open>neighbors\<close> and \<open>children\<close> as that map and set do:
  \<open>children\<close> of an id lists every stored record whose parent field names it, whether or not the id
  itself still has a record. (The comment over the code's \<open>delete\<close> says that a deleted parent loses its
  children list; it keeps it.)\<close>

theorem employee_stacks_agree:
  assumes "lawful_employee c cs ck EE" and "team_ok employees es" and "employee_ops_ok c ops"
  shows "case e_spec_run emp_id set_salary (keyed emp_id employees, sym_rel es) ops of (xs, m, R) \<Rightarrow>
     \<exists>s0 s t. create_employee_production_stack (employee_env c cs ck) EE employees es = Ok s0 \<and>
       e_run (employee_disk_ops (employee_env c cs ck) EE) s0 ops = Some (xs, s) \<and>
       e_run (employee_memory_ops EE) (build_employee_generic_store employees es) ops = Some (xs, t) \<and>
       (\<forall>k. op_get (e_store (employee_disk_ops (employee_env c cs ck) EE)) s k = Some (m k) \<and>
         op_get (e_store (employee_memory_ops EE)) t k = Some (m k) \<and>
         set (rv_neighbors sy_neighbors s k) = {b. (k, b) \<in> R} \<and> set (rv_neighbors sy_neighbors t k) = {b. (k, b) \<in> R}) \<and>
       (\<forall>p. distinct (rv_children s p) \<and> distinct (rv_children t p) \<and>
         set (rv_children s p) = {k. \<exists>r. m k = Some r \<and> manager_id r = Some p} \<and>
         set (rv_children t p) = {k. \<exists>r. m k = Some r \<and> manager_id r = Some p})"
proof -
  have E: "edge_serial_ok EE" using assms(1) by (simp add: lawful_employee_def)
  note disk = employee_disk_family [OF assms(1)] and mem = employee_memory_family [OF E]
  obtain xs m R where spec: "(xs, m, R) = e_spec_run emp_id set_salary (keyed emp_id employees, sym_rel es) ops"
    by (cases "e_spec_run emp_id set_salary (keyed emp_id employees, sym_rel es) ops") auto
  obtain s0 s where s: "create_employee_production_stack (employee_env c cs ck) EE employees es = Ok s0"
     "e_run (employee_disk_ops (employee_env c cs ck) EE) s0 ops = Some (xs, s)"
     "wrapping_layer.winvar (wrapping_layer.winvar (ms_ok (employee_env c cs ck)) (ms_map (employee_env c cs ck)) sy_inner (sy_aux EE))
       (wrapping_layer.wview (ms_map (employee_env c cs ck)) sy_inner) rv_inner (rv_aux manager_id) s"
     "wrapping_layer.wview (wrapping_layer.wview (ms_map (employee_env c cs ck)) sy_inner) rv_inner s = m" "sy_rel (rv_inner s) = R"
    using employee_disk_run [OF assms spec] by blast
  have ops: "\<forall>op \<in> set ops. e_op_ok (\<lambda>_. True) (\<lambda>_. True) op" by (auto simp: e_op_ok_def split: e_op.splits)
  note start = employee_memory_start [OF E assms(2)]
  have rel: "family.family_rel (build_employee_generic_store employees es) = sym_rel es"
    using start(3) by (simp add: family.family_rel_def [OF mem])
  from family.e_run_refines [OF mem start(1) ops] obtain t where
    t: "e_run (employee_memory_ops EE) (build_employee_generic_store employees es) ops = Some (xs, t)"
      "wrapping_layer.winvar (wrapping_layer.winvar employee_sc.scinv employee_sc.scview sy_inner (sy_aux EE))
       (wrapping_layer.wview employee_sc.scview sy_inner) rv_inner (rv_aux manager_id) t"
      "(wrapping_layer.wview (wrapping_layer.wview employee_sc.scview sy_inner) rv_inner t, family.family_rel t) = (m, R)"
    unfolding start(2) rel spec [symmetric] employee_memory_ops_def by auto
  note rs = family.family_reads [OF disk s(3), unfolded s(4) family.family_rel_def [OF disk] s(5), folded employee_disk_ops_def]
  from t(3) have tm: "wrapping_layer.wview (wrapping_layer.wview employee_sc.scview sy_inner) rv_inner t = m" "family.family_rel t = R"
    by simp_all
  note rt = family.family_reads [OF mem t(2), unfolded tm, folded employee_memory_ops_def]
  show ?thesis unfolding spec [symmetric] using s(1,2) t(1) rs rt by auto
qed

definition grace :: employee where
  "grace = \<lparr>emp_id = 1, emp_name = ''Grace'', emp_department = Engineering, salary_cents = 1200000, manager_id = None\<rparr>"

definition edsger :: employee where
  "edsger = \<lparr>emp_id = 2, emp_name = ''Edsger'', emp_department = Engineering, salary_cents = 950000, manager_id = Some 1\<rparr>"

definition barbara :: employee where
  "barbara = \<lparr>emp_id = 3, emp_name = ''Barbara'', emp_department = Sales, salary_cents = 800000, manager_id = Some 1\<rparr>"

definition w_department :: "department wire" where
  "w_department = w_conv (\<lambda>d. case d of Engineering \<Rightarrow> 0 :: byte | Sales \<Rightarrow> 1 | Support \<Rightarrow> 2)
     (\<lambda>b. if b = 0 then Engineering else if b = 1 then Sales else Support) (w_word 1)"

definition w_option :: "'a wire \<Rightarrow> 'a option wire" where
  "w_option w = w_conv (\<lambda>x. case x of None \<Rightarrow> [] | Some a \<Rightarrow> [a]) (\<lambda>xs. case xs of [] \<Rightarrow> None | a # _ \<Rightarrow> Some a) (w_list w)"

definition w_employee :: "employee wire" where
  "w_employee = w_conv (\<lambda>r. (emp_id r, emp_name r, emp_department r, salary_cents r, manager_id r))
     (\<lambda>(i, n, d, s, m). \<lparr>emp_id = i, emp_name = n, emp_department = d, salary_cents = s, manager_id = m\<rparr>)
     (w_pair w_uuid (w_pair w_string (w_pair w_department (w_pair w_i64 (w_option w_uuid)))))"

lemma w_option_ok [wire_intros]: "wire_ok w \<Longrightarrow> wire_ok (w_option w)"
  unfolding w_option_def by (intro wire_intros) (simp_all split: option.split)

lemma w_department_ok [wire_intros]: "wire_ok w_department"
  unfolding w_department_def by (intro wire_intros) (simp_all split: department.split)

lemma w_employee_ok [wire_intros]: "wire_ok w_employee"
  unfolding w_employee_def by (intro wire_intros; simp)

abbreviation demo_employees :: "(uuid, department, i64, employee) store_env" where
  "demo_employees \<equiv> employee_env (wire_codec w_employee) (wire_codec (w_list w_employee)) (fixed_codec uuid_field)"

lemma demo_employee_lawful:
  "lawful_employee (wire_codec w_employee) (wire_codec (w_list w_employee)) (fixed_codec uuid_field) (demo_edges [])"
  unfolding lawful_employee_def
  by (intro conjI demo_edges_serial wire_serial_ok [OF w_employee_ok]) (simp_all add: employee_env_def)

lemma demo_team: "team_ok [grace, edsger] [(1, 2)]"
  by (auto simp: team_ok_def grace_def edsger_def edges_ok_def within_def sym_rel_def)

lemma demo_employee_small:
  "encodes_small (wire_codec w_employee) grace" "encodes_small (wire_codec w_employee) edsger"
  "encodes_small (wire_codec w_employee) barbara"
  by (simp_all add: encodes_small_def wire_codec_def w_employee_def w_conv_def w_pair_def w_uuid_def w_word_def w_string_def
      w_list_def put_many_def w_char_def w_i64_def w_department_def w_option_def grace_def edsger_def barbara_def)

lemma demo_employee_ops:
  "employee_ops_ok (wire_codec w_employee) [EInsert barbara, ELink 3 1, EUpdate 2 5, EDelete 1, ELink 1 2]"
  "employee_ops_ok (wire_codec w_employee) [EInsert barbara, ELink 3 1, EDelete 2, ECompact]"
  by (simp_all add: employee_ops_ok_def e_op_ok_def demo_employee_small)

theorem employee_stacks_agree_witness:
  "case e_spec_run emp_id set_salary (keyed emp_id [grace, edsger], sym_rel [(1, 2)])
       [EInsert barbara, ELink 3 1, EUpdate 2 5, EDelete 1, ELink 1 2] of (xs, m, R) \<Rightarrow>
     \<exists>s0 s t. create_employee_production_stack demo_employees (demo_edges []) [grace, edsger] [(1, 2)] = Ok s0 \<and>
       e_run (employee_disk_ops demo_employees (demo_edges [])) s0
         [EInsert barbara, ELink 3 1, EUpdate 2 5, EDelete 1, ELink 1 2] = Some (xs, s) \<and>
       e_run (employee_memory_ops (demo_edges [])) (build_employee_generic_store [grace, edsger] [(1, 2)])
         [EInsert barbara, ELink 3 1, EUpdate 2 5, EDelete 1, ELink 1 2] = Some (xs, t) \<and>
       (\<forall>k. op_get (e_store (employee_disk_ops demo_employees (demo_edges []))) s k = Some (m k) \<and>
         op_get (e_store (employee_memory_ops (demo_edges []))) t k = Some (m k) \<and>
         set (rv_neighbors sy_neighbors s k) = {b. (k, b) \<in> R} \<and> set (rv_neighbors sy_neighbors t k) = {b. (k, b) \<in> R}) \<and>
       (\<forall>p. distinct (rv_children s p) \<and> distinct (rv_children t p) \<and>
         set (rv_children s p) = {k. \<exists>r. m k = Some r \<and> manager_id r = Some p} \<and>
         set (rv_children t p) = {k. \<exists>r. m k = Some r \<and> manager_id r = Some p})"
  by (rule employee_stacks_agree [OF demo_employee_lawful demo_team demo_employee_ops(1)])


text \<open>A compaction leaves no log behind, so that a reopen compares each blob with its own list.\<close>

lemma compact_no_log: "op_compact (mmap_ops E) s = Some (Inr rep, s') \<Longrightarrow> ms_log s' = None"
  by (auto simp: mmap_ops_def ms_compact_def log_clear_def map_ok_def split: option.splits sum.splits)

lemma e_run_snoc:
  "e_run G s (ops @ [op]) = Some (ys, s') \<Longrightarrow> \<exists>xs x s1. e_run G s ops = Some (xs, s1) \<and> e_step G s1 op = Some (x, s') \<and> ys = xs @ [x]"
  by (induction ops arbitrary: s ys) (fastforce split: option.splits)+

lemma e_spec_run_compact:
  "e_spec_run key setv st (ops @ [ECompact]) =
     (case e_spec_run key setv st ops of (xs, st') \<Rightarrow> (xs @ [ECompacted (Inr ())], st'))"
  by (induction ops arbitrary: st) (auto simp: e_spec_def split: prod.splits)

lemma compact_step_no_logs:
  assumes "e_step (employee_disk_ops E EE) s ECompact = Some (ECompacted (Inr ()), s')" "sy_files (rv_inner s) \<noteq> None"
  shows "ms_log (sy_inner (rv_inner s')) = None \<and> ef_log (the (sy_files (rv_inner s'))) = None"
proof -
  from assms(1) obtain res t where c: "sy_compact EE (mmap_ops E) (rv_inner s) = Some (res, t)" "map_ok (\<lambda>_. ()) res = Inr ()" "rv_inner s' = t"
    by (auto simp: employee_disk_ops_def e_step_def rv_ops_def rv_compact_def sy_ops_def forward_def rv_put_def)
  then obtain rep where t: "sy_compact EE (mmap_ops E) (rv_inner s) = Some (Inr rep, t)" "rv_inner s' = t" by (cases res) auto
  from t(1) obtain r i where i: "op_compact (mmap_ops E) (sy_inner (rv_inner s)) = Some (Inr r, i)" and it: "sy_inner t = i"
    by (auto simp: sy_compact_def through_def sy_put_def split: option.splits prod.splits sum.splits)
  moreover have "ef_log (the (sy_files t)) = None"
    using t(1) assms(2)
    by (auto simp: sy_compact_def through_def sy_put_def compact_edge_blob_def and_then_def map_ok_def log_clear_def Let_def
      split: option.splits prod.splits sum.splits)
  ultimately show ?thesis using t(2) compact_no_log [OF i] by simp
qed

lemma employee_compacted_run:
  assumes "lawful_employee c cs ck EE" "team_ok employees es" "employee_ops_ok c (ops @ [ECompact])"
  shows "\<exists>s0 xs s. create_employee_production_stack (employee_env c cs ck) EE employees es = Ok s0 \<and>
     e_run (employee_disk_ops (employee_env c cs ck) EE) s0 (ops @ [ECompact]) = Some (xs, s) \<and>
     ms_log (sy_inner (rv_inner s)) = None \<and> ef_log (the (sy_files (rv_inner s))) = None"
proof -
  let ?G = "employee_disk_ops (employee_env c cs ck) EE" and ?st = "(keyed emp_id employees, sym_rel es)"
  obtain ys m R where spec: "(ys, m, R) = e_spec_run emp_id set_salary ?st (ops @ [ECompact])"
    by (cases "e_spec_run emp_id set_salary ?st (ops @ [ECompact])") auto
  then obtain zs where ys: "ys = zs @ [ECompacted (Inr ())]" by (auto simp: e_spec_run_compact split: prod.splits)
  from employee_disk_run [OF assms spec] obtain s0 s where
    s: "create_employee_production_stack (employee_env c cs ck) EE employees es = Ok s0"
      "e_run ?G s0 (ops @ [ECompact]) = Some (ys, s)" "sy_files (rv_inner s) \<noteq> None" by blast
  from e_run_snoc [OF s(2)] ys obtain s1 where
    s1: "e_run ?G s0 ops = Some (zs, s1)" "e_step ?G s1 ECompact = Some (ECompacted (Inr ()), s)" by auto
  have "sy_files (rv_inner s0) \<noteq> None"
    using s(1) by (auto simp: create_employee_production_stack_def and_then_def map_ok_def sy_create_def sy_with_path_def rv_new_def
      split: sum.splits)
  from e_run_files [OF s1(1) [unfolded employee_disk_ops_def] this] compact_step_no_logs [OF s1(2)] s show ?thesis by blast
qed

text \<open>C14. The durable employee stack comes back from its files. After any calls on a fresh stack, the
  slot file, the record blob, the insert log, the edge blob and the edge log alone reopen to a stack
  with the same record under every id, the same neighbours and the same children; for runs in which
  the freshness hashes of the two blobs do not collide.\<close>

theorem employee_reopens:
  assumes law: "lawful_employee c cs ck EE" and "team_ok employees es" and "employee_ops_ok c ops"
    and "create_employee_production_stack (employee_env c cs ck) EE employees es = Ok s0"
    and "e_run (employee_disk_ops (employee_env c cs ck) EE) s0 ops = Some (xs, s)"
    and apart: "records_apart (employee_env c cs ck) (disk_of (sy_inner (rv_inner s)))"
      "edge_files_apart EE (the (sy_files (rv_inner s)))"
  shows "\<exists>s'. open_employee_production_stack_portable (employee_env c cs ck) EE (disk_of (sy_inner (rv_inner s)))
       (the (sy_files (rv_inner s))) = Ok s' \<and>
     (\<forall>k. op_get (e_store (employee_disk_ops (employee_env c cs ck) EE)) s' k =
        op_get (e_store (employee_disk_ops (employee_env c cs ck) EE)) s k) \<and>
     (\<forall>k. set (rv_neighbors sy_neighbors s' k) = set (rv_neighbors sy_neighbors s k)) \<and>
     (\<forall>p. set (rv_children s' p) = set (rv_children s p))"
proof -
  let ?E = "employee_env c cs ck"
  note fam = employee_disk_family [OF law]
  obtain ys m R where spec: "(ys, m, R) = e_spec_run emp_id set_salary (keyed emp_id employees, sym_rel es) ops"
    by (cases "e_spec_run emp_id set_salary (keyed emp_id employees, sym_rel es) ops") auto
  from employee_disk_run [OF assms(1-3) spec] assms(4,5) have
    inv: "wrapping_layer.winvar (wrapping_layer.winvar (ms_ok ?E) (ms_map ?E) sy_inner (sy_aux EE))
       (wrapping_layer.wview (ms_map ?E) sy_inner) rv_inner (rv_aux manager_id) s"
    and view: "wrapping_layer.wview (wrapping_layer.wview (ms_map ?E) sy_inner) rv_inner s = m"
    and "sy_files (rv_inner s) \<noteq> None" by auto
  then have files: "sy_files (rv_inner s) = Some (the (sy_files (rv_inner s)))" by simp
  note core = family.family_core [OF fam inv]
  from serial_mmap.core_reopen_records [OF employee_serial_mmap [OF law] core apart(1)] obtain rs t where
    t: "read_portable_records ?E (disk_of (sy_inner (rv_inner s))) = Ok rs"
      "ms_open ?E rs (disk_of (sy_inner (rv_inner s))) = Ok t" "distinct (map emp_id rs)" "ms_ok ?E t"
      "ms_map ?E t = ms_map ?E (sy_inner (rv_inner s))"
      "\<forall>k. case keyed emp_id rs k of None \<Rightarrow> ms_map ?E (sy_inner (rv_inner s)) k = None
       | Some r \<Rightarrow> (\<exists>v q. ms_map ?E (sy_inner (rv_inner s)) k = Some q \<and> set_salary r v = Some q)"
    unfolding employee_env_simps by blast
  have same: "map_option manager_id (ms_map ?E t k) = map_option manager_id (keyed emp_id rs k)" for k
    using t(6) [rule_format, of k] t(5) by (auto simp: set_salary_def split: option.splits)
  from family.family_reopen [OF fam inv files apart(2) t(4,5,3) same] obtain t' where
    t': "sy_open_portable EE t (the (sy_files (rv_inner s))) = Ok t'"
      "wrapping_layer.winvar (wrapping_layer.winvar (ms_ok ?E) (ms_map ?E) sy_inner (sy_aux EE))
       (wrapping_layer.wview (ms_map ?E) sy_inner) rv_inner (rv_aux manager_id) (rv_new emp_id manager_id t' rs)"
      "wrapping_layer.wview (wrapping_layer.wview (ms_map ?E) sy_inner) rv_inner (rv_new emp_id manager_id t' rs) =
       wrapping_layer.wview (wrapping_layer.wview (ms_map ?E) sy_inner) rv_inner s"
      "family.family_rel (rv_new emp_id manager_id t' rs) = family.family_rel s" by blast
  show ?thesis
    using t(1,2) t'(1) family.family_reads [OF fam inv] family.family_reads [OF fam t'(2)] t'(3,4)
    by (intro exI [of _ "rv_new emp_id manager_id t' rs"])
      (simp add: open_employee_production_stack_portable_def employee_disk_ops_def)
qed


theorem employee_reopens_witness:
  "\<exists>s0 xs s s'. create_employee_production_stack demo_employees (demo_edges []) [grace, edsger] [(1, 2)] = Ok s0 \<and>
     e_run (employee_disk_ops demo_employees (demo_edges [])) s0 [EInsert barbara, ELink 3 1, EDelete 2, ECompact] = Some (xs, s) \<and>
     open_employee_production_stack_portable demo_employees (demo_edges []) (disk_of (sy_inner (rv_inner s)))
       (the (sy_files (rv_inner s))) = Ok s' \<and>
     (\<forall>k. op_get (e_store (employee_disk_ops demo_employees (demo_edges []))) s' k =
        op_get (e_store (employee_disk_ops demo_employees (demo_edges []))) s k) \<and>
     (\<forall>k. set (rv_neighbors sy_neighbors s' k) = set (rv_neighbors sy_neighbors s k)) \<and>
     (\<forall>p. set (rv_children s' p) = set (rv_children s p))"
proof -
  from employee_compacted_run [OF demo_employee_lawful demo_team, of "[EInsert barbara, ELink 3 1, EDelete 2]"] demo_employee_ops(2)
  obtain s0 xs s where
    s: "create_employee_production_stack demo_employees (demo_edges []) [grace, edsger] [(1, 2)] = Ok s0"
      "e_run (employee_disk_ops demo_employees (demo_edges [])) s0 [EInsert barbara, ELink 3 1, EDelete 2, ECompact] = Some (xs, s)"
    and logs: "ms_log (sy_inner (rv_inner s)) = None" "ef_log (the (sy_files (rv_inner s))) = None" by auto
  have "records_apart demo_employees (disk_of (sy_inner (rv_inner s)))"
    by (rule serial_mmap.compacted_apart [OF employee_serial_mmap [OF demo_employee_lawful]]) (simp add: disk_of_def logs(1))
  from employee_reopens [OF demo_employee_lawful demo_team demo_employee_ops(2) s this no_edge_log_apart [OF logs(2)]] s
  show ?thesis by blast
qed

end
