(* ===== verification/Instances.thy ===== *)
theory Instances
  imports Stack_Reopen Employee_Properties
begin

text \<open>
  The contracts and layers applied to the stacks of the program, with the serialisers of \<open>Domains\<close>:
  the discharged laws are facts about those stacks from here on.
\<close>

interpretation entities: mmap_named demo_entity_env "demo_multi []" "[]" entity_index_keys
  by (rule entity_stack [OF demo_entity_lawful])

interpretation memories: mmap_ordered demo_memory_env "demo_multi []" memory_relation_labels memory_order_key False
  by (rule memory_stack [OF demo_memory_lawful])

interpretation relations: serial_mmap demo_relations
  using demo_serial(3) relation_store.mmap_layer_axioms
  by (intro serial_mmap.intro) (simp_all add: serial_mmap_axioms_def demo_relations_def)

interpretation relation_pages: ordered_updatable rel_id "encodes_small (rec_codec demo_relations)" "mmap_ops demo_relations"
  "ms_ok demo_relations" "ms_map demo_relations" relation_order_key "mmap_okv demo_relations" "set_scannable_value demo_relations"
  "mmap_update demo_relations" True
  using relations.serial_updatable
  by (simp add: ordered_updatable_def ordered_layer_def ordered_updatable_axioms_def updatable_store_def demo_relations_def relation_env_def)

interpretation team: family emp_id "\<lambda>_. True" employee_scanned_ops employee_sc.scinv employee_sc.scview "demo_edges []" "\<lambda>_. True"
  set_salary sc_update manager_id
  by (rule employee_memory_family [OF demo_edges_serial])

interpretation team_core: serial_mmap demo_employees
  by (rule employee_serial_mmap [OF demo_employee_lawful])

interpretation team_edges: symmetric_listed emp_id "encodes_small (wire_codec w_employee)" "mmap_ops demo_employees" "ms_ok demo_employees"
  "ms_map demo_employees" "demo_edges []" ms_all_ids
  using team_core.ms.listed_store_axioms demo_edges_serial team_core.ms.record_store_axioms
  by (simp add: symmetric_listed_def symmetric_layer_def symmetric_layer_axioms_def listed_store_def)

interpretation team_tree: reversed_listed emp_id "encodes_small (wire_codec w_employee)" "sy_ops (demo_edges []) (mmap_ops demo_employees)"
  team_edges.sy.winvar team_edges.sy.wview manager_id "sy_all_ids ms_all_ids"
  by unfold_locales

interpretation team_listing: wrapping_listed emp_id "encodes_small (wire_codec w_employee)" "mmap_ops demo_employees" "ms_ok demo_employees"
  "ms_map demo_employees" sy_inner "sy_aux (demo_edges [])" "sy_ops (demo_edges []) (mmap_ops demo_employees)" ms_all_ids
  by unfold_locales

end
