(* ===== verification/Rate_Limit.thy ===== *)
theory Rate_Limit
  imports Prelude
begin

text \<open>
  The failed-authentication budget of \<open>src/server/serve.rs\<close>: \<open>RateLimit::parse\<close> and the table of
  failures per peer. An \<open>Instant\<close> and a \<open>Duration\<close> are numbers of nanoseconds, \<open>duration_since\<close>
  saturates at zero, a peer is an address. The map's iteration order decides which of two oldest
  windows is evicted; it is the order of the list.
\<close>

section \<open>Numbers in text\<close>

text \<open>
  \<open>str::parse\<close> of an unsigned type below \<open>2 ^ w\<close>: decimal digits, at least one, after an optional
  plus sign.
\<close>

definition is_digit :: "char \<Rightarrow> bool" where
  "is_digit c \<longleftrightarrow> (let n = of_char c in (48 :: nat) \<le> n \<and> n \<le> 57)"

definition digit_value :: "char \<Rightarrow> nat" where
  "digit_value c = of_char c - 48"

fun digits_value :: "nat \<Rightarrow> string \<Rightarrow> nat option" where
  "digits_value n [] = Some n"
| "digits_value n (c # cs) = (if is_digit c then digits_value (10 * n + digit_value c) cs else None)"

definition parse_digits :: "string \<Rightarrow> nat option" where
  "parse_digits cs = (if cs = [] then None else digits_value 0 cs)"

definition parse_unsigned :: "nat \<Rightarrow> string \<Rightarrow> nat option" where
  "parse_unsigned w s =
     (case parse_digits (if s \<noteq> [] \<and> hd s = CHR ''+'' then tl s else s) of
        None \<Rightarrow> None
      | Some n \<Rightarrow> if n < 2 ^ w then Some n else None)"

text \<open>\<open>split_once\<close>.\<close>

fun split_once :: "'a \<Rightarrow> 'a list \<Rightarrow> ('a list \<times> 'a list) option" where
  "split_once d [] = None"
| "split_once d (c # cs) =
     (if c = d then Some ([], cs) else map_option (\<lambda>(a, b). (c # a, b)) (split_once d cs))"

section \<open>\<open>RateLimit\<close>\<close>

record rate_limit =
  rl_failures :: nat
  rl_window :: nat

definition parse_rate_limit :: "string \<Rightarrow> string + rate_limit" where
  "parse_rate_limit s =
     and_then (ok_or s (split_once (CHR ''/'') s)) (\<lambda>(f, w).
     and_then (ok_or s (parse_unsigned 32 f)) (\<lambda>failures.
     and_then (ok_or s (parse_unsigned 64 w)) (\<lambda>seconds.
       if failures = 0 \<or> seconds = 0 then Err s
       else Ok \<lparr>rl_failures = failures, rl_window = seconds * 1000000000\<rparr>)))"

section \<open>\<open>FailureTable\<close>\<close>

definition MAX_AUTH_FAILURES :: nat where "MAX_AUTH_FAILURES = 5"
definition MAX_TRACKED_PEERS :: nat where "MAX_TRACKED_PEERS = 4096"

record window =
  wn_started :: nat
  wn_failures :: u32

record 'ip failure_table =
  ft_limit :: rate_limit
  ft_peers :: "('ip, window) hash_map"

definition new_table :: "rate_limit \<Rightarrow> 'ip failure_table" where
  "new_table limit = \<lparr>ft_limit = limit, ft_peers = []\<rparr>"

definition over_budget :: "rate_limit \<Rightarrow> window \<Rightarrow> bool" where
  "over_budget limit w \<longleftrightarrow> rl_failures limit \<le> unat (wn_failures w)"

definition table_throttled :: "'ip failure_table \<Rightarrow> nat \<Rightarrow> 'ip \<Rightarrow> bool" where
  "table_throttled T now peer =
     (case map_of (ft_peers T) peer of
        None \<Rightarrow> False
      | Some w \<Rightarrow> now - wn_started w < rl_window (ft_limit T) \<and> over_budget (ft_limit T) w)"

text \<open>\<open>min_by_key\<close> returns the first of the least.\<close>

fun oldest_peer :: "('ip, window) hash_map \<Rightarrow> 'ip option" where
  "oldest_peer [] = None"
| "oldest_peer ((p, w) # ws) =
     (case oldest_peer ws of
        None \<Rightarrow> Some p
      | Some q \<Rightarrow> if wn_started w \<le> wn_started (the (map_of ws q)) then Some p else Some q)"

definition make_room :: "nat \<Rightarrow> nat \<Rightarrow> ('ip, window) hash_map \<Rightarrow> ('ip, window) hash_map" where
  "make_room window now peers =
     (if MAX_TRACKED_PEERS \<le> length peers
      then let peers = filter (\<lambda>(p, w). now - wn_started w < window) peers
           in if MAX_TRACKED_PEERS \<le> length peers
              then (case oldest_peer peers of None \<Rightarrow> peers | Some p \<Rightarrow> AList.delete p peers)
              else peers
      else peers)"

definition note_failure :: "'ip failure_table \<Rightarrow> nat \<Rightarrow> 'ip \<Rightarrow> bool \<times> 'ip failure_table" where
  "note_failure T now peer =
     (let peers = ft_peers T; window = rl_window (ft_limit T);
          peers' = (case map_of peers peer of
              Some w \<Rightarrow>
                AList.update peer
                  (if window \<le> now - wn_started w then \<lparr>wn_started = now, wn_failures = 1\<rparr>
                   else w\<lparr>wn_failures := wn_failures w + 1\<rparr>) peers
            | None \<Rightarrow> AList.update peer \<lparr>wn_started = now, wn_failures = 1\<rparr> (make_room window now peers))
      in (case map_of peers' peer of None \<Rightarrow> False | Some w \<Rightarrow> over_budget (ft_limit T) w,
          T\<lparr>ft_peers := peers'\<rparr>))"

end
