(* ===== verification/Protocol.thy ===== *)
theory Protocol
  imports Prelude
begin

text \<open>
  The request and response shapes of \<open>src/server/protocol.rs\<close>: the values and field tags that cross
  the wire, the operations a client can name and the answers it gets. A \<open>String\<close> is a list of
  characters, a \<open>usize\<close> a \<open>nat\<close>, an \<open>f64\<close> its 64 bits; \<open>PartialEq\<close> on values is written out because an
  \<open>f64\<close> compares as a number.
\<close>

unbundle bit_operations_syntax

section \<open>Values\<close>

type_synonym record_id = uuid
type_synonym field_ref = u16

datatype scan_value =
    VU32 u32
  | VI64 i64
  | VBool bool
  | VStr string
  | VF64 u64
  | VStrList "string list"

type_synonym row_fields = "(field_ref \<times> scan_value) list"
type_synonym page_row = "record_id \<times> row_fields"

datatype value_kind = KU32 | KI64 | KBool | KStr | KStrList

text \<open>IEEE 754 equality on the bits of a double: a NaN equals nothing, the two zeros are equal.\<close>

definition f64_nan :: "u64 \<Rightarrow> bool" where
  "f64_nan b \<longleftrightarrow> 0x7ff0000000000000 < (b AND 0x7fffffffffffffff)"

definition f64_eq :: "u64 \<Rightarrow> u64 \<Rightarrow> bool" where
  "f64_eq a b \<longleftrightarrow> \<not> f64_nan a \<and> \<not> f64_nan b \<and>
     (a = b \<or> a AND 0x7fffffffffffffff = 0 \<and> b AND 0x7fffffffffffffff = 0)"

fun value_eq :: "scan_value \<Rightarrow> scan_value \<Rightarrow> bool" where
  "value_eq (VF64 a) (VF64 b) = f64_eq a b"
| "value_eq a b = (a = b)"

fun row_eq :: "row_fields \<Rightarrow> row_fields \<Rightarrow> bool" where
  "row_eq [] [] = True"
| "row_eq ((f, v) # r) ((g, w) # s) = (f = g \<and> value_eq v w \<and> row_eq r s)"
| "row_eq _ _ = False"

text \<open>\<open>mem::discriminant\<close>.\<close>

fun same_kind :: "scan_value \<Rightarrow> scan_value \<Rightarrow> bool" where
  "same_kind (VU32 _) (VU32 _) = True"
| "same_kind (VI64 _) (VI64 _) = True"
| "same_kind (VBool _) (VBool _) = True"
| "same_kind (VStr _) (VStr _) = True"
| "same_kind (VF64 _) (VF64 _) = True"
| "same_kind (VStrList _) (VStrList _) = True"
| "same_kind _ _ = False"

definition comparable :: "scan_value \<Rightarrow> bool" where
  "comparable v \<longleftrightarrow> (\<forall>b. v = VF64 b \<longrightarrow> \<not> f64_nan b)"

lemma value_eq_refl_iff: "value_eq v v \<longleftrightarrow> comparable v"
  by (cases v) (auto simp: comparable_def f64_eq_def)

lemma value_eq_iff: "(\<And>b. v \<noteq> VF64 b) \<Longrightarrow> value_eq v w \<longleftrightarrow> v = w"
  by (cases v; cases w) auto

lemma value_eq_sym: "value_eq v w \<longleftrightarrow> value_eq w v"
  by (cases v; cases w) (auto simp: f64_eq_def)

lemma value_eq_kind: "value_eq v w \<Longrightarrow> same_kind v w"
  by (cases v; cases w) auto

section \<open>Operations a client names\<close>

record transaction_op =
  to_id :: record_id
  to_field :: field_ref
  to_value :: scan_value

datatype selection = SelectAll | SelectFields "field_ref list"

datatype compare_op = OpEq | OpNe | OpLt | OpLe | OpGt | OpGe

fun is_ordering :: "compare_op \<Rightarrow> bool" where
  "is_ordering OpLt = True"
| "is_ordering OpLe = True"
| "is_ordering OpGt = True"
| "is_ordering OpGe = True"
| "is_ordering _ = False"

record predicate =
  pr_field :: field_ref
  pr_op :: compare_op
  pr_value :: scan_value

datatype write_op =
    WInsert record_id row_fields
  | WReplace record_id row_fields
  | WReplaceIf record_id row_fields predicate
  | WDelete record_id
  | WLink record_id record_id string

datatype aggregate_fn = AggCount | AggSum | AggAvg | AggMin | AggMax

record aggregate_spec =
  ag_func :: aggregate_fn
  ag_field :: "field_ref option"

record aggregate_group =
  gr_key :: row_fields
  gr_values :: "scan_value list"

datatype join_relation = JoinNeighbors "string option" | JoinParent | JoinChildren

record join_spec =
  js_relation :: join_relation
  js_right_table :: "string option"
  js_left :: selection
  js_right :: selection
  js_left_filter :: "predicate list"
  js_right_filter :: "predicate list"
  js_limit :: "nat option"

record joined_row =
  jr_left_id :: record_id
  jr_left :: row_fields
  jr_right_id :: record_id
  jr_right :: row_fields

record relation_descriptor =
  rd_name :: string
  rd_kind :: join_relation
  rd_target_table :: "string option"

datatype parent_lookup = HasParent record_id | NoParent | ChildNotFound

record field_capabilities =
  fc_filter_eq :: bool
  fc_scan :: bool
  fc_update :: bool

record field_descriptor =
  fd_tag :: field_ref
  fd_name :: string
  fd_value_kind :: value_kind
  fd_capabilities :: field_capabilities

record relation_capabilities =
  rc_parent_children :: bool
  rc_neighbors :: bool

record domain_schema =
  ds_fields :: "field_descriptor list"
  ds_relations :: relation_capabilities

datatype error_code =
    UnknownField | Unsupported | Malformed | Unauthenticated | Unauthorized | RecordNotFound
  | NoSession | SessionOpen | SessionFull | EJournal | Conflict | EDuplicate | EStorage | GuardFailed

datatype write_result =
    WrInserted | WrDuplicate | WrReplaced | WrNotFound | WrGuardFailed | WrLinked | WrAlreadyLinked
  | WrDeleted | WrFailed error_code

section \<open>Requests and responses\<close>

datatype request =
    GetById record_id
  | FilterEq field_ref scan_value
  | ScanField field_ref
  | UpdateField record_id field_ref scan_value
  | Parent record_id
  | Children record_id
  | Neighbors record_id
  | DescribeSchema
  | Authenticate string
  | Transaction "transaction_op list"
  | Hello u32
  | Begin
  | Commit
  | Rollback
  | BeginWith u32
  | Query selection "predicate list" "nat option"
  | Aggregate "field_ref list" "predicate list" "aggregate_spec list" "nat option"
  | NeighborsByRelation record_id string
  | ListRelationKinds
  | Join join_spec
  | DescribeRelations
  | Insert record_id row_fields
  | Link record_id record_id string
  | Replace record_id row_fields
  | Use string
  | ListTables
  | Delete record_id
  | Compact
  | ReplaceIf record_id row_fields predicate
  | Page field_ref "(scan_value \<times> record_id) option" nat
  | CountEdges string
  | WriteBatch "write_op list" bool

datatype response =
    RRecord record_id row_fields
  | RRecordList "record_id list"
  | RScanValues "scan_value list"
  | RId record_id
  | RSchema domain_schema
  | RNotFound
  | RNoParent
  | ROk
  | RErr error_code string
  | RTransactionFailed nat error_code string
  | RHello u32
  | RStaged u32
  | RRows "page_row list"
  | RGroups "aggregate_group list"
  | RRelationKinds "string list"
  | RJoinedRows "joined_row list"
  | RRelations "relation_descriptor list"
  | RTables "string list" string
  | RCompacted nat nat nat nat
  | RCount nat
  | RBatchResults "write_result list"

definition PROTOCOL_VERSION :: nat where "PROTOCOL_VERSION = 22"
definition SESSION_READ_YOUR_WRITES :: u32 where "SESSION_READ_YOUR_WRITES = 1"
definition SESSION_VALIDATE_ON_STAGE :: u32 where "SESSION_VALIDATE_ON_STAGE = 2"
definition SESSION_SNAPSHOT_ISOLATION :: u32 where "SESSION_SNAPSHOT_ISOLATION = 4"
definition MAX_STAGED_OPS :: nat where "MAX_STAGED_OPS = 4096"
definition MAX_BATCH_OPS :: nat where "MAX_BATCH_OPS = 4096"
definition MAX_TRACKED_READS :: nat where "MAX_TRACKED_READS = 4096"

end
