(* ===== verification/Aggregates.thy ===== *)
theory Aggregates
  imports Query_Engine
begin

text \<open>
  The aggregate evaluator of \<open>src/server/serve.rs\<close>: grouping and the five reductions. A panicking
  \<open>expect\<close> or \<open>unreachable!\<close> is \<open>None\<close>; \<open>i64\<close> sums wrap, as a release build's do. \<open>AVG\<close> divides two
  doubles, so the conversion and the division are given with IEEE rounding on the bits.
\<close>

section \<open>Doubles from integers\<close>

text \<open>
  The number of binary digits; then the nearest double (ties to even) of the positive quotient
  \<open>n / d\<close>, as its mantissa in \<open>[2^52, 2^53)\<close> and its binary exponent. All quotients of the model lie
  between \<open>2^-64\<close> and \<open>2^64\<close>, so there are no subnormals and no infinities.
\<close>

function binary_digits :: "int \<Rightarrow> int" where
  "binary_digits n = (if n \<le> 0 then 0 else 1 + binary_digits (n div 2))"
  by auto
termination
  by (relation "measure nat") auto

declare binary_digits.simps [simp del]

definition scaled_quotient :: "int \<Rightarrow> int \<Rightarrow> int \<Rightarrow> int \<times> int \<times> int" where
  "scaled_quotient n d e =
     (let num = (if 0 \<le> e then n else n * 2 ^ nat (- e));
          den = (if 0 \<le> e then d * 2 ^ nat e else d)
      in (num div den, num mod den, den))"

definition round_half_even :: "int \<times> int \<times> int \<Rightarrow> int" where
  "round_half_even t =
     (case t of (q, r, den) \<Rightarrow> if 2 * r > den \<or> 2 * r = den \<and> odd q then q + 1 else q)"

definition f64_parts :: "int \<Rightarrow> int \<Rightarrow> int \<times> int" where
  "f64_parts n d =
     (let e1 = binary_digits n - binary_digits d - 53;
          e = (if 2 ^ 53 \<le> fst (scaled_quotient n d e1) then e1 + 1 else e1);
          m = round_half_even (scaled_quotient n d e)
      in if m = 2 ^ 53 then (2 ^ 52, e + 1) else (m, e))"

definition f64_bits :: "bool \<Rightarrow> int \<times> int \<Rightarrow> u64" where
  "f64_bits negative p =
     (case p of (m, e) \<Rightarrow>
        word_of_int (m - 2 ^ 52 + (e + 1075) * 2 ^ 52 + (if negative then 2 ^ 63 else 0)))"

text \<open>\<open>n as f64\<close> for a non-negative integer, as the integer it denotes.\<close>

definition f64_of_int :: "int \<Rightarrow> int" where
  "f64_of_int n = (if n = 0 then 0 else case f64_parts n 1 of (m, e) \<Rightarrow>
     if 0 \<le> e then m * 2 ^ nat e else m div 2 ^ nat (- e))"

definition f64_quotient :: "int \<Rightarrow> nat \<Rightarrow> u64" where
  "f64_quotient s len =
     (if s = 0 then 0
      else f64_bits (s < 0) (f64_parts (f64_of_int \<bar>s\<bar>) (f64_of_int (int len))))"

section \<open>Validation\<close>

definition validate_spec :: "domain_schema \<Rightarrow> aggregate_spec \<Rightarrow> error_code + unit" where
  "validate_spec schema spec =
     (case (ag_func spec, ag_field spec) of
        (AggCount, None) \<Rightarrow> Ok ()
      | (AggCount, Some _) \<Rightarrow> Err Malformed
      | (_, None) \<Rightarrow> Err Malformed
      | (_, Some tag) \<Rightarrow>
          and_then (ok_or UnknownField (kind_of schema tag)) (\<lambda>kind.
            if orderable kind then Ok () else Err Malformed))"

definition validate_group_tag :: "domain_schema \<Rightarrow> field_ref \<Rightarrow> error_code + unit" where
  "validate_group_tag schema tag =
     (case kind_of schema tag of
        None \<Rightarrow> Err UnknownField
      | Some KStrList \<Rightarrow> Err Malformed
      | Some _ \<Rightarrow> Ok ())"

definition validate_aggregate :: "domain_schema \<Rightarrow> field_ref list \<Rightarrow> predicate list \<Rightarrow> aggregate_spec list \<Rightarrow>
    error_code + unit" where
  "validate_aggregate schema group_by flt aggregates =
     and_then (check_all (validate_group_tag schema) group_by) (\<lambda>_.
     and_then (check_all (validate_predicate schema) flt) (\<lambda>_.
       check_all (validate_spec schema) aggregates))"

section \<open>Reductions\<close>

definition field_values :: "field_ref \<Rightarrow> row_fields list \<Rightarrow> scan_value list" where
  "field_values field rows = List.map_filter (\<lambda>fs. field_value fs field) rows"

fun numeric_i64 :: "scan_value \<Rightarrow> i64 option" where
  "numeric_i64 (VU32 n) = Some (ucast n)"
| "numeric_i64 (VI64 n) = Some n"
| "numeric_i64 _ = None"

fun extreme_from :: "bool \<Rightarrow> scan_value \<Rightarrow> scan_value list \<Rightarrow> scan_value option" where
  "extreme_from want_max best [] = Some best"
| "extreme_from want_max best (v # vs) =
     (case (numeric_i64 v, numeric_i64 best) of
        (Some a, Some b) \<Rightarrow>
          extreme_from want_max (if (if want_max then sint b < sint a else sint a < sint b) then v else best) vs
      | _ \<Rightarrow> None)"

definition reduce_extreme :: "field_ref \<Rightarrow> row_fields list \<Rightarrow> bool \<Rightarrow> domain_schema \<Rightarrow> scan_value option" where
  "reduce_extreme field rows want_max schema =
     (case field_values field rows of
        [] \<Rightarrow> (case kind_of schema field of
                 None \<Rightarrow> None
               | Some KU32 \<Rightarrow> Some (VU32 0)
               | Some _ \<Rightarrow> Some (VI64 0))
      | first # rest \<Rightarrow> extreme_from want_max first rest)"

definition reduce :: "aggregate_spec \<Rightarrow> row_fields list \<Rightarrow> domain_schema \<Rightarrow> scan_value option" where
  "reduce spec rows schema =
     (case (ag_func spec, ag_field spec) of
        (AggCount, _) \<Rightarrow> Some (VI64 (of_nat (length rows)))
      | (_, None) \<Rightarrow> None
      | (AggSum, Some field) \<Rightarrow>
          map_option (\<lambda>vs. VI64 (sum_list vs)) (those (map numeric_i64 (field_values field rows)))
      | (AggAvg, Some field) \<Rightarrow>
          map_option
            (\<lambda>vs. VF64 (if vs = [] then 0 else f64_quotient (sint (sum_list vs)) (length vs)))
            (those (map numeric_i64 (field_values field rows)))
      | (AggMin, Some field) \<Rightarrow> reduce_extreme field rows False schema
      | (AggMax, Some field) \<Rightarrow> reduce_extreme field rows True schema)"

section \<open>Groups\<close>

definition group_key :: "field_ref list \<Rightarrow> row_fields \<Rightarrow> row_fields" where
  "group_key group_by fs = List.map_filter (\<lambda>tag. List.find (\<lambda>p. fst p = tag) fs) group_by"

fun bucket_row :: "row_fields \<Rightarrow> row_fields \<Rightarrow> (row_fields \<times> row_fields list) list \<Rightarrow>
    (row_fields \<times> row_fields list) list" where
  "bucket_row key fs [] = [(key, [fs])]"
| "bucket_row key fs ((k, rows) # rest) =
     (if row_eq k key then (k, rows @ [fs]) # rest else (k, rows) # bucket_row key fs rest)"

definition group_buckets :: "field_ref list \<Rightarrow> row_fields list \<Rightarrow> (row_fields \<times> row_fields list) list" where
  "group_buckets group_by rows =
     foldl (\<lambda>bs fs. bucket_row (group_key group_by fs) fs bs) (if group_by = [] then [([], [])] else []) rows"

definition reduce_group :: "aggregate_spec list \<Rightarrow> domain_schema \<Rightarrow> row_fields \<times> row_fields list \<Rightarrow>
    aggregate_group option" where
  "reduce_group aggregates schema g =
     map_option (\<lambda>vs. \<lparr>gr_key = fst g, gr_values = vs\<rparr>)
       (those (map (\<lambda>spec. reduce spec (snd g) schema) aggregates))"

definition evaluate_aggregate :: "page_row list \<Rightarrow> field_ref list \<Rightarrow> predicate list \<Rightarrow> aggregate_spec list \<Rightarrow>
    nat option \<Rightarrow> domain_schema \<Rightarrow> aggregate_group list option" where
  "evaluate_aggregate rows group_by flt aggregates limit schema =
     map_option (truncated limit)
       (those (map (reduce_group aggregates schema)
         (group_buckets group_by
           (filter (\<lambda>fs. \<forall>p \<in> set flt. predicate_matches fs p) (map snd rows)))))"

end
