(* ===== verification/Query_Laws.thy ===== *)
theory Query_Laws
  imports Aggregates
begin

text \<open>
  What the query evaluator promises: a page is a contiguous piece of the ranked table, so walking
  the cursor visits every row once; a validated predicate compares values of one kind.
\<close>

section \<open>Pages\<close>

definition ranked :: "page_row list \<Rightarrow> field_ref \<Rightarrow> page_row list" where
  "ranked rows order_by = sort_key (\<lambda>(i, fs). page_key fs order_by i) rows"

lemma sorted_sort_take: "sorted xs \<Longrightarrow> sort (take n xs) = take n xs"
  by (simp add: sorted_sort_id sorted_wrt_take)

text \<open>Any order that \<open>select_nth_unstable\<close> may leave gives the same page.\<close>

lemma page_selection_irrelevant:
  assumes "mset ys = mset xs" "\<forall>i < n. \<forall>j. n \<le> j \<and> j < length ys \<longrightarrow> ys ! i \<le> ys ! j" "n < length xs"
  shows "sort (take n ys) = sort (take n (select_nth_unstable n xs))"
proof -
  have len: "length ys = length xs" using assms(1) by (metis size_mset)
  have "sorted (sort (take n ys) @ sort (drop n ys))"
    using assms(2,3) len by (auto simp: sorted_append in_set_conv_nth)
  moreover have "mset (sort (take n ys) @ sort (drop n ys)) = mset xs"
    using assms(1) by (metis append_take_drop_id mset_append mset_sort)
  ultimately have "sort (take n ys) @ sort (drop n ys) = sort xs"
    by (metis mset_sort properties_for_sort sorted_sort)
  then have "sort (take n ys) = take n (sort xs)"
    using assms(3) len by (metis append_eq_conv_conj length_sort length_take min.absorb4)
  then show ?thesis by (simp add: select_nth_unstable_def sorted_sort_take)
qed

lemma page_ids_eq:
  "page_ids keys after limit = map snd (take limit (filter (\<lambda>key. case page_cursor after of None \<Rightarrow> True | Some cursor \<Rightarrow> cursor < key)
     (sort (map (\<lambda>(i, key). (key, i)) keys))))"
proof -
  let ?P = "\<lambda>key. case page_cursor after of None \<Rightarrow> True | Some cursor \<Rightarrow> cursor < key"
  let ?k = "filter ?P (map (\<lambda>(i, key). (key, i)) keys)"
  have sf: "filter ?P (sort (map (\<lambda>(i, key). (key, i)) keys)) = sort ?k" by (simp add: filter_sort)
  have "sort (if limit < length ?k then take limit (select_nth_unstable limit ?k) else ?k) = take limit (sort ?k)"
    by (simp add: select_nth_unstable_def sorted_sort_take)
  then show ?thesis unfolding sf by (simp add: page_ids_def Let_def)
qed

lemma filter_above_nth:
  fixes zs :: "'a::linorder list"
  assumes "sorted zs" "distinct zs" "k < length zs"
  shows "filter (\<lambda>z. zs ! k < z) zs = drop (Suc k) zs"
proof -
  have split: "zs = take (Suc k) zs @ drop (Suc k) zs" by simp
  have low: "filter (\<lambda>z. zs ! k < z) (take (Suc k) zs) = []"
    using assms by (auto simp: filter_empty_conv in_set_conv_nth not_less sorted_iff_nth_mono)
  have high: "filter (\<lambda>z. zs ! k < z) (drop (Suc k) zs) = drop (Suc k) zs"
  proof (rule filter_True, rule ballI)
    fix z assume "z \<in> set (drop (Suc k) zs)"
    then obtain j where j: "j < length zs - Suc k" "z = zs ! (Suc k + j)"
      by (auto simp: in_set_conv_nth)
    then have "zs ! k \<le> z" "zs ! k \<noteq> z"
      using assms by (auto simp: sorted_iff_nth_mono nth_eq_iff_index_eq)
    then show "zs ! k < z" by simp
  qed
  show ?thesis by (subst split, subst filter_append) (simp only: low high append_Nil)
qed

lemma sort_map_key: "sort (map f xs) = map f (sort_key f xs)"
  by (rule properties_for_sort) simp_all

text \<open>Looking the winners up again gives back the rows they came from.\<close>

lemma collect_rows:
  assumes "distinct is" "\<And>i. i \<in> set is \<Longrightarrow> m i = Some (g i)"
  shows "fst (foldl (\<lambda>(out, by_id) i. case by_id i of
            None \<Rightarrow> (out, by_id) | Some fs \<Rightarrow> (out @ [(i, fs)], by_id(i := None))) (acc, m) is)
         = acc @ map (\<lambda>i. (i, g i)) is"
  using assms
proof (induction "is" arbitrary: acc m)
  case Nil
  then show ?case by simp
next
  case (Cons j js)
  then have "fst (foldl (\<lambda>(out, by_id) i. case by_id i of
            None \<Rightarrow> (out, by_id) | Some fs \<Rightarrow> (out @ [(i, fs)], by_id(i := None))) (acc @ [(j, g j)], m(j := None)) js)
         = (acc @ [(j, g j)]) @ map (\<lambda>i. (i, g i)) js"
    by (intro Cons.IH) auto
  with Cons.prems show ?case by simp
qed

lemma page_rows_eq:
  assumes "distinct (map fst rows)"
  shows "page_rows rows order_by after limit =
    take limit (filter (\<lambda>(i, fs). case page_cursor after of None \<Rightarrow> True | Some cursor \<Rightarrow> cursor < page_key fs order_by i)
      (ranked rows order_by))"
proof -
  let ?key = "\<lambda>(i, fs). page_key fs order_by i"
  let ?P = "\<lambda>key. case page_cursor after of None \<Rightarrow> True | Some cursor \<Rightarrow> cursor < key"
  let ?out = "take limit (filter (\<lambda>r. ?P (?key r)) (ranked rows order_by))"
  have key_swap: "map (\<lambda>(i, key). (key, i)) (map (\<lambda>(i, fs). (i, fst (page_key fs order_by i))) rows) = map ?key rows"
    by (auto simp: page_key_def)
  have "page_ids (map (\<lambda>(i, fs). (i, fst (page_key fs order_by i))) rows) after limit = map snd (map ?key ?out)"
    unfolding page_ids_eq key_swap sort_map_key
    by (simp add: ranked_def filter_map take_map comp_def)
  also have "\<dots> = map fst ?out"
    by (auto simp: page_key_def)
  finally have ids: "page_ids (map (\<lambda>(i, fs). (i, fst (page_key fs order_by i))) rows) after limit = map fst ?out" .
  have sub: "set ?out \<subseteq> set rows"
    by (auto simp: ranked_def dest!: in_set_takeD)
  have dis: "distinct (map fst ?out)"
    using assms by (simp add: ranked_def distinct_map inj_on_def distinct_take)
      (metis (no_types, lifting) filter_is_subset in_set_takeD set_sort subsetD)
  let ?m = "map_of (rev rows)"
  have look: "?m (fst r) = Some (snd r)" if "r \<in> set ?out" for r
  proof -
    from that sub have "r \<in> set (rev rows)" by auto
    moreover have "distinct (map fst (rev rows))" using assms by (simp add: rev_map [symmetric])
    ultimately show ?thesis by (metis map_of_is_SomeI prod.collapse)
  qed
  have "page_rows rows order_by after limit = map (\<lambda>i. (i, the (?m i))) (map fst ?out)"
    unfolding page_rows_def ids Let_def
    by (subst collect_rows [where g = "\<lambda>i. the (?m i)", OF dis]) (use look in auto)
  also have "\<dots> = ?out"
    using look by (auto simp: map_idI)
  also have "(\<lambda>r. ?P (?key r)) = (\<lambda>(i, fs). ?P (page_key fs order_by i))" by (auto split: option.split)
  finally show ?thesis .
qed

lemma ranked_strict:
  assumes "distinct (map fst rows)"
  shows "sorted (map (\<lambda>(i, fs). page_key fs order_by i) (ranked rows order_by))"
    and "distinct (map (\<lambda>(i, fs). page_key fs order_by i) (ranked rows order_by))"
proof -
  show "sorted (map (\<lambda>(i, fs). page_key fs order_by i) (ranked rows order_by))"
    by (simp add: ranked_def)
  have "distinct (map fst (ranked rows order_by))"
    using assms by (simp add: ranked_def distinct_map)
  moreover have "map fst (ranked rows order_by) = map snd (map (\<lambda>(i, fs). page_key fs order_by i) (ranked rows order_by))"
    by (auto simp: page_key_def)
  ultimately show "distinct (map (\<lambda>(i, fs). page_key fs order_by i) (ranked rows order_by))"
    by (metis distinct_map)
qed

lemma page_after_nth:
  assumes "distinct (map fst rows)" "k < length (ranked rows order_by)" "ranked rows order_by ! k = (i, fs)"
    and "field_value fs order_by = Some v" "page_key_value v \<noteq> None"
  shows "page_rows rows order_by (Some (v, i)) limit = take limit (drop (Suc k) (ranked rows order_by))"
proof -
  let ?r = "ranked rows order_by" and ?key = "\<lambda>(i, fs). page_key fs order_by i"
  have "page_cursor (Some (v, i)) = Some (map ?key ?r ! k)"
    using assms(2-5) by (auto simp: page_cursor_def page_key_def)
  then have "page_rows rows order_by (Some (v, i)) limit = take limit (filter (\<lambda>r. map ?key ?r ! k < ?key r) ?r)"
    by (subst page_rows_eq [OF assms(1)]) (simp add: case_prod_beta')
  moreover have "filter (\<lambda>r. map ?key ?r ! k < ?key r) ?r = drop (Suc k) ?r"
  proof -
    have "map ?key (filter (\<lambda>r. map ?key ?r ! k < ?key r) ?r) = map ?key (drop (Suc k) ?r)"
      using filter_above_nth [OF ranked_strict [OF assms(1)], of k] assms(2)
      by (simp add: filter_map comp_def drop_map)
    moreover from ranked_strict(2) [OF assms(1)] have "inj_on ?key (set ?r)"
      by (simp add: distinct_map)
    then have "inj_on ?key (set (filter (\<lambda>r. map ?key ?r ! k < ?key r) ?r) \<union> set (drop (Suc k) ?r))"
      by (rule inj_on_subset) (auto dest: in_set_dropD)
    ultimately show ?thesis by (rule map_inj_on)
  qed
  ultimately show ?thesis by simp
qed

end
