(* ===== verification/Aggregate_Laws.thy ===== *)
theory Aggregate_Laws
  imports Query_Laws
begin

text \<open>
  Well-typed rows, and what validation buys on them: a comparison is between two values of one
  kind, no reduction panics, and the groups are exactly the classes of the rows by their key.
\<close>

section \<open>Well-typed rows\<close>

fun has_kind :: "value_kind \<Rightarrow> scan_value \<Rightarrow> bool" where
  "has_kind KU32 (VU32 _) = True"
| "has_kind KI64 (VI64 _) = True"
| "has_kind KBool (VBool _) = True"
| "has_kind KStr (VStr _) = True"
| "has_kind KStrList (VStrList _) = True"
| "has_kind _ _ = False"

text \<open>A row of a table described by a schema has every described field, with a value of its kind.\<close>

definition row_ok :: "domain_schema \<Rightarrow> row_fields \<Rightarrow> bool" where
  "row_ok schema fs \<longleftrightarrow>
     (\<forall>d \<in> set (ds_fields schema). \<exists>v. field_value fs (fd_tag d) = Some v \<and>
        (\<forall>k. kind_of schema (fd_tag d) = Some k \<longrightarrow> has_kind k v))"

lemma kind_of_described: "kind_of schema tag = Some k \<Longrightarrow> \<exists>d \<in> set (ds_fields schema). fd_tag d = tag"
  by (auto simp: kind_of_def find_Some_iff)

lemma row_okD: "row_ok schema fs \<Longrightarrow> kind_of schema tag = Some k \<Longrightarrow> \<exists>v. field_value fs tag = Some v \<and> has_kind k v"
  unfolding row_ok_def using kind_of_described by metis

lemma has_kind_iff [simp]:
  "has_kind KU32 v \<longleftrightarrow> (\<exists>a. v = VU32 a)"
  "has_kind KI64 v \<longleftrightarrow> (\<exists>a. v = VI64 a)"
  "has_kind KBool v \<longleftrightarrow> (\<exists>b. v = VBool b)"
  "has_kind KStr v \<longleftrightarrow> (\<exists>s. v = VStr s)"
  "has_kind KStrList v \<longleftrightarrow> (\<exists>l. v = VStrList l)"
  by (cases v; simp)+

lemma has_kind_comparable: "has_kind k v \<Longrightarrow> comparable v"
  by (cases k) (auto simp: comparable_def)

lemma value_matches_has_kind: "value_matches_kind k v \<Longrightarrow> has_kind k v"
  by (cases k; cases v) simp_all

section \<open>Validated predicates\<close>

lemma validate_predicateD:
  assumes "validate_predicate schema p = Ok u"
  obtains k where "kind_of schema (pr_field p) = Some k" "value_matches_kind k (pr_value p)"
    "is_ordering (pr_op p) \<Longrightarrow> orderable k"
  using assms by (auto simp: validate_predicate_def and_then_Ok_iff ok_or_def split: option.splits if_splits)

text \<open>The order a validated predicate compares by: the two values read as integers.\<close>

definition value_int :: "scan_value \<Rightarrow> int" where
  "value_int v = (case v of VU32 a \<Rightarrow> uint a | VI64 a \<Rightarrow> sint a | _ \<Rightarrow> 0)"

lemma sint_same: "sint a = sint b \<longleftrightarrow> a = b"
  by (auto intro: signed_word_eqI)

lemma uint_same: "uint a = uint b \<longleftrightarrow> a = b"
  by (simp add: word_uint_eq_iff)

lemma compare_orderable:
  assumes "has_kind k v" "has_kind k w" "orderable k"
  shows "compare_values v OpLt w = (value_int v < value_int w)"
    and "compare_values v OpLe w = (value_int v \<le> value_int w)"
    and "compare_values v OpGt w = (value_int v > value_int w)"
    and "compare_values v OpGe w = (value_int v \<ge> value_int w)"
    and "compare_values v OpEq w = (value_int v = value_int w)"
    and "compare_values v OpNe w = (value_int v \<noteq> value_int w)"
  using assms unfolding orderable_def
  by (auto simp: compare_values_def value_int_def sint_same uint_same)

section \<open>Reductions of validated aggregates\<close>

definition spec_kind :: "domain_schema \<Rightarrow> aggregate_spec \<Rightarrow> scan_value \<Rightarrow> bool" where
  "spec_kind schema spec v =
     (case (ag_func spec, ag_field spec) of
        (AggCount, _) \<Rightarrow> (\<exists>n. v = VI64 n)
      | (AggSum, _) \<Rightarrow> (\<exists>n. v = VI64 n)
      | (AggAvg, _) \<Rightarrow> (\<exists>n. v = VF64 n)
      | (_, Some tag) \<Rightarrow> (\<exists>k. kind_of schema tag = Some k \<and> orderable k \<and> has_kind k v)
      | (_, None) \<Rightarrow> False)"

lemma numeric_has_kind: "orderable k \<Longrightarrow> has_kind k v \<Longrightarrow> \<exists>n. numeric_i64 v = Some n"
  by (auto simp: orderable_def)

lemma field_values_kinds:
  assumes "\<forall>fs \<in> set rows. row_ok schema fs" "kind_of schema tag = Some k"
  shows "\<forall>v \<in> set (field_values tag rows). has_kind k v"
  using assms row_okD by (fastforce simp: field_values_def List.map_filter_def)

lemma those_Some: "(\<And>x. x \<in> set xs \<Longrightarrow> f x \<noteq> None) \<Longrightarrow> those (map f xs) = Some (map (the \<circ> f) xs)"
proof (induction xs)
  case (Cons x xs)
  then have "f x \<noteq> None" "those (map f xs) = Some (map (the \<circ> f) xs)" by simp_all
  then show ?case by auto
qed simp

lemma those_numeric:
  assumes "\<forall>v \<in> set vs. has_kind k v" "orderable k"
  shows "\<exists>ns. those (map numeric_i64 vs) = Some ns"
proof -
  have "numeric_i64 v \<noteq> None" if "v \<in> set vs" for v
    using numeric_has_kind [OF assms(2), of v] assms(1) that by auto
  then have "those (map numeric_i64 vs) = Some (map (the \<circ> numeric_i64) vs)" by (rule those_Some)
  then show ?thesis by blast
qed

lemma extreme_from_ok:
  assumes "\<forall>v \<in> set (b # vs). has_kind k v" "orderable k"
  shows "\<exists>v. extreme_from mx b vs = Some v \<and> has_kind k v"
  using assms
proof (induction vs arbitrary: b)
  case Nil
  then show ?case by simp
next
  case (Cons v vs)
  from Cons.prems obtain m n where "numeric_i64 v = Some m" "numeric_i64 b = Some n"
    using numeric_has_kind [OF Cons.prems(2)] by fastforce
  with Cons.IH [of v] Cons.IH [of b] Cons.prems show ?case by simp
qed

lemma reduce_ok:
  assumes "validate_spec schema spec = Ok u" "\<forall>fs \<in> set rows. row_ok schema fs"
  shows "\<exists>v. reduce spec rows schema = Some v \<and> spec_kind schema spec v"
proof (cases "ag_func spec = AggCount")
  case True
  then show ?thesis by (simp add: reduce_def spec_kind_def)
next
  case False
  with assms(1) obtain tag k where f: "ag_field spec = Some tag" "kind_of schema tag = Some k" "orderable k"
    by (auto simp: validate_spec_def and_then_Ok_iff ok_or_def split: option.splits aggregate_fn.splits if_splits)
  note kinds = field_values_kinds [OF assms(2) f(2)]
  obtain ns where ns: "those (map numeric_i64 (field_values tag rows)) = Some ns"
    using those_numeric [OF kinds f(3)] by blast
  have "\<exists>v. reduce_extreme tag rows mx schema = Some v \<and> has_kind k v" for mx
  proof (cases "field_values tag rows")
    case Nil
    with f show ?thesis by (cases k) (auto simp: reduce_extreme_def orderable_def)
  next
    case (Cons a list)
    with extreme_from_ok [of a list k mx] kinds f(3) show ?thesis by (simp add: reduce_extreme_def)
  qed
  with f ns False show ?thesis
    by (cases "ag_func spec") (auto simp: reduce_def spec_kind_def)
qed

text \<open>An extreme is one of the values, and none is beyond it.\<close>

lemma extreme_from_bound:
  assumes "extreme_from mx b vs = Some w"
  shows "w \<in> set (b # vs) \<and> (\<forall>v \<in> set (b # vs). \<exists>m n. (vs = [] \<or> numeric_i64 v = Some m \<and> numeric_i64 w = Some n) \<and>
    (vs \<noteq> [] \<longrightarrow> (if mx then sint m \<le> sint n else sint n \<le> sint m)))"
  using assms
proof (induction vs arbitrary: b)
  case Nil
  then show ?case by simp
next
  case (Cons v vs)
  then obtain a c where ac: "numeric_i64 v = Some a" "numeric_i64 b = Some c"
    by (auto split: option.splits)
  let ?b = "if (if mx then sint c < sint a else sint a < sint c) then v else b"
  from Cons.prems ac have run: "extreme_from mx ?b vs = Some w" by simp
  note IH = Cons.IH [OF run]
  show ?case
  proof (cases vs)
    case Nil
    with run have "w = ?b" by simp
    with Nil ac show ?thesis by (auto split: if_splits)
  next
    case (Cons x xs)
    then have "vs \<noteq> []" by simp
    with IH ac show ?thesis by (fastforce split: if_splits)
  qed
qed

section \<open>Groups partition the rows\<close>

definition comparable_row :: "row_fields \<Rightarrow> bool" where
  "comparable_row fs \<longleftrightarrow> (\<forall>p \<in> set fs. \<forall>b. snd p \<noteq> VF64 b)"

lemma row_eq_iff: "comparable_row fs \<Longrightarrow> row_eq fs gs \<longleftrightarrow> fs = gs"
  by (induction fs gs rule: row_eq.induct) (auto simp: comparable_row_def value_eq_iff)

definition groups_ok :: "(row_fields \<Rightarrow> row_fields) \<Rightarrow> row_fields list \<Rightarrow> (row_fields \<times> row_fields list) list \<Rightarrow> bool" where
  "groups_ok key rows bs \<longleftrightarrow> distinct (map fst bs) \<and> (\<forall>(k, rs) \<in> set bs. rs = filter (\<lambda>fs. key fs = k) rows) \<and>
     key ` set rows \<subseteq> fst ` set bs \<and> (\<forall>k \<in> fst ` set bs. comparable_row k)"

lemma bucket_row_spec:
  assumes "comparable_row k" "\<forall>k \<in> fst ` set bs. comparable_row k" "distinct (map fst bs)"
  shows "map fst (bucket_row k fs bs) = (if k \<in> fst ` set bs then map fst bs else map fst bs @ [k])"
    and "map_of (bucket_row k fs bs) = (map_of bs)(k \<mapsto> (case map_of bs k of None \<Rightarrow> [fs] | Some rs \<Rightarrow> rs @ [fs]))"
  using assms(2,3)
  by (induction bs rule: bucket_row.induct [of _ k fs]) (auto simp: row_eq_iff fun_eq_iff)

lemma groups_ok_step:
  assumes "groups_ok key rows bs" "comparable_row (key fs)"
  shows "groups_ok key (rows @ [fs]) (bucket_row (key fs) fs bs)"
proof -
  let ?bs = "bucket_row (key fs) fs bs"
  from assms(1) have ok: "distinct (map fst bs)" "\<forall>k \<in> fst ` set bs. comparable_row k"
    "key ` set rows \<subseteq> fst ` set bs" by (simp_all add: groups_ok_def)
  note spec = bucket_row_spec [OF assms(2) ok(2,1), of fs]
  have fsts: "fst ` set ?bs = insert (key fs) (fst ` set bs)"
    using arg_cong [OF spec(1), where f = set] by auto
  have dis: "distinct (map fst ?bs)" using spec(1) ok(1) by auto
  have old: "map_of bs k = Some rs \<Longrightarrow> rs = filter (\<lambda>fs. key fs = k) rows" for k rs
    using assms(1) map_of_SomeD by (fastforce simp: groups_ok_def)
  have none: "filter (\<lambda>g. key g = key fs) rows = []" if "map_of bs (key fs) = None"
  proof -
    have "key fs \<notin> fst ` set bs" using that by (simp add: map_of_eq_None_iff)
    with ok(3) have "key g \<noteq> key fs" if "g \<in> set rows" for g using that by (metis imageI subsetD)
    then show ?thesis by (simp add: filter_empty_conv)
  qed
  have "rs = filter (\<lambda>g. key g = k) (rows @ [fs])" if "(k, rs) \<in> set ?bs" for k rs
  proof -
    from that dis have "map_of ?bs k = Some rs" by simp
    with spec(2) have upd: "((map_of bs)(key fs \<mapsto> (case map_of bs (key fs) of None \<Rightarrow> [fs] | Some rs \<Rightarrow> rs @ [fs]))) k = Some rs"
      by simp
    then show ?thesis
    proof (cases "k = key fs")
      case True
      with upd none old [of k] show ?thesis by (cases "map_of bs (key fs)") auto
    next
      case False
      with upd old [of k rs] show ?thesis by simp
    qed
  qed
  moreover have "key ` set (rows @ [fs]) \<subseteq> fst ` set ?bs" using ok(3) fsts by auto
  moreover have "\<forall>k \<in> fst ` set ?bs. comparable_row k" using ok(2) fsts assms(2) by auto
  ultimately show ?thesis using dis unfolding groups_ok_def by blast
qed

lemma groups_ok_buckets:
  assumes "\<And>fs. fs \<in> set rows \<Longrightarrow> comparable_row (group_key gb fs)"
  shows "groups_ok (group_key gb) rows (group_buckets gb rows) \<and>
     fst ` set (group_buckets gb rows) = (if gb = [] then {[]} else group_key gb ` set rows)"
  using assms
proof (induction rows rule: rev_induct)
  case Nil
  then show ?case by (simp add: group_buckets_def groups_ok_def comparable_row_def)
next
  case (snoc fs rows)
  then have IH: "groups_ok (group_key gb) rows (group_buckets gb rows)"
    "fst ` set (group_buckets gb rows) = (if gb = [] then {[]} else group_key gb ` set rows)" by auto
  have c: "comparable_row (group_key gb fs)" using snoc.prems by simp
  have step: "group_buckets gb (rows @ [fs]) = bucket_row (group_key gb fs) fs (group_buckets gb rows)"
    by (simp add: group_buckets_def)
  from IH(1) have ok: "distinct (map fst (group_buckets gb rows))" "\<forall>k \<in> fst ` set (group_buckets gb rows). comparable_row k"
    by (simp_all add: groups_ok_def)
  have "fst ` set (group_buckets gb (rows @ [fs])) = insert (group_key gb fs) (fst ` set (group_buckets gb rows))"
    using arg_cong [OF bucket_row_spec(1) [OF c ok(2,1), of fs], where f = set] step by auto
  with groups_ok_step [OF IH(1) c] IH(2) step show ?case
    by (auto simp: group_key_def List.map_filter_def)
qed

lemma group_key_comparable:
  assumes "row_ok schema fs" "\<forall>tag \<in> set gb. validate_group_tag schema tag = Ok ()"
  shows "\<forall>p \<in> set (group_key gb fs). \<exists>k. has_kind k (snd p) \<and> k \<noteq> KStrList"
proof
  fix p assume "p \<in> set (group_key gb fs)"
  then obtain tag where t: "tag \<in> set gb" "List.find (\<lambda>p. fst p = tag) fs = Some p"
    by (auto simp: group_key_def List.map_filter_def)
  with assms(2) obtain k where k: "kind_of schema tag = Some k" "k \<noteq> KStrList"
    by (fastforce simp: validate_group_tag_def split: option.splits value_kind.splits)
  from row_okD [OF assms(1) k(1)] t(2) have "has_kind k (snd p)" by (auto simp: field_value_def)
  with k(2) show "\<exists>k. has_kind k (snd p) \<and> k \<noteq> KStrList" by blast
qed

lemma kinds_comparable_row: "\<forall>p \<in> set fs. \<exists>k. has_kind k (snd p) \<and> k \<noteq> KStrList \<Longrightarrow> comparable_row fs"
proof -
  have "has_kind k v \<Longrightarrow> v \<noteq> VF64 b" for k v b by (cases k) auto
  then show "\<forall>p \<in> set fs. \<exists>k. has_kind k (snd p) \<and> k \<noteq> KStrList \<Longrightarrow> comparable_row fs"
    by (auto simp: comparable_row_def)
qed

end
