(* ===== verification/Conn_Store.thy ===== *)
theory Conn_Store
  imports Layer_Spec Aggregate_Laws
begin

text \<open>
  The trait \<open>ConnectionStore\<close> of \<open>src/server/serve.rs\<close> as a record of operations over the state of
  one table, its provided methods, and what \<open>dispatch\<close> does with them. A read returns \<open>None\<close>, a
  write a \<open>None\<close> outcome, where the table's code would panic.
\<close>

section \<open>The trait\<close>

datatype insert_outcome = Inserted | Duplicate
datatype s_link_outcome = SLinked | SAlreadyLinked
datatype replace_outcome = Replaced | RNoRecord
datatype delete_outcome = Deleted | DNoRecord
datatype replace_if_outcome = IfReplaced | IfNotFound | IfGuardFailed

record 's conn_store =
  cs_get :: "'s \<Rightarrow> record_id \<Rightarrow> row_fields option option"
  cs_filter_eq :: "'s \<Rightarrow> field_ref \<Rightarrow> scan_value \<Rightarrow> (error_code + record_id list) option"
  cs_scan_field :: "'s \<Rightarrow> field_ref \<Rightarrow> (error_code + scan_value list) option"
  cs_update_field :: "'s \<Rightarrow> record_id \<Rightarrow> field_ref \<Rightarrow> scan_value \<Rightarrow> (error_code, bool, 's) outcome"
  cs_parent :: "'s \<Rightarrow> record_id \<Rightarrow> (error_code + parent_lookup) option"
  cs_children :: "'s \<Rightarrow> record_id \<Rightarrow> (error_code + record_id list) option"
  cs_neighbors :: "'s \<Rightarrow> record_id \<Rightarrow> (error_code + record_id list) option"
  cs_neighbors_by_relation :: "'s \<Rightarrow> record_id \<Rightarrow> string \<Rightarrow> (error_code + record_id list) option"
  cs_list_relation_kinds :: "'s \<Rightarrow> string list"
  cs_describe_relations :: "'s \<Rightarrow> relation_descriptor list"
  cs_table_name :: string
  cs_insert_record :: "'s \<Rightarrow> record_id \<Rightarrow> row_fields \<Rightarrow> (error_code, insert_outcome, 's) outcome"
  cs_link_records :: "'s \<Rightarrow> record_id \<Rightarrow> record_id \<Rightarrow> string \<Rightarrow> (error_code, s_link_outcome, 's) outcome"
  cs_replace_record :: "'s \<Rightarrow> record_id \<Rightarrow> row_fields \<Rightarrow> (error_code, replace_outcome, 's) outcome"
  cs_replace_record_if :: "'s \<Rightarrow> record_id \<Rightarrow> row_fields \<Rightarrow> predicate \<Rightarrow> (error_code, replace_if_outcome, 's) outcome"
  cs_page :: "'s \<Rightarrow> field_ref \<Rightarrow> (scan_value \<times> record_id) option \<Rightarrow> nat \<Rightarrow> (error_code + page_row list) option"
  cs_count_edges :: "'s \<Rightarrow> string \<Rightarrow> (error_code + nat) option"
  cs_write_batch :: "'s \<Rightarrow> write_op list \<Rightarrow> bool \<Rightarrow> (nat \<times> error_code, write_result list, 's) outcome"
  cs_delete_record :: "'s \<Rightarrow> record_id \<Rightarrow> (error_code, delete_outcome, 's) outcome"
  cs_detach_record :: "'s \<Rightarrow> string \<Rightarrow> record_id \<Rightarrow> (error_code, nat, 's) outcome"
  cs_compact :: "'s \<Rightarrow> (error_code, compaction_report, 's) outcome"
  cs_describe :: domain_schema
  cs_validate_op :: "'s \<Rightarrow> transaction_op \<Rightarrow> (error_code + unit) option"
  cs_scan_all :: "'s \<Rightarrow> page_row list option"
  cs_apply_transaction :: "'s \<Rightarrow> transaction_op list \<Rightarrow> (record_id \<times> field_ref \<times> scan_value) list \<Rightarrow>
      (nat \<times> error_code, unit, 's) outcome"

section \<open>Provided methods\<close>

definition default_relation_descriptors :: "domain_schema \<Rightarrow> string list \<Rightarrow> relation_descriptor list" where
  "default_relation_descriptors schema labels =
     (if rc_neighbors (ds_relations schema)
      then \<lparr>rd_name = ''neighbors'', rd_kind = JoinNeighbors None, rd_target_table = None\<rparr> #
           map (\<lambda>l. \<lparr>rd_name = l, rd_kind = JoinNeighbors (Some l), rd_target_table = None\<rparr>) labels
      else [])"

definition unsupported :: "'s \<Rightarrow> (error_code, 'a, 's) outcome" where
  "unsupported s = Some (Err Unsupported, s)"

text \<open>\<open>filter_map(|id| get(id).map(|fields| (id, fields)))\<close>.\<close>

fun rows_of :: "(record_id \<Rightarrow> row_fields option option) \<Rightarrow> record_id list \<Rightarrow> page_row list option" where
  "rows_of get [] = Some []"
| "rows_of get (i # is) =
     (case get i of
        None \<Rightarrow> None
      | Some r \<Rightarrow> map_option (\<lambda>rows. (case r of None \<Rightarrow> [] | Some fs \<Rightarrow> [(i, fs)]) @ rows) (rows_of get is))"

definition page_by_scan :: "(record_id \<times> int) list option \<Rightarrow> (record_id \<Rightarrow> row_fields option option) \<Rightarrow>
    (scan_value \<times> record_id) option \<Rightarrow> nat \<Rightarrow> page_row list option" where
  "page_by_scan keys get after limit = Option.bind keys (\<lambda>ks. rows_of get (page_ids ks after limit))"

definition default_page_keys :: "page_row list option \<Rightarrow> field_ref \<Rightarrow> (record_id \<times> int) list option" where
  "default_page_keys scan order_by = map_option (map (\<lambda>(i, fs). (i, fst (page_key fs order_by i)))) scan"

text \<open>What a write's outcome becomes, with the state it leaves.\<close>

definition answer :: "('e + 'a \<Rightarrow> 'b) \<Rightarrow> ('e, 'a, 's) outcome \<Rightarrow> ('b \<times> 's) option" where
  "answer f out = map_option (\<lambda>(r, s). (f r, s)) out"

definition wr_of :: "('a \<Rightarrow> write_result) \<Rightarrow> error_code + 'a \<Rightarrow> write_result" where
  "wr_of f r = (case r of Inl code \<Rightarrow> WrFailed code | Inr a \<Rightarrow> f a)"

fun wr_insert :: "insert_outcome \<Rightarrow> write_result" where
  "wr_insert Inserted = WrInserted"
| "wr_insert Duplicate = WrDuplicate"

fun wr_replace :: "replace_outcome \<Rightarrow> write_result" where
  "wr_replace Replaced = WrReplaced"
| "wr_replace RNoRecord = WrNotFound"

fun wr_replace_if :: "replace_if_outcome \<Rightarrow> write_result" where
  "wr_replace_if IfReplaced = WrReplaced"
| "wr_replace_if IfGuardFailed = WrGuardFailed"
| "wr_replace_if IfNotFound = WrNotFound"

fun wr_delete :: "delete_outcome \<Rightarrow> write_result" where
  "wr_delete Deleted = WrDeleted"
| "wr_delete DNoRecord = WrNotFound"

fun wr_link :: "s_link_outcome \<Rightarrow> write_result" where
  "wr_link SLinked = WrLinked"
| "wr_link SAlreadyLinked = WrAlreadyLinked"

definition apply_write_op :: "'s conn_store \<Rightarrow> 's \<Rightarrow> write_op \<Rightarrow> (write_result \<times> 's) option" where
  "apply_write_op S s op =
     (case op of
        WInsert i fs \<Rightarrow> answer (wr_of wr_insert) (cs_insert_record S s i fs)
      | WReplace i fs \<Rightarrow> answer (wr_of wr_replace) (cs_replace_record S s i fs)
      | WReplaceIf i fs guard \<Rightarrow> answer (wr_of wr_replace_if) (cs_replace_record_if S s i fs guard)
      | WDelete i \<Rightarrow> answer (wr_of wr_delete) (cs_delete_record S s i)
      | WLink l r relation \<Rightarrow> answer (wr_of wr_link) (cs_link_records S s l r relation))"

text \<open>The default \<open>write_batch\<close>: op \<open>n\<close> onwards, the results so far in \<open>done\<close>.\<close>

fun default_write_batch :: "'s conn_store \<Rightarrow> bool \<Rightarrow> nat \<Rightarrow> write_result list \<Rightarrow> 's \<Rightarrow> write_op list \<Rightarrow>
    (nat \<times> error_code, write_result list, 's) outcome" where
  "default_write_batch S atomic n results s [] = Some (Ok results, s)"
| "default_write_batch S atomic n results s (op # ops) =
     (case apply_write_op S s op of
        None \<Rightarrow> None
      | Some (r, s) \<Rightarrow>
          (case (atomic, r) of
             (True, WrFailed code) \<Rightarrow> Some (Err (n, code), s)
           | _ \<Rightarrow> default_write_batch S atomic (Suc n) (results @ [r]) s ops))"

section \<open>Joins\<close>

definition validate_join :: "domain_schema \<Rightarrow> relation_descriptor list \<Rightarrow> domain_schema option \<Rightarrow> join_spec \<Rightarrow>
    error_code + unit" where
  "validate_join schema relations right_schema spec =
     and_then (validate_query schema (js_left spec) (js_left_filter spec)) (\<lambda>_.
     and_then (ok_or Malformed (List.find (\<lambda>r. rd_kind r = js_relation spec) relations)) (\<lambda>relation.
       case (js_right_table spec, rd_target_table relation) of
         (None, None) \<Rightarrow> validate_query schema (js_right spec) (js_right_filter spec)
       | (None, Some _) \<Rightarrow> Err Unsupported
       | (Some named, Some target) \<Rightarrow>
           if named = target
           then and_then (ok_or Malformed right_schema) (\<lambda>right.
                  validate_query right (js_right spec) (js_right_filter spec))
           else Err Malformed
       | (Some _, None) \<Rightarrow> Err Malformed))"

definition or_default :: "error_code + 'a list \<Rightarrow> 'a list" where
  "or_default r = (case r of Inl _ \<Rightarrow> [] | Inr xs \<Rightarrow> xs)"

definition related_ids :: "'s conn_store \<Rightarrow> 's \<Rightarrow> join_relation \<Rightarrow> record_id \<Rightarrow> record_id list option" where
  "related_ids S s relation i =
     (case relation of
        JoinNeighbors None \<Rightarrow> map_option or_default (cs_neighbors S s i)
      | JoinNeighbors (Some label) \<Rightarrow> map_option or_default (cs_neighbors_by_relation S s i label)
      | JoinParent \<Rightarrow> map_option (\<lambda>r. case r of Inr (HasParent p) \<Rightarrow> [p] | _ \<Rightarrow> []) (cs_parent S s i)
      | JoinChildren \<Rightarrow> map_option or_default (cs_children S s i))"

definition limit_reached :: "nat option \<Rightarrow> 'a list \<Rightarrow> bool" where
  "limit_reached limit out = (case limit of None \<Rightarrow> False | Some n \<Rightarrow> n \<le> length out)"

text \<open>The inner loop; the flag says that the limit was reached and the whole join returns.\<close>

fun join_row :: "'t conn_store \<Rightarrow> 't \<Rightarrow> join_spec \<Rightarrow> record_id \<Rightarrow> row_fields \<Rightarrow> record_id list \<Rightarrow> joined_row list \<Rightarrow>
    (bool \<times> joined_row list) option" where
  "join_row R t spec i fs [] out = Some (False, out)"
| "join_row R t spec i fs (j # js) out =
     (case cs_get R t j of
        None \<Rightarrow> None
      | Some None \<Rightarrow> join_row R t spec i fs js out
      | Some (Some gs) \<Rightarrow>
          if \<not> (\<forall>p \<in> set (js_right_filter spec). predicate_matches gs p) then join_row R t spec i fs js out
          else let out = out @ [\<lparr>jr_left_id = i, jr_left = select_fields fs (js_left spec),
                                 jr_right_id = j, jr_right = select_fields gs (js_right spec)\<rparr>]
               in if limit_reached (js_limit spec) out then Some (True, out)
                  else join_row R t spec i fs js out)"

fun join_rows :: "'s conn_store \<Rightarrow> 's \<Rightarrow> 't conn_store \<Rightarrow> 't \<Rightarrow> join_spec \<Rightarrow> page_row list \<Rightarrow> joined_row list \<Rightarrow>
    joined_row list option" where
  "join_rows L s R t spec [] out = Some out"
| "join_rows L s R t spec ((i, fs) # rows) out =
     (if \<not> (\<forall>p \<in> set (js_left_filter spec). predicate_matches fs p) then join_rows L s R t spec rows out
      else (case related_ids L s (js_relation spec) i of
              None \<Rightarrow> None
            | Some ids \<Rightarrow>
                (case join_row R t spec i fs ids out of
                   None \<Rightarrow> None
                 | Some (True, out) \<Rightarrow> Some out
                 | Some (False, out) \<Rightarrow> join_rows L s R t spec rows out)))"

definition evaluate_join :: "'s conn_store \<Rightarrow> 's \<Rightarrow> 't conn_store \<Rightarrow> 't \<Rightarrow> join_spec \<Rightarrow> joined_row list option" where
  "evaluate_join L s R t spec =
     (if js_limit spec = Some 0 then Some []
      else Option.bind (cs_scan_all L s) (\<lambda>rows. join_rows L s R t spec rows []))"

end
