(* ===== verification/Dispatch.thy ===== *)
theory Dispatch
  imports Conn_Store
begin

text \<open>
  \<open>dispatch\<close> of \<open>src/server/serve.rs\<close>: one request against one table, the three handlers that need
  every table (\<open>join_across\<close>, \<open>link_across\<close>, \<open>delete_across\<close>), and the rewriting of a response for
  the version a connection negotiated.
\<close>

section \<open>Responses to errors\<close>

fun error_message :: "error_code \<Rightarrow> string" where
  "error_message UnknownField = ''unrecognized field tag for this domain''"
| "error_message Unsupported = ''this operation is not available for this field/domain''"
| "error_message Malformed = ''the supplied value does not match this field's type''"
| "error_message Unauthenticated = ''this connection has not presented a recognized token''"
| "error_message Unauthorized = ''this connection's token does not permit this operation''"
| "error_message RecordNotFound = ''this operation's id has no record''"
| "error_message NoSession = ''no transaction session is open on this connection''"
| "error_message SessionOpen = ''a transaction session is already open on this connection''"
| "error_message SessionFull = ''this session already holds the maximum number of staged writes''"
| "error_message EJournal = ''the batch could not be journaled before applying it; nothing was applied''"
| "error_message Conflict = ''this session's read set no longer matches current state; nothing was applied''"
| "error_message EDuplicate = ''a record with this id already exists; nothing was written''"
| "error_message EStorage = ''the record could not be made durable; nothing was written''"
| "error_message GuardFailed = ''the guard did not hold against the stored record; nothing was written''"

definition err_response :: "error_code \<Rightarrow> response" where
  "err_response code = RErr code (error_message code)"

definition transaction_failed :: "nat \<times> error_code \<Rightarrow> response" where
  "transaction_failed e = (case e of (index, code) \<Rightarrow> RTransactionFailed index code (error_message code))"

definition reply_of :: "('a \<Rightarrow> response) \<Rightarrow> error_code + 'a \<Rightarrow> response" where
  "reply_of f r = (case r of Inl code \<Rightarrow> err_response code | Inr a \<Rightarrow> f a)"

definition read_reply :: "('a \<Rightarrow> response) \<Rightarrow> 's \<Rightarrow> (error_code + 'a) option \<Rightarrow> (response \<times> 's) option" where
  "read_reply f s r = map_option (\<lambda>x. (reply_of f x, s)) r"

definition batch_reply :: "('a \<Rightarrow> response) \<Rightarrow> (nat \<times> error_code) + 'a \<Rightarrow> response" where
  "batch_reply f r = (case r of Inl e \<Rightarrow> transaction_failed e | Inr a \<Rightarrow> f a)"

section \<open>\<open>dispatch\<close>\<close>

fun dispatch :: "'s conn_store \<Rightarrow> 's \<Rightarrow> request \<Rightarrow> (response \<times> 's) option" where
  "dispatch S s (GetById i) =
     map_option (\<lambda>r. (case r of Some fs \<Rightarrow> RRecord i fs | None \<Rightarrow> RNotFound, s)) (cs_get S s i)"
| "dispatch S s (FilterEq field v) = read_reply RRecordList s (cs_filter_eq S s field v)"
| "dispatch S s (ScanField field) = read_reply RScanValues s (cs_scan_field S s field)"
| "dispatch S s (Query select flt limit) =
     (case validate_query (cs_describe S) select flt of
        Inr _ \<Rightarrow> map_option (\<lambda>rows. (RRows (evaluate_query rows select flt limit), s)) (cs_scan_all S s)
      | Inl code \<Rightarrow> Some (err_response code, s))"
| "dispatch S s (Aggregate group_by flt aggregates limit) =
     (case validate_aggregate (cs_describe S) group_by flt aggregates of
        Inr _ \<Rightarrow> Option.bind (cs_scan_all S s) (\<lambda>rows.
          map_option (\<lambda>groups. (RGroups groups, s))
            (evaluate_aggregate rows group_by flt aggregates limit (cs_describe S)))
      | Inl code \<Rightarrow> Some (err_response code, s))"
| "dispatch S s (UpdateField i field v) =
     answer (reply_of (\<lambda>found. if found then ROk else RNotFound)) (cs_update_field S s i field v)"
| "dispatch S s (Parent i) =
     read_reply (\<lambda>p. case p of HasParent j \<Rightarrow> RId j | NoParent \<Rightarrow> RNoParent | ChildNotFound \<Rightarrow> RNotFound) s
       (cs_parent S s i)"
| "dispatch S s (Children i) = read_reply RRecordList s (cs_children S s i)"
| "dispatch S s (Neighbors i) = read_reply RRecordList s (cs_neighbors S s i)"
| "dispatch S s (NeighborsByRelation i relation) = read_reply RRecordList s (cs_neighbors_by_relation S s i relation)"
| "dispatch S s ListRelationKinds = Some (RRelationKinds (cs_list_relation_kinds S s), s)"
| "dispatch S s (CountEdges relation) = read_reply RCount s (cs_count_edges S s relation)"
| "dispatch S s (WriteBatch ops atomic) = answer (batch_reply RBatchResults) (cs_write_batch S s ops atomic)"
| "dispatch S s (Join spec) =
     (case validate_join (cs_describe S) (cs_describe_relations S s) None spec of
        Inr _ \<Rightarrow> map_option (\<lambda>rows. (RJoinedRows rows, s)) (evaluate_join S s S s spec)
      | Inl code \<Rightarrow> Some (err_response code, s))"
| "dispatch S s (Use table) = Some (if table = cs_table_name S then ROk else err_response Malformed, s)"
| "dispatch S s ListTables = Some (RTables [cs_table_name S] (cs_table_name S), s)"
| "dispatch S s DescribeRelations = Some (RRelations (cs_describe_relations S s), s)"
| "dispatch S s (Insert i fs) =
     answer (reply_of (\<lambda>r. case r of Inserted \<Rightarrow> ROk | Duplicate \<Rightarrow> err_response EDuplicate)) (cs_insert_record S s i fs)"
| "dispatch S s (Link l r relation) = answer (reply_of (\<lambda>_. ROk)) (cs_link_records S s l r relation)"
| "dispatch S s (Replace i fs) =
     answer (reply_of (\<lambda>r. case r of Replaced \<Rightarrow> ROk | RNoRecord \<Rightarrow> RNotFound)) (cs_replace_record S s i fs)"
| "dispatch S s (Delete i) =
     answer (reply_of (\<lambda>r. case r of Deleted \<Rightarrow> ROk | DNoRecord \<Rightarrow> RNotFound)) (cs_delete_record S s i)"
| "dispatch S s (ReplaceIf i fs guard) =
     (case validate_predicate (cs_describe S) guard of
        Inl code \<Rightarrow> Some (err_response code, s)
      | Inr _ \<Rightarrow>
          answer (reply_of (\<lambda>r. case r of IfReplaced \<Rightarrow> ROk | IfNotFound \<Rightarrow> RNotFound
                                        | IfGuardFailed \<Rightarrow> err_response GuardFailed))
            (cs_replace_record_if S s i fs guard))"
| "dispatch S s (Page order_by after limit) =
     (case validate_page (cs_describe S) order_by after limit of
        Inr _ \<Rightarrow> read_reply RRows s (cs_page S s order_by after limit)
      | Inl code \<Rightarrow> Some (err_response code, s))"
| "dispatch S s Compact =
     answer (reply_of (\<lambda>rep. RCompacted (cr_records rep) (cr_slots_reclaimed rep) (cr_log_entries_folded rep)
                                (cr_edge_logs_folded rep))) (cs_compact S s)"
| "dispatch S s DescribeSchema = Some (RSchema (cs_describe S), s)"
| "dispatch S s (Authenticate token) = Some (err_response Unsupported, s)"
| "dispatch S s (Hello version) = Some (err_response Unsupported, s)"
| "dispatch S s Begin = Some (err_response Unsupported, s)"
| "dispatch S s (BeginWith flags) = Some (err_response Unsupported, s)"
| "dispatch S s Commit = Some (err_response Unsupported, s)"
| "dispatch S s Rollback = Some (err_response Unsupported, s)"
| "dispatch S s (Transaction updates) = answer (batch_reply (\<lambda>_. ROk)) (cs_apply_transaction S s updates [])"

text \<open>The requests that may change a table.\<close>

fun writes_table :: "request \<Rightarrow> bool" where
  "writes_table (UpdateField _ _ _) = True"
| "writes_table (Transaction _) = True"
| "writes_table (Insert _ _) = True"
| "writes_table (Link _ _ _) = True"
| "writes_table (Replace _ _) = True"
| "writes_table (Delete _) = True"
| "writes_table Compact = True"
| "writes_table (ReplaceIf _ _ _) = True"
| "writes_table (WriteBatch _ _) = True"
| "writes_table _ = False"

lemma dispatch_reads: "\<not> writes_table req \<Longrightarrow> dispatch S s req = Some (resp, s') \<Longrightarrow> s' = s"
  by (cases req) (auto simp: read_reply_def bind_eq_Some_conv split: sum.splits)

section \<open>Several tables\<close>

text \<open>The tables one listener serves, in registration order, each with its adapter and its state.\<close>

record 's table =
  tb_name :: string
  tb_store :: "'s conn_store"
  tb_state :: 's

definition find_table :: "'s table list \<Rightarrow> string \<Rightarrow> 's table option" where
  "find_table tables name = List.find (\<lambda>t. tb_name t = name) tables"

definition put_state :: "nat \<Rightarrow> 's \<Rightarrow> 's table list \<Rightarrow> 's table list" where
  "put_state n s tables = (if n < length tables then tables[n := (tables ! n)\<lparr>tb_state := s\<rparr>] else tables)"

definition on_table :: "'s table list \<Rightarrow> nat \<Rightarrow> (response \<times> 's) option \<Rightarrow> (response \<times> 's table list) option" where
  "on_table tables n out = map_option (\<lambda>(resp, s). (resp, put_state n s tables)) out"

definition join_across :: "'s table list \<Rightarrow> nat \<Rightarrow> join_spec \<Rightarrow> response option" where
  "join_across tables n spec =
     (let left = tables ! n;
          right = Option.bind (js_right_table spec) (find_table tables)
      in case validate_join (cs_describe (tb_store left)) (cs_describe_relations (tb_store left) (tb_state left))
                (map_option (\<lambda>t. cs_describe (tb_store t)) right) spec of
           Inl code \<Rightarrow> Some (err_response code)
         | Inr _ \<Rightarrow>
             (case right of
                None \<Rightarrow> None
              | Some t \<Rightarrow> map_option RJoinedRows
                            (evaluate_join (tb_store left) (tb_state left) (tb_store t) (tb_state t) spec)))"

definition link_across :: "'s table list \<Rightarrow> nat \<Rightarrow> record_id \<Rightarrow> record_id \<Rightarrow> string \<Rightarrow>
    (response \<times> 's table list) option" where
  "link_across tables n l r relation =
     (let this = tables ! n;
          foreign = Option.bind
            (List.find (\<lambda>d. rd_name d = relation) (cs_describe_relations (tb_store this) (tb_state this))) rd_target_table;
          linked = on_table tables n (dispatch (tb_store this) (tb_state this) (Link l r relation))
      in case foreign of
           None \<Rightarrow> linked
         | Some target \<Rightarrow>
             (case find_table tables target of
                None \<Rightarrow> Some (err_response Unsupported, tables)
              | Some other \<Rightarrow>
                  (case cs_get (tb_store other) (tb_state other) r of
                     None \<Rightarrow> None
                   | Some None \<Rightarrow> Some (err_response RecordNotFound, tables)
                   | Some (Some _) \<Rightarrow> linked)))"

text \<open>One other table's relations; the flag carries the code that ends the request.\<close>

fun detach_relations :: "'s conn_store \<Rightarrow> string \<Rightarrow> record_id \<Rightarrow> relation_descriptor list \<Rightarrow> 's \<Rightarrow>
    (error_code option \<times> 's) option" where
  "detach_relations S this i [] s = Some (None, s)"
| "detach_relations S this i (d # ds) s =
     (if rd_target_table d \<noteq> Some this then detach_relations S this i ds s
      else case cs_detach_record S s (rd_name d) i of
             None \<Rightarrow> None
           | Some (Inr _, s) \<Rightarrow> detach_relations S this i ds s
           | Some (Inl code, s) \<Rightarrow>
               if code = Unsupported \<or> code = Malformed then detach_relations S this i ds s
               else Some (Some code, s))"

lemma length_put_state [simp]: "length (put_state n s tables) = length tables"
  by (simp add: put_state_def)

function detach_tables :: "string \<Rightarrow> record_id \<Rightarrow> nat \<Rightarrow> 's table list \<Rightarrow> (error_code option \<times> 's table list) option" where
  "detach_tables this i k tables =
     (if k < length tables
      then (let t = tables ! k in
            if tb_name t = this then detach_tables this i (Suc k) tables
            else case detach_relations (tb_store t) this i (cs_describe_relations (tb_store t) (tb_state t)) (tb_state t) of
                   None \<Rightarrow> None
                 | Some (Some code, s) \<Rightarrow> Some (Some code, put_state k s tables)
                 | Some (None, s) \<Rightarrow> detach_tables this i (Suc k) (put_state k s tables))
      else Some (None, tables))"
  by pat_completeness auto
termination
  by (relation "measure (\<lambda>(this, i, k, tables). length tables - k)") auto

declare detach_tables.simps [simp del]

definition delete_across :: "'s table list \<Rightarrow> nat \<Rightarrow> record_id \<Rightarrow> (response \<times> 's table list) option" where
  "delete_across tables n i =
     (case on_table tables n (dispatch (tb_store (tables ! n)) (tb_state (tables ! n)) (Delete i)) of
        None \<Rightarrow> None
      | Some (resp, tables) \<Rightarrow>
          if resp \<noteq> ROk then Some (resp, tables)
          else map_option (\<lambda>(failed, tables). (case failed of None \<Rightarrow> ROk | Some code \<Rightarrow> err_response code, tables))
                 (detach_tables (cs_table_name (tb_store (tables ! n))) i 0 tables))"

section \<open>The negotiated version\<close>

definition is_str_list :: "field_ref \<times> scan_value \<Rightarrow> bool" where
  "is_str_list p = (case snd p of VStrList _ \<Rightarrow> True | _ \<Rightarrow> False)"

fun downgrade_for_version :: "response \<Rightarrow> nat \<Rightarrow> response" where
  "downgrade_for_version (RRecord i fs) v =
     (if v < 11 then RRecord i (filter (\<lambda>p. \<not> is_str_list p) fs) else RRecord i fs)"
| "downgrade_for_version (RRows rows) v =
     (if v < 11 then RRows (map (\<lambda>(i, fs). (i, filter (\<lambda>p. \<not> is_str_list p) fs)) rows) else RRows rows)"
| "downgrade_for_version (RSchema schema) v =
     (if v < 11
      then RSchema (schema\<lparr>ds_fields := filter (\<lambda>f. fd_value_kind f \<noteq> KStrList) (ds_fields schema)\<rparr>)
      else RSchema schema)"
| "downgrade_for_version (RTransactionFailed index code message) v =
     (if code = EJournal \<and> v < 4 \<or> code = Conflict \<and> v < 7
      then RTransactionFailed index Unsupported (error_message Unsupported)
      else RTransactionFailed index code message)"
| "downgrade_for_version resp v = resp"

section \<open>A validated aggregate is total\<close>

lemma evaluate_validated:
  assumes valid: "validate_aggregate schema group_by flt aggregates = Ok ()"
    and typed: "\<forall>(i, fs) \<in> set rows. row_ok schema fs"
    and matched: "matched = filter (\<lambda>fs. \<forall>p \<in> set flt. predicate_matches fs p) (map snd rows)"
  shows "\<exists>buckets groups. evaluate_aggregate rows group_by flt aggregates limit schema = Some (truncated limit groups) \<and>
     distinct (map fst buckets) \<and> (\<forall>(k, rs) \<in> set buckets. rs = filter (\<lambda>fs. group_key group_by fs = k) matched) \<and>
     fst ` set buckets = (if group_by = [] then {[]} else group_key group_by ` set matched) \<and>
     list_all2 (\<lambda>b g. gr_key g = fst b \<and> (\<forall>p \<in> set (gr_key g). \<not> is_str_list p) \<and>
        list_all2 (\<lambda>spec v. reduce spec (snd b) schema = Some v \<and> spec_kind schema spec v) aggregates (gr_values g))
       buckets groups"
proof -
  let ?B = "group_buckets group_by matched"
  from valid have tags: "\<forall>tag \<in> set group_by. validate_group_tag schema tag = Ok ()"
    and specs: "\<forall>spec \<in> set aggregates. validate_spec schema spec = Ok ()"
    by (auto simp: validate_aggregate_def and_then_Ok_iff check_all_Ok_iff)
  have rows_ok: "\<forall>fs \<in> set matched. row_ok schema fs" using typed by (auto simp: matched)
  have keys: "\<forall>p \<in> set (group_key group_by fs). \<exists>k. has_kind k (snd p) \<and> k \<noteq> KStrList" if "fs \<in> set matched" for fs
    using group_key_comparable [OF _ tags] rows_ok that by blast
  have part: "groups_ok (group_key group_by) matched ?B"
    "fst ` set ?B = (if group_by = [] then {[]} else group_key group_by ` set matched)"
    using groups_ok_buckets [of matched group_by] kinds_comparable_row keys by blast+
  have reduced: "\<exists>g. reduce_group aggregates schema b = Some g \<and> gr_key g = fst b \<and> (\<forall>p \<in> set (gr_key g). \<not> is_str_list p) \<and>
      list_all2 (\<lambda>spec v. reduce spec (snd b) schema = Some v \<and> spec_kind schema spec v) aggregates (gr_values g)"
    if b: "b \<in> set ?B" for b
  proof -
    from part(1) b have rs: "snd b = filter (\<lambda>fs. group_key group_by fs = fst b) matched"
      by (auto simp: groups_ok_def)
    then have "\<forall>fs \<in> set (snd b). row_ok schema fs" using rows_ok by auto
    then have red: "\<exists>v. reduce spec (snd b) schema = Some v \<and> spec_kind schema spec v" if "spec \<in> set aggregates" for spec
      using reduce_ok specs that by blast
    then have red': "reduce spec (snd b) schema = Some (the (reduce spec (snd b) schema)) \<and>
        spec_kind schema spec (the (reduce spec (snd b) schema))" if "spec \<in> set aggregates" for spec
      using that by fastforce
    then have all: "those (map (\<lambda>spec. reduce spec (snd b) schema) aggregates) =
        Some (map (the \<circ> (\<lambda>spec. reduce spec (snd b) schema)) aggregates)"
      by (intro those_Some) (metis option.distinct(1))
    have "fst b = [] \<or> fst b \<in> group_key group_by ` set matched"
      using part(2) b by (auto split: if_splits)
    then have "\<forall>p \<in> set (fst b). \<not> is_str_list p"
      using keys by (fastforce simp: is_str_list_def elim: has_kind.elims split: scan_value.splits)
    with all red' show ?thesis
      by (simp add: reduce_group_def list_all2_map2 list_all2_same)
  qed
  let ?groups = "map (the \<circ> reduce_group aggregates schema) ?B"
  have "evaluate_aggregate rows group_by flt aggregates limit schema = Some (truncated limit ?groups)"
    unfolding evaluate_aggregate_def matched [symmetric] using reduced by (subst those_Some) fastforce+
  moreover have "list_all2 (\<lambda>b g. gr_key g = fst b \<and> (\<forall>p \<in> set (gr_key g). \<not> is_str_list p) \<and>
        list_all2 (\<lambda>spec v. reduce spec (snd b) schema = Some v \<and> spec_kind schema spec v) aggregates (gr_values g)) ?B ?groups"
    unfolding list_all2_map2 list_all2_same using reduced by fastforce
  moreover have "distinct (map fst ?B)" "\<forall>(k, rs) \<in> set ?B. rs = filter (\<lambda>fs. group_key group_by fs = k) matched"
    using part(1) by (simp_all add: groups_ok_def)
  ultimately show ?thesis using part(2) by (intro exI [of _ ?B] exI [of _ ?groups] conjI)
qed

end
