(* ===== verification/Audit_Log.thy ===== *)
theory Audit_Log
  imports Dispatch
begin

text \<open>
  What the server records: the audit events of \<open>src/server/audit.rs\<close> and the access events of
  \<open>src/server/access.rs\<close>, without their time stamp and peer address. Where a sink puts them is I/O.
\<close>

datatype token_class = ReadOnly | ReadWrite

datatype transport = Plain | Tls | MutualTls

datatype request_kind =
  RkGetById | RkFilterEq | RkScanField | RkUpdateField | RkParent | RkChildren | RkNeighbors |
  RkDescribeSchema | RkAuthenticate | RkTransaction | RkHello | RkBegin | RkCommit | RkRollback |
  RkBeginWith | RkQuery | RkAggregate | RkNeighborsByRelation | RkListRelationKinds | RkJoin |
  RkDescribeRelations | RkInsert | RkLink | RkReplace | RkUse | RkListTables | RkDelete | RkCompact |
  RkReplaceIf | RkPage | RkCountEdges | RkWriteBatch

fun request_kind_of :: "request \<Rightarrow> request_kind" where
  "request_kind_of (GetById _) = RkGetById"
| "request_kind_of (FilterEq _ _) = RkFilterEq"
| "request_kind_of (ScanField _) = RkScanField"
| "request_kind_of (UpdateField _ _ _) = RkUpdateField"
| "request_kind_of (Parent _) = RkParent"
| "request_kind_of (Children _) = RkChildren"
| "request_kind_of (Neighbors _) = RkNeighbors"
| "request_kind_of DescribeSchema = RkDescribeSchema"
| "request_kind_of (Authenticate _) = RkAuthenticate"
| "request_kind_of (Transaction _) = RkTransaction"
| "request_kind_of (Hello _) = RkHello"
| "request_kind_of Begin = RkBegin"
| "request_kind_of Commit = RkCommit"
| "request_kind_of Rollback = RkRollback"
| "request_kind_of (BeginWith _) = RkBeginWith"
| "request_kind_of (Query _ _ _) = RkQuery"
| "request_kind_of (Aggregate _ _ _ _) = RkAggregate"
| "request_kind_of (NeighborsByRelation _ _) = RkNeighborsByRelation"
| "request_kind_of ListRelationKinds = RkListRelationKinds"
| "request_kind_of (Join _) = RkJoin"
| "request_kind_of DescribeRelations = RkDescribeRelations"
| "request_kind_of (Insert _ _) = RkInsert"
| "request_kind_of (Link _ _ _) = RkLink"
| "request_kind_of (Replace _ _) = RkReplace"
| "request_kind_of (Use _) = RkUse"
| "request_kind_of ListTables = RkListTables"
| "request_kind_of (Delete _) = RkDelete"
| "request_kind_of Compact = RkCompact"
| "request_kind_of (ReplaceIf _ _ _) = RkReplaceIf"
| "request_kind_of (Page _ _ _) = RkPage"
| "request_kind_of (CountEdges _) = RkCountEdges"
| "request_kind_of (WriteBatch _ _) = RkWriteBatch"

datatype audit_kind =
    Admitted transport "token_class option" bool
  | HandshakeFailed string
  | Authenticated token_class
  | AuthenticationFailed
  | Refused "token_class option" request_kind error_code
  | Disconnected
  | LockedOut nat
  | Throttled nat

datatype access_outcome = AccessOk | AccessErr error_code

record access_event =
  ax_class :: "token_class option"
  ax_request :: request_kind
  ax_outcome :: access_outcome

fun outcome_of :: "response \<Rightarrow> access_outcome" where
  "outcome_of (RErr code _) = AccessErr code"
| "outcome_of (RTransactionFailed _ code _) = AccessErr code"
| "outcome_of _ = AccessOk"

section \<open>One line per event\<close>

text \<open>\<open>split_whitespace().collect().join("_")\<close>, for the characters of one byte.\<close>

definition whitespace :: "char \<Rightarrow> bool" where
  "whitespace c \<longleftrightarrow> (let n = of_char c in n = (32 :: nat) \<or> 9 \<le> n \<and> n \<le> 13 \<or> n = 133 \<or> n = 160)"

fun split_whitespace :: "string \<Rightarrow> string \<Rightarrow> string list" where
  "split_whitespace word [] = (if word = [] then [] else [word])"
| "split_whitespace word (c # cs) =
     (if whitespace c then (if word = [] then [] else [word]) @ split_whitespace [] cs
      else split_whitespace (word @ [c]) cs)"

fun join_with :: "'a list \<Rightarrow> 'a list list \<Rightarrow> 'a list" where
  "join_with sep [] = []"
| "join_with sep [w] = w"
| "join_with sep (w # v # ws) = w @ sep @ join_with sep (v # ws)"

definition fold_reason :: "string \<Rightarrow> string" where
  "fold_reason reason = join_with ''_'' (split_whitespace [] reason)"

lemma split_whitespace_words:
  "\<forall>w \<in> set (split_whitespace word cs). \<forall>c \<in> set w. c \<in> set word \<or> \<not> whitespace c"
proof (induction word cs rule: split_whitespace.induct)
  case (1 word)
  then show ?case by simp
next
  case (2 word c cs)
  show ?case
  proof (cases "whitespace c")
    case True
    with "2.IH"(1) show ?thesis by simp
  next
    case False
    with "2.IH"(2) have "\<forall>w \<in> set (split_whitespace (word @ [c]) cs). \<forall>d \<in> set w. d \<in> set (word @ [c]) \<or> \<not> whitespace d"
      by blast
    with False show ?thesis by auto
  qed
qed

lemma set_join_with: "set (join_with sep ws) \<subseteq> set sep \<union> (\<Union>w \<in> set ws. set w)"
  by (induction sep ws rule: join_with.induct) auto

text \<open>A folded reason never splits the line it is put into.\<close>

lemma fold_reason_one_word:
  assumes "c \<in> set (fold_reason reason)"
  shows "\<not> whitespace c"
proof -
  have "\<not> whitespace (CHR ''_'')" by (simp add: whitespace_def)
  moreover from assms obtain w where "c = CHR ''_'' \<or> w \<in> set (split_whitespace [] reason) \<and> c \<in> set w"
    using set_join_with [of "''_''" "split_whitespace [] reason"] unfolding fold_reason_def by fastforce
  ultimately show ?thesis using split_whitespace_words [of "[]" reason] by auto
qed

end
