(* ===== verification/Sql.thy ===== *)
theory Sql
  imports Rate_Limit Audit_Log Query_Engine
begin

text \<open>
  \<open>src/server/sql.rs\<close>: the tokenizer and the recursive-descent parser of the client's \<open>SELECT\<close>.
  A \<open>char\<close> is one of the first 256 code points (Latin-1), on which \<open>is_alphabetic\<close> and
  \<open>is_alphanumeric\<close> are written out. A parser is its remaining tokens; an error keeps the text the
  code formats into it.
\<close>

section \<open>Characters\<close>

definition sql_alphabetic :: "char \<Rightarrow> bool" where
  "sql_alphabetic c \<longleftrightarrow> (let n = of_char c :: nat in 65 \<le> n \<and> n \<le> 90 \<or> 97 \<le> n \<and> n \<le> 122 \<or>
     n = 170 \<or> n = 181 \<or> n = 186 \<or> 192 \<le> n \<and> n \<noteq> 215 \<and> n \<noteq> 247)"

text \<open>Superscripts and fractions are numeric, hence alphanumeric.\<close>

definition sql_alphanumeric :: "char \<Rightarrow> bool" where
  "sql_alphanumeric c \<longleftrightarrow> sql_alphabetic c \<or> is_digit c \<or>
     (of_char c :: nat) \<in> {178, 179, 185, 188, 189, 190}"

definition ident_start :: "char \<Rightarrow> bool" where
  "ident_start c \<longleftrightarrow> sql_alphabetic c \<or> c = CHR ''_''"

definition ident_char :: "char \<Rightarrow> bool" where
  "ident_char c \<longleftrightarrow> sql_alphanumeric c \<or> c = CHR ''_''"

definition ascii_upper :: "char \<Rightarrow> char" where
  "ascii_upper c = (let n = of_char c :: nat in if 97 \<le> n \<and> n \<le> 122 then char_of (n - 32) else c)"

definition eq_ignore_case :: "string \<Rightarrow> string \<Rightarrow> bool" where
  "eq_ignore_case s t \<longleftrightarrow> map ascii_upper s = map ascii_upper t"

section \<open>The parsed query\<close>

datatype sql_literal = LNumber i64 | LStr string | LBool bool

record parsed_condition =
  pc_qualifier :: "string option"
  pc_name :: string
  pc_op :: compare_op
  pc_value :: sql_literal

datatype aggregate_arg = ArgStar | ArgField string

datatype parsed_column_item =
    Plain string
  | Qualified string string
  | AggregateCall aggregate_fn aggregate_arg

datatype parsed_columns = AllColumns | NamedColumns "parsed_column_item list"

record parsed_join =
  pj_table :: string
  pj_alias :: "string option"
  pj_relation :: string

record parsed_query =
  pq_columns :: parsed_columns
  pq_table :: string
  pq_alias :: "string option"
  pq_join :: "parsed_join option"
  pq_conditions :: "parsed_condition list"
  pq_group_by :: "string list"
  pq_limit :: "nat option"

datatype sql_parse_error =
    Expected string string
  | UnexpectedEnd
  | InvalidNumber string
  | NegativeLimit i64
  | TrailingInput string
  | UnterminatedString
  | UnexpectedCharacter char
  | UnknownAggregateFunction string
  | CountRequiresStar
  | AggregateRequiresField string
  | JoinWithAggregate
  | UnqualifiedInJoin string
  | UnknownQualifier string
  | AmbiguousQualifiers string

section \<open>Tokens\<close>

datatype token =
    TIdent string
  | TNumber i64
  | TStr string
  | TStar | TComma | TEq | TNe | TLt | TLe | TGt | TGe | TLParen | TRParen | TDot

text \<open>Decimal numerals, as \<open>Display\<close> of \<open>i64\<close> writes them.\<close>

fun show_nat :: "nat \<Rightarrow> string" where
  "show_nat n = (if n < 10 then [char_of (48 + n)] else show_nat (n div 10) @ [char_of (48 + n mod 10)])"

declare show_nat.simps [simp del]

definition show_i64 :: "i64 \<Rightarrow> string" where
  "show_i64 v = (if sint v < 0 then CHR ''-'' # show_nat (nat (- sint v)) else show_nat (nat (sint v)))"

text \<open>\<open>{s:?}\<close> of an identifier: none of its characters is escaped.\<close>

definition quoted :: "string \<Rightarrow> string" where
  "quoted s = [CHR 0x22] @ s @ [CHR 0x22]"

fun show_token :: "token \<Rightarrow> string" where
  "show_token (TIdent s) = quoted s"
| "show_token (TNumber n) = show_i64 n"
| "show_token (TStr s) = [CHR 0x27] @ s @ [CHR 0x27]"
| "show_token TStar = ''*''"
| "show_token TComma = '',''"
| "show_token TEq = ''=''"
| "show_token TNe = ''!=''"
| "show_token TLt = ''<''"
| "show_token TLe = ''<=''"
| "show_token TGt = ''>''"
| "show_token TGe = ''>=''"
| "show_token TLParen = ''(''"
| "show_token TRParen = '')''"
| "show_token TDot = ''.''"

section \<open>\<open>tokenize\<close>\<close>

text \<open>\<open>text.parse::<i64>()\<close> of digits after an optional minus sign.\<close>

definition parse_i64 :: "string \<Rightarrow> i64 option" where
  "parse_i64 s =
     (if s \<noteq> [] \<and> hd s = CHR ''-''
      then (case parse_digits (tl s) of
              Some n \<Rightarrow> if n \<le> 2 ^ 63 then Some (word_of_int (- int n)) else None
            | None \<Rightarrow> None)
      else (case parse_digits s of
              Some n \<Rightarrow> if n < 2 ^ 63 then Some (word_of_int (int n)) else None
            | None \<Rightarrow> None))"

lemma parse_i64_code [code]:
  "parse_i64 s =
     (if s \<noteq> [] \<and> hd s = CHR ''-''
      then (case parse_digits (tl s) of
              Some n \<Rightarrow> if int n \<le> 9223372036854775808 then Some (word_of_int (- int n)) else None
            | None \<Rightarrow> None)
      else (case parse_digits s of
              Some n \<Rightarrow> if int n < 9223372036854775808 then Some (word_of_int (int n)) else None
            | None \<Rightarrow> None))"
  by (simp add: parse_i64_def cong: option.case_cong)

definition number_token :: "string \<Rightarrow> sql_parse_error + token" where
  "number_token s = map_ok TNumber (ok_or (InvalidNumber s) (parse_i64 s))"

text \<open>The text up to the closing quote and what follows it.\<close>

definition string_token :: "string \<Rightarrow> sql_parse_error + string \<times> string" where
  "string_token cs = ok_or UnterminatedString (split_once (CHR 0x27) cs)"

text \<open>The punctuation, with one character of lookahead.\<close>

definition or_equals :: "token \<Rightarrow> token option \<Rightarrow> string \<Rightarrow> (token \<times> string) option" where
  "or_equals with_eq alone cs =
     (if cs \<noteq> [] \<and> hd cs = CHR ''='' then Some (with_eq, tl cs) else map_option (\<lambda>t. (t, cs)) alone)"

definition symbol_token :: "char \<Rightarrow> string \<Rightarrow> (token \<times> string) option" where
  "symbol_token c cs =
     (if c = CHR ''*'' then Some (TStar, cs)
      else if c = CHR '','' then Some (TComma, cs)
      else if c = CHR ''('' then Some (TLParen, cs)
      else if c = CHR '')'' then Some (TRParen, cs)
      else if c = CHR ''.'' then Some (TDot, cs)
      else if c = CHR ''='' then Some (TEq, cs)
      else if c = CHR ''!'' then or_equals TNe None cs
      else if c = CHR ''<'' then or_equals TLe (Some TLt) cs
      else if c = CHR ''>'' then or_equals TGe (Some TGt) cs
      else None)"

text \<open>One token from the front; the rest of the input is no longer.\<close>

definition next_token :: "char \<Rightarrow> string \<Rightarrow> sql_parse_error + token \<times> string" where
  "next_token c cs =
     (case symbol_token c cs of
        Some r \<Rightarrow> Ok r
      | None \<Rightarrow>
          if c = CHR 0x27 then map_ok (\<lambda>(s, rest). (TStr s, rest)) (string_token cs)
          else if is_digit c \<or> c = CHR ''-'' \<and> cs \<noteq> [] \<and> is_digit (hd cs)
          then map_ok (\<lambda>t. (t, dropWhile is_digit cs)) (number_token (c # takeWhile is_digit cs))
          else if ident_start c then Ok (TIdent (c # takeWhile ident_char cs), dropWhile ident_char cs)
          else Err (UnexpectedCharacter c))"

lemma split_once_shrinks: "split_once d cs = Some (a, b) \<Longrightarrow> length b < length cs"
proof (induction cs arbitrary: a b)
  case (Cons c cs)
  then show ?case by (cases "c = d") (auto simp: less_Suc_eq)
qed simp

lemma or_equals_shrinks: "or_equals t u cs = Some (v, rest) \<Longrightarrow> length rest \<le> length cs"
  by (auto simp: or_equals_def split: if_splits)

lemma symbol_token_shrinks: "symbol_token c cs = Some (v, rest) \<Longrightarrow> length rest \<le> length cs"
  unfolding symbol_token_def by (simp split: if_split_asm) (blast dest: or_equals_shrinks)+

lemma map_ok_Ok_iff: "map_ok f r = Inr b \<longleftrightarrow> (\<exists>a. r = Inr a \<and> b = f a)"
  by (cases r) auto

lemma next_token_shrinks:
  assumes "next_token c cs = Ok (t, rest)"
  shows "length rest \<le> length cs"
proof (cases "symbol_token c cs")
  case None
  have "length b \<le> length cs" if "string_token cs = Ok (a, b)" for a b
    using that split_once_shrinks [of "CHR 0x27" cs a b]
    by (cases "split_once (CHR 0x27) cs") (simp_all add: string_token_def)
  moreover have "length (dropWhile P cs) \<le> length cs" for P by (rule length_dropWhile_le)
  ultimately show ?thesis
    using assms None unfolding next_token_def option.case
    by (simp split: if_split_asm) (fastforce simp: map_ok_Ok_iff)+
next
  case (Some r)
  with assms show ?thesis using symbol_token_shrinks by (simp add: next_token_def)
qed

function tokenize :: "string \<Rightarrow> sql_parse_error + token list" where
  "tokenize [] = Ok []"
| "tokenize (c # cs) =
     (if whitespace c then tokenize cs
      else (case next_token c cs of
              Inl e \<Rightarrow> Err e
            | Inr (t, rest) \<Rightarrow> map_ok (\<lambda>ts. t # ts) (tokenize rest)))"
  by pat_completeness auto
termination
  by (relation "measure length") (auto dest: next_token_shrinks)

section \<open>The parser\<close>

type_synonym 'a parsed = "sql_parse_error + 'a \<times> token list"

definition peek_is :: "token \<Rightarrow> token list \<Rightarrow> bool" where
  "peek_is t ts \<longleftrightarrow> ts \<noteq> [] \<and> hd ts = t"

definition keyword_token :: "string \<Rightarrow> token \<Rightarrow> bool" where
  "keyword_token k t \<longleftrightarrow> (case t of TIdent s \<Rightarrow> eq_ignore_case s k | _ \<Rightarrow> False)"

definition peek_keyword :: "string \<Rightarrow> token list \<Rightarrow> bool" where
  "peek_keyword k ts \<longleftrightarrow> ts \<noteq> [] \<and> keyword_token k (hd ts)"

definition expect_keyword :: "string \<Rightarrow> token list \<Rightarrow> unit parsed" where
  "expect_keyword k ts =
     (case ts of
        [] \<Rightarrow> Err UnexpectedEnd
      | t # ts \<Rightarrow> if keyword_token k t then Ok ((), ts) else Err (Expected (quoted k) (show_token t)))"

fun ident :: "token list \<Rightarrow> string parsed" where
  "ident [] = Err UnexpectedEnd"
| "ident (TIdent s # ts) = Ok (s, ts)"
| "ident (t # ts) = Err (Expected ''an identifier'' (show_token t))"

fun comparator :: "token list \<Rightarrow> compare_op parsed" where
  "comparator [] = Err UnexpectedEnd"
| "comparator (TEq # ts) = Ok (OpEq, ts)"
| "comparator (TNe # ts) = Ok (OpNe, ts)"
| "comparator (TLt # ts) = Ok (OpLt, ts)"
| "comparator (TLe # ts) = Ok (OpLe, ts)"
| "comparator (TGt # ts) = Ok (OpGt, ts)"
| "comparator (TGe # ts) = Ok (OpGe, ts)"
| "comparator (t # ts) = Err (Expected ''a comparator (=, !=, <, <=, >, >=)'' (show_token t))"

definition expected_literal :: "token \<Rightarrow> sql_parse_error" where
  "expected_literal t = Expected (''a literal (a number, a '' @ [CHR 0x27] @ ''string'' @ [CHR 0x27] @ '', true, or false)'') (show_token t)"

fun literal :: "token list \<Rightarrow> sql_literal parsed" where
  "literal [] = Err UnexpectedEnd"
| "literal (TNumber n # ts) = Ok (LNumber n, ts)"
| "literal (TStr s # ts) = Ok (LStr s, ts)"
| "literal (TIdent s # ts) =
     (if eq_ignore_case s ''true'' then Ok (LBool True, ts)
      else if eq_ignore_case s ''false'' then Ok (LBool False, ts)
      else Err (expected_literal (TIdent s)))"
| "literal (t # ts) = Err (expected_literal t)"

definition maybe_qualified :: "token list \<Rightarrow> (string option \<times> string) parsed" where
  "maybe_qualified ts =
     and_then (ident ts) (\<lambda>(first, ts).
       if peek_is TDot ts
       then and_then (ident (tl ts)) (\<lambda>(name, ts). Ok ((Some first, name), ts))
       else Ok ((None, first), ts))"

definition condition :: "token list \<Rightarrow> parsed_condition parsed" where
  "condition ts =
     and_then (maybe_qualified ts) (\<lambda>((qualifier, name), ts).
     and_then (comparator ts) (\<lambda>(operator, ts).
     and_then (literal ts) (\<lambda>(v, ts).
       Ok (\<lparr>pc_qualifier = qualifier, pc_name = name, pc_op = operator, pc_value = v\<rparr>, ts))))"

definition is_keyword :: "string \<Rightarrow> bool" where
  "is_keyword s \<longleftrightarrow>
     list_ex (eq_ignore_case s) [''SELECT'', ''FROM'', ''WHERE'', ''AND'', ''GROUP'', ''BY'', ''LIMIT'', ''JOIN'', ''ON'', ''AS'']"

definition table_ref :: "token list \<Rightarrow> (string \<times> string option) parsed" where
  "table_ref ts =
     and_then (ident ts) (\<lambda>(name, ts).
       if peek_keyword ''AS'' ts
       then and_then (ident (tl ts)) (\<lambda>(alias, ts). Ok ((name, Some alias), ts))
       else (case ts of
               TIdent s # rest \<Rightarrow> if is_keyword s then Ok ((name, None), ts) else Ok ((name, Some s), rest)
             | _ \<Rightarrow> Ok ((name, None), ts)))"

definition agg_fn :: "string \<Rightarrow> sql_parse_error + aggregate_fn" where
  "agg_fn name =
     (let up = map ascii_upper name
      in if up = ''COUNT'' then Ok AggCount
         else if up = ''SUM'' then Ok AggSum
         else if up = ''AVG'' then Ok AggAvg
         else if up = ''MIN'' then Ok AggMin
         else if up = ''MAX'' then Ok AggMax
         else Err (UnknownAggregateFunction name))"

fun expect_rparen :: "token list \<Rightarrow> unit parsed" where
  "expect_rparen [] = Err UnexpectedEnd"
| "expect_rparen (TRParen # ts) = Ok ((), ts)"
| "expect_rparen (t # ts) = Err (Expected ([CHR 0x27] @ '')'' @ [CHR 0x27]) (show_token t))"

fun checked_call :: "string \<Rightarrow> aggregate_fn \<Rightarrow> aggregate_arg \<Rightarrow> sql_parse_error + parsed_column_item" where
  "checked_call name AggCount (ArgField f) = Err CountRequiresStar"
| "checked_call name AggCount ArgStar = Ok (AggregateCall AggCount ArgStar)"
| "checked_call name func ArgStar = Err (AggregateRequiresField name)"
| "checked_call name func (ArgField f) = Ok (AggregateCall func (ArgField f))"

definition call_argument :: "token list \<Rightarrow> aggregate_arg parsed" where
  "call_argument ts =
     (if peek_is TStar ts then Ok (ArgStar, tl ts)
      else and_then (ident ts) (\<lambda>(f, ts). Ok (ArgField f, ts)))"

definition column_item :: "token list \<Rightarrow> parsed_column_item parsed" where
  "column_item ts =
     and_then (ident ts) (\<lambda>(name, ts).
       if peek_is TDot ts
       then and_then (ident (tl ts)) (\<lambda>(field, ts). Ok (Qualified name field, ts))
       else if \<not> peek_is TLParen ts then Ok (Plain name, ts)
       else and_then (agg_fn name) (\<lambda>func.
            and_then (call_argument (tl ts)) (\<lambda>(arg, ts).
            and_then (expect_rparen ts) (\<lambda>(_, ts).
            and_then (checked_call name func arg) (\<lambda>item. Ok (item, ts))))))"

definition limit_number :: "token list \<Rightarrow> nat parsed" where
  "limit_number ts =
     (case ts of
        [] \<Rightarrow> Err UnexpectedEnd
      | TNumber n # ts \<Rightarrow> if 0 \<le> sint n then Ok (nat (sint n), ts) else Err (NegativeLimit n)
      | t # ts \<Rightarrow> Err (Expected ''a non-negative number'' (show_token t)))"

text \<open>What every production leaves is a proper suffix of what it was given.\<close>

named_theorems shrinks \<open>parsers consume at least one token\<close>

lemma ident_shrinks [shrinks]: "ident ts = Ok (s, rest) \<Longrightarrow> length rest < length ts"
  by (cases ts rule: ident.cases) auto

lemma expect_rparen_shrinks [shrinks]: "expect_rparen ts = Ok (u, rest) \<Longrightarrow> length rest < length ts"
  by (cases ts rule: expect_rparen.cases) auto

lemma comparator_shrinks [shrinks]: "comparator ts = Ok (x, rest) \<Longrightarrow> length rest < length ts"
  by (cases ts rule: comparator.cases) auto

lemma literal_shrinks [shrinks]: "literal ts = Ok (x, rest) \<Longrightarrow> length rest < length ts"
  by (cases ts rule: literal.cases) (auto split: if_splits)

lemma maybe_qualified_shrinks [shrinks]: "maybe_qualified ts = Ok (x, rest) \<Longrightarrow> length rest < length ts"
  by (auto simp: maybe_qualified_def and_then_Ok_iff split: if_splits dest!: shrinks)

lemma condition_shrinks [shrinks]: "condition ts = Ok (x, rest) \<Longrightarrow> length rest < length ts"
  by (auto simp: condition_def and_then_Ok_iff split: if_splits dest!: shrinks)

lemma call_argument_shrinks [shrinks]: "call_argument ts = Ok (x, rest) \<Longrightarrow> length rest < length ts"
  by (auto simp: call_argument_def peek_is_def and_then_Ok_iff split: if_splits dest!: ident_shrinks)

lemma column_item_shrinks [shrinks]: "column_item ts = Ok (x, rest) \<Longrightarrow> length rest < length ts"
  by (auto simp: column_item_def and_then_Ok_iff split: if_splits dest!: shrinks)

function column_items :: "token list \<Rightarrow> parsed_column_item list parsed" where
  "column_items ts =
     (case column_item ts of
        Inl e \<Rightarrow> Err e
      | Inr (item, rest) \<Rightarrow>
          if peek_is TComma rest
          then and_then (column_items (tl rest)) (\<lambda>(items, rest). Ok (item # items, rest))
          else Ok ([item], rest))"
  by pat_completeness auto
termination
  by (relation "measure length") (auto dest!: column_item_shrinks)

function conditions :: "token list \<Rightarrow> parsed_condition list parsed" where
  "conditions ts =
     (case condition ts of
        Inl e \<Rightarrow> Err e
      | Inr (c, rest) \<Rightarrow>
          if peek_keyword ''AND'' rest
          then and_then (conditions (tl rest)) (\<lambda>(cs, rest). Ok (c # cs, rest))
          else Ok ([c], rest))"
  by pat_completeness auto
termination
  by (relation "measure length") (auto dest!: condition_shrinks)

function ident_list :: "token list \<Rightarrow> string list parsed" where
  "ident_list ts =
     (case ident ts of
        Inl e \<Rightarrow> Err e
      | Inr (s, rest) \<Rightarrow>
          if peek_is TComma rest
          then and_then (ident_list (tl rest)) (\<lambda>(ss, rest). Ok (s # ss, rest))
          else Ok ([s], rest))"
  by pat_completeness auto
termination
  by (relation "measure length") (auto dest!: ident_shrinks)

declare column_items.simps [simp del] conditions.simps [simp del] ident_list.simps [simp del]

definition columns :: "token list \<Rightarrow> parsed_columns parsed" where
  "columns ts =
     (if peek_is TStar ts then Ok (AllColumns, tl ts)
      else and_then (column_items ts) (\<lambda>(items, ts). Ok (NamedColumns items, ts)))"

text \<open>A clause is read when its keyword is next.\<close>

definition clause :: "string \<Rightarrow> 'a \<Rightarrow> (token list \<Rightarrow> 'a parsed) \<Rightarrow> token list \<Rightarrow> 'a parsed" where
  "clause k absent body ts = (if peek_keyword k ts then body (tl ts) else Ok (absent, ts))"

definition join_clause :: "token list \<Rightarrow> parsed_join option parsed" where
  "join_clause =
     clause ''JOIN'' None (\<lambda>ts.
       and_then (table_ref ts) (\<lambda>((name, alias), ts).
       and_then (expect_keyword ''ON'' ts) (\<lambda>(_, ts).
       and_then (ident ts) (\<lambda>(relation, ts).
         Ok (Some \<lparr>pj_table = name, pj_alias = alias, pj_relation = relation\<rparr>, ts)))))"

definition group_clause :: "token list \<Rightarrow> string list parsed" where
  "group_clause =
     clause ''GROUP'' [] (\<lambda>ts. and_then (expect_keyword ''BY'' ts) (\<lambda>(_, ts). ident_list ts))"

definition limit_clause :: "token list \<Rightarrow> nat option parsed" where
  "limit_clause = clause ''LIMIT'' None (\<lambda>ts. and_then (limit_number ts) (\<lambda>(n, ts). Ok (Some n, ts)))"

section \<open>\<open>validate_qualifiers\<close>\<close>

definition left_names :: "parsed_query \<Rightarrow> string list" where
  "left_names q = pq_table q # (case pq_alias q of None \<Rightarrow> [] | Some a \<Rightarrow> [a])"

definition right_names :: "parsed_query \<Rightarrow> string list" where
  "right_names q =
     (case pq_join q of
        None \<Rightarrow> []
      | Some j \<Rightarrow> pj_table j # (case pj_alias j of None \<Rightarrow> [] | Some a \<Rightarrow> [a]))"

definition names_it :: "string list \<Rightarrow> string \<Rightarrow> bool" where
  "names_it names qualifier \<longleftrightarrow> list_ex (\<lambda>n. eq_ignore_case n qualifier) names"

definition check_qualifier :: "parsed_query \<Rightarrow> string \<Rightarrow> sql_parse_error + unit" where
  "check_qualifier q qualifier =
     (case (names_it (left_names q) qualifier, names_it (right_names q) qualifier) of
        (True, True) \<Rightarrow> Err (AmbiguousQualifiers qualifier)
      | (False, False) \<Rightarrow> Err (UnknownQualifier qualifier)
      | _ \<Rightarrow> Ok ())"

definition check_item :: "parsed_query \<Rightarrow> parsed_column_item \<Rightarrow> sql_parse_error + unit" where
  "check_item q item =
     (case item of
        Plain name \<Rightarrow> if pq_join q \<noteq> None then Err (UnqualifiedInJoin name) else Ok ()
      | Qualified qualifier name \<Rightarrow> check_qualifier q qualifier
      | AggregateCall f a \<Rightarrow> Ok ())"

definition check_condition :: "parsed_query \<Rightarrow> parsed_condition \<Rightarrow> sql_parse_error + unit" where
  "check_condition q c =
     (case pc_qualifier c of
        None \<Rightarrow> if pq_join q \<noteq> None then Err (UnqualifiedInJoin (pc_name c)) else Ok ()
      | Some qualifier \<Rightarrow> check_qualifier q qualifier)"

fun is_aggregate_item :: "parsed_column_item \<Rightarrow> bool" where
  "is_aggregate_item (AggregateCall f a) = True"
| "is_aggregate_item _ = False"

definition named_items :: "parsed_query \<Rightarrow> parsed_column_item list" where
  "named_items q = (case pq_columns q of AllColumns \<Rightarrow> [] | NamedColumns items \<Rightarrow> items)"

definition check_join :: "parsed_query \<Rightarrow> sql_parse_error + unit" where
  "check_join q =
     (case pq_join q of
        None \<Rightarrow> Ok ()
      | Some j \<Rightarrow>
          if list_ex is_aggregate_item (named_items q) \<or> pq_group_by q \<noteq> [] then Err JoinWithAggregate
          else (let left = case_option (pq_table q) (\<lambda>a. a) (pq_alias q);
                    right = case_option (pj_table j) (\<lambda>a. a) (pj_alias j)
                in if eq_ignore_case left right then Err (AmbiguousQualifiers left) else Ok ()))"

definition validate_qualifiers :: "parsed_query \<Rightarrow> sql_parse_error + unit" where
  "validate_qualifiers q =
     and_then (check_join q) (\<lambda>_.
     and_then (check_all (check_item q) (named_items q)) (\<lambda>_.
       check_all (check_condition q) (pq_conditions q)))"

section \<open>\<open>parse\<close>\<close>

definition parse_tokens :: "token list \<Rightarrow> sql_parse_error + parsed_query" where
  "parse_tokens ts =
     and_then (expect_keyword ''SELECT'' ts) (\<lambda>(_, ts).
     and_then (columns ts) (\<lambda>(cols, ts).
     and_then (expect_keyword ''FROM'' ts) (\<lambda>(_, ts).
     and_then (table_ref ts) (\<lambda>((name, alias), ts).
     and_then (join_clause ts) (\<lambda>(join, ts).
     and_then (clause ''WHERE'' [] conditions ts) (\<lambda>(conds, ts).
     and_then (group_clause ts) (\<lambda>(group_by, ts).
     and_then (limit_clause ts) (\<lambda>(limit, ts).
       case ts of
         t # _ \<Rightarrow> Err (TrailingInput (show_token t))
       | [] \<Rightarrow>
           let q = \<lparr>pq_columns = cols, pq_table = name, pq_alias = alias, pq_join = join,
                    pq_conditions = conds, pq_group_by = group_by, pq_limit = limit\<rparr>
           in and_then (validate_qualifiers q) (\<lambda>_. Ok q)))))))))"

definition parse :: "string \<Rightarrow> sql_parse_error + parsed_query" where
  "parse sql = and_then (tokenize sql) parse_tokens"

end
