(* ===== verification/Sql_Lexer.thy ===== *)
theory Sql_Lexer
  imports Sql
begin

text \<open>
  The lexical grammar of the SQL front end, stated without the tokenizer: what text a token has,
  and where one token ends (an identifier where no identifier character follows, and so on). The
  tokenizer accepts exactly the texts this grammar spells.
\<close>

section \<open>The lexical grammar\<close>

definition valid_ident :: "string \<Rightarrow> bool" where
  "valid_ident s \<longleftrightarrow> s \<noteq> [] \<and> ident_start (hd s) \<and> list_all ident_char s"

definition numeral_text :: "string \<Rightarrow> bool" where
  "numeral_text s \<longleftrightarrow>
     (let digits = (if s \<noteq> [] \<and> hd s = CHR ''-'' then tl s else s) in digits \<noteq> [] \<and> list_all is_digit digits)"

fun token_text :: "token \<Rightarrow> string \<Rightarrow> bool" where
  "token_text (TIdent s) w \<longleftrightarrow> w = s \<and> valid_ident s"
| "token_text (TNumber n) w \<longleftrightarrow> numeral_text w \<and> parse_i64 w = Some n"
| "token_text (TStr s) w \<longleftrightarrow> w = CHR 0x27 # s @ [CHR 0x27] \<and> CHR 0x27 \<notin> set s"
| "token_text t w \<longleftrightarrow> w = show_token t"

fun may_follow :: "token \<Rightarrow> string \<Rightarrow> bool" where
  "may_follow t [] = True"
| "may_follow (TIdent s) (c # cs) = (\<not> ident_char c)"
| "may_follow (TNumber n) (c # cs) = (\<not> is_digit c)"
| "may_follow TLt (c # cs) = (c \<noteq> CHR ''='')"
| "may_follow TGt (c # cs) = (c \<noteq> CHR ''='')"
| "may_follow t (c # cs) = True"

inductive spells :: "token list \<Rightarrow> string \<Rightarrow> bool" where
  spells_Nil: "spells [] []"
| spells_space: "whitespace c \<Longrightarrow> spells ts s \<Longrightarrow> spells ts (c # s)"
| spells_token: "token_text t w \<Longrightarrow> may_follow t s \<Longrightarrow> spells ts s \<Longrightarrow> spells (t # ts) (w @ s)"

inductive_cases spells_NilE: "spells ts []"

section \<open>Characters\<close>

lemma symbol_chars [simp]:
  "\<not> whitespace (CHR ''*'')" "\<not> whitespace (CHR '','')" "\<not> whitespace (CHR ''('')" "\<not> whitespace (CHR '')'')"
  "\<not> whitespace (CHR ''.'')" "\<not> whitespace (CHR ''='')" "\<not> whitespace (CHR ''!'')" "\<not> whitespace (CHR ''<'')"
  "\<not> whitespace (CHR ''>'')" "\<not> whitespace (CHR 0x27)" "\<not> whitespace (CHR ''-'')"
  "\<not> is_digit (CHR ''='')" "\<not> is_digit (CHR ''-'')" "\<not> is_digit (CHR 0x27)"
  by (simp_all add: whitespace_def is_digit_def)

lemma symbol_not_ident:
  "ident_start c \<or> is_digit c \<Longrightarrow> c \<notin> set ''*,().=!<>-'' \<and> c \<noteq> CHR 0x27 \<and> \<not> whitespace c"
  by (auto simp: ident_start_def sql_alphabetic_def is_digit_def whitespace_def Let_def)

lemma number_start:
  assumes "is_digit c \<or> c = CHR ''-''"
  shows "c \<notin> set ''*,().=!<>''" "c \<noteq> CHR 0x27" "\<not> whitespace c"
  using assms by (auto simp: is_digit_def whitespace_def Let_def)

lemma ident_start_not_digit: "ident_start c \<Longrightarrow> \<not> is_digit c"
  by (auto simp: ident_start_def sql_alphabetic_def is_digit_def Let_def)

lemma ident_start_char: "ident_start c \<Longrightarrow> ident_char c"
  by (auto simp: ident_start_def ident_char_def sql_alphanumeric_def)

lemma symbol_token_None: "c \<notin> set ''*,().=!<>'' \<Longrightarrow> symbol_token c cs = None"
  by (simp add: symbol_token_def)

lemma takeWhile_front: "list_all P w \<Longrightarrow> s = [] \<or> \<not> P (hd s) \<Longrightarrow> takeWhile P (w @ s) = w \<and> dropWhile P (w @ s) = s"
  by (cases s) (auto simp: list_all_iff takeWhile_append2 dropWhile_append2)

lemma split_once_Some: "split_once d cs = Some (a, b) \<longleftrightarrow> cs = a @ d # b \<and> d \<notin> set a"
proof (induction cs arbitrary: a b)
  case (Cons c cs)
  then show ?case by (cases a) auto
qed simp

section \<open>One token\<close>

lemma next_token_complete:
  assumes "token_text t (c # w)" "may_follow t s"
  shows "next_token c (w @ s) = Ok (t, s) \<and> \<not> whitespace c"
proof (cases t)
  case (TIdent i)
  with assms have i: "ident_start c" "list_all ident_char w" "i = c # w" by (auto simp: valid_ident_def)
  then have "symbol_token c (w @ s) = None" "c \<noteq> CHR 0x27" "\<not> is_digit c" "c \<noteq> CHR ''-''" "\<not> whitespace c"
    using symbol_not_ident [of c] ident_start_not_digit by (auto intro: symbol_token_None)
  moreover have "s = [] \<or> \<not> ident_char (hd s)" using assms(2) TIdent by (cases s) auto
  ultimately show ?thesis using i takeWhile_front [of ident_char w s] TIdent by (simp add: next_token_def)
next
  case (TNumber n)
  with assms have n: "numeral_text (c # w)" "parse_i64 (c # w) = Some n" by auto
  then have w: "list_all is_digit w" "is_digit c \<or> c = CHR ''-'' \<and> w \<noteq> [] \<and> is_digit (hd w)"
    by (auto simp: numeral_text_def list_all_iff split: if_splits)
  then have "is_digit c \<or> c = CHR ''-''" by blast
  note c = number_start [OF this]
  have "s = [] \<or> \<not> is_digit (hd s)" using assms(2) TNumber by (cases s) auto
  then have "takeWhile is_digit (w @ s) = w" "dropWhile is_digit (w @ s) = s" using takeWhile_front [OF w(1)] by auto
  moreover have "is_digit c \<or> c = CHR ''-'' \<and> w @ s \<noteq> [] \<and> is_digit (hd (w @ s))" using w(2) by auto
  ultimately show ?thesis
    using n(2) c symbol_token_None [OF c(1)] TNumber by (simp add: next_token_def number_token_def)
next
  case (TStr i)
  with assms have i: "c = CHR 0x27" "w = i @ [CHR 0x27]" "CHR 0x27 \<notin> set i" by auto
  then have "split_once (CHR 0x27) (w @ s) = Some (i, s)" by (simp add: split_once_Some)
  with i TStr show ?thesis by (simp add: next_token_def symbol_token_def string_token_def)
qed (use assms in \<open>cases s; simp add: next_token_def symbol_token_def or_equals_def\<close>)+

text \<open>What the tokenizer takes for a token is that token's text, and the rest may follow it.\<close>

lemma dropWhile_follows: "dropWhile P cs = [] \<or> \<not> P (hd (dropWhile P cs))"
  by (metis hd_dropWhile)

lemma list_all_takeWhile: "list_all P (takeWhile P cs)"
  by (metis list_all_iff set_takeWhileD)

lemma symbol_token_sound:
  assumes "symbol_token c cs = Some (t, s)"
  shows "\<exists>w. c # cs = w @ s \<and> token_text t w \<and> may_follow t s"
  using assms
  by (cases cs; cases s) (auto simp: symbol_token_def or_equals_def split: if_split_asm)

lemma next_token_sound:
  assumes "next_token c cs = Ok (t, s)"
  shows "\<exists>w. c # cs = w @ s \<and> token_text t w \<and> may_follow t s"
proof (cases "symbol_token c cs")
  case (Some r)
  with assms have "symbol_token c cs = Some (t, s)" by (simp add: next_token_def)
  then show ?thesis by (rule symbol_token_sound)
next
  case None
  consider (str) "c = CHR 0x27"
    | (number) "c \<noteq> CHR 0x27" "is_digit c \<or> c = CHR ''-'' \<and> cs \<noteq> [] \<and> is_digit (hd cs)"
    | (ident) "c \<noteq> CHR 0x27" "\<not> (is_digit c \<or> c = CHR ''-'' \<and> cs \<noteq> [] \<and> is_digit (hd cs))" "ident_start c"
    using assms None by (auto simp: next_token_def split: if_split_asm)
  then show ?thesis
  proof cases
    case str
    with assms None obtain i where "split_once (CHR 0x27) cs = Some (i, s)" "t = TStr i"
      by (cases "split_once (CHR 0x27) cs") (auto simp: next_token_def string_token_def)
    with str show ?thesis
      by (intro exI [of _ "CHR 0x27 # i @ [CHR 0x27]"]) (cases s; simp add: split_once_Some)
  next
    case number
    let ?d = "takeWhile is_digit cs"
    from number assms None obtain n where n: "parse_i64 (c # ?d) = Some n" "t = TNumber n" "s = dropWhile is_digit cs"
      by (cases "parse_i64 (c # ?d)") (auto simp: next_token_def number_token_def)
    have "numeral_text (c # ?d)"
      using number(2) list_all_takeWhile [of is_digit cs] by (cases cs) (auto simp: numeral_text_def)
    moreover have "s = [] \<or> \<not> is_digit (hd s)" using dropWhile_follows n(3) by metis
    then have "may_follow (TNumber n) s" by (cases s) auto
    ultimately show ?thesis using n by (intro exI [of _ "c # ?d"]) simp
  next
    case ident
    let ?d = "takeWhile ident_char cs"
    from ident assms None have t: "t = TIdent (c # ?d)" "s = dropWhile ident_char cs"
      by (auto simp: next_token_def)
    moreover have "valid_ident (c # ?d)"
      using ident(3) ident_start_char list_all_takeWhile by (simp add: valid_ident_def)
    moreover have "s = [] \<or> \<not> ident_char (hd s)" using dropWhile_follows t(2) by metis
    then have "may_follow t s" using t(1) by (cases s) auto
    ultimately show ?thesis by (intro exI [of _ "c # ?d"]) simp
  qed
qed

section \<open>The whole text\<close>

lemma token_text_not_Nil: "token_text t w \<Longrightarrow> w \<noteq> []"
  by (cases t) (auto simp: valid_ident_def numeral_text_def Let_def split: if_splits)

lemma tokenize_complete: "spells ts s \<Longrightarrow> tokenize s = Ok ts"
proof (induction rule: spells.induct)
  case (spells_token t w s ts)
  then obtain c v where w: "w = c # v" using token_text_not_Nil by (cases w) auto
  with spells_token next_token_complete [of t c v s] show ?case by simp
qed simp_all

lemma tokenize_sound: "tokenize s = Ok ts \<Longrightarrow> spells ts s"
proof (induction s arbitrary: ts rule: tokenize.induct)
  case 1
  then show ?case by (simp add: spells_Nil)
next
  case (2 c cs)
  show ?case
  proof (cases "whitespace c")
    case True
    with 2 show ?thesis by (simp add: spells_space)
  next
    case False
    with 2 obtain t rest us where t: "next_token c cs = Ok (t, rest)" "tokenize rest = Ok us" "ts = t # us"
      by (auto simp: map_ok_Ok_iff split: sum.splits)
    with 2 False have "spells us rest" by blast
    with next_token_sound [OF t(1)] t(3) show ?thesis using spells_token by metis
  qed
qed

lemma tokenize_iff_spells: "tokenize s = Ok ts \<longleftrightarrow> spells ts s"
  using tokenize_complete tokenize_sound by blast

text \<open>Tokens of a text are well formed.\<close>

definition token_ok :: "token \<Rightarrow> bool" where
  "token_ok t \<longleftrightarrow> (\<exists>w. token_text t w)"

lemma token_ok_simps [simp]:
  "token_ok (TIdent s) \<longleftrightarrow> valid_ident s"
  "token_ok (TStr s) \<longleftrightarrow> CHR 0x27 \<notin> set s"
  by (simp_all add: token_ok_def)

lemma spells_ok: "spells ts s \<Longrightarrow> \<forall>t \<in> set ts. token_ok t"
  by (induction rule: spells.induct) (auto simp: token_ok_def)

end
