(* ===== verification/Sql_Grammar.thy ===== *)
theory Sql_Grammar
  imports Sql_Lexer
begin

text \<open>
  The grammar of the module documentation of \<open>src/server/sql.rs\<close>, one predicate per production over
  token lists, and the proof that each parser function reads exactly its production from the front
  of its input, given what may come next.
\<close>

section \<open>The productions\<close>

definition g_qualified :: "string option \<times> string \<Rightarrow> token list \<Rightarrow> bool" where
  "g_qualified x ts \<longleftrightarrow>
     ts = (case fst x of None \<Rightarrow> [TIdent (snd x)] | Some a \<Rightarrow> [TIdent a, TDot, TIdent (snd x)])"

fun op_token :: "compare_op \<Rightarrow> token" where
  "op_token OpEq = TEq" | "op_token OpNe = TNe" | "op_token OpLt = TLt"
| "op_token OpLe = TLe" | "op_token OpGt = TGt" | "op_token OpGe = TGe"

fun g_literal :: "sql_literal \<Rightarrow> token \<Rightarrow> bool" where
  "g_literal (LNumber n) t \<longleftrightarrow> t = TNumber n"
| "g_literal (LStr s) t \<longleftrightarrow> t = TStr s"
| "g_literal (LBool b) t \<longleftrightarrow> keyword_token (if b then ''true'' else ''false'') t"

definition g_condition :: "parsed_condition \<Rightarrow> token list \<Rightarrow> bool" where
  "g_condition c ts \<longleftrightarrow>
     (\<exists>q t. g_qualified (pc_qualifier c, pc_name c) q \<and> g_literal (pc_value c) t \<and>
        ts = q @ [op_token (pc_op c), t])"

fun agg_name :: "aggregate_fn \<Rightarrow> string" where
  "agg_name AggCount = ''COUNT''" | "agg_name AggSum = ''SUM''" | "agg_name AggAvg = ''AVG''"
| "agg_name AggMin = ''MIN''" | "agg_name AggMax = ''MAX''"

fun arg_token :: "aggregate_arg \<Rightarrow> token" where
  "arg_token ArgStar = TStar" | "arg_token (ArgField f) = TIdent f"

fun g_item :: "parsed_column_item \<Rightarrow> token list \<Rightarrow> bool" where
  "g_item (Plain n) ts \<longleftrightarrow> ts = [TIdent n]"
| "g_item (Qualified a n) ts \<longleftrightarrow> ts = [TIdent a, TDot, TIdent n]"
| "g_item (AggregateCall f arg) ts \<longleftrightarrow> (f = AggCount \<longleftrightarrow> arg = ArgStar) \<and>
     (\<exists>name. eq_ignore_case name (agg_name f) \<and> ts = [TIdent name, TLParen, arg_token arg, TRParen])"

inductive separated :: "(token \<Rightarrow> bool) \<Rightarrow> ('a \<Rightarrow> token list \<Rightarrow> bool) \<Rightarrow> 'a list \<Rightarrow> token list \<Rightarrow> bool"
  for sep G where
  separated_one: "G x ts \<Longrightarrow> separated sep G [x] ts"
| separated_more: "G x ts \<Longrightarrow> sep t \<Longrightarrow> separated sep G xs us \<Longrightarrow> separated sep G (x # xs) (ts @ t # us)"

inductive_simps separated_Nil [simp]: "separated sep G [] ts"
inductive_simps separated_Cons: "separated sep G (x # xs) ts"

fun g_columns :: "parsed_columns \<Rightarrow> token list \<Rightarrow> bool" where
  "g_columns AllColumns ts \<longleftrightarrow> ts = [TStar]"
| "g_columns (NamedColumns items) ts \<longleftrightarrow> separated ((=) TComma) g_item items ts"

definition g_table :: "string \<times> string option \<Rightarrow> token list \<Rightarrow> bool" where
  "g_table x ts \<longleftrightarrow>
     (case snd x of
        None \<Rightarrow> ts = [TIdent (fst x)]
      | Some a \<Rightarrow> (\<exists>t. keyword_token ''AS'' t \<and> ts = [TIdent (fst x), t, TIdent a]) \<or>
                  \<not> is_keyword a \<and> ts = [TIdent (fst x), TIdent a])"

definition g_join :: "parsed_join option \<Rightarrow> token list \<Rightarrow> bool" where
  "g_join j ts \<longleftrightarrow>
     (case j of
        None \<Rightarrow> ts = []
      | Some j \<Rightarrow> (\<exists>k ref on. keyword_token ''JOIN'' k \<and> g_table (pj_table j, pj_alias j) ref \<and>
                    keyword_token ''ON'' on \<and> ts = k # ref @ [on, TIdent (pj_relation j)]))"

definition g_where :: "parsed_condition list \<Rightarrow> token list \<Rightarrow> bool" where
  "g_where cs ts \<longleftrightarrow>
     cs = [] \<and> ts = [] \<or>
     (\<exists>k us. keyword_token ''WHERE'' k \<and> separated (keyword_token ''AND'') g_condition cs us \<and> ts = k # us)"

definition g_group :: "string list \<Rightarrow> token list \<Rightarrow> bool" where
  "g_group ns ts \<longleftrightarrow>
     ns = [] \<and> ts = [] \<or>
     (\<exists>k b us. keyword_token ''GROUP'' k \<and> keyword_token ''BY'' b \<and>
        separated ((=) TComma) (\<lambda>n ts. ts = [TIdent n]) ns us \<and> ts = k # b # us)"

definition g_limit :: "nat option \<Rightarrow> token list \<Rightarrow> bool" where
  "g_limit l ts \<longleftrightarrow>
     (case l of
        None \<Rightarrow> ts = []
      | Some n \<Rightarrow> (\<exists>k v. keyword_token ''LIMIT'' k \<and> 0 \<le> sint v \<and> n = nat (sint v) \<and> ts = [k, TNumber v]))"

definition g_query :: "parsed_query \<Rightarrow> token list \<Rightarrow> bool" where
  "g_query q ts \<longleftrightarrow>
     (\<exists>sel cols frm ref join conds grp lim. keyword_token ''SELECT'' sel \<and> g_columns (pq_columns q) cols \<and>
        keyword_token ''FROM'' frm \<and> g_table (pq_table q, pq_alias q) ref \<and> g_join (pq_join q) join \<and>
        g_where (pq_conditions q) conds \<and> g_group (pq_group_by q) grp \<and> g_limit (pq_limit q) lim \<and>
        ts = sel # cols @ frm # ref @ join @ conds @ grp @ lim)"

section \<open>Keywords\<close>

lemma eq_ignore_case_refl [simp]: "eq_ignore_case s s"
  by (simp add: eq_ignore_case_def)

lemma keyword_token_cases:
  "keyword_token k t \<Longrightarrow> \<exists>s. t = TIdent s \<and> map ascii_upper s = map ascii_upper k"
  by (cases t) (auto simp: keyword_token_def eq_ignore_case_def)

lemma keyword_token_unique:
  "keyword_token k t \<Longrightarrow> keyword_token l t \<longleftrightarrow> map ascii_upper l = map ascii_upper k"
  by (cases t) (auto simp: keyword_token_def eq_ignore_case_def)

lemma keyword_not_symbol: "keyword_token k t \<Longrightarrow> t \<noteq> TDot \<and> t \<noteq> TComma \<and> t \<noteq> TLParen \<and> t \<noteq> TStar"
  by (cases t) (simp_all add: keyword_token_def)

lemma is_keyword_word:
  "keyword_token k (TIdent s) \<Longrightarrow> k \<in> {''WHERE'', ''GROUP'', ''LIMIT'', ''JOIN'', ''ON''} \<Longrightarrow> is_keyword s"
  by (auto simp: keyword_token_def is_keyword_def)

section \<open>What each parser reads\<close>

lemma ident_iff: "ident ts = Ok (s, rest) \<longleftrightarrow> ts = TIdent s # rest"
  by (cases ts rule: ident.cases) auto

lemma expect_keyword_iff: "expect_keyword k ts = Ok (u, rest) \<longleftrightarrow> (\<exists>t. ts = t # rest \<and> keyword_token k t)"
  by (cases ts) (auto simp: expect_keyword_def)

lemma expect_rparen_iff: "expect_rparen ts = Ok (u, rest) \<longleftrightarrow> ts = TRParen # rest"
  by (cases ts rule: expect_rparen.cases) auto

lemma comparator_iff: "comparator ts = Ok (x, rest) \<longleftrightarrow> ts = op_token x # rest"
  by (cases x; cases ts rule: comparator.cases) auto

lemma literal_iff: "literal ts = Ok (x, rest) \<longleftrightarrow> (\<exists>t. ts = t # rest \<and> g_literal x t)"
  by (cases x; cases ts rule: literal.cases)
    (auto simp: keyword_token_def eq_ignore_case_def ascii_upper_def)

lemma maybe_qualified_iff:
  "maybe_qualified ts = Ok (x, rest) \<longleftrightarrow>
     (\<exists>pre. ts = pre @ rest \<and> g_qualified x pre \<and> (fst x = None \<longrightarrow> \<not> peek_is TDot rest))"
proof
  assume "maybe_qualified ts = Ok (x, rest)"
  then show "\<exists>pre. ts = pre @ rest \<and> g_qualified x pre \<and> (fst x = None \<longrightarrow> \<not> peek_is TDot rest)"
    by (auto simp: maybe_qualified_def and_then_Ok_iff ident_iff g_qualified_def peek_is_def neq_Nil_conv split: if_splits)
next
  assume "\<exists>pre. ts = pre @ rest \<and> g_qualified x pre \<and> (fst x = None \<longrightarrow> \<not> peek_is TDot rest)"
  then show "maybe_qualified ts = Ok (x, rest)"
    by (cases x) (auto simp: maybe_qualified_def g_qualified_def peek_is_def split: option.splits)
qed

lemma condition_iff:
  "condition ts = Ok (c, rest) \<longleftrightarrow> (\<exists>pre. ts = pre @ rest \<and> g_condition c pre)"
proof
  assume "condition ts = Ok (c, rest)"
  then show "\<exists>pre. ts = pre @ rest \<and> g_condition c pre"
    by (fastforce simp: condition_def and_then_Ok_iff maybe_qualified_iff comparator_iff literal_iff g_condition_def)
next
  assume "\<exists>pre. ts = pre @ rest \<and> g_condition c pre"
  then obtain q t where q: "g_qualified (pc_qualifier c, pc_name c) q" "g_literal (pc_value c) t"
    "ts = q @ op_token (pc_op c) # t # rest" by (auto simp: g_condition_def)
  have "\<not> peek_is TDot (op_token (pc_op c) # t # rest)" by (cases "pc_op c") (simp_all add: peek_is_def)
  with q(1,3) have "maybe_qualified ts = Ok ((pc_qualifier c, pc_name c), op_token (pc_op c) # t # rest)"
    unfolding maybe_qualified_iff by blast
  moreover have "literal (t # rest) = Ok (pc_value c, rest)" unfolding literal_iff using q(2) by blast
  moreover have "comparator (op_token (pc_op c) # t # rest) = Ok (pc_op c, t # rest)" by (simp add: comparator_iff)
  ultimately show "condition ts = Ok (c, rest)" by (simp add: condition_def)
qed

lemma agg_fn_iff: "agg_fn name = Ok f \<longleftrightarrow> eq_ignore_case name (agg_name f)"
  by (cases f) (simp_all add: agg_fn_def Let_def eq_ignore_case_def ascii_upper_def)

lemma checked_call_iff:
  "checked_call name func arg = Ok item \<longleftrightarrow> item = AggregateCall func arg \<and> (func = AggCount \<longleftrightarrow> arg = ArgStar)"
  by (cases func; cases arg) auto

lemma call_argument_iff: "call_argument ts = Ok (arg, rest) \<longleftrightarrow> ts = arg_token arg # rest"
  by (cases arg) (auto simp: call_argument_def peek_is_def and_then_Ok_iff ident_iff neq_Nil_conv split: if_splits)

lemma column_item_iff:
  "column_item ts = Ok (x, rest) \<longleftrightarrow>
     (\<exists>pre. ts = pre @ rest \<and> g_item x pre \<and> (\<forall>n. x = Plain n \<longrightarrow> \<not> peek_is TDot rest \<and> \<not> peek_is TLParen rest))"
proof
  assume "column_item ts = Ok (x, rest)"
  then show "\<exists>pre. ts = pre @ rest \<and> g_item x pre \<and> (\<forall>n. x = Plain n \<longrightarrow> \<not> peek_is TDot rest \<and> \<not> peek_is TLParen rest)"
    by (auto simp: column_item_def and_then_Ok_iff ident_iff expect_rparen_iff call_argument_iff agg_fn_iff
        checked_call_iff peek_is_def neq_Nil_conv split: if_split_asm)
next
  assume "\<exists>pre. ts = pre @ rest \<and> g_item x pre \<and> (\<forall>n. x = Plain n \<longrightarrow> \<not> peek_is TDot rest \<and> \<not> peek_is TLParen rest)"
  then show "column_item ts = Ok (x, rest)"
  proof (cases x)
    case (AggregateCall f arg)
    have "checked_call name f arg = Ok x" if "f = AggCount \<longleftrightarrow> arg = ArgStar" for name
      using that by (simp add: checked_call_iff AggregateCall)
    moreover have "call_argument (arg_token arg # us) = Ok (arg, us)" for us by (simp add: call_argument_iff)
    ultimately show ?thesis
      using AggregateCall \<open>\<exists>pre. _\<close> by (auto simp: column_item_def peek_is_def agg_fn_iff [symmetric])
  qed (auto simp: column_item_def peek_is_def)
qed

lemma table_ref_iff:
  "table_ref ts = Ok (x, rest) \<longleftrightarrow>
     (\<exists>pre. ts = pre @ rest \<and> g_table x pre \<and>
        (snd x = None \<longrightarrow> \<not> peek_keyword ''AS'' rest \<and> (\<forall>s us. rest = TIdent s # us \<longrightarrow> is_keyword s)))"
proof
  assume "table_ref ts = Ok (x, rest)"
  then obtain n us where ts: "ts = TIdent n # us" and us:
    "(if peek_keyword ''AS'' us
      then and_then (ident (tl us)) (\<lambda>(a, us). Ok ((n, Some a), us))
      else case us of
             TIdent s # vs \<Rightarrow> if is_keyword s then Ok ((n, None), us) else Ok ((n, Some s), vs)
           | _ \<Rightarrow> Ok ((n, None), us)) = Ok (x, rest)"
    unfolding table_ref_def and_then_Ok_iff [of "ident ts"] by (auto simp: ident_iff)
  then show "\<exists>pre. ts = pre @ rest \<and> g_table x pre \<and>
      (snd x = None \<longrightarrow> \<not> peek_keyword ''AS'' rest \<and> (\<forall>s us. rest = TIdent s # us \<longrightarrow> is_keyword s))"
  proof (cases "peek_keyword ''AS'' us")
    case True
    with us obtain t a where "us = t # TIdent a # rest" "keyword_token ''AS'' t" "x = (n, Some a)"
      by (cases us) (auto simp: and_then_Ok_iff ident_iff peek_keyword_def)
    then show ?thesis by (auto simp: ts g_table_def)
  next
    case False
    with us have bare: "(case us of
             TIdent s # vs \<Rightarrow> if is_keyword s then Ok ((n, None), us) else Ok ((n, Some s), vs)
           | _ \<Rightarrow> Ok ((n, None), us)) = (Ok (x, rest) :: (string \<times> string option) parsed)" by simp
    show ?thesis
    proof (cases "\<exists>s vs. us = TIdent s # vs \<and> \<not> is_keyword s")
      case True
      then obtain s vs where s: "us = TIdent s # vs" "\<not> is_keyword s" by blast
      with bare have "x = (n, Some s)" "rest = vs" by simp_all
      with s show ?thesis by (simp add: ts g_table_def)
    next
      case kw: False
      then have "x = (n, None)" "rest = us"
        using bare by (cases us; simp; cases "hd us"; simp)+
      with False kw show ?thesis by (auto simp: ts g_table_def)
    qed
  qed
next
  assume "\<exists>pre. ts = pre @ rest \<and> g_table x pre \<and>
      (snd x = None \<longrightarrow> \<not> peek_keyword ''AS'' rest \<and> (\<forall>s us. rest = TIdent s # us \<longrightarrow> is_keyword s))"
  then obtain pre where ts: "ts = pre @ rest" and g: "g_table x pre"
    and f: "snd x = None \<longrightarrow> \<not> peek_keyword ''AS'' rest \<and> (\<forall>s us. rest = TIdent s # us \<longrightarrow> is_keyword s)" by - (elim exE conjE, rule that)
  obtain n al where x: "x = (n, al)" by (cases x)
  show "table_ref ts = Ok (x, rest)"
  proof (cases al)
    case None
    with f have "\<not> peek_keyword ''AS'' rest" "\<forall>s us. rest = TIdent s # us \<longrightarrow> is_keyword s" by (simp_all add: x)
    then have "table_ref (TIdent n # rest) = Ok ((n, None), rest)"
      by (cases rest; simp add: table_ref_def; cases "hd rest"; simp)
    then show ?thesis using g None by (simp add: ts x g_table_def)
  next
    case (Some a)
    have "keyword_token ''AS'' (TIdent a) \<Longrightarrow> is_keyword a"
      by (simp add: keyword_token_def is_keyword_def)
    with Some g show ?thesis
      by (auto simp: ts x g_table_def table_ref_def peek_keyword_def)
  qed
qed

lemma limit_number_iff:
  "limit_number ts = Ok (n, rest) \<longleftrightarrow> (\<exists>v. ts = TNumber v # rest \<and> 0 \<le> sint v \<and> n = nat (sint v))"
  by (auto simp: limit_number_def split: list.splits token.splits if_splits)


section \<open>Lists\<close>

text \<open>
  The three loops of the parser are one scheme: an element, then another while the separator is
  next. What may follow the list is what may follow an element, and is no separator.
\<close>

lemma list_loop_iff:
  assumes loop: "\<And>ts. L ts = (case p ts of
        Inl e \<Rightarrow> Err e
      | Inr (x, rest) \<Rightarrow> if rest \<noteq> [] \<and> sep (hd rest) then and_then (L (tl rest)) (\<lambda>(xs, rest). Ok (x # xs, rest))
                         else Ok ([x], rest))"
    and shrinks: "\<And>ts x rest. p ts = Ok (x, rest) \<Longrightarrow> length rest < length ts"
    and p: "\<And>ts x rest. p ts = Ok (x, rest) \<longleftrightarrow> (\<exists>pre. ts = pre @ rest \<and> G x pre \<and> F x rest)"
    and F: "\<And>x t us. sep t \<Longrightarrow> F x (t # us)"
  shows "L ts = Ok (xs, rest) \<longleftrightarrow>
    (\<exists>pre. ts = pre @ rest \<and> separated sep G xs pre \<and> F (last xs) rest \<and> \<not> (rest \<noteq> [] \<and> sep (hd rest)))"
proof
  show "\<exists>pre. ts = pre @ rest \<and> separated sep G xs pre \<and> F (last xs) rest \<and> \<not> (rest \<noteq> [] \<and> sep (hd rest))"
    if "L ts = Ok (xs, rest)"
    using that
  proof (induction ts arbitrary: xs rule: length_induct)
    case (1 ts)
    then obtain x us where x: "p ts = Ok (x, us)"
      by (subst (asm) (2) loop) (auto split: sum.splits)
    then obtain pre where pre: "ts = pre @ us" "G x pre" "F x us" unfolding p by blast
    show ?case
    proof (cases "us \<noteq> [] \<and> sep (hd us)")
      case True
      with 1(2) x loop [of ts] obtain ys where ys: "L (tl us) = Ok (ys, rest)" "xs = x # ys"
        by (auto simp: and_then_Ok_iff)
      have "length (tl us) < length ts" using shrinks [OF x] by simp
      with 1(1) ys(1) obtain post where post: "tl us = post @ rest" "separated sep G ys post"
        "F (last ys) rest" "\<not> (rest \<noteq> [] \<and> sep (hd rest))" by blast
      have "us = hd us # post @ rest" using True post(1) by (metis list.collapse)
      moreover have "ys \<noteq> []" using post(2) by auto
      ultimately show ?thesis
        using pre post True ys(2) separated_more [OF pre(2) _ post(2), of "hd us"]
        by (intro exI [of _ "pre @ hd us # post"]) simp
    next
      case False
      with 1(2) x loop [of ts] have "xs = [x]" "rest = us" by (auto split: if_split_asm)
      with pre False show ?thesis by (intro exI [of _ pre]) (auto intro: separated_one)
    qed
  qed
next
  have "separated sep G xs pre \<Longrightarrow> F (last xs) rest \<Longrightarrow> \<not> (rest \<noteq> [] \<and> sep (hd rest)) \<Longrightarrow> L (pre @ rest) = Ok (xs, rest)"
    for pre
  proof (induction rule: separated.induct)
    case (separated_one x ts)
    then have "p (ts @ rest) = Ok (x, rest)" unfolding p by auto
    with separated_one show ?case by (subst loop) auto
  next
    case (separated_more x ts t xs us)
    then have "p (ts @ t # us @ rest) = Ok (x, t # us @ rest)" unfolding p using F by blast
    moreover have "xs \<noteq> []" using separated_more by auto
    ultimately show ?case using separated_more loop [of "ts @ t # us @ rest"] by simp
  qed
  then show "L ts = Ok (xs, rest)"
    if "\<exists>pre. ts = pre @ rest \<and> separated sep G xs pre \<and> F (last xs) rest \<and> \<not> (rest \<noteq> [] \<and> sep (hd rest))"
    using that by blast
qed

lemma peek_is_alt: "peek_is t rest \<longleftrightarrow> rest \<noteq> [] \<and> t = hd rest"
  by (auto simp: peek_is_def)

lemma column_items_iff:
  "column_items ts = Ok (xs, rest) \<longleftrightarrow>
     (\<exists>pre. ts = pre @ rest \<and> separated ((=) TComma) g_item xs pre \<and>
        (\<forall>n. last xs = Plain n \<longrightarrow> \<not> peek_is TDot rest \<and> \<not> peek_is TLParen rest) \<and>
        \<not> (rest \<noteq> [] \<and> TComma = hd rest))"
proof (rule list_loop_iff [where p = column_item])
  show "column_items ts = (case column_item ts of
        Inl e \<Rightarrow> Err e
      | Inr (x, rest) \<Rightarrow> if rest \<noteq> [] \<and> TComma = hd rest
          then and_then (column_items (tl rest)) (\<lambda>(xs, rest). Ok (x # xs, rest)) else Ok ([x], rest))" for ts
    by (subst column_items.simps) (simp only: peek_is_alt)
  show "\<forall>n. x = Plain n \<longrightarrow> \<not> peek_is TDot (t # us) \<and> \<not> peek_is TLParen (t # us)" if "TComma = t" for x t us
    using that by (auto simp: peek_is_def)
qed (rule column_item_shrinks column_item_iff, assumption?)+

lemma conditions_iff:
  "conditions ts = Ok (xs, rest) \<longleftrightarrow>
     (\<exists>pre. ts = pre @ rest \<and> separated (keyword_token ''AND'') g_condition xs pre \<and> True \<and>
        \<not> (rest \<noteq> [] \<and> keyword_token ''AND'' (hd rest)))"
proof (rule list_loop_iff [where p = condition and F = "\<lambda>_ _. True"])
  show "conditions ts = (case condition ts of
        Inl e \<Rightarrow> Err e
      | Inr (x, rest) \<Rightarrow> if rest \<noteq> [] \<and> keyword_token ''AND'' (hd rest)
          then and_then (conditions (tl rest)) (\<lambda>(xs, rest). Ok (x # xs, rest)) else Ok ([x], rest))" for ts
    by (subst conditions.simps) (simp only: peek_keyword_def)
qed (use condition_shrinks condition_iff in auto)

lemma ident_list_iff:
  "ident_list ts = Ok (xs, rest) \<longleftrightarrow>
     (\<exists>pre. ts = pre @ rest \<and> separated ((=) TComma) (\<lambda>n ts. ts = [TIdent n]) xs pre \<and> True \<and>
        \<not> (rest \<noteq> [] \<and> TComma = hd rest))"
proof (rule list_loop_iff [where p = ident and F = "\<lambda>_ _. True"])
  show "ident_list ts = (case ident ts of
        Inl e \<Rightarrow> Err e
      | Inr (x, rest) \<Rightarrow> if rest \<noteq> [] \<and> TComma = hd rest
          then and_then (ident_list (tl rest)) (\<lambda>(xs, rest). Ok (x # xs, rest)) else Ok ([x], rest))" for ts
    by (subst ident_list.simps) (simp only: peek_is_alt)
qed (auto simp: ident_iff)


section \<open>What follows a clause\<close>

definition starts :: "string list \<Rightarrow> token list \<Rightarrow> bool" where
  "starts ks ts \<longleftrightarrow> ts = [] \<or> (\<exists>k \<in> set ks. peek_keyword k ts)"

lemma starts_append: "ts = [] \<or> peek_keyword k ts \<Longrightarrow> starts ks us \<Longrightarrow> starts (k # ks) (ts @ us)"
  by (cases ts) (auto simp: starts_def peek_keyword_def)

lemma starts_other:
  assumes "starts ks ts" "\<forall>l \<in> set ks. map ascii_upper l \<noteq> map ascii_upper k"
  shows "\<not> peek_keyword k ts"
  using assms keyword_token_unique by (fastforce simp: starts_def peek_keyword_def)

lemma starts_no_symbol: "starts ks ts \<Longrightarrow> \<not> peek_is TDot ts \<and> \<not> peek_is TComma ts \<and> \<not> peek_is TLParen ts"
  using keyword_not_symbol by (fastforce simp: starts_def peek_keyword_def peek_is_def)

lemma starts_is_keyword:
  assumes "starts ks (TIdent s # us)" "set ks \<subseteq> {''WHERE'', ''GROUP'', ''LIMIT'', ''JOIN'', ''ON''}"
  shows "is_keyword s"
  using assms is_keyword_word by (fastforce simp: starts_def peek_keyword_def)

lemma starts_before_as:
  assumes "starts ks ts" "set ks \<subseteq> {''WHERE'', ''GROUP'', ''LIMIT'', ''JOIN'', ''ON''}"
  shows "\<not> peek_keyword ''AS'' ts"
proof (rule starts_other [OF assms(1)])
  have "\<forall>l \<in> {''WHERE'', ''GROUP'', ''LIMIT'', ''JOIN'', ''ON''}. map ascii_upper l \<noteq> map ascii_upper ''AS''"
    by (simp add: ascii_upper_def)
  with assms(2) show "\<forall>l \<in> set ks. map ascii_upper l \<noteq> map ascii_upper ''AS''" by blast
qed

lemma starts_before_group: "starts [''LIMIT''] ts \<Longrightarrow> \<not> peek_keyword ''GROUP'' ts"
  by (erule starts_other) (simp add: ascii_upper_def)

lemma starts_before_where: "starts [''GROUP'', ''LIMIT''] ts \<Longrightarrow> \<not> peek_keyword ''WHERE'' ts"
  by (erule starts_other) (simp add: ascii_upper_def)

lemma starts_before_and: "starts [''GROUP'', ''LIMIT''] ts \<Longrightarrow> \<not> peek_keyword ''AND'' ts"
  by (erule starts_other) (simp add: ascii_upper_def)

lemma starts_before_join: "starts [''WHERE'', ''GROUP'', ''LIMIT''] ts \<Longrightarrow> \<not> peek_keyword ''JOIN'' ts"
  by (erule starts_other) (simp add: ascii_upper_def)

lemma clause_absent: "\<not> peek_keyword k ts \<Longrightarrow> clause k x body ts = Ok (x, ts)"
  by (simp add: clause_def)

lemma clause_present: "keyword_token k t \<Longrightarrow> clause k x body (t # ts) = body ts"
  by (simp add: clause_def peek_keyword_def)

section \<open>The clauses\<close>

lemma table_ref_before:
  assumes "g_table x pre" "starts ks rest" "set ks \<subseteq> {''WHERE'', ''GROUP'', ''LIMIT'', ''JOIN'', ''ON''}"
  shows "table_ref (pre @ rest) = Ok (x, rest)"
proof -
  have "\<not> peek_keyword ''AS'' rest" using assms(2,3) by (rule starts_before_as)
  moreover have "is_keyword s" if "rest = TIdent s # us" for s us
    using assms(2,3) unfolding that by (rule starts_is_keyword)
  ultimately show ?thesis using assms(1) by (intro iffD2 [OF table_ref_iff] exI [of _ pre]) blast
qed

lemma starts_on: "keyword_token k t \<Longrightarrow> starts [k] (t # ts)"
  by (simp add: starts_def peek_keyword_def)

lemma join_clause_complete:
  assumes "g_join j ts" "starts [''WHERE'', ''GROUP'', ''LIMIT''] rest"
  shows "join_clause (ts @ rest) = Ok (j, rest)"
proof (cases j)
  case None
  with assms starts_before_join show ?thesis
    by (simp add: g_join_def join_clause_def clause_absent)
next
  case (Some jn)
  with assms(1) obtain k ref on where ts: "keyword_token ''JOIN'' k" "g_table (pj_table jn, pj_alias jn) ref"
    "keyword_token ''ON'' on" "ts = k # ref @ [on, TIdent (pj_relation jn)]" by (auto simp: g_join_def)
  have "table_ref (ref @ on # TIdent (pj_relation jn) # rest) = Ok ((pj_table jn, pj_alias jn), on # TIdent (pj_relation jn) # rest)"
    using ts(2) by (rule table_ref_before [OF _ starts_on [OF ts(3)]]) simp
  with ts Some show ?thesis by (simp add: join_clause_def clause_present expect_keyword_def)
qed

lemma where_complete:
  assumes "g_where cs ts" "starts [''GROUP'', ''LIMIT''] rest"
  shows "clause ''WHERE'' [] conditions (ts @ rest) = Ok (cs, rest)"
proof -
  have "\<not> (rest \<noteq> [] \<and> keyword_token ''AND'' (hd rest))"
    using starts_before_and [OF assms(2)] by (simp add: peek_keyword_def)
  with assms starts_before_where [OF assms(2)] show ?thesis
    by (auto simp: g_where_def clause_absent clause_present conditions_iff)
qed

lemma group_clause_complete:
  assumes "g_group ns ts" "starts [''LIMIT''] rest"
  shows "group_clause (ts @ rest) = Ok (ns, rest)"
proof -
  have "\<not> (rest \<noteq> [] \<and> TComma = hd rest)"
    using starts_no_symbol [OF assms(2)] by (auto simp: peek_is_def)
  with assms starts_before_group [OF assms(2)] show ?thesis
    by (auto simp: g_group_def group_clause_def clause_absent clause_present ident_list_iff expect_keyword_def)
qed

lemma limit_clause_complete: "g_limit l ts \<Longrightarrow> limit_clause ts = Ok (l, [])"
  by (cases l) (auto simp: g_limit_def limit_clause_def clause_def peek_keyword_def limit_number_def)

lemma g_item_not_star: "g_item y ts \<Longrightarrow> \<not> peek_is TStar (ts @ us)"
  by (cases y) (auto simp: peek_is_def)

lemma separated_not_star: "separated sep g_item xs ts \<Longrightarrow> \<not> peek_is TStar (ts @ us)"
  by (induction arbitrary: us rule: separated.induct) (simp_all add: g_item_not_star)

lemma columns_complete:
  assumes "g_columns x pre" "starts [''FROM''] rest"
  shows "columns (pre @ rest) = Ok (x, rest)"
proof (cases x)
  case AllColumns
  with assms show ?thesis by (simp add: columns_def peek_is_def)
next
  case (NamedColumns items)
  have "\<not> (rest \<noteq> [] \<and> TComma = hd rest)" "\<not> peek_is TDot rest \<and> \<not> peek_is TLParen rest"
    using starts_no_symbol [OF assms(2)] by (auto simp: peek_is_def)
  with assms(1) NamedColumns have "column_items (pre @ rest) = Ok (items, rest)"
    unfolding column_items_iff by auto
  moreover have "\<not> peek_is TStar (pre @ rest)"
    using assms(1) separated_not_star unfolding NamedColumns g_columns.simps by blast
  ultimately show ?thesis by (simp add: columns_def NamedColumns)
qed

lemma clause_sound:
  assumes "clause k x body ts = Ok (y, rest)"
  shows "y = x \<and> rest = ts \<or> (\<exists>t us. keyword_token k t \<and> ts = t # us \<and> body us = Ok (y, rest))"
  using assms by (cases ts) (auto simp: clause_def peek_keyword_def split: if_splits)

lemma join_clause_sound: "join_clause ts = Ok (j, rest) \<Longrightarrow> \<exists>pre. ts = pre @ rest \<and> g_join j pre"
proof -
  assume "join_clause ts = Ok (j, rest)"
  from clause_sound [OF this [unfolded join_clause_def]] consider "j = None" "rest = ts"
    | (present) k us name al on r where "keyword_token ''JOIN'' k" "ts = k # us" "table_ref us = Ok ((name, al), on # TIdent r # rest)"
        "keyword_token ''ON'' on" "j = Some \<lparr>pj_table = name, pj_alias = al, pj_relation = r\<rparr>"
    by (auto simp: and_then_Ok_iff ident_iff expect_keyword_iff)
  then show ?thesis
  proof cases
    case 1
    then show ?thesis by (simp add: g_join_def)
  next
    case present
    then obtain pre where "us = pre @ on # TIdent r # rest" "g_table (name, al) pre" unfolding table_ref_iff by blast
    with present show ?thesis by (intro exI [of _ "k # pre @ [on, TIdent r]"]) (auto simp: g_join_def)
  qed
qed

lemma where_sound:
  "clause ''WHERE'' [] conditions ts = Ok (cs, rest) \<Longrightarrow> \<exists>pre. ts = pre @ rest \<and> g_where cs pre"
  by (drule clause_sound) (auto simp: conditions_iff g_where_def)

lemma group_clause_sound: "group_clause ts = Ok (ns, rest) \<Longrightarrow> \<exists>pre. ts = pre @ rest \<and> g_group ns pre"
  unfolding group_clause_def
  by (drule clause_sound) (auto simp: and_then_Ok_iff expect_keyword_iff ident_list_iff g_group_def)

lemma limit_clause_sound: "limit_clause ts = Ok (l, rest) \<Longrightarrow> \<exists>pre. ts = pre @ rest \<and> g_limit l pre"
  unfolding limit_clause_def
  by (drule clause_sound) (auto simp: and_then_Ok_iff limit_number_iff g_limit_def)

lemma columns_sound: "columns ts = Ok (x, rest) \<Longrightarrow> \<exists>pre. ts = pre @ rest \<and> g_columns x pre"
  by (cases ts) (auto simp: columns_def peek_is_def and_then_Ok_iff column_items_iff split: if_splits)

section \<open>A query\<close>

lemma g_queryI:
  assumes "keyword_token ''SELECT'' sel" "g_columns (pq_columns q) cols" "keyword_token ''FROM'' frm"
    "g_table (pq_table q, pq_alias q) ref" "g_join (pq_join q) join" "g_where (pq_conditions q) conds"
    "g_group (pq_group_by q) grp" "g_limit (pq_limit q) lim"
  shows "g_query q (sel # cols @ frm # ref @ join @ conds @ grp @ lim)"
  unfolding g_query_def using assms by blast

lemma all_read_iff: "(case ts of [] \<Rightarrow> r | t # us \<Rightarrow> Err (f t)) = Ok x \<longleftrightarrow> ts = [] \<and> r = Ok x"
  by (cases ts) simp_all

lemma parse_tokens_sound:
  assumes "parse_tokens ts = Ok q"
  shows "g_query q ts \<and> validate_qualifiers q = Ok ()"
proof -
  from assms obtain sel t1 cols t2 frm t3 name al t4 join t5 conds t6 grp t7 lim where
    p: "ts = sel # t1" "keyword_token ''SELECT'' sel" "columns t1 = Ok (cols, t2)" "t2 = frm # t3"
      "keyword_token ''FROM'' frm" "table_ref t3 = Ok ((name, al), t4)" "join_clause t4 = Ok (join, t5)"
      "clause ''WHERE'' [] conditions t5 = Ok (conds, t6)" "group_clause t6 = Ok (grp, t7)"
      "limit_clause t7 = Ok (lim, [])"
    and q: "q = \<lparr>pq_columns = cols, pq_table = name, pq_alias = al, pq_join = join,
                    pq_conditions = conds, pq_group_by = grp, pq_limit = lim\<rparr>" "validate_qualifiers q = Ok ()"
    unfolding parse_tokens_def and_then_Ok_iff
    by (auto simp: expect_keyword_iff and_then_Ok_iff Let_def all_read_iff)
  from columns_sound [OF p(3)] obtain c where "t1 = c @ t2" "g_columns cols c" by blast
  moreover from p(6) obtain r where "t3 = r @ t4" "g_table (name, al) r" unfolding table_ref_iff by blast
  moreover from join_clause_sound [OF p(7)] obtain j where "t4 = j @ t5" "g_join join j" by blast
  moreover from where_sound [OF p(8)] obtain w where "t5 = w @ t6" "g_where conds w" by blast
  moreover from group_clause_sound [OF p(9)] obtain g where "t6 = g @ t7" "g_group grp g" by blast
  moreover from limit_clause_sound [OF p(10)] have "g_limit lim t7" by simp
  ultimately have "g_query q (sel # c @ frm # r @ j @ w @ g @ t7)" "ts = sel # c @ frm # r @ j @ w @ g @ t7"
    using p(1,2,4,5) q(1) g_queryI [of sel q c frm r j w g t7] by simp_all
  with q(2) show ?thesis by simp
qed

lemma g_starts:
  "g_join j ts \<Longrightarrow> ts = [] \<or> peek_keyword ''JOIN'' ts"
  "g_where cs us \<Longrightarrow> us = [] \<or> peek_keyword ''WHERE'' us"
  "g_group ns vs \<Longrightarrow> vs = [] \<or> peek_keyword ''GROUP'' vs"
  "g_limit l ws \<Longrightarrow> ws = [] \<or> peek_keyword ''LIMIT'' ws"
  by (auto simp: g_join_def g_where_def g_group_def g_limit_def peek_keyword_def split: option.splits)

lemma parse_tokens_complete:
  assumes "g_query q ts" "validate_qualifiers q = Ok ()"
  shows "parse_tokens ts = Ok q"
proof -
  from assms(1) obtain sel cols frm ref join conds grp lim where
    q: "keyword_token ''SELECT'' sel" "g_columns (pq_columns q) cols" "keyword_token ''FROM'' frm"
      "g_table (pq_table q, pq_alias q) ref" "g_join (pq_join q) join" "g_where (pq_conditions q) conds"
      "g_group (pq_group_by q) grp" "g_limit (pq_limit q) lim"
    and ts: "ts = sel # cols @ frm # ref @ join @ conds @ grp @ lim"
    unfolding g_query_def by blast
  have l: "starts [''LIMIT''] lim" using starts_append [OF g_starts(4) [OF q(8)], of "[]" "[]"] by (simp add: starts_def)
  have g: "starts [''GROUP'', ''LIMIT''] (grp @ lim)" by (rule starts_append [OF g_starts(3) [OF q(7)] l])
  have w: "starts [''WHERE'', ''GROUP'', ''LIMIT''] (conds @ grp @ lim)"
    by (rule starts_append [OF g_starts(2) [OF q(6)] g])
  have j: "starts [''JOIN'', ''WHERE'', ''GROUP'', ''LIMIT''] (join @ conds @ grp @ lim)"
    by (rule starts_append [OF g_starts(1) [OF q(5)] w])
  have t: "table_ref (ref @ join @ conds @ grp @ lim) = Ok ((pq_table q, pq_alias q), join @ conds @ grp @ lim)"
    by (rule table_ref_before [OF q(4) j]) simp
  show ?thesis
    using q(1,3) columns_complete [OF q(2) starts_on [OF q(3)]] t join_clause_complete [OF q(5) w]
      where_complete [OF q(6) g] group_clause_complete [OF q(7) l] limit_clause_complete [OF q(8)] assms(2)
    by (cases q) (simp add: ts parse_tokens_def expect_keyword_def Let_def)
qed

lemma parse_iff: "parse s = Ok q \<longleftrightarrow> (\<exists>ts. spells ts s \<and> g_query q ts) \<and> validate_qualifiers q = Ok ()"
  unfolding parse_def and_then_Ok_iff tokenize_iff_spells using parse_tokens_sound parse_tokens_complete by blast

end
