(* ===== verification/Sql_Properties.thy ===== *)
theory Sql_Properties
  imports Sql_Grammar
begin

text \<open>
  The properties of the SQL front end. The concrete queries of the witnesses go through the
  tokenizer and the parser themselves.
\<close>

section \<open>The parser is the grammar\<close>

text \<open>C6. The parser accepts exactly the documented language: a text parses to a query if and only if
  its characters spell tokens (white space between them free, each token as long as it can be) that
  the grammar derives from that query, keywords in any case, and the query passes the qualifier
  rules. So no derivable text is refused, none outside the grammar is accepted, and none has two
  readings.\<close>

theorem sql_parser_exact:
  "parse s = Ok q \<longleftrightarrow> (\<exists>ts. spells ts s \<and> g_query q ts) \<and> validate_qualifiers q = Ok ()"
  by (rule parse_iff)

section \<open>Qualifiers\<close>

definition used_qualifiers :: "parsed_query \<Rightarrow> string set" where
  "used_qualifiers q =
     {a. \<exists>n. Qualified a n \<in> set (named_items q)} \<union> {a. \<exists>c \<in> set (pq_conditions q). pc_qualifier c = Some a}"

lemma accepted_qualifiers:
  assumes "validate_qualifiers q = Ok ()" "a \<in> used_qualifiers q"
  shows "names_it (left_names q) a \<longleftrightarrow> \<not> names_it (right_names q) a"
proof -
  have "check_qualifier q a = Ok ()"
    using assms
    by (fastforce simp: used_qualifiers_def validate_qualifiers_def and_then_Ok_iff check_all_Ok_iff check_item_def
        check_condition_def)
  then show ?thesis by (auto simp: check_qualifier_def split: bool.splits)
qed

lemma accepted_join:
  assumes "validate_qualifiers q = Ok ()" "pq_join q \<noteq> None"
  shows "pq_group_by q = []" "item \<in> set (named_items q) \<Longrightarrow> \<exists>a n. item = Qualified a n"
    "c \<in> set (pq_conditions q) \<Longrightarrow> \<exists>a. pc_qualifier c = Some a"
proof -
  from assms have j: "check_join q = Ok ()" "\<forall>x \<in> set (named_items q). check_item q x = Ok ()"
    "\<forall>c \<in> set (pq_conditions q). check_condition q c = Ok ()"
    by (auto simp: validate_qualifiers_def and_then_Ok_iff check_all_Ok_iff)
  show "pq_group_by q = []" using j(1) assms(2) by (auto simp: check_join_def split: if_splits)
  have agg: "\<not> is_aggregate_item item" if "item \<in> set (named_items q)"
    using j(1) assms(2) that by (auto simp: check_join_def list_ex_iff split: if_splits)
  show "\<exists>a n. item = Qualified a n" if "item \<in> set (named_items q)"
    using j(2) assms(2) agg that by (cases item) (auto simp: check_item_def)
  show "\<exists>a. pc_qualifier c = Some a" if "c \<in> set (pq_conditions q)"
    using j(3) assms(2) that by (auto simp: check_condition_def split: option.splits)
qed

text \<open>C35. A query that joins a table with itself and gives an alias only to the right side cannot name
  the left side: the table's name is refused as ambiguous although the aliases differ, so every
  qualifier of an accepted query is the right alias.\<close>

theorem unaliased_self_join_hides_left:
  assumes "parse s = Ok q" "pq_join q = Some j" "pq_alias q = None"
    and "eq_ignore_case (pj_table j) (pq_table q)" "a \<in> used_qualifiers q"
  shows "\<not> names_it (left_names q) a \<and> names_it (right_names q) a"
proof -
  have v: "validate_qualifiers q = Ok ()" using assms(1) by (simp add: parse_iff)
  have "names_it (right_names q) a" if "names_it (left_names q) a"
    using that assms(2-4) by (auto simp: names_it_def left_names_def right_names_def eq_ignore_case_def)
  with accepted_qualifiers [OF v assms(5)] show ?thesis by blast
qed

definition self_join_text :: string where
  "self_join_text = ''SELECT b.x FROM t JOIN t b ON r''"

lemma unaliased_self_join_hides_left_witness:
  "\<exists>q. parse self_join_text = Ok q \<and> \<not> names_it (left_names q) ''b'' \<and>
     parse ''SELECT t.x FROM t JOIN t b ON r'' = Err (AmbiguousQualifiers ''t'')"
proof -
  let ?q = "\<lparr>pq_columns = NamedColumns [Qualified ''b'' ''x''], pq_table = ''t'', pq_alias = None,
    pq_join = Some \<lparr>pj_table = ''t'', pj_alias = Some ''b'', pj_relation = ''r''\<rparr>, pq_conditions = [],
    pq_group_by = [], pq_limit = None\<rparr>"
  have p: "parse self_join_text = Ok ?q" by code_simp
  have e: "parse ''SELECT t.x FROM t JOIN t b ON r'' = Err (AmbiguousQualifiers ''t'')" by code_simp
  show ?thesis
    using unaliased_self_join_hides_left [OF p, of "\<lparr>pj_table = ''t'', pj_alias = Some ''b'', pj_relation = ''r''\<rparr>" "''b''"] p e
    by (auto simp: used_qualifiers_def named_items_def)
qed

end
