(* ===== verification/Rate_Laws.thy ===== *)
theory Rate_Laws
  imports Rate_Limit
begin

text \<open>
  The failure table never outgrows its bound, refuses a peer only for that peer's own recent
  failures, and, until it has to evict, keeps for each peer exactly what a table of that peer alone
  would.
\<close>

section \<open>Bounds\<close>

definition table_ok :: "'ip failure_table \<Rightarrow> bool" where
  "table_ok T \<longleftrightarrow> hm_wf (ft_peers T) \<and> length (ft_peers T) \<le> MAX_TRACKED_PEERS"

lemma oldest_peer_mem: "oldest_peer ws = Some p \<Longrightarrow> p \<in> fst ` set ws"
  by (induction ws arbitrary: p rule: oldest_peer.induct) (auto split: option.splits if_splits)

lemma oldest_peer_None: "oldest_peer ws = None \<longleftrightarrow> ws = []"
  by (cases ws rule: oldest_peer.cases) (auto split: option.splits)

lemma length_delete_less: "p \<in> fst ` set ws \<Longrightarrow> length (AList.delete p ws) < length ws"
proof (induction ws)
  case (Cons x ws)
  then show ?case
    using AList.length_delete_le [of p ws] by (cases "fst x = p") auto
qed simp

lemma hm_wf_filter: "hm_wf ws \<Longrightarrow> hm_wf (filter P ws)"
  by (simp add: hm_wf_def distinct_map_filter)

lemma make_room_ok:
  assumes "hm_wf peers" "length peers \<le> MAX_TRACKED_PEERS"
  shows "hm_wf (make_room w now peers)" and "length (make_room w now peers) < MAX_TRACKED_PEERS"
proof -
  let ?kept = "filter (\<lambda>(p, v). now - wn_started v < w) peers"
  have kept: "hm_wf ?kept" "length ?kept \<le> MAX_TRACKED_PEERS"
    using assms hm_wf_filter length_filter_le [of _ peers] order_trans by blast+
  show "hm_wf (make_room w now peers)"
    using assms kept by (auto simp: make_room_def Let_def split: option.splits)
  show "length (make_room w now peers) < MAX_TRACKED_PEERS"
  proof (cases "MAX_TRACKED_PEERS \<le> length peers \<and> MAX_TRACKED_PEERS \<le> length ?kept")
    case True
    then have "?kept \<noteq> []" by (auto simp: MAX_TRACKED_PEERS_def)
    then obtain p where p: "oldest_peer ?kept = Some p" using oldest_peer_None by blast
    from length_delete_less [OF oldest_peer_mem [OF p]] kept(2) p True show ?thesis
      by (simp add: make_room_def Let_def)
  next
    case False
    with assms(2) show ?thesis by (auto simp: make_room_def Let_def)
  qed
qed

lemma make_room_id: "length peers < MAX_TRACKED_PEERS \<Longrightarrow> make_room w now peers = peers"
  by (simp add: make_room_def)

lemma map_of_make_room:
  assumes "hm_wf peers"
  shows "map_of (make_room w now peers) p = Some v \<Longrightarrow> map_of peers p = Some v"
proof -
  have filt: "map_of (filter P peers) p = Some v \<Longrightarrow> map_of peers p = Some v" for P
    using assms unfolding hm_wf_def
    by (metis filter_is_subset map_of_SomeD map_of_is_SomeI subsetD)
  show "map_of (make_room w now peers) p = Some v \<Longrightarrow> map_of peers p = Some v"
    by (auto simp: make_room_def Let_def delete_conv' split: if_splits option.splits intro: filt)
qed

lemma length_update: "length (AList.update k v ws) = (if k \<in> fst ` set ws then length ws else Suc (length ws))"
  by (induction ws) auto

lemma note_failure_ok:
  assumes "table_ok T"
  shows "table_ok (snd (note_failure T now peer))"
proof (cases "map_of (ft_peers T) peer")
  case None
  from assms have ok: "hm_wf (ft_peers T)" "length (ft_peers T) \<le> MAX_TRACKED_PEERS"
    by (simp_all add: table_ok_def)
  from None make_room_ok [OF ok, of "rl_window (ft_limit T)" now] show ?thesis
    by (auto simp: table_ok_def note_failure_def Let_def length_update)
next
  case (Some w)
  then have "peer \<in> fst ` set (ft_peers T)" by (metis domI dom_map_of_conv_image_fst)
  with Some assms show ?thesis by (auto simp: table_ok_def note_failure_def Let_def length_update)
qed

lemma note_failure_limit [simp]: "ft_limit (snd (note_failure T now peer)) = ft_limit T"
  by (simp add: note_failure_def Let_def)

text \<open>A run of failures, each at its time.\<close>

definition fail_run :: "'ip failure_table \<Rightarrow> (nat \<times> 'ip) list \<Rightarrow> 'ip failure_table" where
  "fail_run T es = foldl (\<lambda>T (now, peer). snd (note_failure T now peer)) T es"

lemma fail_run_snoc: "fail_run T (es @ [(now, p)]) = snd (note_failure (fail_run T es) now p)"
  by (simp add: fail_run_def)

lemma fail_run_limit [simp]: "ft_limit (fail_run T es) = ft_limit T"
proof (induction es rule: rev_induct)
  case (snoc e es)
  then show ?case by (cases e) (simp add: fail_run_snoc)
qed (simp add: fail_run_def)

lemma fail_run_ok: "table_ok T \<Longrightarrow> table_ok (fail_run T es)"
proof (induction es rule: rev_induct)
  case (snoc e es)
  then show ?case by (cases e) (simp add: fail_run_snoc note_failure_ok)
qed (simp add: fail_run_def)

lemma new_table_ok [simp]: "table_ok (new_table limit)"
  by (simp add: table_ok_def new_table_def)

section \<open>What one peer's failures make of its window\<close>

definition peer_step :: "nat \<Rightarrow> window option \<Rightarrow> nat \<Rightarrow> window option" where
  "peer_step window w now =
     Some (case w of
       None \<Rightarrow> \<lparr>wn_started = now, wn_failures = 1\<rparr>
     | Some w \<Rightarrow> if window \<le> now - wn_started w then \<lparr>wn_started = now, wn_failures = 1\<rparr>
                else w\<lparr>wn_failures := wn_failures w + 1\<rparr>)"

definition peer_window :: "nat \<Rightarrow> nat list \<Rightarrow> window option" where
  "peer_window window ts = foldl (peer_step window) None ts"

definition times_of :: "'ip \<Rightarrow> (nat \<times> 'ip) list \<Rightarrow> nat list" where
  "times_of p es = map fst (filter (\<lambda>e. snd e = p) es)"

lemma note_failure_self:
  assumes "table_ok T"
  shows "map_of (ft_peers (snd (note_failure T now p))) p = peer_step (rl_window (ft_limit T)) (map_of (ft_peers T) p) now"
  by (auto simp: note_failure_def Let_def peer_step_def update_conv' split: option.splits)

lemma note_failure_other:
  assumes "table_ok T" "q \<noteq> p"
  shows "map_of (ft_peers (snd (note_failure T now p))) q = Some w \<Longrightarrow> map_of (ft_peers T) q = Some w"
  using assms map_of_make_room
  by (auto simp: note_failure_def Let_def update_conv' table_ok_def split: option.splits)

lemma note_failure_other_roomy:
  assumes "q \<noteq> p" "map_of (ft_peers T) p \<noteq> None \<or> length (ft_peers T) < MAX_TRACKED_PEERS"
  shows "map_of (ft_peers (snd (note_failure T now p))) q = map_of (ft_peers T) q"
  using assms by (auto simp: note_failure_def Let_def update_conv' make_room_id split: option.splits)

lemma fail_run_peers: "fst ` set (ft_peers (fail_run (new_table limit) es)) \<subseteq> snd ` set es"
proof (induction es rule: rev_induct)
  case Nil
  then show ?case by (simp add: fail_run_def new_table_def)
next
  case (snoc e es)
  obtain now p where e: "e = (now, p)" by (cases e)
  let ?T = "fail_run (new_table limit) es"
  have ok: "table_ok ?T" by (simp add: fail_run_ok)
  have "q \<in> snd ` set (es @ [e])" if q: "q \<in> fst ` set (ft_peers (snd (note_failure ?T now p)))" for q
  proof (cases "q = p")
    case False
    from q obtain w where "map_of (ft_peers (snd (note_failure ?T now p))) q = Some w"
      by (metis domD dom_map_of_conv_image_fst)
    from note_failure_other [OF ok False this] have "q \<in> fst ` set (ft_peers ?T)"
      by (metis domI dom_map_of_conv_image_fst)
    with snoc show ?thesis by auto
  qed (simp add: e)
  then show ?case by (auto simp: e fail_run_snoc)
qed

lemma fail_run_exact:
  assumes "card (snd ` set es) \<le> MAX_TRACKED_PEERS"
  shows "map_of (ft_peers (fail_run (new_table limit) es)) q = peer_window (rl_window limit) (times_of q es)"
  using assms
proof (induction es rule: rev_induct)
  case Nil
  then show ?case by (simp add: fail_run_def new_table_def times_of_def peer_window_def)
next
  case (snoc e es)
  obtain now p where e: "e = (now, p)" by (cases e)
  let ?T = "fail_run (new_table limit) es"
  have ok: "table_ok ?T" by (simp add: fail_run_ok)
  have IH: "map_of (ft_peers ?T) q = peer_window (rl_window limit) (times_of q es)"
  proof (rule snoc.IH)
    have "card (snd ` set es) \<le> card (snd ` set (es @ [e]))" by (rule card_mono) auto
    with snoc.prems show "card (snd ` set es) \<le> MAX_TRACKED_PEERS" by simp
  qed
  have lim: "ft_limit ?T = limit" by (simp add: new_table_def)
  show ?case
  proof (cases "q = p")
    case True
    then have "times_of q (es @ [e]) = times_of q es @ [now]" by (simp add: e times_of_def)
    with note_failure_self [OF ok, of now p] IH lim True show ?thesis
      by (simp add: e fail_run_snoc peer_window_def)
  next
    case False
    then have same: "times_of q (es @ [e]) = times_of q es" by (simp add: e times_of_def)
    have room: "map_of (ft_peers ?T) p \<noteq> None \<or> length (ft_peers ?T) < MAX_TRACKED_PEERS"
    proof (rule disjCI)
      assume "\<not> length (ft_peers ?T) < MAX_TRACKED_PEERS"
      moreover have len: "card (fst ` set (ft_peers ?T)) = length (ft_peers ?T)"
        using ok distinct_card [of "map fst (ft_peers ?T)"] by (simp add: table_ok_def hm_wf_def)
      moreover have sub: "fst ` set (ft_peers ?T) \<subseteq> snd ` set (es @ [e])"
        using fail_run_peers [of limit es] by auto
      ultimately have "fst ` set (ft_peers ?T) = snd ` set (es @ [e])"
        using snoc.prems card_mono [OF _ sub] by (intro card_subset_eq) auto
      then have "p \<in> fst ` set (ft_peers ?T)" by (simp add: e)
      then show "map_of (ft_peers ?T) p \<noteq> None" by (simp add: map_of_eq_None_iff)
    qed
    from note_failure_other_roomy [OF False room] IH same show ?thesis by (simp add: e fail_run_snoc)
  qed
qed

section \<open>Refused only for one's own failures\<close>

lemma fail_run_counts:
  assumes "sorted (map fst es)" "map_of (ft_peers (fail_run (new_table limit) es)) q = Some w"
  shows "unat (wn_failures w) \<le> length (filter (\<lambda>t. wn_started w \<le> t) (times_of q es)) \<and> wn_started w \<in> set (times_of q es)"
  using assms
proof (induction es arbitrary: w rule: rev_induct)
  case Nil
  then show ?case by (simp add: fail_run_def new_table_def)
next
  case (snoc e es)
  obtain now p where e: "e = (now, p)" by (cases e)
  let ?T = "fail_run (new_table limit) es"
  have ok: "table_ok ?T" by (simp add: fail_run_ok)
  have mono: "sorted (map fst es)" "\<forall>t \<in> set (times_of q es). t \<le> now"
    using snoc.prems(1) by (auto simp: e sorted_append times_of_def)
  note IH = snoc.IH [OF mono(1)]
  have run: "map_of (ft_peers (snd (note_failure ?T now p))) q = Some w"
    using snoc.prems(2) by (simp add: e fail_run_snoc)
  show ?case
  proof (cases "q = p")
    case False
    from IH [OF note_failure_other [OF ok False run]] False show ?thesis by (simp add: e times_of_def)
  next
    case True
    with note_failure_self [OF ok, of now p] run have
      st: "peer_step (rl_window limit) (map_of (ft_peers ?T) q) now = Some w" by (simp add: new_table_def)
    have ts: "times_of q (es @ [e]) = times_of q es @ [now]" using True by (simp add: e times_of_def)
    have suc: "unat (v + 1) \<le> Suc (unat v)" for v :: u32
      by (simp add: unat_word_ariths)
    show ?thesis
    proof (cases "map_of (ft_peers ?T) q")
      case None
      with st have "w = \<lparr>wn_started = now, wn_failures = 1\<rparr>" by (simp add: peer_step_def)
      then show ?thesis by (simp add: ts)
    next
      case (Some v)
      note old = IH [OF Some]
      show ?thesis
      proof (cases "rl_window limit \<le> now - wn_started v")
        case True
        with st Some have "w = \<lparr>wn_started = now, wn_failures = 1\<rparr>" by (simp add: peer_step_def)
        then show ?thesis by (simp add: ts)
      next
        case False
        with st Some have w: "w = v\<lparr>wn_failures := wn_failures v + 1\<rparr>" by (simp add: peer_step_def)
        from old mono(2) have "wn_started v \<le> now" by blast
        with old suc [of "wn_failures v"] show ?thesis by (auto simp: w ts)
      qed
    qed
  qed
qed

end
