(* ===== verification/Framing.thy ===== *)
theory Framing
  imports Bytes
begin

text \<open>
  \<open>src/server/framing.rs\<close>: length-prefixed frames over a byte stream. The encoding of a message
  (\<open>src/codec.rs\<close>, the \<open>bincode\<close> crate) is a parameter: an encoder that may fail and a decoder that
  may refuse. A write appends to a buffer that takes every byte; a stream that ends too soon is the
  I/O error of a closed peer.
\<close>

section \<open>Frames\<close>

definition MAX_FRAME_BYTES :: u32 where
  "MAX_FRAME_BYTES = 16 * 1024 * 1024"

text \<open>
  \<open>FrameError\<close>, with the I/O errors split by what the client's \<open>peer_closed\<close> asks of them: the peer
  closed the stream (an unexpected end of file among them), or anything else.
\<close>

datatype frame_error = PeerClosed | FrameFailed string | FrameTooLarge u32 | FrameEncoding

text \<open>\<open>u32::try_from(len).unwrap_or(u32::MAX)\<close>.\<close>

definition payload_len :: "byte list \<Rightarrow> u32" where
  "payload_len payload = (if length payload < 2 ^ 32 then of_nat (length payload) else 0xffffffff)"

definition write_message :: "('m \<Rightarrow> byte list option) \<Rightarrow> byte list \<Rightarrow> 'm \<Rightarrow> frame_error + byte list" where
  "write_message enc w msg =
     and_then (ok_or FrameEncoding (enc msg)) (\<lambda>payload.
       let len = payload_len payload
       in if MAX_FRAME_BYTES < len then Err (FrameTooLarge len)
          else Ok (w @ le_bytes 4 len @ payload))"

definition read_exact :: "nat \<Rightarrow> byte list \<Rightarrow> frame_error + byte list \<times> byte list" where
  "read_exact n r = (if length r < n then Err PeerClosed else Ok (take n r, drop n r))"

definition read_message :: "(byte list \<Rightarrow> 'm option) \<Rightarrow> byte list \<Rightarrow> frame_error + 'm \<times> byte list" where
  "read_message dec r =
     and_then (read_exact 4 r) (\<lambda>(len_buf, r).
       let len = le_word len_buf :: u32
       in if MAX_FRAME_BYTES < len then Err (FrameTooLarge len)
          else and_then (read_exact (unat len) r) (\<lambda>(buf, r).
                 map_ok (\<lambda>msg. (msg, r)) (ok_or FrameEncoding (dec buf))))"

section \<open>Which messages fit\<close>

definition frame_fits :: "('m \<Rightarrow> byte list option) \<Rightarrow> 'm \<Rightarrow> bool" where
  "frame_fits enc msg = (case enc msg of None \<Rightarrow> False | Some payload \<Rightarrow> length payload \<le> 16777216)"

definition decodes :: "('m \<Rightarrow> byte list option) \<Rightarrow> (byte list \<Rightarrow> 'm option) \<Rightarrow> bool" where
  "decodes enc dec \<longleftrightarrow> (\<forall>msg payload. enc msg = Some payload \<longrightarrow> dec payload = Some msg)"

lemma payload_len_fits:
  "MAX_FRAME_BYTES < payload_len p \<longleftrightarrow> 16777216 < length p"
  by (auto simp: payload_len_def MAX_FRAME_BYTES_def word_less_nat_alt unat_of_nat take_bit_nat_eq_self)

lemma unat_payload_len: "length p \<le> 16777216 \<Longrightarrow> unat (payload_len p) = length p"
  by (simp add: payload_len_def unat_of_nat take_bit_nat_eq_self)

lemma write_message_fits:
  assumes "frame_fits enc msg"
  obtains payload where "enc msg = Some payload" "length payload \<le> 16777216"
    "write_message enc w msg = Ok (w @ le_bytes 4 (payload_len payload) @ payload)"
proof -
  from assms obtain payload where p: "enc msg = Some payload" "length payload \<le> 16777216"
    by (auto simp: frame_fits_def split: option.splits)
  then have "\<not> MAX_FRAME_BYTES < payload_len payload" by (simp add: payload_len_fits)
  with p that show thesis by (simp add: write_message_def ok_or_def Let_def)
qed

lemma write_message_refuses:
  "write_message enc w msg = Err e \<longleftrightarrow>
     (case enc msg of None \<Rightarrow> e = FrameEncoding
      | Some payload \<Rightarrow> 16777216 < length payload \<and> e = FrameTooLarge (payload_len payload))"
  by (auto simp: write_message_def ok_or_def Let_def payload_len_fits split: option.splits)

lemma write_message_ok_iff: "(\<exists>bs. write_message enc w msg = Ok bs) \<longleftrightarrow> frame_fits enc msg"
  by (auto simp: write_message_def frame_fits_def ok_or_def Let_def payload_len_fits split: option.splits)

lemma read_exact_append: "length xs = n \<Longrightarrow> read_exact n (xs @ r) = Ok (xs, r)"
  by (simp add: read_exact_def)

lemma read_frame:
  assumes "length payload \<le> 16777216"
  shows "read_message dec (le_bytes 4 (payload_len payload) @ payload @ r) =
     map_ok (\<lambda>msg. (msg, r)) (ok_or FrameEncoding (dec payload))"
proof -
  have "\<not> MAX_FRAME_BYTES < payload_len payload" using assms by (simp add: payload_len_fits)
  moreover have "(le_word (le_bytes 4 (payload_len payload)) :: u32) = payload_len payload"
    by (simp add: le_word_le_bytes_full)
  moreover have "read_exact (unat (payload_len payload)) (payload @ r) = Ok (payload, r)"
    using assms by (intro read_exact_append) (simp add: unat_payload_len)
  ultimately show ?thesis
    by (simp add: read_message_def read_exact_append Let_def)
qed

lemma read_written:
  assumes "decodes enc dec" "write_message enc [] msg = Ok frame"
  shows "read_message dec (frame @ r) = Ok (msg, r)"
proof -
  have "frame_fits enc msg" using write_message_ok_iff [of enc "[]" msg] assms(2) by auto
  then obtain payload where p: "enc msg = Some payload" "length payload \<le> 16777216"
    "write_message enc [] msg = Ok ([] @ le_bytes 4 (payload_len payload) @ payload)"
    by (rule write_message_fits)
  then have "frame = le_bytes 4 (payload_len payload) @ payload" using assms(2) by simp
  with assms(1) p(1,2) show ?thesis by (simp add: decodes_def read_frame)
qed

lemma read_torn:
  assumes "length payload \<le> 16777216" "k < 4 + length payload"
  shows "read_message dec (take k (le_bytes 4 (payload_len payload) @ payload)) = Err PeerClosed"
proof (cases "k < 4")
  case True
  then have "read_exact 4 (take k (le_bytes 4 (payload_len payload) @ payload)) = Err PeerClosed"
    by (simp add: read_exact_def)
  then show ?thesis by (simp only: read_message_def and_then_simps)
next
  case False
  have "\<not> MAX_FRAME_BYTES < payload_len payload" using assms(1) by (simp add: payload_len_fits)
  moreover have "take k (le_bytes 4 (payload_len payload) @ payload) = le_bytes 4 (payload_len payload) @ take (k - 4) payload"
    using False by simp
  moreover have "read_exact (unat (payload_len payload)) (take (k - 4) payload) = Err PeerClosed"
    using assms False by (simp add: read_exact_def unat_payload_len)
  ultimately show ?thesis
    by (simp add: read_message_def read_exact_append le_word_le_bytes_full Let_def)
qed

section \<open>Streams of frames\<close>

fun write_messages :: "('m \<Rightarrow> byte list option) \<Rightarrow> byte list \<Rightarrow> 'm list \<Rightarrow> frame_error + byte list" where
  "write_messages enc w [] = Ok w"
| "write_messages enc w (m # ms) = and_then (write_message enc w m) (\<lambda>w. write_messages enc w ms)"

fun read_messages :: "(byte list \<Rightarrow> 'm option) \<Rightarrow> nat \<Rightarrow> byte list \<Rightarrow> frame_error + 'm list \<times> byte list" where
  "read_messages dec 0 r = Ok ([], r)"
| "read_messages dec (Suc n) r =
     and_then (read_message dec r) (\<lambda>(m, r). map_ok (\<lambda>(ms, r). (m # ms, r)) (read_messages dec n r))"

lemma write_message_prefix: "write_message enc w msg = map_ok ((@) w) (write_message enc [] msg)"
  by (cases "enc msg") (simp_all add: write_message_def ok_or_def Let_def)

lemma write_messages_read:
  assumes "decodes enc dec" "\<forall>m \<in> set ms. frame_fits enc m"
  shows "\<exists>bs. write_messages enc w ms = Ok (w @ bs) \<and> read_messages dec (length ms) (bs @ r) = Ok (ms, r)"
  using assms(2)
proof (induction ms arbitrary: w)
  case (Cons m ms)
  then obtain f where f: "write_message enc [] m = Ok f" using write_message_ok_iff [of enc "[]" m] by auto
  then have "write_message enc w m = Ok (w @ f)" by (subst write_message_prefix) simp
  moreover from Cons.IH [of "w @ f"] Cons.prems obtain bs where
    "write_messages enc (w @ f) ms = Ok ((w @ f) @ bs)" "read_messages dec (length ms) (bs @ r) = Ok (ms, r)" by auto
  ultimately show ?case
    using read_written [OF assms(1) f, of "bs @ r"] by (intro exI [of _ "f @ bs"]) simp
qed simp

text \<open>C36. The framing of the connection. Messages written one after the other, each of which encodes to at
  most 16 MiB, read back as exactly those messages in order and leave what follows them unread. A
  message that encodes to more is refused with its length and adds no byte to the stream; a frame
  cut short anywhere, in its prefix or in its payload, is an I/O error and never another message;
  and a length prefix above the bound is refused whatever follows it, before any of it is read.\<close>

theorem frames_roundtrip:
  assumes "decodes enc dec" and "\<forall>m \<in> set ms. frame_fits enc m"
    and "enc big = Some p" "16777216 < length p" and "MAX_FRAME_BYTES < n"
  shows "\<exists>bs. write_messages enc [] ms = Inr bs \<and> read_messages dec (length ms) (bs @ rest) = Inr (ms, rest) \<and>
     write_message enc bs big = Inl (FrameTooLarge (payload_len p)) \<and>
     (\<forall>m \<in> set ms. \<exists>frame. write_message enc [] m = Inr frame \<and>
        (\<forall>k < length frame. read_message dec (take k frame) = Inl PeerClosed)) \<and>
     read_message dec (le_bytes 4 n @ rest) = Inl (FrameTooLarge n)"
proof -
  from write_messages_read [OF assms(1,2), of "[]" rest] obtain bs where
    bs: "write_messages enc [] ms = Inr bs" "read_messages dec (length ms) (bs @ rest) = Inr (ms, rest)" by auto
  have torn: "\<exists>frame. write_message enc [] m = Inr frame \<and> (\<forall>k < length frame. read_message dec (take k frame) = Inl PeerClosed)"
    if m: "m \<in> set ms" for m
  proof -
    from m assms(2) have "frame_fits enc m" by blast
    then obtain payload where "length payload \<le> 16777216"
      "write_message enc [] m = Inr ([] @ le_bytes 4 (payload_len payload) @ payload)"
      by (rule write_message_fits)
    then show ?thesis using read_torn [of payload _ dec] by auto
  qed
  have "read_message dec (le_bytes 4 n @ rest) = Inl (FrameTooLarge n)"
    using assms(5) by (simp add: read_message_def read_exact_append le_word_le_bytes_full Let_def)
  moreover have "write_message enc bs big = Inl (FrameTooLarge (payload_len p))"
    using assms(3,4) by (simp add: write_message_refuses)
  ultimately show ?thesis using bs torn by blast
qed

text \<open>A codec to instantiate the parameter with: a number as that many bytes.\<close>

definition unary :: "nat \<Rightarrow> byte list option" where
  "unary n = Some (replicate n 1)"

theorem frames_roundtrip_witness:
  "\<exists>bs. write_messages unary [] [2, 0] = Inr bs \<and>
     read_messages (\<lambda>p. Some (length p)) 2 (bs @ [9]) = Inr ([2, 0], [9]) \<and>
     write_message unary bs 16777217 = Inl (FrameTooLarge 16777217) \<and>
     read_message (\<lambda>p. Some (length p)) (le_bytes 4 (0xffffffff :: u32) @ [9]) = Inl (FrameTooLarge 0xffffffff)"
proof -
  define N :: nat where "N = 16777217"
  have "decodes unary (\<lambda>p. Some (length p))" by (auto simp: decodes_def unary_def)
  moreover have "\<forall>m \<in> set [2, 0]. frame_fits unary m" by (simp add: frame_fits_def unary_def)
  moreover have "unary N = Some (replicate N 1)" by (simp only: unary_def)
  moreover have "16777216 < length (replicate N (1 :: byte))" unfolding length_replicate by (simp add: N_def)
  moreover have "MAX_FRAME_BYTES < 0xffffffff" by (simp add: MAX_FRAME_BYTES_def)
  moreover have len: "length [2, 0 :: nat] = 2" by simp
  ultimately have "\<exists>bs. write_messages unary [] [2, 0] = Inr bs \<and>
     read_messages (\<lambda>p. Some (length p)) 2 (bs @ [9]) = Inr ([2, 0], [9]) \<and>
     write_message unary bs N = Inl (FrameTooLarge (payload_len (replicate N 1))) \<and>
     read_message (\<lambda>p. Some (length p)) (le_bytes 4 (0xffffffff :: u32) @ [9]) = Inl (FrameTooLarge 0xffffffff)"
    using frames_roundtrip [of unary "\<lambda>p. Some (length p)" "[2, 0]" N "replicate N 1" "0xffffffff" "[9]"] unfolding len by blast
  moreover have "payload_len (replicate N 1) = 16777217"
    unfolding payload_len_def length_replicate by (simp add: N_def)
  ultimately show ?thesis unfolding N_def by (simp only:)
qed

end
