(* ===== verification/Connection.thy ===== *)
theory Connection
  imports Audit_Log Rate_Laws Framing
begin

text \<open>
  \<open>handle_connection\<close> of \<open>src/server/serve.rs\<close>: the state one connection keeps between frames, the
  gates a request passes (negotiation, authentication, permission class), and the session requests.
  A request is taken after its frame was decoded; \<open>None\<close> is a panic of the connection's thread.
\<close>

unbundle bit_operations_syntax

section \<open>\<open>ServeOptions\<close>\<close>

record serve_options =
  so_read_only_token :: "string option"
  so_read_write_token :: "string option"
  so_certificate_classes :: "(byte list \<times> token_class) list"

definition is_configured :: "serve_options \<Rightarrow> bool" where
  "is_configured opts \<longleftrightarrow> so_read_only_token opts \<noteq> None \<or> so_read_write_token opts \<noteq> None \<or>
     so_certificate_classes opts \<noteq> []"

definition class_for_certificate :: "serve_options \<Rightarrow> byte list \<Rightarrow> token_class option" where
  "class_for_certificate opts leaf =
     map_option snd (List.find (\<lambda>c. fst c = leaf) (so_certificate_classes opts))"

text \<open>Both slots are compared; the read-only one is looked at last and wins.\<close>

definition check_token :: "serve_options \<Rightarrow> string \<Rightarrow> token_class option" where
  "check_token opts token =
     (let result = (if so_read_write_token opts = Some token then Some ReadWrite else None)
      in if so_read_only_token opts = Some token then Some ReadOnly else result)"

definition is_throttled :: "'ip failure_table option \<Rightarrow> nat \<Rightarrow> 'ip option \<Rightarrow> bool" where
  "is_throttled limits now peer =
     (case (limits, peer) of (Some T, Some p) \<Rightarrow> table_throttled T now p | _ \<Rightarrow> False)"

definition note_peer_failure :: "'ip failure_table option \<Rightarrow> nat \<Rightarrow> 'ip option \<Rightarrow> 'ip failure_table option" where
  "note_peer_failure limits now peer =
     (case (limits, peer) of (Some T, Some p) \<Rightarrow> Some (snd (note_failure T now p)) | _ \<Rightarrow> limits)"

section \<open>The state of a connection\<close>

type_synonym read_set = "(record_id \<times> field_ref, scan_value) hash_map"

record conn =
  cn_authenticated :: "token_class option"
  cn_first_frame :: bool
  cn_negotiated :: nat
  cn_table :: nat
  cn_session :: "transaction_op list option"
  cn_read_your_writes :: "field_ref list option"
  cn_validate_on_stage :: bool
  cn_snapshot_reads :: "read_set option"
  cn_failures :: nat

definition initial_class :: "serve_options \<Rightarrow> token_class option \<Rightarrow> token_class option" where
  "initial_class opts certificate_class =
     (case (certificate_class, is_configured opts) of
        (Some class, _) \<Rightarrow> Some class
      | (None, False) \<Rightarrow> Some ReadWrite
      | (None, True) \<Rightarrow> None)"

definition initial_conn :: "serve_options \<Rightarrow> token_class option \<Rightarrow> nat \<Rightarrow> conn" where
  "initial_conn opts certificate_class primary =
     \<lparr>cn_authenticated = initial_class opts certificate_class, cn_first_frame = True, cn_negotiated = 1,
      cn_table = primary, cn_session = None, cn_read_your_writes = None, cn_validate_on_stage = False,
      cn_snapshot_reads = None, cn_failures = 0\<rparr>"

section \<open>What a session adds to a read\<close>

text \<open>The last staged write of an updatable field, when it has the committed value's kind.\<close>

definition overlay_staged :: "record_id \<Rightarrow> row_fields \<Rightarrow> transaction_op list \<Rightarrow> field_ref list \<Rightarrow> row_fields" where
  "overlay_staged i fs staged updatable =
     map (\<lambda>(field, v).
       if field \<notin> set updatable then (field, v)
       else (case List.find (\<lambda>op. to_id op = i \<and> to_field op = field) (rev staged) of
               None \<Rightarrow> (field, v)
             | Some op \<Rightarrow> if same_kind (to_value op) v then (field, to_value op) else (field, v))) fs"

definition record_read_set :: "read_set \<Rightarrow> record_id \<Rightarrow> row_fields \<Rightarrow> read_set" where
  "record_read_set reads i fs =
     foldl (\<lambda>reads (field, v).
       if (i, field) \<in> fst ` set reads \<or> length reads < MAX_TRACKED_READS
       then AList.update (i, field) v reads else reads) reads fs"

definition session_get :: "conn \<Rightarrow> response \<Rightarrow> response \<times> conn" where
  "session_get c resp =
     (case resp of
        RRecord i fs \<Rightarrow>
          (RRecord i
             (case (cn_session c, cn_read_your_writes c) of
                (Some staged, Some updatable) \<Rightarrow> overlay_staged i fs staged updatable
              | _ \<Rightarrow> fs),
           c\<lparr>cn_snapshot_reads := map_option (\<lambda>reads. record_read_set reads i fs) (cn_snapshot_reads c)\<rparr>)
      | other \<Rightarrow> (other, c))"

section \<open>Opening and closing a session\<close>

definition begin_session :: "conn \<Rightarrow> response \<times> conn" where
  "begin_session c =
     (if cn_session c \<noteq> None then (err_response SessionOpen, c)
      else (ROk, c\<lparr>cn_session := Some [], cn_read_your_writes := None, cn_validate_on_stage := False,
                   cn_snapshot_reads := None\<rparr>))"

definition known_flags :: "nat \<Rightarrow> u32" where
  "known_flags negotiated =
     SESSION_READ_YOUR_WRITES OR (if 6 \<le> negotiated then SESSION_VALIDATE_ON_STAGE else 0)
       OR (if 7 \<le> negotiated then SESSION_SNAPSHOT_ISOLATION else 0)"

definition updatable_tags :: "domain_schema \<Rightarrow> field_ref list" where
  "updatable_tags schema = map fd_tag (filter (\<lambda>f. fc_update (fd_capabilities f)) (ds_fields schema))"

definition begin_with :: "domain_schema \<Rightarrow> conn \<Rightarrow> u32 \<Rightarrow> response \<times> conn" where
  "begin_with schema c flags =
     (if flags AND NOT (known_flags (cn_negotiated c)) \<noteq> 0 then (err_response Malformed, c)
      else if cn_session c \<noteq> None then (err_response SessionOpen, c)
      else (ROk, c\<lparr>cn_session := Some [],
              cn_read_your_writes :=
                (if flags AND SESSION_READ_YOUR_WRITES \<noteq> 0 then Some (updatable_tags schema) else None),
              cn_validate_on_stage := flags AND SESSION_VALIDATE_ON_STAGE \<noteq> 0,
              cn_snapshot_reads := (if flags AND SESSION_SNAPSHOT_ISOLATION \<noteq> 0 then Some [] else None)\<rparr>))"

definition close_session :: "conn \<Rightarrow> conn" where
  "close_session c = c\<lparr>cn_session := None, cn_read_your_writes := None, cn_validate_on_stage := False,
     cn_snapshot_reads := None\<rparr>"

definition rollback_session :: "conn \<Rightarrow> response \<times> conn" where
  "rollback_session c =
     (if cn_session c = None then err_response NoSession else ROk, close_session c)"

definition read_set_entries :: "conn \<Rightarrow> (record_id \<times> field_ref \<times> scan_value) list" where
  "read_set_entries c = (case cn_snapshot_reads c of None \<Rightarrow> [] | Some reads \<Rightarrow> map (\<lambda>((i, f), v). (i, f, v)) reads)"

definition commit_session :: "'s conn_store \<Rightarrow> 's \<Rightarrow> conn \<Rightarrow> (response \<times> conn \<times> 's) option" where
  "commit_session S s c =
     (case cn_session c of
        None \<Rightarrow> Some (err_response NoSession, close_session c, s)
      | Some batch \<Rightarrow>
          map_option (\<lambda>(r, s). (batch_reply (\<lambda>_. ROk) r, close_session c, s))
            (cs_apply_transaction S s batch (read_set_entries c)))"

definition stage_update :: "'s conn_store \<Rightarrow> 's \<Rightarrow> conn \<Rightarrow> transaction_op list \<Rightarrow> transaction_op \<Rightarrow>
    (response \<times> conn) option" where
  "stage_update S s c staged op =
     (case if cn_validate_on_stage c then cs_validate_op S s op else Some (Ok ()) of
        None \<Rightarrow> None
      | Some (Inl code) \<Rightarrow> Some (err_response code, c)
      | Some (Inr _) \<Rightarrow>
          if length staged < MAX_STAGED_OPS
          then Some (RStaged (of_nat (length staged)), c\<lparr>cn_session := Some (staged @ [op])\<rparr>)
          else Some (err_response SessionFull, c))"

section \<open>One dispatched request\<close>

text \<open>What is past the gates: the response, the connection and the tables it leaves.\<close>

type_synonym 's served = "(response \<times> conn \<times> 's table list) option"

definition refuse :: "error_code \<Rightarrow> conn \<Rightarrow> 's table list \<Rightarrow> 's served" where
  "refuse code c tables = Some (err_response code, c, tables)"

definition keep_conn :: "conn \<Rightarrow> (response \<times> 's table list) option \<Rightarrow> 's served" where
  "keep_conn c out = map_option (\<lambda>(resp, tables). (resp, c, tables)) out"

definition keep_tables :: "'s table list \<Rightarrow> response \<times> conn \<Rightarrow> 's served" where
  "keep_tables tables out = Some (fst out, snd out, tables)"

text \<open>A runtime write: never inside a session, unknown below the version that introduced it.\<close>

definition gated_write :: "nat \<Rightarrow> conn \<Rightarrow> 's table list \<Rightarrow> 's served \<Rightarrow> 's served" where
  "gated_write version c tables out =
     (if cn_session c \<noteq> None then refuse SessionOpen c tables
      else if cn_negotiated c < version then refuse Malformed c tables
      else out)"

definition gated_read :: "nat \<Rightarrow> conn \<Rightarrow> 's table list \<Rightarrow> 's served \<Rightarrow> 's served" where
  "gated_read version c tables out =
     (if cn_negotiated c < version then refuse Malformed c tables else out)"

definition dispatch_on :: "conn \<Rightarrow> 's table list \<Rightarrow> request \<Rightarrow> 's served" where
  "dispatch_on c tables req =
     (let t = tables ! cn_table c
      in keep_conn c (on_table tables (cn_table c) (dispatch (tb_store t) (tb_state t) req)))"

definition tracking :: "conn \<Rightarrow> bool" where
  "tracking c \<longleftrightarrow> (cn_read_your_writes c \<noteq> None \<or> cn_snapshot_reads c \<noteq> None) \<and> cn_session c \<noteq> None"

fun serve_request :: "nat \<Rightarrow> conn \<Rightarrow> 's table list \<Rightarrow> request \<Rightarrow> 's served" where
  "serve_request primary c tables Begin = gated_read 3 c tables (keep_tables tables (begin_session c))"
| "serve_request primary c tables Commit =
     gated_read 3 c tables
       (let t = tables ! cn_table c
        in map_option (\<lambda>(resp, c', s). (resp, c', put_state (cn_table c) s tables))
             (commit_session (tb_store t) (tb_state t) c))"
| "serve_request primary c tables Rollback = gated_read 3 c tables (keep_tables tables (rollback_session c))"
| "serve_request primary c tables (BeginWith flags) =
     gated_read 5 c tables
       (keep_tables tables (begin_with (cs_describe (tb_store (tables ! cn_table c))) c flags))"
| "serve_request primary c tables (GetById i) =
     (if tracking c
      then map_option (\<lambda>(resp, c', tables). (fst (session_get c resp), snd (session_get c resp), tables))
             (dispatch_on c tables (GetById i))
      else dispatch_on c tables (GetById i))"
| "serve_request primary c tables (UpdateField i field v) =
     (case cn_session c of
        None \<Rightarrow> dispatch_on c tables (UpdateField i field v)
      | Some staged \<Rightarrow>
          (let t = tables ! cn_table c
           in map_option (\<lambda>(resp, c'). (resp, c', tables))
                (stage_update (tb_store t) (tb_state t) c staged \<lparr>to_id = i, to_field = field, to_value = v\<rparr>)))"
| "serve_request primary c tables (Transaction updates) =
     (if cn_session c \<noteq> None then refuse SessionOpen c tables else dispatch_on c tables (Transaction updates))"
| "serve_request primary c tables (Insert i fs) = gated_write 13 c tables (dispatch_on c tables (Insert i fs))"
| "serve_request primary c tables (Link l r relation) =
     gated_write 14 c tables (keep_conn c (link_across tables (cn_table c) l r relation))"
| "serve_request primary c tables (Replace i fs) = gated_write 15 c tables (dispatch_on c tables (Replace i fs))"
| "serve_request primary c tables (Delete i) =
     gated_write 17 c tables (keep_conn c (delete_across tables (cn_table c) i))"
| "serve_request primary c tables Compact = gated_write 18 c tables (dispatch_on c tables Compact)"
| "serve_request primary c tables (ReplaceIf i fs guard) =
     gated_write 19 c tables (dispatch_on c tables (ReplaceIf i fs guard))"
| "serve_request primary c tables (Join spec) =
     gated_read 12 c tables
       (if js_right_table spec \<noteq> None
        then map_option (\<lambda>resp. (resp, c, tables)) (join_across tables (cn_table c) spec)
        else dispatch_on c tables (Join spec))"
| "serve_request primary c tables DescribeRelations = gated_read 12 c tables (dispatch_on c tables DescribeRelations)"
| "serve_request primary c tables (Page order_by after limit) =
     gated_read 20 c tables (dispatch_on c tables (Page order_by after limit))"
| "serve_request primary c tables (CountEdges relation) =
     gated_read 21 c tables (dispatch_on c tables (CountEdges relation))"
| "serve_request primary c tables (WriteBatch ops atomic) =
     gated_write 22 c tables
       (if MAX_BATCH_OPS < length ops then refuse Malformed c tables
        else dispatch_on c tables (WriteBatch ops atomic))"
| "serve_request primary c tables (Use name) =
     gated_read 16 c tables
       (if cn_session c \<noteq> None then refuse SessionOpen c tables
        else (case position (\<lambda>t. tb_name t = name) tables of
                Some n \<Rightarrow> Some (ROk, c\<lparr>cn_table := n\<rparr>, tables)
              | None \<Rightarrow> refuse Malformed c tables))"
| "serve_request primary c tables ListTables =
     gated_read 16 c tables (Some (RTables (map tb_name tables) (tb_name (tables ! primary)), c, tables))"
| "serve_request primary c tables req = dispatch_on c tables req"

section \<open>One frame\<close>

definition hello_reply :: "conn \<Rightarrow> u32 \<Rightarrow> response \<times> conn" where
  "hello_reply c version =
     (if \<not> cn_first_frame c \<or> version = 0 then (err_response Malformed, c\<lparr>cn_first_frame := False\<rparr>)
      else let n = min (unat version) PROTOCOL_VERSION
           in (RHello (of_nat n), c\<lparr>cn_negotiated := n, cn_first_frame := False\<rparr>))"

text \<open>
  A frame's effect: the response, whether its frame went out, what the sinks record, and whether the
  server then closes the connection. \<open>enc\<close> is the encoder of responses: a response it cannot encode
  or whose encoding exceeds the frame bound is not sent, and the connection ends there. (A peer that
  is gone when its response is written is a hang-up between frames.) The clock is read once for the
  check and once for the note.
\<close>

type_synonym response_encoder = "response \<Rightarrow> byte list option"

definition send_response :: "response_encoder \<Rightarrow> response \<Rightarrow> bool" where
  "send_response enc resp = (case write_message enc [] resp of Inl e \<Rightarrow> False | Inr frame \<Rightarrow> True)"

record ('ip, 's) server_state =
  ss_tables :: "'s table list"
  ss_limits :: "'ip failure_table option"

record ('ip, 's) frame_effect =
  fe_response :: response
  fe_conn :: conn
  fe_server :: "('ip, 's) server_state"
  fe_audit :: "audit_kind list"
  fe_access :: "access_event list"
  fe_sent :: bool
  fe_closed :: bool

definition authenticate :: "serve_options \<Rightarrow> 'ip option \<Rightarrow> nat \<times> nat \<Rightarrow> conn \<Rightarrow> 'ip failure_table option \<Rightarrow> string \<Rightarrow>
    response \<times> conn \<times> 'ip failure_table option \<times> audit_kind list" where
  "authenticate opts peer clock c limits token =
     (if \<not> is_configured opts then (ROk, c, limits, [Authenticated ReadWrite])
      else if is_throttled limits (fst clock) peer
      then (err_response Unauthenticated, c\<lparr>cn_failures := cn_failures c + 1\<rparr>, limits,
            [Throttled (cn_failures c + 1)])
      else (case check_token opts token of
              Some class \<Rightarrow> (ROk, c\<lparr>cn_authenticated := Some class\<rparr>, limits, [Authenticated class])
            | None \<Rightarrow> (err_response Unauthenticated, c\<lparr>cn_failures := cn_failures c + 1\<rparr>,
                       note_peer_failure limits (snd clock) peer, [AuthenticationFailed])))"

definition read_only_refuses :: "request \<Rightarrow> bool" where
  "read_only_refuses req \<longleftrightarrow>
     request_kind_of req \<in> {RkUpdateField, RkTransaction, RkCommit, RkInsert, RkLink, RkReplace, RkDelete, RkCompact,
       RkReplaceIf, RkWriteBatch}"

definition plain_effect :: "response_encoder \<Rightarrow> ('ip, 's) server_state \<Rightarrow> conn \<Rightarrow> response \<Rightarrow> audit_kind list \<Rightarrow>
    ('ip, 's) frame_effect" where
  "plain_effect enc S c resp events =
     \<lparr>fe_response = resp, fe_conn = c, fe_server = S, fe_audit = events, fe_access = [],
      fe_sent = send_response enc resp, fe_closed = (\<not> send_response enc resp)\<rparr>"

text \<open>Past \<open>Hello\<close> and \<open>Authenticate\<close>: the two gates, then the request itself.\<close>

definition gated_frame :: "response_encoder \<Rightarrow> nat \<Rightarrow> conn \<Rightarrow> ('ip, 's) server_state \<Rightarrow> request \<Rightarrow> ('ip, 's) frame_effect option" where
  "gated_frame enc primary c S req =
     (case cn_authenticated c of
        None \<Rightarrow> Some (plain_effect enc S c (err_response Unauthenticated)
                  [Refused None (request_kind_of req) Unauthenticated])
      | Some cls \<Rightarrow>
          if cls = ReadOnly \<and> read_only_refuses req
          then Some (plain_effect enc S c (err_response Unauthorized)
                 [Refused (Some cls) (request_kind_of req) Unauthorized])
          else map_option
                 (\<lambda>(resp, c', tables).
                    let resp = downgrade_for_version resp (cn_negotiated c)
                    in \<lparr>fe_response = resp, fe_conn = c', fe_server = S\<lparr>ss_tables := tables\<rparr>, fe_audit = [],
                        fe_access = [\<lparr>ax_class = Some cls, ax_request = request_kind_of req,
                                      ax_outcome = outcome_of resp\<rparr>],
                        fe_sent = send_response enc resp, fe_closed = (\<not> send_response enc resp)\<rparr>)
                 (serve_request primary c (ss_tables S) req))"

text \<open>The lockout is recorded and the connection closed only after its response was sent.\<close>

definition handle_frame :: "response_encoder \<Rightarrow> serve_options \<Rightarrow> nat \<Rightarrow> 'ip option \<Rightarrow> nat \<times> nat \<Rightarrow> conn \<Rightarrow> ('ip, 's) server_state \<Rightarrow> request \<Rightarrow>
    ('ip, 's) frame_effect option" where
  "handle_frame enc opts primary peer clock c S req =
     (case req of
        Hello version \<Rightarrow> Some (plain_effect enc S (snd (hello_reply c version)) (fst (hello_reply c version)) [])
      | Authenticate token \<Rightarrow>
          (case authenticate opts peer clock (c\<lparr>cn_first_frame := False\<rparr>) (ss_limits S) token of
             (resp, c, limits, events) \<Rightarrow>
               (let sent = send_response enc resp; locked = MAX_AUTH_FAILURES \<le> cn_failures c
                in Some \<lparr>fe_response = resp, fe_conn = c, fe_server = S\<lparr>ss_limits := limits\<rparr>,
                     fe_audit = events @ (if sent \<and> locked then [LockedOut (cn_failures c)] else []),
                     fe_access = [], fe_sent = sent, fe_closed = (\<not> sent \<or> locked)\<rparr>))
      | _ \<Rightarrow> gated_frame enc primary (c\<lparr>cn_first_frame := False\<rparr>) S req)"

end
