(* ===== verification/Client.thy ===== *)
theory Client
  imports Sql Aggregates Connection
begin

text \<open>
  \<open>src/server/client.rs\<close>: the client. The connection and everything behind it is one value of type
  \<open>'w\<close>, and a request exchanged with it an argument of every call: \<open>wire req w\<close> is the response (or the
  frame error) and what is behind the connection afterwards. \<open>exchange\<close> is the wire of a connection that
  carries frames of bytes. A call takes the client's own state
  and that value; \<open>None\<close> is a panic. Where the code formats a message into \<open>ClientError::Sql\<close>, the
  model keeps what it formats.
\<close>

section \<open>Errors\<close>

datatype sql_refusal =
    BadSql sql_parse_error
  | DoesNotFit string i64
  | LiteralKind string value_kind
  | OrderingKind string value_kind
  | StarWithAggregate
  | NotInGroupBy string
  | ListGroupKey string
  | AggregateKind string aggregate_fn value_kind
  | UnlistedRelation string
  | NotAnotherTable string string string
  | InAnotherTable string string
  | WrongTable string string string

datatype client_error =
    CeFrame frame_error
  | CeUnknownField string
  | CeUnsupported string
  | CeServer error_code string
  | CeTransactionFailed nat error_code string
  | CeUnexpectedResponse string
  | CeSql sql_refusal

section \<open>Calls\<close>

record client =
  cl_schema :: domain_schema
  cl_relations :: "relation_descriptor list"
  cl_version :: nat
  cl_current_table :: "string option"
  cl_table_schemas :: "string \<rightharpoonup> domain_schema"

type_synonym 'w wire = "request \<Rightarrow> 'w \<Rightarrow> (client_error + response) \<times> 'w"
type_synonym ('w, 'a) call = "client \<times> 'w \<Rightarrow> ((client_error + 'a) \<times> client \<times> 'w) option"

text \<open>
  A connection that carries bytes, with the encoders and decoders of both directions: the frame is
  assembled in memory, written at once, and one reply frame is read back. \<open>peer\<close> takes what was
  written to what the other end sends before it waits or closes.
\<close>

record message_codec =
  mc_request :: "request \<Rightarrow> byte list option"
  mc_read_request :: "byte list \<Rightarrow> request option"
  mc_response :: response_encoder
  mc_read_response :: "byte list \<Rightarrow> response option"

definition codec_ok :: "message_codec \<Rightarrow> bool" where
  "codec_ok W \<longleftrightarrow> decodes (mc_request W) (mc_read_request W) \<and> decodes (mc_response W) (mc_read_response W)"

definition exchange :: "message_codec \<Rightarrow> (byte list \<Rightarrow> 'w \<Rightarrow> byte list \<times> 'w) \<Rightarrow> 'w wire" where
  "exchange W peer req w =
     (case write_message (mc_request W) [] req of
        Inl e \<Rightarrow> (Err (CeFrame e), w)
      | Inr frame \<Rightarrow>
          (case peer frame w of
             (reply, w') \<Rightarrow> (map_err CeFrame (map_ok fst (read_message (mc_read_response W) reply)), w')))"

definition call_ok :: "'a \<Rightarrow> ('w, 'a) call" where
  "call_ok a = (\<lambda>s. Some (Ok a, s))"

definition call_result :: "client_error + 'a \<Rightarrow> ('w, 'a) call" where
  "call_result r = (\<lambda>s. Some (r, s))"

definition call_bind :: "('w, 'a) call \<Rightarrow> ('a \<Rightarrow> ('w, 'b) call) \<Rightarrow> ('w, 'b) call" where
  "call_bind m f = (\<lambda>s.
     case m s of
       None \<Rightarrow> None
     | Some (Inl e, s') \<Rightarrow> Some (Err e, s')
     | Some (Inr a, s') \<Rightarrow> f a s')"

text \<open>The outcome as a value, an error included.\<close>

definition call_try :: "('w, 'a) call \<Rightarrow> ('w, client_error + 'a) call" where
  "call_try m = (\<lambda>s. map_option (\<lambda>(r, s'). (Ok r, s')) (m s))"

definition call_client :: "('w, client) call" where
  "call_client = (\<lambda>s. Some (Ok (fst s), s))"

definition call_modify :: "(client \<Rightarrow> client) \<Rightarrow> ('w, unit) call" where
  "call_modify f = (\<lambda>(c, w). Some (Ok (), f c, w))"

definition roundtrip :: "'w wire \<Rightarrow> request \<Rightarrow> ('w, response) call" where
  "roundtrip wire req = (\<lambda>(c, w). case wire req w of (r, w') \<Rightarrow> Some (r, c, w'))"

text \<open>A match on the response: the expected shapes, then the server's error, then anything else.\<close>

definition reply_shape :: "string \<Rightarrow> (response \<Rightarrow> 'a option) \<Rightarrow> response \<Rightarrow> client_error + 'a" where
  "reply_shape expected f resp =
     (case f resp of
        Some a \<Rightarrow> Ok a
      | None \<Rightarrow> (case resp of RErr code message \<Rightarrow> Err (CeServer code message) | _ \<Rightarrow> Err (CeUnexpectedResponse expected)))"

definition ask :: "'w wire \<Rightarrow> request \<Rightarrow> string \<Rightarrow> (response \<Rightarrow> 'a option) \<Rightarrow> ('w, 'a) call" where
  "ask wire req expected f = call_bind (roundtrip wire req) (\<lambda>resp. call_result (reply_shape expected f resp))"

definition needs_version :: "nat \<Rightarrow> string \<Rightarrow> ('w, 'a) call \<Rightarrow> ('w, 'a) call" where
  "needs_version v what m =
     call_bind call_client (\<lambda>c. if cl_version c < v then call_result (Err (CeUnsupported what)) else m)"

definition require :: "(client \<Rightarrow> bool) \<Rightarrow> string \<Rightarrow> ('w, 'a) call \<Rightarrow> ('w, 'a) call" where
  "require ok what m =
     call_bind call_client (\<lambda>c. if ok c then m else call_result (Err (CeUnsupported what)))"

fun is_ok :: "response \<Rightarrow> unit option" where
  "is_ok ROk = Some ()"
| "is_ok _ = None"

fun is_rows :: "response \<Rightarrow> page_row list option" where
  "is_rows (RRows rows) = Some rows"
| "is_rows _ = None"

fun is_record_list :: "response \<Rightarrow> record_id list option" where
  "is_record_list (RRecordList ids) = Some ids"
| "is_record_list _ = None"

fun is_schema :: "response \<Rightarrow> domain_schema option" where
  "is_schema (RSchema s) = Some s"
| "is_schema _ = None"

fun is_relations :: "response \<Rightarrow> relation_descriptor list option" where
  "is_relations (RRelations rs) = Some rs"
| "is_relations _ = None"

fun is_tables :: "response \<Rightarrow> (string list \<times> string) option" where
  "is_tables (RTables names primary) = Some (names, primary)"
| "is_tables _ = None"

definition expect_ok :: "response \<Rightarrow> client_error + unit" where
  "expect_ok resp = reply_shape ''Ok'' is_ok resp"

section \<open>Names and tags\<close>

definition field_in :: "domain_schema \<Rightarrow> string \<Rightarrow> client_error + field_descriptor" where
  "field_in schema name = ok_or (CeUnknownField name) (List.find (\<lambda>f. fd_name f = name) (ds_fields schema))"

definition field_name :: "domain_schema \<Rightarrow> field_ref \<Rightarrow> string" where
  "field_name schema tag =
     (case List.find (\<lambda>f. fd_tag f = tag) (ds_fields schema) of
        Some f \<Rightarrow> fd_name f
      | None \<Rightarrow> show_nat (unat tag))"

definition named :: "domain_schema \<Rightarrow> row_fields \<Rightarrow> (string \<times> scan_value) list" where
  "named schema fs = map (\<lambda>(tag, v). (field_name schema tag, v)) fs"

text \<open>A \<open>for\<close> loop that pushes what its body computes and returns at the first error.\<close>

fun collect_all :: "('a \<Rightarrow> 'e + 'b) \<Rightarrow> 'a list \<Rightarrow> 'e + 'b list" where
  "collect_all f [] = Ok []"
| "collect_all f (x # xs) = and_then (f x) (\<lambda>y. and_then (collect_all f xs) (\<lambda>ys. Ok (y # ys)))"

lemma collect_all_cong [fundef_cong]:
  "xs = ys \<Longrightarrow> (\<And>x. x \<in> set ys \<Longrightarrow> f x = g x) \<Longrightarrow> collect_all f xs = collect_all g ys"
  by (induction xs arbitrary: ys) (auto simp: and_then_def split: sum.splits)

lemma collect_all_Ok_iff: "collect_all f xs = Ok ys \<longleftrightarrow> list_all2 (\<lambda>x y. f x = Ok y) xs ys"
proof (induction xs arbitrary: ys)
  case (Cons x xs)
  then show ?case by (cases ys) (auto simp: and_then_Ok_iff)
qed auto

definition tagged :: "domain_schema \<Rightarrow> (string \<times> scan_value) list \<Rightarrow> client_error + row_fields" where
  "tagged schema = collect_all (\<lambda>(name, v). map_ok (\<lambda>d. (fd_tag d, v)) (field_in schema name))"

section \<open>Connecting\<close>

record connect_options =
  co_token :: "string option"
  co_require_hello :: bool

definition hello_exchange :: "'w wire \<Rightarrow> ('w \<Rightarrow> client_error + 'w) \<Rightarrow> bool \<Rightarrow> 'w \<Rightarrow> client_error + nat \<times> 'w" where
  "hello_exchange wire reopen require_hello w =
     (case wire (Hello (of_nat PROTOCOL_VERSION)) w of
        (Inr (RHello v), w') \<Rightarrow> Ok (unat v, w')
      | (Inr _, w') \<Rightarrow> Err (CeUnexpectedResponse ''Hello'')
      | (Inl (CeFrame PeerClosed), w') \<Rightarrow>
          if require_hello then Err (CeFrame PeerClosed) else map_ok (\<lambda>w. (1, w)) (reopen w')
      | (Inl e, w') \<Rightarrow> Err e)"

text \<open>One request on the new connection, its answer of the expected shape.\<close>

definition first_ask :: "'w wire \<Rightarrow> request \<Rightarrow> string \<Rightarrow> (response \<Rightarrow> 'a option) \<Rightarrow> 'w \<Rightarrow> client_error + 'a \<times> 'w" where
  "first_ask wire req expected f w =
     (case wire req w of (r, w') \<Rightarrow> and_then r (\<lambda>resp. map_ok (\<lambda>a. (a, w')) (reply_shape expected f resp)))"

definition connect_with :: "'w wire \<Rightarrow> ('w \<Rightarrow> client_error + 'w) \<Rightarrow> connect_options \<Rightarrow> 'w \<Rightarrow> client_error + client \<times> 'w" where
  "connect_with wire reopen options w =
     and_then (hello_exchange wire reopen (co_require_hello options) w) (\<lambda>(version, w).
     and_then (case co_token options of
                 None \<Rightarrow> Ok ((), w)
               | Some token \<Rightarrow> first_ask wire (Authenticate token) ''Ok'' is_ok w) (\<lambda>(_, w).
     and_then (first_ask wire DescribeSchema ''Schema'' is_schema w) (\<lambda>(schema, w).
     and_then (if 12 \<le> version then first_ask wire DescribeRelations ''Relations'' is_relations w
               else Ok ([], w)) (\<lambda>(relations, w).
       Ok (\<lparr>cl_schema = schema, cl_relations = relations, cl_version = version, cl_current_table = None,
            cl_table_schemas = Map.empty\<rparr>, w)))))"

section \<open>Reads\<close>

definition cl_get :: "'w wire \<Rightarrow> record_id \<Rightarrow> ('w, (string \<times> scan_value) list option) call" where
  "cl_get wire i =
     call_bind call_client (\<lambda>c.
       ask wire (GetById i) ''Record or NotFound''
         (\<lambda>resp. case resp of
            RRecord _ fs \<Rightarrow> Some (Some (named (cl_schema c) fs))
          | RNotFound \<Rightarrow> Some None
          | _ \<Rightarrow> None))"

definition on_field :: "string \<Rightarrow> (field_descriptor \<Rightarrow> ('w, 'a) call) \<Rightarrow> ('w, 'a) call" where
  "on_field name f =
     call_bind call_client (\<lambda>c. call_bind (call_result (field_in (cl_schema c) name)) f)"

definition cl_filter_eq :: "'w wire \<Rightarrow> string \<Rightarrow> scan_value \<Rightarrow> ('w, record_id list) call" where
  "cl_filter_eq wire name v =
     on_field name (\<lambda>d.
       if \<not> fc_filter_eq (fd_capabilities d) then call_result (Err (CeUnsupported ''filter_eq on this field''))
       else ask wire (FilterEq (fd_tag d) v) ''RecordList'' is_record_list)"

definition cl_scan :: "'w wire \<Rightarrow> string \<Rightarrow> ('w, scan_value list) call" where
  "cl_scan wire name =
     on_field name (\<lambda>d.
       if \<not> fc_scan (fd_capabilities d) then call_result (Err (CeUnsupported ''scan on this field''))
       else ask wire (ScanField (fd_tag d)) ''ScanValues''
              (\<lambda>resp. case resp of RScanValues vs \<Rightarrow> Some vs | _ \<Rightarrow> None))"

definition orderable_field :: "field_descriptor \<Rightarrow> bool" where
  "orderable_field d \<longleftrightarrow> fd_value_kind d = KU32 \<or> fd_value_kind d = KI64"

definition named_rows :: "domain_schema \<Rightarrow> page_row list \<Rightarrow> (record_id \<times> (string \<times> scan_value) list) list" where
  "named_rows schema rows = map (\<lambda>(i, fs). (i, named schema fs)) rows"

definition cl_page :: "'w wire \<Rightarrow> string \<Rightarrow> (scan_value \<times> record_id) option \<Rightarrow> nat \<Rightarrow>
    ('w, (record_id \<times> (string \<times> scan_value) list) list) call" where
  "cl_page wire order_by after limit =
     needs_version 20 ''page'' (call_bind call_client (\<lambda>c.
       on_field order_by (\<lambda>d.
         if \<not> orderable_field d then call_result (Err (CeUnsupported ''page order''))
         else if limit = 0 then call_result (Err (CeUnsupported ''page limit''))
         else call_bind (ask wire (Page (fd_tag d) after limit) ''Rows'' is_rows)
                (\<lambda>rows. call_ok (named_rows (cl_schema c) rows)))))"

definition cl_count_edges :: "'w wire \<Rightarrow> string \<Rightarrow> ('w, nat) call" where
  "cl_count_edges wire relation =
     needs_version 21 ''count_edges''
       (ask wire (CountEdges relation) ''Count'' (\<lambda>resp. case resp of RCount n \<Rightarrow> Some n | _ \<Rightarrow> None))"

section \<open>Relations\<close>

definition has_neighbors :: "client \<Rightarrow> bool" where
  "has_neighbors c \<longleftrightarrow> rc_neighbors (ds_relations (cl_schema c))"

definition has_parent :: "client \<Rightarrow> bool" where
  "has_parent c \<longleftrightarrow> rc_parent_children (ds_relations (cl_schema c))"

definition cl_parent :: "'w wire \<Rightarrow> record_id \<Rightarrow> ('w, parent_lookup) call" where
  "cl_parent wire i =
     require has_parent ''Parent on this domain''
       (ask wire (Parent i) ''Id, NoParent, or NotFound''
         (\<lambda>resp. case resp of
            RId p \<Rightarrow> Some (HasParent p)
          | RNoParent \<Rightarrow> Some NoParent
          | RNotFound \<Rightarrow> Some ChildNotFound
          | _ \<Rightarrow> None))"

definition cl_children :: "'w wire \<Rightarrow> record_id \<Rightarrow> ('w, record_id list) call" where
  "cl_children wire i =
     require has_parent ''Children on this domain'' (ask wire (Children i) ''RecordList'' is_record_list)"

definition cl_neighbors :: "'w wire \<Rightarrow> record_id \<Rightarrow> ('w, record_id list) call" where
  "cl_neighbors wire i =
     require has_neighbors ''Neighbors on this domain'' (ask wire (Neighbors i) ''RecordList'' is_record_list)"

definition cl_neighbors_by_relation :: "'w wire \<Rightarrow> record_id \<Rightarrow> string \<Rightarrow> ('w, record_id list) call" where
  "cl_neighbors_by_relation wire i relation =
     require has_neighbors ''NeighborsByRelation on this domain''
       (needs_version 10 ''neighbors_by_relation''
         (ask wire (NeighborsByRelation i relation) ''RecordList'' is_record_list))"

definition cl_list_relation_kinds :: "'w wire \<Rightarrow> ('w, string list) call" where
  "cl_list_relation_kinds wire =
     require has_neighbors ''ListRelationKinds on this domain''
       (needs_version 10 ''list_relation_kinds''
         (ask wire ListRelationKinds ''RelationKinds''
           (\<lambda>resp. case resp of RRelationKinds ks \<Rightarrow> Some ks | _ \<Rightarrow> None)))"

definition hop :: "'w wire \<Rightarrow> string option \<Rightarrow> record_id \<Rightarrow> ('w, record_id list) call" where
  "hop wire relation node =
     (case relation of
        Some label \<Rightarrow> cl_neighbors_by_relation wire node label
      | None \<Rightarrow> cl_neighbors wire node)"

text \<open>
  \<open>traverse\<close>: the visited ids with their depths, in the order they were found (the hash map's order
  is sorted by depth at the end), and the frontier of the next depth.
\<close>

type_synonym visited = "(record_id \<times> nat) list"

fun visit_all :: "nat \<Rightarrow> nat \<Rightarrow> record_id list \<Rightarrow> visited \<times> record_id list \<Rightarrow> visited \<times> record_id list" where
  "visit_all max_nodes depth [] s = s"
| "visit_all max_nodes depth (n # ns) (visited, next_frontier) =
     (if max_nodes \<le> length visited then (visited, next_frontier)
      else if n \<in> fst ` set visited then visit_all max_nodes depth ns (visited, next_frontier)
      else visit_all max_nodes depth ns (visited @ [(n, Suc depth)], next_frontier @ [n]))"

fun visit_frontier :: "'w wire \<Rightarrow> string option \<Rightarrow> nat \<Rightarrow> nat \<Rightarrow> record_id list \<Rightarrow> visited \<times> record_id list \<Rightarrow>
    ('w, visited \<times> record_id list) call" where
  "visit_frontier wire relation max_nodes depth [] s = call_ok s"
| "visit_frontier wire relation max_nodes depth (node # nodes) s =
     (if max_nodes \<le> length (fst s) then call_ok s
      else call_bind (hop wire relation node)
             (\<lambda>ns. visit_frontier wire relation max_nodes depth nodes (visit_all max_nodes depth ns s)))"

fun walk_depths :: "'w wire \<Rightarrow> string option \<Rightarrow> nat \<Rightarrow> nat list \<Rightarrow> visited \<Rightarrow> record_id list \<Rightarrow> ('w, visited) call" where
  "walk_depths wire relation max_nodes [] visited frontier = call_ok visited"
| "walk_depths wire relation max_nodes (depth # depths) visited frontier =
     (if max_nodes \<le> length visited then call_ok visited
      else call_bind (visit_frontier wire relation max_nodes depth frontier (visited, []))
             (\<lambda>(visited, next_frontier). walk_depths wire relation max_nodes depths visited next_frontier))"

definition traverse :: "'w wire \<Rightarrow> record_id \<Rightarrow> nat \<Rightarrow> nat \<Rightarrow> string option \<Rightarrow> ('w, visited) call" where
  "traverse wire i max_depth max_nodes relation =
     require has_neighbors ''traverse''
       (call_bind (walk_depths wire relation max_nodes [0 ..< max_depth] [(i, 0)] [i])
         (\<lambda>visited. call_ok (sort_key snd visited)))"

end
