(* ===== verification/Client_Sql.thy ===== *)
theory Client_Sql
  imports Client
begin

text \<open>
  \<open>SchemaDrivenClient::query\<close>: a parsed query is compiled against the schema the client fetched, sent,
  and the rows are given their names. Compilation and naming are separate definitions; only
  \<open>schema_of\<close> exchanges frames while compiling.
\<close>

section \<open>Literals and filters\<close>

fun resolve_literal :: "string \<Rightarrow> value_kind \<Rightarrow> sql_literal \<Rightarrow> client_error + scan_value" where
  "resolve_literal name KU32 (LNumber n) =
     (if 0 \<le> sint n \<and> sint n < 2 ^ 32 then Ok (VU32 (ucast n)) else Err (CeSql (DoesNotFit name n)))"
| "resolve_literal name KI64 (LNumber n) = Ok (VI64 n)"
| "resolve_literal name KBool (LBool b) = Ok (VBool b)"
| "resolve_literal name KStr (LStr s) = Ok (VStr s)"
| "resolve_literal name kind _ = Err (CeSql (LiteralKind name kind))"

definition resolve_condition :: "domain_schema \<Rightarrow> parsed_condition \<Rightarrow> client_error + predicate" where
  "resolve_condition schema c =
     and_then (field_in schema (pc_name c)) (\<lambda>d.
       if is_ordering (pc_op c) \<and> \<not> orderable_field d
       then Err (CeSql (OrderingKind (pc_name c) (fd_value_kind d)))
       else and_then (resolve_literal (pc_name c) (fd_value_kind d) (pc_value c)) (\<lambda>v.
         Ok \<lparr>pr_field = fd_tag d, pr_op = pc_op c, pr_value = v\<rparr>))"

definition resolve_filter_in :: "domain_schema \<Rightarrow> parsed_condition list \<Rightarrow> client_error + predicate list" where
  "resolve_filter_in schema = collect_all (resolve_condition schema)"

section \<open>Plain queries\<close>

text \<open>The outer \<open>None\<close> is the panic on an aggregate column.\<close>

definition column_name :: "parsed_column_item \<Rightarrow> string option" where
  "column_name item =
     (case item of Plain n \<Rightarrow> Some n | Qualified a n \<Rightarrow> Some n | AggregateCall f a \<Rightarrow> None)"

fun select_tags :: "domain_schema \<Rightarrow> parsed_column_item list \<Rightarrow> (client_error + field_ref list) option" where
  "select_tags schema [] = Some (Ok [])"
| "select_tags schema (item # items) =
     (case column_name item of
        None \<Rightarrow> None
      | Some n \<Rightarrow>
          (case field_in schema n of
             Inl e \<Rightarrow> Some (Err e)
           | Inr d \<Rightarrow> map_option (map_ok (\<lambda>tags. fd_tag d # tags)) (select_tags schema items)))"

definition compile_select :: "domain_schema \<Rightarrow> parsed_columns \<Rightarrow> (client_error + selection) option" where
  "compile_select schema cols =
     (case cols of
        AllColumns \<Rightarrow> Some (Ok SelectAll)
      | NamedColumns items \<Rightarrow> map_option (map_ok SelectFields) (select_tags schema items))"

definition compile_rows :: "domain_schema \<Rightarrow> parsed_query \<Rightarrow> (client_error + request) option" where
  "compile_rows schema q =
     map_option (\<lambda>sel. and_then sel (\<lambda>sel.
         and_then (resolve_filter_in schema (pq_conditions q)) (\<lambda>flt. Ok (Query sel flt (pq_limit q)))))
       (compile_select schema (pq_columns q))"

definition call_option :: "(client_error + 'a) option \<Rightarrow> ('w, 'a) call" where
  "call_option r = (\<lambda>s. map_option (\<lambda>r. (r, s)) r)"

definition query_rows :: "'w wire \<Rightarrow> parsed_query \<Rightarrow> ('w, (record_id \<times> (string \<times> scan_value) list) list) call" where
  "query_rows wire q =
     call_bind call_client (\<lambda>c.
     call_bind (call_option (compile_rows (cl_schema c) q)) (\<lambda>req.
     call_bind (ask wire req ''Rows'' is_rows) (\<lambda>rows. call_ok (named_rows (cl_schema c) rows))))"

section \<open>Aggregates\<close>

definition aggregate_fn_name :: "aggregate_fn \<Rightarrow> string" where
  "aggregate_fn_name f =
     (case f of AggCount \<Rightarrow> ''COUNT'' | AggSum \<Rightarrow> ''SUM'' | AggAvg \<Rightarrow> ''AVG'' | AggMin \<Rightarrow> ''MIN'' | AggMax \<Rightarrow> ''MAX'')"

datatype output_column = KeyColumn string field_ref | AggColumn string nat

definition group_tag :: "domain_schema \<Rightarrow> string \<Rightarrow> client_error + field_ref" where
  "group_tag schema name =
     and_then (field_in schema name) (\<lambda>d.
       if fd_value_kind d = KStrList then Err (CeSql (ListGroupKey name)) else Ok (fd_tag d))"

definition aggregate_argument :: "domain_schema \<Rightarrow> aggregate_fn \<Rightarrow> aggregate_arg \<Rightarrow>
    client_error + string \<times> field_ref option" where
  "aggregate_argument schema func arg =
     (case arg of
        ArgStar \<Rightarrow> Ok (''*'', None)
      | ArgField name \<Rightarrow>
          and_then (field_in schema name) (\<lambda>d.
            if \<not> orderable_field d then Err (CeSql (AggregateKind name func (fd_value_kind d)))
            else Ok (name, Some (fd_tag d))))"

text \<open>The loop over the columns, with the aggregates pushed so far.\<close>

fun output_plan :: "domain_schema \<Rightarrow> string list \<Rightarrow> parsed_column_item list \<Rightarrow> aggregate_spec list \<Rightarrow>
    client_error + aggregate_spec list \<times> output_column list" where
  "output_plan schema group_by [] specs = Ok (specs, [])"
| "output_plan schema group_by (AggregateCall func arg # items) specs =
     and_then (aggregate_argument schema func arg) (\<lambda>(label, field).
     and_then (output_plan schema group_by items (specs @ [\<lparr>ag_func = func, ag_field = field\<rparr>])) (\<lambda>(specs', plan).
       Ok (specs', AggColumn (aggregate_fn_name func @ ''('' @ label @ '')'') (length specs) # plan)))"
| "output_plan schema group_by (item # items) specs =
     (let name = (case item of Plain n \<Rightarrow> n | Qualified a n \<Rightarrow> n | AggregateCall f a \<Rightarrow> [])
      in if name \<notin> set group_by then Err (CeSql (NotInGroupBy name))
         else and_then (field_in schema name) (\<lambda>d.
              and_then (output_plan schema group_by items specs) (\<lambda>(specs', plan).
                Ok (specs', KeyColumn name (fd_tag d) # plan))))"

definition compile_aggregate :: "domain_schema \<Rightarrow> parsed_query \<Rightarrow> client_error + request \<times> output_column list" where
  "compile_aggregate schema q =
     (case pq_columns q of
        AllColumns \<Rightarrow> Err (CeSql StarWithAggregate)
      | NamedColumns items \<Rightarrow>
          and_then (collect_all (group_tag schema) (pq_group_by q)) (\<lambda>group_by.
          and_then (output_plan schema (pq_group_by q) items []) (\<lambda>(specs, plan).
          and_then (resolve_filter_in schema (pq_conditions q)) (\<lambda>flt.
            Ok (Aggregate group_by flt specs (pq_limit q), plan)))))"

text \<open>A missing key and an index past the values are panics.\<close>

definition output_value :: "aggregate_group \<Rightarrow> output_column \<Rightarrow> (string \<times> scan_value) option" where
  "output_value g column =
     (case column of
        KeyColumn label tag \<Rightarrow> map_option (\<lambda>p. (label, snd p)) (List.find (\<lambda>p. fst p = tag) (gr_key g))
      | AggColumn label n \<Rightarrow> if n < length (gr_values g) then Some (label, gr_values g ! n) else None)"

definition output_rows :: "output_column list \<Rightarrow> aggregate_group list \<Rightarrow> (string \<times> scan_value) list list option" where
  "output_rows plan groups = those (map (\<lambda>g. those (map (output_value g) plan)) groups)"

definition query_aggregate :: "'w wire \<Rightarrow> parsed_query \<Rightarrow> ('w, (string \<times> scan_value) list list) call" where
  "query_aggregate wire q =
     needs_version 9 ''sql aggregate'' (call_bind call_client (\<lambda>c.
     call_bind (call_result (compile_aggregate (cl_schema c) q)) (\<lambda>(req, plan).
     call_bind (ask wire req ''Groups'' (\<lambda>resp. case resp of RGroups gs \<Rightarrow> Some gs | _ \<Rightarrow> None)) (\<lambda>groups.
       call_option (map_option Ok (output_rows plan groups))))))"

section \<open>Tables\<close>

definition list_tables :: "'w wire \<Rightarrow> ('w, string list \<times> string) call" where
  "list_tables wire = needs_version 16 ''list_tables'' (ask wire ListTables ''Tables'' is_tables)"

definition select_table :: "'w wire \<Rightarrow> string \<Rightarrow> ('w, unit) call" where
  "select_table wire name = ask wire (Use name) ''Ok'' is_ok"

definition use_table :: "'w wire \<Rightarrow> string \<Rightarrow> ('w, unit) call" where
  "use_table wire name =
     needs_version 16 ''use_table''
       (call_bind (select_table wire name) (\<lambda>_.
        call_bind (ask wire DescribeSchema ''Schema'' is_schema) (\<lambda>schema.
        call_bind (call_modify (\<lambda>c. c\<lparr>cl_schema := schema\<rparr>)) (\<lambda>_.
        call_bind (ask wire DescribeRelations ''Relations'' is_relations) (\<lambda>relations.
          call_modify (\<lambda>c. c\<lparr>cl_relations := relations, cl_table_schemas := (cl_table_schemas c)(name \<mapsto> schema),
            cl_current_table := Some name\<rparr>))))))"

text \<open>The answer to the description is looked at only after the connection has switched back.\<close>

definition schema_of :: "'w wire \<Rightarrow> string \<Rightarrow> ('w, domain_schema) call" where
  "schema_of wire name =
     call_bind call_client (\<lambda>c.
       case cl_table_schemas c name of
         Some schema \<Rightarrow> call_ok schema
       | None \<Rightarrow> needs_version 16 ''cross-table join''
           (call_bind (case cl_current_table c of
                         Some current \<Rightarrow> call_ok current
                       | None \<Rightarrow> call_bind (list_tables wire) (\<lambda>t. call_ok (snd t))) (\<lambda>back_to.
            call_bind (select_table wire name) (\<lambda>_.
            call_bind (call_try (roundtrip wire DescribeSchema)) (\<lambda>described.
            call_bind (select_table wire back_to) (\<lambda>_.
            call_bind (call_result (and_then described (reply_shape ''Schema'' is_schema))) (\<lambda>schema.
            call_bind (call_modify (\<lambda>c. c\<lparr>cl_table_schemas := (cl_table_schemas c)(name \<mapsto> schema)\<rparr>)) (\<lambda>_.
              call_ok schema))))))))"

section \<open>Joins\<close>

datatype side = LeftSide | RightSide

definition is_left :: "string \<Rightarrow> string \<Rightarrow> bool" where
  "is_left left_alias qualifier \<longleftrightarrow> eq_ignore_case qualifier left_alias"

definition join_target :: "parsed_query \<Rightarrow> parsed_join \<Rightarrow> relation_descriptor \<Rightarrow> client_error + string option" where
  "join_target q j d =
     (let cross_table = \<not> eq_ignore_case (pj_table j) (pq_table q)
      in case rd_target_table d of
           None \<Rightarrow> if cross_table then Err (CeSql (NotAnotherTable (pj_table j) (pj_relation j) (pq_table q))) else Ok None
         | Some target \<Rightarrow>
             if \<not> cross_table then Err (CeSql (InAnotherTable (pj_relation j) target))
             else if target = pj_table j then Ok (Some target)
             else Err (CeSql (WrongTable (pj_table j) (pj_relation j) target)))"

text \<open>The plan for the named columns; \<open>None\<close> is the panic on an unqualified one.\<close>

fun join_plan :: "domain_schema \<Rightarrow> domain_schema \<Rightarrow> string \<Rightarrow> parsed_column_item list \<Rightarrow>
    (client_error + (side \<times> field_ref \<times> string) list) option" where
  "join_plan left right left_alias [] = Some (Ok [])"
| "join_plan left right left_alias (Qualified qualifier name # items) =
     (let s = (if is_left left_alias qualifier then LeftSide else RightSide)
      in case field_in (if s = LeftSide then left else right) name of
           Inl e \<Rightarrow> Some (Err e)
         | Inr d \<Rightarrow> map_option (map_ok (\<lambda>plan. (s, fd_tag d, qualifier @ ''.'' @ name) # plan))
                       (join_plan left right left_alias items))"
| "join_plan left right left_alias (item # items) = None"

definition plan_tags :: "side \<Rightarrow> (side \<times> field_ref \<times> string) list \<Rightarrow> field_ref list" where
  "plan_tags s plan = map (fst \<circ> snd) (filter (\<lambda>p. fst p = s) plan)"

definition star_plan :: "domain_schema \<Rightarrow> domain_schema \<Rightarrow> string \<Rightarrow> string \<Rightarrow> (side \<times> field_ref \<times> string) list" where
  "star_plan left right left_alias right_alias =
     map (\<lambda>f. (LeftSide, fd_tag f, left_alias @ ''.'' @ fd_name f)) (ds_fields left) @
     map (\<lambda>f. (RightSide, fd_tag f, right_alias @ ''.'' @ fd_name f)) (ds_fields right)"

definition compile_join :: "domain_schema \<Rightarrow> domain_schema \<Rightarrow> join_relation \<Rightarrow> string option \<Rightarrow> parsed_query \<Rightarrow> parsed_join \<Rightarrow>
    (client_error + request \<times> (side \<times> field_ref \<times> string) list) option" where
  "compile_join left right relation right_table q j =
     (let left_alias = case_option (pq_table q) (\<lambda>a. a) (pq_alias q);
          right_alias = case_option (pj_table j) (\<lambda>a. a) (pj_alias j);
          on_left = (\<lambda>c. case pc_qualifier c of None \<Rightarrow> False | Some a \<Rightarrow> is_left left_alias a);
          columns =
            (case pq_columns q of
               AllColumns \<Rightarrow> Some (Ok (SelectAll, SelectAll, star_plan left right left_alias right_alias))
             | NamedColumns items \<Rightarrow>
                 map_option (map_ok (\<lambda>plan. (SelectFields (plan_tags LeftSide plan),
                     SelectFields (plan_tags RightSide plan), plan)))
                   (join_plan left right left_alias items))
      in map_option (\<lambda>columns. and_then columns (\<lambda>(sel_left, sel_right, plan).
           and_then (resolve_filter_in left (filter on_left (pq_conditions q))) (\<lambda>left_filter.
           and_then (resolve_filter_in right (filter (\<lambda>c. \<not> on_left c) (pq_conditions q))) (\<lambda>right_filter.
             Ok (Join \<lparr>js_relation = relation, js_right_table = right_table, js_left = sel_left, js_right = sel_right,
                   js_left_filter = left_filter, js_right_filter = right_filter, js_limit = pq_limit q\<rparr>, plan))))) columns)"

record joined_row_named =
  jn_left_id :: record_id
  jn_right_id :: record_id
  jn_fields :: "(string \<times> scan_value) list"

definition named_join :: "(side \<times> field_ref \<times> string) list \<Rightarrow> joined_row \<Rightarrow> joined_row_named" where
  "named_join plan row =
     \<lparr>jn_left_id = jr_left_id row, jn_right_id = jr_right_id row,
      jn_fields = List.map_filter (\<lambda>(s, tag, label).
        map_option (\<lambda>v. (label, v)) (field_value (case s of LeftSide \<Rightarrow> jr_left row | RightSide \<Rightarrow> jr_right row) tag)) plan\<rparr>"

definition query_join :: "'w wire \<Rightarrow> parsed_query \<Rightarrow> parsed_join \<Rightarrow> ('w, joined_row_named list) call" where
  "query_join wire q j =
     needs_version 12 ''sql join'' (call_bind call_client (\<lambda>c.
     call_bind (call_result (ok_or (CeSql (UnlistedRelation (pj_relation j)))
        (List.find (\<lambda>r. rd_name r = pj_relation j) (cl_relations c)))) (\<lambda>d.
     call_bind (call_result (join_target q j d)) (\<lambda>right_table.
     call_bind (case right_table of None \<Rightarrow> call_ok (cl_schema c) | Some t \<Rightarrow> schema_of wire t) (\<lambda>right_schema.
     call_bind (call_option (compile_join (cl_schema c) right_schema (rd_kind d) right_table q j)) (\<lambda>(req, plan).
     call_bind (ask wire req ''JoinedRows'' (\<lambda>resp. case resp of RJoinedRows rows \<Rightarrow> Some rows | _ \<Rightarrow> None)) (\<lambda>rows.
       call_ok (map (named_join plan) rows))))))))"

section \<open>\<open>query\<close>\<close>

datatype query_result =
    QueryRows "(record_id \<times> (string \<times> scan_value) list) list"
  | QueryGroups "(string \<times> scan_value) list list"
  | QueryJoined "joined_row_named list"

definition call_map :: "('a \<Rightarrow> 'b) \<Rightarrow> ('w, 'a) call \<Rightarrow> ('w, 'b) call" where
  "call_map f m = call_bind m (\<lambda>a. call_ok (f a))"

definition is_aggregate_query :: "parsed_query \<Rightarrow> bool" where
  "is_aggregate_query q \<longleftrightarrow> pq_group_by q \<noteq> [] \<or> list_ex is_aggregate_item (named_items q)"

definition cl_query :: "'w wire \<Rightarrow> string \<Rightarrow> ('w, query_result) call" where
  "cl_query wire sql =
     call_bind (call_result (map_err (\<lambda>e. CeSql (BadSql e)) (parse sql))) (\<lambda>q.
       case pq_join q of
         Some j \<Rightarrow> call_map QueryJoined (query_join wire q j)
       | None \<Rightarrow>
           if is_aggregate_query q then call_map QueryGroups (query_aggregate wire q)
           else needs_version 8 ''sql query'' (call_map QueryRows (query_rows wire q)))"

end
