(* ===== verification/Client_Laws.thy ===== *)
theory Client_Laws
  imports Client_Sql Aggregate_Laws
begin

text \<open>
  What the client's compilation of SQL means: a semantics of a query over rows with named columns
  and integers, the types a query has to respect, and the proofs that a compiled request passes the
  server's validation and that the server's evaluator computes that semantics.
\<close>

section \<open>A semantics by name\<close>

type_synonym named_row = "(string \<times> scan_value) list"

fun int_compare :: "int \<Rightarrow> compare_op \<Rightarrow> int \<Rightarrow> bool" where
  "int_compare a OpEq b = (a = b)" | "int_compare a OpNe b = (a \<noteq> b)" | "int_compare a OpLt b = (a < b)"
| "int_compare a OpLe b = (a \<le> b)" | "int_compare a OpGt b = (a > b)" | "int_compare a OpGe b = (a \<ge> b)"

fun literal_holds :: "scan_value \<Rightarrow> compare_op \<Rightarrow> sql_literal \<Rightarrow> bool" where
  "literal_holds (VU32 a) op (LNumber n) = int_compare (uint a) op (sint n)"
| "literal_holds (VI64 a) op (LNumber n) = int_compare (sint a) op (sint n)"
| "literal_holds (VBool a) op (LBool b) = (if op = OpEq then a = b else op = OpNe \<and> a \<noteq> b)"
| "literal_holds (VStr a) op (LStr b) = (if op = OpEq then a = b else op = OpNe \<and> a \<noteq> b)"
| "literal_holds _ op _ = False"

definition condition_holds :: "named_row \<Rightarrow> parsed_condition \<Rightarrow> bool" where
  "condition_holds fs c =
     (case map_of fs (pc_name c) of None \<Rightarrow> False | Some v \<Rightarrow> literal_holds v (pc_op c) (pc_value c))"

definition column_selected :: "parsed_query \<Rightarrow> string \<Rightarrow> bool" where
  "column_selected q n \<longleftrightarrow> pq_columns q = AllColumns \<or> (\<exists>item \<in> set (named_items q). column_name item = Some n)"

definition sql_rows :: "domain_schema \<Rightarrow> parsed_query \<Rightarrow> page_row list \<Rightarrow> (record_id \<times> named_row) list" where
  "sql_rows schema q rows =
     truncated (pq_limit q)
       (map (\<lambda>(i, fs). (i, filter (column_selected q \<circ> fst) fs))
         (filter (\<lambda>(i, fs). \<forall>c \<in> set (pq_conditions q). condition_holds fs c)
           (map (\<lambda>(i, fs). (i, named schema fs)) rows)))"

section \<open>Typing\<close>

definition schema_ok :: "domain_schema \<Rightarrow> bool" where
  "schema_ok schema \<longleftrightarrow> distinct (map fd_tag (ds_fields schema)) \<and> distinct (map fd_name (ds_fields schema))"

fun literal_fits :: "value_kind \<Rightarrow> sql_literal \<Rightarrow> bool" where
  "literal_fits KU32 (LNumber n) = (0 \<le> sint n \<and> sint n < 2 ^ 32)"
| "literal_fits KI64 (LNumber n) = True"
| "literal_fits KBool (LBool b) = True"
| "literal_fits KStr (LStr s) = True"
| "literal_fits _ _ = False"

definition condition_typed :: "domain_schema \<Rightarrow> parsed_condition \<Rightarrow> bool" where
  "condition_typed schema c \<longleftrightarrow>
     (\<exists>d \<in> set (ds_fields schema). fd_name d = pc_name c \<and> literal_fits (fd_value_kind d) (pc_value c) \<and>
        (is_ordering (pc_op c) \<longrightarrow> orderable_field d))"

definition query_typed :: "domain_schema \<Rightarrow> parsed_query \<Rightarrow> bool" where
  "query_typed schema q \<longleftrightarrow>
     (\<forall>item \<in> set (named_items q). \<forall>n. column_name item = Some n \<longrightarrow> n \<in> fd_name ` set (ds_fields schema)) \<and>
     (\<forall>c \<in> set (pq_conditions q). condition_typed schema c)"

text \<open>A row has the fields of its table and no others.\<close>

definition described :: "domain_schema \<Rightarrow> row_fields \<Rightarrow> bool" where
  "described schema fs \<longleftrightarrow> fst ` set fs \<subseteq> fd_tag ` set (ds_fields schema)"

section \<open>Names and tags\<close>

lemma find_key: "distinct (map f xs) \<Longrightarrow> x \<in> set xs \<Longrightarrow> List.find (\<lambda>y. f y = f x) xs = Some x"
  by (induction xs) force+

lemma field_in_iff:
  assumes "schema_ok schema"
  shows "field_in schema n = Ok d \<longleftrightarrow> d \<in> set (ds_fields schema) \<and> fd_name d = n"
proof
  assume "field_in schema n = Ok d"
  then have "List.find (\<lambda>f. fd_name f = n) (ds_fields schema) = Some d"
    by (cases "List.find (\<lambda>f. fd_name f = n) (ds_fields schema)") (simp_all add: field_in_def)
  then show "d \<in> set (ds_fields schema) \<and> fd_name d = n" by (auto simp: find_Some_iff)
next
  assume "d \<in> set (ds_fields schema) \<and> fd_name d = n"
  then show "field_in schema n = Ok d"
    using find_key [of fd_name "ds_fields schema" d] assms by (auto simp: field_in_def schema_ok_def)
qed

lemma kind_of_field: "schema_ok schema \<Longrightarrow> d \<in> set (ds_fields schema) \<Longrightarrow> kind_of schema (fd_tag d) = Some (fd_value_kind d)"
  using find_key [of fd_tag "ds_fields schema" d] by (simp add: kind_of_def schema_ok_def)

lemma field_name_field: "schema_ok schema \<Longrightarrow> d \<in> set (ds_fields schema) \<Longrightarrow> field_name schema (fd_tag d) = fd_name d"
  using find_key [of fd_tag "ds_fields schema" d] by (simp add: field_name_def schema_ok_def)

lemma name_inj:
  "schema_ok schema \<Longrightarrow> d \<in> set (ds_fields schema) \<Longrightarrow> e \<in> set (ds_fields schema) \<Longrightarrow>
     fd_name d = fd_name e \<longleftrightarrow> fd_tag d = fd_tag e"
  unfolding schema_ok_def distinct_map inj_on_def by blast

lemma map_of_named:
  assumes "schema_ok schema" "described schema fs" "d \<in> set (ds_fields schema)"
  shows "map_of (named schema fs) (fd_name d) = field_value fs (fd_tag d)"
  using assms(2)
proof (induction fs)
  case Nil
  then show ?case by (simp add: named_def field_value_def)
next
  case (Cons p fs)
  obtain tag v where p: "p = (tag, v)" by fastforce
  from Cons.prems obtain e where e: "e \<in> set (ds_fields schema)" "tag = fd_tag e" by (auto simp: described_def p)
  have "described schema fs" using Cons.prems by (simp add: described_def)
  with Cons.IH have IH: "map_of (named schema fs) (fd_name d) = field_value fs (fd_tag d)" .
  show ?case
    using IH field_name_field [OF assms(1) e(1)] name_inj [OF assms(1) e(1) assms(3)]
    by (auto simp: named_def field_value_def p e(2))
qed

section \<open>Literals\<close>

lemma resolve_literal_iff:
  "literal_fits k l \<longleftrightarrow> (\<exists>v. resolve_literal n k l = Ok v)"
  by (cases "(n, k, l)" rule: resolve_literal.cases) auto

lemma resolve_literal_kind: "resolve_literal n k l = Ok v \<Longrightarrow> value_matches_kind k v"
  by (cases "(n, k, l)" rule: resolve_literal.cases) (auto split: if_splits)

lemma uint_ucast_number:
  fixes n :: i64
  assumes "0 \<le> sint n" "sint n < 2 ^ 32"
  shows "uint (ucast n :: u32) = sint n"
proof -
  have "uint n = uint (word_of_int (sint n) :: i64)" by simp
  also have "\<dots> = sint n" using assms unfolding uint_word_of_int by (simp add: take_bit_int_eq_self)
  finally show ?thesis using assms by (simp add: unsigned_ucast_eq take_bit_int_eq_self)
qed

lemma compare_literal:
  assumes "resolve_literal n k l = Ok w" "has_kind k v" "is_ordering op \<longrightarrow> k = KU32 \<or> k = KI64"
  shows "compare_values v op w = literal_holds v op l"
proof -
  consider (u) m where "k = KU32" "l = LNumber m" "w = VU32 (ucast m)" "0 \<le> sint m" "sint m < 2 ^ 32"
    | (i) m where "k = KI64" "l = LNumber m" "w = VI64 m"
    | (b) x where "k = KBool" "l = LBool x" "w = VBool x" | (s) x where "k = KStr" "l = LStr x" "w = VStr x"
    using assms(1) by (cases "(n, k, l)" rule: resolve_literal.cases) (auto split: if_splits)
  then show ?thesis
  proof cases
    case u
    then obtain a where "v = VU32 a" using assms(2) by auto
    with u uint_ucast_number [OF u(4,5)] show ?thesis
      by (cases op) (auto simp: compare_values_def uint_same [symmetric])
  next
    case i
    then obtain a where "v = VI64 a" using assms(2) by auto
    with i show ?thesis by (cases op) (auto simp: compare_values_def sint_same)
  next
    case b
    with assms(2,3) show ?thesis by (cases op) (auto simp: compare_values_def)
  next
    case s
    with assms(2,3) show ?thesis by (cases op) (auto simp: compare_values_def)
  qed
qed

section \<open>Filters\<close>

lemma resolve_condition_OkD:
  assumes "schema_ok schema" "resolve_condition schema c = Ok p"
  obtains d where "d \<in> set (ds_fields schema)" "fd_name d = pc_name c" "pr_field p = fd_tag d" "pr_op p = pc_op c"
    "resolve_literal (pc_name c) (fd_value_kind d) (pc_value c) = Ok (pr_value p)"
    "is_ordering (pc_op c) \<longrightarrow> orderable_field d"
  using assms by (auto simp: resolve_condition_def and_then_Ok_iff field_in_iff split: if_splits)

lemma resolve_condition_total:
  assumes "schema_ok schema"
  shows "condition_typed schema c \<longleftrightarrow> (\<exists>p. resolve_condition schema c = Ok p)"
proof
  assume "condition_typed schema c"
  then obtain d v where d: "d \<in> set (ds_fields schema)" "fd_name d = pc_name c"
    "resolve_literal (pc_name c) (fd_value_kind d) (pc_value c) = Ok v" "is_ordering (pc_op c) \<longrightarrow> orderable_field d"
    by (auto simp: condition_typed_def resolve_literal_iff [of _ _ "pc_name c"])
  then have "field_in schema (pc_name c) = Ok d" by (simp add: field_in_iff [OF assms])
  with d show "\<exists>p. resolve_condition schema c = Ok p" by (auto simp: resolve_condition_def)
next
  assume "\<exists>p. resolve_condition schema c = Ok p"
  then obtain p where "resolve_condition schema c = Ok p" ..
  then show "condition_typed schema c"
    by (rule resolve_condition_OkD [OF assms]) (auto simp: condition_typed_def resolve_literal_iff [of _ _ "pc_name c"])
qed

lemma resolved_predicate_valid:
  assumes "schema_ok schema" "resolve_condition schema c = Ok p"
  shows "validate_predicate schema p = Ok ()"
proof (rule resolve_condition_OkD [OF assms])
  fix d assume d: "d \<in> set (ds_fields schema)" "pr_field p = fd_tag d" "pr_op p = pc_op c"
    "resolve_literal (pc_name c) (fd_value_kind d) (pc_value c) = Ok (pr_value p)"
    "is_ordering (pc_op c) \<longrightarrow> orderable_field d"
  then show ?thesis
    using kind_of_field [OF assms(1) d(1)] resolve_literal_kind [OF d(4)]
    by (auto simp: validate_predicate_def orderable_field_def orderable_def)
qed

lemma resolved_predicate_meaning:
  assumes "schema_ok schema" "resolve_condition schema c = Ok p" "described schema fs" "row_ok schema fs"
  shows "predicate_matches fs p = condition_holds (named schema fs) c"
proof (rule resolve_condition_OkD [OF assms(1,2)])
  fix d assume d: "d \<in> set (ds_fields schema)" "fd_name d = pc_name c" "pr_field p = fd_tag d" "pr_op p = pc_op c"
    "resolve_literal (pc_name c) (fd_value_kind d) (pc_value c) = Ok (pr_value p)"
    "is_ordering (pc_op c) \<longrightarrow> orderable_field d"
  from row_okD [OF assms(4) kind_of_field [OF assms(1) d(1)]] obtain v where
    v: "field_value fs (fd_tag d) = Some v" "has_kind (fd_value_kind d) v" by blast
  with compare_literal [OF d(5) v(2), of "pc_op c"] d map_of_named [OF assms(1,3) d(1)] show ?thesis
    by (auto simp: predicate_matches_def condition_holds_def orderable_field_def)
qed

lemma resolve_filter_OkD:
  assumes "resolve_filter_in schema cs = Ok ps"
  shows "list_all2 (\<lambda>c p. resolve_condition schema c = Ok p) cs ps"
  using assms by (simp add: resolve_filter_in_def collect_all_Ok_iff)

lemma resolve_filter_total:
  assumes "schema_ok schema" "\<forall>c \<in> set cs. condition_typed schema c"
  shows "\<exists>ps. resolve_filter_in schema cs = Ok ps"
  using assms(2) resolve_condition_total [OF assms(1)]
  by (induction cs) (auto simp: resolve_filter_in_def)

lemma filter_valid:
  assumes "schema_ok schema" "resolve_filter_in schema cs = Ok ps"
  shows "\<forall>p \<in> set ps. validate_predicate schema p = Ok ()"
  using resolve_filter_OkD [OF assms(2)]
proof (induction rule: list_all2_induct)
  case (Cons c cs p ps)
  then show ?case using resolved_predicate_valid [OF assms(1)] by simp
qed simp

lemma filter_meaning:
  assumes "schema_ok schema" "resolve_filter_in schema cs = Ok ps" "described schema fs" "row_ok schema fs"
  shows "(\<forall>p \<in> set ps. predicate_matches fs p) \<longleftrightarrow> (\<forall>c \<in> set cs. condition_holds (named schema fs) c)"
  using resolve_filter_OkD [OF assms(2)] resolved_predicate_meaning [OF assms(1) _ assms(3,4)]
  by (induction rule: list_all2_induct) auto

end
