(* ===== verification/Connection_Laws.thy ===== *)
theory Connection_Laws
  imports Connection
begin

text \<open>
  What the frame handler keeps: which frames can change a table, the shape of the tables, and the
  bounds of what a connection buffers.
\<close>

lemma send_response_iff: "send_response enc resp \<longleftrightarrow> frame_fits enc resp"
  using write_message_ok_iff [of enc "[]" resp] by (auto simp: send_response_def split: sum.splits)

section \<open>Frames that leave the tables alone\<close>

lemma put_state_same [simp]: "put_state n (tb_state (tables ! n)) tables = tables"
  by (simp add: put_state_def)

lemma dispatch_on_reads:
  "dispatch_on c tables req = Some (resp, c', tables') \<Longrightarrow> \<not> writes_table req \<Longrightarrow> c' = c \<and> tables' = tables"
  by (auto simp: dispatch_on_def keep_conn_def on_table_def Let_def dest: dispatch_reads)

lemma dispatch_on_conn: "dispatch_on c tables req = Some (resp, c', tables') \<Longrightarrow> c' = c"
  by (auto simp: dispatch_on_def keep_conn_def Let_def)

lemmas gate_defs = gated_read_def gated_write_def refuse_def keep_tables_def keep_conn_def

lemma serve_request_reads:
  assumes "serve_request primary c tables req = Some (resp, c', tables')"
    and "\<not> writes_table req" "req \<noteq> Commit"
  shows "tables' = tables"
  using assms
  by (cases req; force simp: gate_defs split: if_splits option.splits dest: dispatch_on_reads)

lemma serve_request_in_session:
  assumes "serve_request primary c tables req = Some (resp, c', tables')"
    and "cn_session c \<noteq> None" "req \<noteq> Commit"
  shows "tables' = tables"
proof (cases "writes_table req")
  case True
  with assms show ?thesis
    by (cases req) (auto simp: gate_defs Let_def split: if_splits option.splits)
qed (use assms serve_request_reads in blast)

lemma read_only_refuses_writes: "writes_table req \<Longrightarrow> read_only_refuses req"
  by (cases req) (simp_all add: read_only_refuses_def)

lemma handle_frame_cases:
  assumes "handle_frame enc opts primary peer clock c S req = Some e"
  obtains (hello) version where "req = Hello version" "fe_conn e = snd (hello_reply c version)" "fe_server e = S"
      "fe_response e = fst (hello_reply c version)" "fe_closed e \<longleftrightarrow> \<not> fe_sent e"
  | (authenticate) token limits events where "req = Authenticate token"
      "authenticate opts peer clock (c\<lparr>cn_first_frame := False\<rparr>) (ss_limits S) token = (fe_response e, fe_conn e, limits, events)"
      "fe_server e = S\<lparr>ss_limits := limits\<rparr>" "fe_closed e \<longleftrightarrow> \<not> fe_sent e \<or> MAX_AUTH_FAILURES \<le> cn_failures (fe_conn e)"
  | (refused) code where "cn_authenticated c = None \<or> cn_authenticated c = Some ReadOnly \<and> read_only_refuses req"
      "fe_conn e = c\<lparr>cn_first_frame := False\<rparr>" "fe_server e = S" "fe_closed e \<longleftrightarrow> \<not> fe_sent e" "fe_response e = err_response code"
  | (served) cls resp tables where "cn_authenticated c = Some cls" "\<not> (cls = ReadOnly \<and> read_only_refuses req)"
      "serve_request primary (c\<lparr>cn_first_frame := False\<rparr>) (ss_tables S) req = Some (resp, fe_conn e, tables)"
      "fe_server e = S\<lparr>ss_tables := tables\<rparr>" "fe_response e = downgrade_for_version resp (cn_negotiated c)" "fe_closed e \<longleftrightarrow> \<not> fe_sent e"
proof -
  let ?rest = "gated_frame enc primary (c\<lparr>cn_first_frame := False\<rparr>) S req"
  consider (h) v where "req = Hello v" | (a) t where "req = Authenticate t" | (o) "?rest = Some e"
    using assms unfolding handle_frame_def by (cases req) simp_all
  then show ?thesis
  proof cases
    case h
    with assms show ?thesis by (intro hello [of v]) (auto simp: handle_frame_def plain_effect_def)
  next
    case a
    obtain resp c' limits events where
      auth: "authenticate opts peer clock (c\<lparr>cn_first_frame := False\<rparr>) (ss_limits S) t = (resp, c', limits, events)"
      by (metis prod_cases4)
    with assms a show ?thesis by (intro authenticate [of t limits events]) (auto simp: handle_frame_def Let_def)
  next
    case o
    show ?thesis
    proof (cases "cn_authenticated c")
      case None
      with o show ?thesis by (intro refused [of Unauthenticated]) (auto simp: plain_effect_def gated_frame_def)
    next
      case (Some cls)
      show ?thesis
      proof (cases "cls = ReadOnly \<and> read_only_refuses req")
        case True
        with o Some show ?thesis by (intro refused [of Unauthorized]) (auto simp: plain_effect_def gated_frame_def)
      next
        case False
        with o Some obtain resp c' tables where
          "serve_request primary (c\<lparr>cn_first_frame := False\<rparr>) (ss_tables S) req = Some (resp, c', tables)"
          "e = \<lparr>fe_response = downgrade_for_version resp (cn_negotiated c), fe_conn = c', fe_server = S\<lparr>ss_tables := tables\<rparr>, fe_audit = [],
             fe_access = [\<lparr>ax_class = Some cls, ax_request = request_kind_of req,
                           ax_outcome = outcome_of (downgrade_for_version resp (cn_negotiated c))\<rparr>],
             fe_sent = send_response enc (downgrade_for_version resp (cn_negotiated c)),
             fe_closed = (\<not> send_response enc (downgrade_for_version resp (cn_negotiated c)))\<rparr>"
          by (auto simp: Let_def gated_frame_def)
        with Some False show ?thesis by (intro served [of cls resp tables]) simp_all
      qed
    qed
  qed
qed

section \<open>The tables keep their shape\<close>

definition same_shape :: "'s table list \<Rightarrow> 's table list \<Rightarrow> bool" where
  "same_shape T U \<longleftrightarrow> map (\<lambda>t. (tb_name t, tb_store t)) T = map (\<lambda>t. (tb_name t, tb_store t)) U"

lemma same_shape_refl [simp]: "same_shape T T"
  by (simp add: same_shape_def)

lemma same_shape_trans: "same_shape T U \<Longrightarrow> same_shape U V \<Longrightarrow> same_shape T V"
  by (simp add: same_shape_def)

lemma same_shape_length: "same_shape T U \<Longrightarrow> length U = length T"
  unfolding same_shape_def by (metis length_map)

lemma same_shape_put [simp]: "same_shape T (put_state n s T)"
  by (auto simp: same_shape_def put_state_def map_update intro!: nth_equalityI simp: nth_list_update)

lemma on_table_shape: "on_table T n out = Some (resp, U) \<Longrightarrow> same_shape T U"
  by (auto simp: on_table_def)

lemma detach_tables_shape: "detach_tables this i k T = Some (failed, U) \<Longrightarrow> same_shape T U"
proof (induction this i k T rule: detach_tables.induct)
  case (1 this i k T)
  show ?case
  proof (cases "k < length T")
    case False
    with "1.prems" show ?thesis by (simp add: detach_tables.simps [of this i k T])
  next
    case inside: True
    show ?thesis
    proof (cases "tb_name (T ! k) = this")
      case True
      with "1.prems" inside have "detach_tables this i (Suc k) T = Some (failed, U)"
        by (simp add: detach_tables.simps [of this i k T] Let_def)
      with "1.IH"(1) [OF inside refl True] show ?thesis by simp
    next
      case False
      with "1.prems" inside obtain err s where
        d: "detach_relations (tb_store (T ! k)) this i (cs_describe_relations (tb_store (T ! k)) (tb_state (T ! k))) (tb_state (T ! k))
          = Some (err, s)"
        by (auto simp: detach_tables.simps [of this i k T] Let_def split: option.splits)
      show ?thesis
      proof (cases err)
        case None
        with "1.prems" inside False d have "detach_tables this i (Suc k) (put_state k s T) = Some (failed, U)"
          by (simp add: detach_tables.simps [of this i k T] Let_def)
        with "1.IH"(2) [OF inside refl False d _ None] None d have "same_shape (put_state k s T) U" by simp
        then show ?thesis by (rule same_shape_trans [OF same_shape_put])
      next
        case (Some code)
        with "1.prems" inside False d have "U = put_state k s T"
          by (auto simp: detach_tables.simps [of this i k T] Let_def)
        then show ?thesis by simp
      qed
    qed
  qed
qed

lemma delete_across_shape:
  assumes "delete_across T n i = Some (resp, U)"
  shows "same_shape T U"
proof -
  from assms obtain r V where step: "on_table T n (dispatch (tb_store (T ! n)) (tb_state (T ! n)) (Delete i)) = Some (r, V)"
    by (auto simp: delete_across_def split: option.splits)
  note shape = on_table_shape [OF step]
  show ?thesis
  proof (cases "r = ROk")
    case False
    with assms step shape show ?thesis by (simp add: delete_across_def)
  next
    case True
    with assms step obtain failed where "detach_tables (cs_table_name (tb_store (V ! n))) i 0 V = Some (failed, U)"
      by (auto simp: delete_across_def)
    from same_shape_trans [OF shape detach_tables_shape [OF this]] show ?thesis .
  qed
qed

lemma link_across_shape: "link_across T n l r relation = Some (resp, U) \<Longrightarrow> same_shape T U"
  by (auto simp: link_across_def Let_def split: option.splits dest: on_table_shape)

lemma dispatch_on_shape: "dispatch_on c T req = Some (resp, c', U) \<Longrightarrow> same_shape T U"
  by (auto simp: dispatch_on_def keep_conn_def Let_def dest: on_table_shape)

lemma serve_request_shape:
  assumes "serve_request primary c T req = Some (resp, c', U)"
  shows "same_shape T U"
proof (cases "writes_table req \<or> req = Commit")
  case True
  with assms show ?thesis
    by (cases req)
      (auto simp: gate_defs Let_def split: if_splits option.splits
        dest: dispatch_on_shape link_across_shape delete_across_shape)
next
  case False
  with serve_request_reads [OF assms] show ?thesis by simp
qed

section \<open>Bounds of a connection\<close>

definition conn_ok :: "nat \<Rightarrow> conn \<Rightarrow> bool" where
  "conn_ok n c \<longleftrightarrow>
     1 \<le> cn_negotiated c \<and> cn_negotiated c \<le> PROTOCOL_VERSION \<and> cn_table c < n \<and>
     (cn_session c = None \<longrightarrow> cn_read_your_writes c = None \<and> \<not> cn_validate_on_stage c \<and> cn_snapshot_reads c = None) \<and>
     (\<forall>staged. cn_session c = Some staged \<longrightarrow> length staged \<le> MAX_STAGED_OPS) \<and>
     (\<forall>reads. cn_snapshot_reads c = Some reads \<longrightarrow> hm_wf reads \<and> length reads \<le> MAX_TRACKED_READS)"

lemma record_read_set_ok:
  "hm_wf reads \<and> length reads \<le> MAX_TRACKED_READS \<Longrightarrow>
   hm_wf (record_read_set reads i fs) \<and> length (record_read_set reads i fs) \<le> MAX_TRACKED_READS"
  by (induction fs rule: rev_induct) (auto simp: record_read_set_def length_update)

lemma session_get_ok: "conn_ok n c \<Longrightarrow> conn_ok n (snd (session_get c resp))"
  using record_read_set_ok by (cases resp) (auto simp: session_get_def conn_ok_def)

lemma close_session_ok: "conn_ok n c \<Longrightarrow> conn_ok n (close_session c)"
  by (simp add: conn_ok_def close_session_def)

lemma begin_session_ok: "conn_ok n c \<Longrightarrow> conn_ok n (snd (begin_session c))"
  by (simp add: conn_ok_def begin_session_def)

lemma begin_with_ok: "conn_ok n c \<Longrightarrow> conn_ok n (snd (begin_with schema c flags))"
  by (simp add: conn_ok_def begin_with_def)

lemma stage_update_ok: "stage_update S s c staged op = Some (resp, c') \<Longrightarrow> cn_session c = Some staged \<Longrightarrow> conn_ok n c \<Longrightarrow> conn_ok n c'"
  by (auto simp: stage_update_def conn_ok_def split: option.splits sum.splits if_splits)

lemma commit_session_conn: "commit_session S s c = Some (resp, c', s') \<Longrightarrow> c' = close_session c"
  by (auto simp: commit_session_def split: option.splits)

lemma position_less: "position p xs = Some n \<Longrightarrow> n < length xs"
  using position_Some by blast

lemma serve_request_ok:
  assumes "serve_request primary c T req = Some (resp, c', U)" "conn_ok (length T) c"
  shows "conn_ok (length T) c'"
  using assms
proof (cases req)
  case (Use name)
  with assms show ?thesis
    by (auto simp: gate_defs conn_ok_def split: if_splits option.splits dest: position_less)
next
  case (UpdateField i field v)
  with assms show ?thesis
    by (auto split: option.splits dest: dispatch_on_conn stage_update_ok simp: Let_def)
qed (auto simp: gate_defs Let_def rollback_session_def session_get_ok close_session_ok begin_session_ok begin_with_ok
      split: if_splits option.splits dest: dispatch_on_conn commit_session_conn)

end
