(* ===== verification/Server_Machine.thy ===== *)
theory Server_Machine
  imports Connection_Laws
begin

text \<open>
  The server as a whole: connections come and go, each frame of each runs against the shared tables
  and the shared failure table (\<open>serve_tables\<close> of \<open>src/server/serve.rs\<close>; a frame's work is one step,
  since every table operation takes that table's lock).
\<close>

record ('c, 'ip, 's) world =
  wd_server :: "('ip, 's) server_state"
  wd_conns :: "'c \<rightharpoonup> conn"

definition initial_world :: "'s table list \<Rightarrow> rate_limit option \<Rightarrow> ('c, 'ip, 's) world" where
  "initial_world tables limit =
     \<lparr>wd_server = \<lparr>ss_tables = tables, ss_limits = map_option new_table limit\<rparr>, wd_conns = Map.empty\<rparr>"

inductive server_step :: "response_encoder \<Rightarrow> serve_options \<Rightarrow> nat \<Rightarrow> ('c \<Rightarrow> 'ip option) \<Rightarrow> ('c, 'ip, 's) world \<Rightarrow> ('c, 'ip, 's) world \<Rightarrow> bool"
  for enc opts primary peer_of where
  accept: "wd_conns W k = None \<Longrightarrow>
    server_step enc opts primary peer_of W
      (W\<lparr>wd_conns := (wd_conns W)(k \<mapsto> initial_conn opts (Option.bind leaf (class_for_certificate opts)) primary)\<rparr>)"
| frame: "wd_conns W k = Some c \<Longrightarrow> handle_frame enc opts primary (peer_of k) clock c (wd_server W) req = Some e \<Longrightarrow>
    server_step enc opts primary peer_of W
      \<lparr>wd_server = fe_server e, wd_conns = (wd_conns W)(k := if fe_closed e then None else Some (fe_conn e))\<rparr>"
| hangup: "server_step enc opts primary peer_of W (W\<lparr>wd_conns := (wd_conns W)(k := None)\<rparr>)"

inductive server_reaches :: "response_encoder \<Rightarrow> serve_options \<Rightarrow> nat \<Rightarrow> ('c \<Rightarrow> 'ip option) \<Rightarrow> ('c, 'ip, 's) world \<Rightarrow> ('c, 'ip, 's) world \<Rightarrow> bool"
  for enc opts primary peer_of W0 where
  start: "server_reaches enc opts primary peer_of W0 W0"
| more: "server_reaches enc opts primary peer_of W0 W \<Longrightarrow> server_step enc opts primary peer_of W W' \<Longrightarrow>
    server_reaches enc opts primary peer_of W0 W'"

section \<open>Bounds in every reachable world\<close>

definition world_ok :: "'s table list \<Rightarrow> ('c, 'ip, 's) world \<Rightarrow> bool" where
  "world_ok tables W \<longleftrightarrow> same_shape tables (ss_tables (wd_server W)) \<and>
     (\<forall>T. ss_limits (wd_server W) = Some T \<longrightarrow> table_ok T) \<and>
     (\<forall>k c. wd_conns W k = Some c \<longrightarrow> conn_ok (length tables) c \<and> cn_failures c < MAX_AUTH_FAILURES)"

lemma initial_conn_ok: "primary < n \<Longrightarrow> conn_ok n (initial_conn opts cert primary)"
  by (simp add: conn_ok_def initial_conn_def PROTOCOL_VERSION_def)

lemma hello_reply_ok: "conn_ok n c \<Longrightarrow> conn_ok n (snd (hello_reply c version)) \<and> cn_failures (snd (hello_reply c version)) = cn_failures c"
  by (auto simp: conn_ok_def hello_reply_def Let_def unat_gt_0 Suc_le_eq PROTOCOL_VERSION_def)

lemma authenticate_ok:
  assumes "authenticate opts peer clock c limits token = (resp, c', limits', events)"
  shows "conn_ok n c \<Longrightarrow> conn_ok n c'"
    and "(\<forall>T. limits = Some T \<longrightarrow> table_ok T) \<Longrightarrow> limits' = Some U \<Longrightarrow> table_ok U"
  using assms
  by (auto simp: authenticate_def conn_ok_def note_peer_failure_def note_failure_ok split: if_splits option.splits)

text \<open>What only \<open>Authenticate\<close> changes.\<close>

definition same_login :: "conn \<Rightarrow> conn \<Rightarrow> bool" where
  "same_login c c' \<longleftrightarrow> cn_failures c' = cn_failures c \<and> cn_authenticated c' = cn_authenticated c"

lemma session_login [simp]:
  "same_login c c"
  "same_login c (close_session c)"
  "same_login c (snd (begin_session c))"
  "same_login c (snd (begin_with schema c flags))"
  "same_login c (snd (session_get c resp))"
  "same_login c (c\<lparr>cn_table := n\<rparr>)"
  by (auto simp: same_login_def close_session_def begin_session_def begin_with_def session_get_def
      split: response.split)

lemma stage_update_login: "stage_update S s c staged op = Some (resp, c') \<Longrightarrow> same_login c c'"
  by (auto simp: stage_update_def same_login_def split: option.splits sum.splits if_splits)

lemma serve_request_login:
  assumes "serve_request primary c T req = Some (resp, c', U)"
  shows "same_login c c'"
  using assms
  by (cases req)
    (auto simp: gate_defs Let_def rollback_session_def split: if_splits option.splits
      dest: dispatch_on_conn commit_session_conn stage_update_login)

lemma serve_request_failures:
  assumes "serve_request primary c T req = Some (resp, c', U)"
  shows "cn_failures c' = cn_failures c" and "cn_authenticated c' = cn_authenticated c"
  using serve_request_login [OF assms] by (simp_all add: same_login_def)

lemma first_frame_ok [simp]: "conn_ok n (c\<lparr>cn_first_frame := b\<rparr>) = conn_ok n c"
  by (simp add: conn_ok_def)

lemma handle_frame_ok:
  assumes "handle_frame enc opts primary peer clock c S req = Some e"
    and "same_shape tables (ss_tables S)" "\<forall>T. ss_limits S = Some T \<longrightarrow> table_ok T"
    and "conn_ok (length tables) c" "cn_failures c < MAX_AUTH_FAILURES"
  shows "same_shape tables (ss_tables (fe_server e))" and "\<forall>T. ss_limits (fe_server e) = Some T \<longrightarrow> table_ok T"
    and "conn_ok (length tables) (fe_conn e)" and "\<not> fe_closed e \<longrightarrow> cn_failures (fe_conn e) < MAX_AUTH_FAILURES"
proof -
  from assms(1) have "same_shape tables (ss_tables (fe_server e)) \<and> (\<forall>T. ss_limits (fe_server e) = Some T \<longrightarrow> table_ok T) \<and>
    conn_ok (length tables) (fe_conn e) \<and> (\<not> fe_closed e \<longrightarrow> cn_failures (fe_conn e) < MAX_AUTH_FAILURES)"
  proof (cases rule: handle_frame_cases)
    case (hello version)
    with assms hello_reply_ok show ?thesis by metis
  next
    case (authenticate token limits events)
    from assms(4) have "conn_ok (length tables) (c\<lparr>cn_first_frame := False\<rparr>)" by simp
    from authenticate_ok(1) [OF authenticate(2) this] authenticate_ok(2) [OF authenticate(2) assms(3)]
      assms(2) authenticate(3,4)
    show ?thesis by (simp add: not_le)
  next
    case (refused code)
    with assms show ?thesis by simp
  next
    case (served cls resp tables')
    have len: "length tables = length (ss_tables S)" using assms(2) by (simp add: same_shape_length)
    from served serve_request_ok [OF served(3)] serve_request_failures(1) [OF served(3)]
      same_shape_trans [OF assms(2) serve_request_shape [OF served(3)]] assms len
    show ?thesis by auto
  qed
  then show "same_shape tables (ss_tables (fe_server e))" "\<forall>T. ss_limits (fe_server e) = Some T \<longrightarrow> table_ok T"
    "conn_ok (length tables) (fe_conn e)" "\<not> fe_closed e \<longrightarrow> cn_failures (fe_conn e) < MAX_AUTH_FAILURES" by simp_all
qed

lemma server_step_ok:
  assumes "server_step enc opts primary peer_of W W'" "primary < length tables" "world_ok tables W"
  shows "world_ok tables W'"
  using assms(1)
proof (cases rule: server_step.cases)
  case (accept k leaf)
  have "cn_failures (initial_conn opts (Option.bind leaf (class_for_certificate opts)) primary) < MAX_AUTH_FAILURES"
    by (simp add: initial_conn_def MAX_AUTH_FAILURES_def)
  with accept assms(2,3) initial_conn_ok [OF assms(2)] show ?thesis by (auto simp: world_ok_def)
next
  case (frame k c clock req e)
  with assms(3) have "same_shape tables (ss_tables (wd_server W))" "\<forall>T. ss_limits (wd_server W) = Some T \<longrightarrow> table_ok T"
    "conn_ok (length tables) c" "cn_failures c < MAX_AUTH_FAILURES"
    unfolding world_ok_def by blast+
  note ok = handle_frame_ok [OF frame(3) this]
  with assms(3) frame show ?thesis by (auto simp: world_ok_def)
next
  case (hangup k)
  with assms(3) show ?thesis by (auto simp: world_ok_def)
qed

lemma server_reaches_ok:
  assumes "server_reaches enc opts primary peer_of (initial_world tables limit) W" "primary < length tables"
  shows "world_ok tables W"
  using assms(1)
proof (induction rule: server_reaches.induct)
  case start
  then show ?case by (auto simp: world_ok_def initial_world_def)
next
  case (more W W')
  with server_step_ok assms(2) show ?case by blast
qed

section \<open>Who can write\<close>

definition may_write :: "conn \<Rightarrow> bool" where
  "may_write c \<longleftrightarrow> cn_authenticated c = Some ReadWrite"

lemma handle_frame_read_only:
  assumes "handle_frame enc opts primary peer clock c S req = Some e" "\<not> may_write c"
  shows "ss_tables (fe_server e) = ss_tables S"
  using assms(1)
proof (cases rule: handle_frame_cases)
  case (served cls resp tables)
  with assms(2) have "cls = ReadOnly" by (cases cls) (auto simp: may_write_def)
  with served have "\<not> read_only_refuses req" by simp
  then have "\<not> writes_table req" "req \<noteq> Commit"
    using read_only_refuses_writes by (auto simp: read_only_refuses_def)
  from serve_request_reads [OF served(3) this] served(4) show ?thesis by simp
qed simp_all

definition grants_write :: "serve_options \<Rightarrow> bool" where
  "grants_write opts \<longleftrightarrow> \<not> is_configured opts \<or> so_read_write_token opts \<noteq> None \<or>
     ReadWrite \<in> snd ` set (so_certificate_classes opts)"

lemma authenticate_class:
  assumes "authenticate opts peer clock c limits token = (resp, c', limits', events)" "\<not> grants_write opts" "\<not> may_write c"
  shows "\<not> may_write c'"
  using assms
  by (auto simp: may_write_def authenticate_def grants_write_def check_token_def Let_def split: if_splits option.splits)

lemma handle_frame_class:
  assumes "handle_frame enc opts primary peer clock c S req = Some e" "\<not> grants_write opts" "\<not> may_write c"
  shows "\<not> may_write (fe_conn e)"
  using assms(1)
proof (cases rule: handle_frame_cases)
  case (hello version)
  with assms(3) show ?thesis by (auto simp: may_write_def hello_reply_def Let_def)
next
  case (authenticate token limits events)
  from authenticate_class [OF authenticate(2) assms(2)] assms(3) show ?thesis by (simp add: may_write_def)
next
  case (refused code)
  with assms(3) show ?thesis by (simp add: may_write_def)
next
  case (served cls resp tables)
  with assms(3) serve_request_failures(2) [OF served(3)] show ?thesis by (simp add: may_write_def)
qed

lemma find_mem: "List.find P xs = Some x \<Longrightarrow> x \<in> set xs \<and> P x"
  by (induction xs) (auto split: if_splits)

lemma initial_class_read_only:
  assumes "\<not> grants_write opts"
  shows "\<not> may_write (initial_conn opts (Option.bind leaf (class_for_certificate opts)) primary)"
proof -
  have "Option.bind leaf (class_for_certificate opts) \<noteq> Some ReadWrite"
  proof
    assume "Option.bind leaf (class_for_certificate opts) = Some ReadWrite"
    then obtain der entry where "List.find (\<lambda>c. fst c = der) (so_certificate_classes opts) = Some entry" "snd entry = ReadWrite"
      by (auto simp: bind_eq_Some_conv class_for_certificate_def)
    with assms find_mem show False by (fastforce simp: grants_write_def image_iff)
  qed
  with assms show ?thesis
    by (auto simp: may_write_def initial_conn_def initial_class_def grants_write_def split: option.splits bool.splits)
qed

lemma no_writer_reaches:
  assumes "server_reaches enc opts primary peer_of (initial_world tables limit) W" "\<not> grants_write opts"
  shows "ss_tables (wd_server W) = tables \<and> (\<forall>k c. wd_conns W k = Some c \<longrightarrow> \<not> may_write c)"
  using assms(1)
proof (induction rule: server_reaches.induct)
  case start
  then show ?case by (simp add: initial_world_def)
next
  case (more W W')
  from more.hyps(2) show ?case
  proof (cases rule: server_step.cases)
    case (accept k leaf)
    with more.IH initial_class_read_only [OF assms(2)] show ?thesis by auto
  next
    case (frame k c clock req e)
    with more.IH have "\<not> may_write c" by blast
    with more.IH frame handle_frame_read_only [OF frame(3)] handle_frame_class [OF frame(3) assms(2)]
    show ?thesis by auto
  next
    case (hangup k)
    with more.IH show ?thesis by auto
  qed
qed

end
