(* ===== verification/Client_Server.thy ===== *)
theory Client_Server
  imports Client_Laws Server_Machine Sql_Grammar
begin

text \<open>
  The client's wire with the modelled server at its other end, and what a plain \<open>SELECT\<close> and an
  aggregate do across it.
\<close>

section \<open>The server as a wire\<close>

text \<open>
  What the frame loop of a connection does with the bytes of one request: a frame it cannot read, a
  frame it answers by closing, and a panic of its thread each leave the client without a connection;
  what it sends is the frame of the response, or nothing if that does not fit.
\<close>

fun serve_bytes :: "message_codec \<Rightarrow> serve_options \<Rightarrow> nat \<Rightarrow> 'ip option \<Rightarrow> nat \<times> nat \<Rightarrow> byte list \<Rightarrow>
    conn option \<times> ('ip, 's) server_state \<Rightarrow> byte list \<times> conn option \<times> ('ip, 's) server_state" where
  "serve_bytes W opts primary peer clock bytes (None, S) = ([], None, S)"
| "serve_bytes W opts primary peer clock bytes (Some c, S) =
     (case read_message (mc_read_request W) bytes of
        Inl e \<Rightarrow> ([], None, S)
      | Inr (req, rest) \<Rightarrow>
          (case handle_frame (mc_response W) opts primary peer clock c S req of
             None \<Rightarrow> ([], None, S)
           | Some e \<Rightarrow>
               (case write_message (mc_response W) [] (fe_response e) of Inl _ \<Rightarrow> [] | Inr frame \<Rightarrow> frame,
                if fe_closed e then None else Some (fe_conn e), fe_server e)))"

definition served_wire :: "message_codec \<Rightarrow> serve_options \<Rightarrow> nat \<Rightarrow> 'ip option \<Rightarrow> nat \<times> nat \<Rightarrow>
    (conn option \<times> ('ip, 's) server_state) wire" where
  "served_wire W opts primary peer clock = exchange W (serve_bytes W opts primary peer clock)"

text \<open>A client on an authenticated connection whose schema is its table's.\<close>

definition on_served_table :: "client \<Rightarrow> conn \<Rightarrow> ('ip, 's) server_state \<Rightarrow> page_row list \<Rightarrow> bool" where
  "on_served_table k c S rows \<longleftrightarrow>
     cn_authenticated c \<noteq> None \<and> 11 \<le> cn_negotiated c \<and> cl_version k = cn_negotiated c \<and>
     (\<exists>t. cn_table c < length (ss_tables S) \<and> t = ss_tables S ! cn_table c \<and> cs_describe (tb_store t) = cl_schema k \<and>
        cs_scan_all (tb_store t) (tb_state t) = Some rows) \<and>
     schema_ok (cl_schema k) \<and> (\<forall>(i, fs) \<in> set rows. row_ok (cl_schema k) fs \<and> described (cl_schema k) fs)"

lemma put_state_unchanged [simp]: "put_state n (tb_state (tables ! n)) tables = tables"
  by (simp add: put_state_def)

lemma read_nothing: "read_message dec [] = Err PeerClosed"
  by (simp add: read_message_def read_exact_def)

text \<open>A request whose frame is read, handled and answered.\<close>

lemma served_frame:
  assumes W: "codec_ok W" and e: "handle_frame (mc_response W) opts primary peer clock c S req = Some e"
    and closed: "fe_closed e \<longleftrightarrow> \<not> frame_fits (mc_response W) (fe_response e)"
  shows "served_wire W opts primary peer clock req (Some c, S) =
    (case write_message (mc_request W) [] req of
       Inl x \<Rightarrow> (Err (CeFrame x), Some c, S)
     | Inr _ \<Rightarrow> if frame_fits (mc_response W) (fe_response e) then (Ok (fe_response e), Some (fe_conn e), fe_server e)
              else (Err (CeFrame PeerClosed), None, fe_server e))"
proof (cases "write_message (mc_request W) [] req")
  case (Inl x)
  then show ?thesis by (simp add: served_wire_def exchange_def)
next
  case (Inr frame)
  then have r: "read_message (mc_read_request W) frame = Ok (req, [])"
    using read_written [of "mc_request W" "mc_read_request W" req frame "[]"] W by (simp add: codec_ok_def)
  show ?thesis
  proof (cases "frame_fits (mc_response W) (fe_response e)")
    case True
    then obtain reply where w: "write_message (mc_response W) [] (fe_response e) = Ok reply"
      using write_message_ok_iff [of "mc_response W" "[]" "fe_response e"] by auto
    then have "read_message (mc_read_response W) reply = Ok (fe_response e, [])"
      using read_written [of "mc_response W" "mc_read_response W" "fe_response e" reply "[]"] W by (simp add: codec_ok_def)
    with Inr r w e closed True show ?thesis by (simp add: served_wire_def exchange_def)
  next
    case False
    then obtain x where "write_message (mc_response W) [] (fe_response e) = Err x"
      using write_message_ok_iff [of "mc_response W" "[]" "fe_response e"] by (cases "write_message (mc_response W) [] (fe_response e)") auto
    with Inr r e closed False show ?thesis by (simp add: served_wire_def exchange_def read_nothing)
  qed
qed

lemma served_read:
  assumes W: "codec_ok W" and "cn_authenticated c \<noteq> None"
    and req: "\<And>primary c. serve_request primary c (ss_tables S) req = dispatch_on c (ss_tables S) req"
      "request_kind_of req \<in> {RkQuery, RkAggregate}"
    and out: "dispatch (tb_store t) (tb_state t) req = Some (resp, tb_state t)" "t = ss_tables S ! cn_table c"
    and new: "downgrade_for_version resp (cn_negotiated c) = resp"
  shows "served_wire W opts primary peer clock req (Some c, S) =
    (case write_message (mc_request W) [] req of
       Inl x \<Rightarrow> (Err (CeFrame x), Some c, S)
     | Inr _ \<Rightarrow> if frame_fits (mc_response W) resp then (Ok resp, Some (c\<lparr>cn_first_frame := False\<rparr>), S)
              else (Err (CeFrame PeerClosed), None, S))"
proof -
  have "handle_frame (mc_response W) opts primary peer clock c S req =
      gated_frame (mc_response W) primary (c\<lparr>cn_first_frame := False\<rparr>) S req"
    using req(2) by (cases req) (simp_all add: handle_frame_def)
  moreover obtain cls where "cn_authenticated c = Some cls" using assms(2) by blast
  moreover have "\<not> read_only_refuses req" using req(2) by (auto simp: read_only_refuses_def)
  ultimately obtain e where e: "handle_frame (mc_response W) opts primary peer clock c S req = Some e"
    "fe_response e = resp" "fe_conn e = c\<lparr>cn_first_frame := False\<rparr>" "fe_server e = S"
    "fe_closed e \<longleftrightarrow> \<not> frame_fits (mc_response W) resp"
    using req(1) [of primary "c\<lparr>cn_first_frame := False\<rparr>"] out new
    by (simp add: gated_frame_def dispatch_on_def keep_conn_def on_table_def send_response_iff Let_def)
  from served_frame [OF W e(1)] e(5) show ?thesis unfolding e(2-4) by simp
qed

section \<open>A plain \<open>SELECT\<close>\<close>

lemma select_tags_ok:
  assumes "schema_ok schema" "\<not> list_ex is_aggregate_item items"
    and "\<forall>item \<in> set items. \<forall>n. column_name item = Some n \<longrightarrow> n \<in> fd_name ` set (ds_fields schema)"
  shows "\<exists>tags. select_tags schema items = Some (Ok tags) \<and>
    (\<forall>d \<in> set (ds_fields schema). fd_tag d \<in> set tags \<longleftrightarrow> (\<exists>item \<in> set items. column_name item = Some (fd_name d))) \<and>
    set tags \<subseteq> fd_tag ` set (ds_fields schema)"
  using assms(2,3)
proof (induction items)
  case (Cons item items)
  then obtain tags where IH: "select_tags schema items = Some (Ok tags)"
    "\<And>d. d \<in> set (ds_fields schema) \<Longrightarrow> fd_tag d \<in> set tags \<longleftrightarrow> (\<exists>item \<in> set items. column_name item = Some (fd_name d))"
    "set tags \<subseteq> fd_tag ` set (ds_fields schema)" by auto
  from Cons.prems obtain n where n: "column_name item = Some n" by (cases item) (auto simp: column_name_def)
  with Cons.prems obtain e where e: "e \<in> set (ds_fields schema)" "fd_name e = n" by auto
  then have "field_in schema n = Ok e" by (simp add: field_in_iff [OF assms(1)])
  with IH n e name_inj [OF assms(1) _ e(1)] show ?case by auto
qed simp

lemma named_select:
  assumes "schema_ok schema" "described schema fs"
    and "\<And>d. d \<in> set (ds_fields schema) \<Longrightarrow> P (fd_tag d) = Q (fd_name d)"
  shows "named schema (filter (\<lambda>p. P (fst p)) fs) = filter (Q \<circ> fst) (named schema fs)"
  using assms(2)
proof (induction fs)
  case (Cons p fs)
  then obtain e where e: "e \<in> set (ds_fields schema)" "fst p = fd_tag e" by (auto simp: described_def)
  have "described schema fs" using Cons.prems by (simp add: described_def)
  with Cons.IH e assms(3) [OF e(1)] field_name_field [OF assms(1) e(1)] show ?case
    by (cases p) (simp add: named_def)
qed (simp add: named_def)

lemma truncated_map: "map f (truncated limit xs) = truncated limit (map f xs)"
  by (cases limit) (simp_all add: truncated_def take_map)

lemma query_meaning:
  assumes schema: "schema_ok schema" and rows: "\<forall>(i, fs) \<in> set rows. row_ok schema fs \<and> described schema fs"
    and flt: "resolve_filter_in schema (pq_conditions q) = Ok flt"
    and sel: "\<And>fs. described schema fs \<Longrightarrow>
      named schema (select_fields fs sel) = filter (column_selected q \<circ> fst) (named schema fs)"
  shows "named_rows schema (evaluate_query rows sel flt (pq_limit q)) = sql_rows schema q rows"
proof -
  have "map (\<lambda>(i, fs). (i, named schema fs)) (map (\<lambda>(i, fs). (i, select_fields fs sel))
        (filter (\<lambda>(i, fs). \<forall>p \<in> set flt. predicate_matches fs p) rows)) =
      map (\<lambda>(i, fs). (i, filter (column_selected q \<circ> fst) fs))
        (filter (\<lambda>(i, fs). \<forall>c \<in> set (pq_conditions q). condition_holds fs c) (map (\<lambda>(i, fs). (i, named schema fs)) rows))"
    using rows
  proof (induction rows)
    case (Cons r rows)
    obtain i fs where r: "r = (i, fs)" by fastforce
    with Cons.prems have "row_ok schema fs" "described schema fs" by auto
    with Cons filter_meaning [OF schema flt, of fs] sel show ?case by (auto simp: r comp_def)
  qed simp
  then show ?thesis by (simp add: named_rows_def evaluate_query_def sql_rows_def truncated_map)
qed

lemma compile_rows_typed:
  assumes "schema_ok schema" "\<not> is_aggregate_query q" "query_typed schema q"
  obtains sel flt where "compile_rows schema q = Some (Ok (Query sel flt (pq_limit q)))"
    "validate_query schema sel flt = Ok ()" "resolve_filter_in schema (pq_conditions q) = Ok flt"
    "\<And>fs. described schema fs \<Longrightarrow>
      named schema (select_fields fs sel) = filter (column_selected q \<circ> fst) (named schema fs)"
proof -
  have "\<forall>c \<in> set (pq_conditions q). condition_typed schema c" using assms(3) by (simp add: query_typed_def)
  then obtain flt where flt: "resolve_filter_in schema (pq_conditions q) = Ok flt"
    using resolve_filter_total [OF assms(1)] by blast
  have valid: "check_all (validate_predicate schema) flt = Ok ()"
    using filter_valid [OF assms(1) flt] by (simp add: check_all_Ok_iff)
  show thesis
  proof (cases "pq_columns q")
    case AllColumns
    with flt valid show thesis
      by (intro that [of SelectAll flt])
        (simp_all add: compile_rows_def compile_select_def validate_query_def select_fields_def column_selected_def comp_def)
  next
    case (NamedColumns items)
    then have items: "named_items q = items" "\<not> list_ex is_aggregate_item items"
      using assms(2) by (simp_all add: named_items_def is_aggregate_query_def)
    then obtain tags where tags: "select_tags schema items = Some (Ok tags)"
      "\<forall>d \<in> set (ds_fields schema). fd_tag d \<in> set tags \<longleftrightarrow> (\<exists>item \<in> set items. column_name item = Some (fd_name d))"
      "set tags \<subseteq> fd_tag ` set (ds_fields schema)"
      using select_tags_ok [OF assms(1), of items] assms(3) by (auto simp: query_typed_def)
    have "\<forall>tag \<in> set tags. kind_of schema tag \<noteq> None"
      using tags(3) kind_of_field [OF assms(1)] by fastforce
    then have "validate_query schema (SelectFields tags) flt = Ok ()"
      using valid by (simp add: validate_query_def check_all_Ok_iff and_then_Ok_iff)
    moreover have "named schema (select_fields fs (SelectFields tags)) = filter (column_selected q \<circ> fst) (named schema fs)"
      if "described schema fs" for fs
      using named_select [OF assms(1) that, of "\<lambda>tag. tag \<in> set tags" "column_selected q"] tags(2)
      by (simp add: select_fields_def column_selected_def items(1) NamedColumns)
    ultimately show thesis
      using flt tags(1) by (intro that [of "SelectFields tags" flt])
        (simp_all add: compile_rows_def compile_select_def NamedColumns)
  qed
qed

lemma select_over_server:
  assumes W: "codec_ok W" and "on_served_table k c S rows" "parse sql = Ok q" "pq_join q = None" "\<not> is_aggregate_query q"
    and "query_typed (cl_schema k) q"
  shows "\<exists>sel flt. compile_rows (cl_schema k) q = Some (Ok (Query sel flt (pq_limit q))) \<and>
    cl_query (served_wire W opts primary peer clock) sql (k, Some c, S) =
      Some (case write_message (mc_request W) [] (Query sel flt (pq_limit q)) of
              Inl x \<Rightarrow> (Err (CeFrame x), k, Some c, S)
            | Inr _ \<Rightarrow>
                if frame_fits (mc_response W) (RRows (evaluate_query rows sel flt (pq_limit q)))
                then (Ok (QueryRows (sql_rows (cl_schema k) q rows)), k, Some (c\<lparr>cn_first_frame := False\<rparr>), S)
                else (Err (CeFrame PeerClosed), k, None, S))"
proof -
  let ?wire = "served_wire W opts primary peer clock"
  from assms(2) obtain t where t: "t = ss_tables S ! cn_table c" "cs_describe (tb_store t) = cl_schema k"
    "cs_scan_all (tb_store t) (tb_state t) = Some rows"
    and c: "cn_authenticated c \<noteq> None" "11 \<le> cn_negotiated c" "cl_version k = cn_negotiated c" "schema_ok (cl_schema k)"
      "\<forall>(i, fs) \<in> set rows. row_ok (cl_schema k) fs \<and> described (cl_schema k) fs"
    unfolding on_served_table_def by blast
  obtain sel flt where q: "compile_rows (cl_schema k) q = Some (Ok (Query sel flt (pq_limit q)))"
    "validate_query (cl_schema k) sel flt = Ok ()" "resolve_filter_in (cl_schema k) (pq_conditions q) = Ok flt"
    "\<And>fs. described (cl_schema k) fs \<Longrightarrow>
      named (cl_schema k) (select_fields fs sel) = filter (column_selected q \<circ> fst) (named (cl_schema k) fs)"
    using compile_rows_typed [OF c(4) assms(5,6)] by blast
  let ?resp = "RRows (evaluate_query rows sel flt (pq_limit q))"
  have "?wire (Query sel flt (pq_limit q)) (Some c, S) =
      (case write_message (mc_request W) [] (Query sel flt (pq_limit q)) of
         Inl x \<Rightarrow> (Err (CeFrame x), Some c, S)
       | Inr _ \<Rightarrow> if frame_fits (mc_response W) ?resp then (Ok ?resp, Some (c\<lparr>cn_first_frame := False\<rparr>), S)
                else (Err (CeFrame PeerClosed), None, S))"
    using c(2) by (intro served_read [OF W c(1) _ _ _ t(1)]) (simp_all add: t(2,3) q(2))
  with q(1) c(2,3) query_meaning [OF c(4,5) q(3,4)] assms(3-5) show ?thesis
    by (intro exI [of _ sel] exI [of _ flt])
      (simp add: cl_query_def call_bind_def call_result_def needs_version_def call_client_def call_map_def query_rows_def
        call_option_def ask_def roundtrip_def reply_shape_def call_ok_def split: sum.split)
qed

section \<open>Refusals\<close>

definition client_side :: "client_error \<Rightarrow> bool" where
  "client_side e \<longleftrightarrow> (\<exists>n. e = CeUnknownField n) \<or> (\<exists>r. e = CeSql r)"

lemma field_in_Err: "field_in schema n = Err e \<Longrightarrow> client_side e"
  by (auto simp: field_in_def client_side_def ok_or_def split: option.splits)

lemma resolve_literal_Err: "resolve_literal n k l = Err e \<Longrightarrow> client_side e"
  by (cases "(n, k, l)" rule: resolve_literal.cases) (auto simp: client_side_def split: if_splits)

lemma collect_all_Err: "collect_all f xs = Err e \<Longrightarrow> \<exists>x \<in> set xs. f x = Err e"
  by (induction xs) (auto simp: and_then_Err_iff)

lemma resolve_filter_Err: "resolve_filter_in schema cs = Err e \<Longrightarrow> client_side e"
  unfolding resolve_filter_in_def
  by (drule collect_all_Err)
    (auto simp: resolve_condition_def and_then_Err_iff field_in_Err resolve_literal_Err client_side_def split: if_splits
      dest: field_in_Err resolve_literal_Err)

lemma select_tags_cases:
  assumes "schema_ok schema" "\<not> list_ex is_aggregate_item items"
  shows "(\<exists>e. select_tags schema items = Some (Err e) \<and> client_side e) \<or>
    (\<exists>tags. select_tags schema items = Some (Ok tags)) \<and>
    (\<forall>item \<in> set items. \<forall>n. column_name item = Some n \<longrightarrow> n \<in> fd_name ` set (ds_fields schema))"
  using assms(2)
proof (induction items)
  case (Cons item items)
  then obtain n where n: "column_name item = Some n" by (cases item) (auto simp: column_name_def)
  show ?case
  proof (cases "field_in schema n")
    case (Inl e)
    with n field_in_Err show ?thesis by auto
  next
    case (Inr d)
    then have "n \<in> fd_name ` set (ds_fields schema)" by (auto simp: field_in_iff [OF assms(1)])
    with Inr n Cons show ?thesis by auto
  qed
qed simp

lemma compile_rows_cases:
  assumes "schema_ok schema" "\<not> is_aggregate_query q"
  shows "(\<exists>e. compile_rows schema q = Some (Err e) \<and> client_side e) \<or> query_typed schema q"
proof -
  have items: "\<not> list_ex is_aggregate_item (named_items q)" using assms(2) by (simp add: is_aggregate_query_def)
  have "(\<exists>e. compile_select schema (pq_columns q) = Some (Err e) \<and> client_side e) \<or>
      (\<exists>sel. compile_select schema (pq_columns q) = Some (Ok sel)) \<and>
      (\<forall>item \<in> set (named_items q). \<forall>n. column_name item = Some n \<longrightarrow> n \<in> fd_name ` set (ds_fields schema))"
    using select_tags_cases [OF assms(1) items]
    by (cases "pq_columns q") (auto simp: compile_select_def named_items_def)
  then show ?thesis
  proof
    assume "\<exists>e. compile_select schema (pq_columns q) = Some (Err e) \<and> client_side e"
    then show ?thesis by (auto simp: compile_rows_def)
  next
    assume sel: "(\<exists>sel. compile_select schema (pq_columns q) = Some (Ok sel)) \<and>
      (\<forall>item \<in> set (named_items q). \<forall>n. column_name item = Some n \<longrightarrow> n \<in> fd_name ` set (ds_fields schema))"
    show ?thesis
    proof (cases "resolve_filter_in schema (pq_conditions q)")
      case (Inl e)
      with sel resolve_filter_Err [OF Inl] show ?thesis by (auto simp: compile_rows_def)
    next
      case (Inr flt)
      from resolve_filter_OkD [OF this] have "\<forall>c \<in> set (pq_conditions q). \<exists>p. resolve_condition schema c = Ok p"
        by (induction rule: list_all2_induct) auto
      with sel resolve_condition_total [OF assms(1)] show ?thesis by (simp add: query_typed_def)
    qed
  qed
qed

section \<open>Aggregates\<close>

text \<open>What the grammar guarantees of a call: a star is \<open>COUNT\<close>'s argument and only that.\<close>

definition calls_ok :: "parsed_column_item list \<Rightarrow> bool" where
  "calls_ok items \<longleftrightarrow> (\<forall>f arg. AggregateCall f arg \<in> set items \<longrightarrow> (f = AggCount \<longleftrightarrow> arg = ArgStar))"

fun column_ok :: "field_ref list \<Rightarrow> nat \<Rightarrow> output_column \<Rightarrow> bool" where
  "column_ok group_by n (KeyColumn label tag) = (tag \<in> set group_by)"
| "column_ok group_by n (AggColumn label m) = (m < n)"

lemma aggregate_argument_valid:
  assumes "schema_ok schema" "aggregate_argument schema f arg = Ok (label, field)" "f = AggCount \<longleftrightarrow> arg = ArgStar"
  shows "validate_spec schema \<lparr>ag_func = f, ag_field = field\<rparr> = Ok ()"
proof (cases arg)
  case ArgStar
  with assms show ?thesis by (simp add: aggregate_argument_def validate_spec_def)
next
  case (ArgField n)
  with assms obtain d where d: "d \<in> set (ds_fields schema)" "orderable_field d" "field = Some (fd_tag d)" "f \<noteq> AggCount"
    by (auto simp: aggregate_argument_def and_then_Ok_iff field_in_iff split: if_splits)
  with kind_of_field [OF assms(1) d(1)] show ?thesis
    by (cases f) (simp_all add: validate_spec_def orderable_field_def orderable_def)
qed

lemma column_ok_mono: "column_ok g n col \<Longrightarrow> n \<le> m \<Longrightarrow> column_ok g m col"
  by (cases col) auto

lemma output_plan_ok:
  assumes "schema_ok schema" "calls_ok items" "output_plan schema names items specs = Ok (specs', plan)"
    and tags: "\<forall>d \<in> set (ds_fields schema). fd_name d \<in> set names \<longrightarrow> fd_tag d \<in> set group_by"
    and "\<forall>spec \<in> set specs. validate_spec schema spec = Ok ()"
  shows "(\<forall>spec \<in> set specs'. validate_spec schema spec = Ok ()) \<and> length specs \<le> length specs' \<and>
    (\<forall>col \<in> set plan. column_ok group_by (length specs') col)"
  using assms
proof (induction schema names items specs arbitrary: specs' plan rule: output_plan.induct)
  case (2 schema names func arg items specs)
  from "2.prems"(3) obtain label field plan' where p: "aggregate_argument schema func arg = Ok (label, field)"
    "output_plan schema names items (specs @ [\<lparr>ag_func = func, ag_field = field\<rparr>]) = Ok (specs', plan')"
    "plan = AggColumn (aggregate_fn_name func @ ''('' @ label @ '')'') (length specs) # plan'"
    by (auto simp: and_then_Ok_iff)
  have "validate_spec schema \<lparr>ag_func = func, ag_field = field\<rparr> = Ok ()"
    using aggregate_argument_valid [OF "2.prems"(1) p(1)] "2.prems"(2) by (auto simp: calls_ok_def)
  then show ?case
    using "2.IH" [OF "2.prems"(1) _ p(2) "2.prems"(4)] "2.prems"(2,5) p(3) by (auto simp: calls_ok_def)
qed (auto simp: and_then_Ok_iff calls_ok_def field_in_iff Let_def split: if_splits)

lemma output_plan_Err: "output_plan schema names items specs = Err e \<Longrightarrow> client_side e"
proof (induction schema names items specs arbitrary: e rule: output_plan.induct)
  case (2 schema names func arg items specs)
  have "client_side e" if "aggregate_argument schema func arg = Err e" for e
    using that field_in_Err
    by (cases arg) (auto simp: aggregate_argument_def and_then_Err_iff client_side_def split: if_splits)
  with 2 show ?case by (auto simp: and_then_Err_iff)
qed (auto simp: and_then_Err_iff Let_def client_side_def dest: field_in_Err split: if_splits)

lemma group_tags_ok:
  assumes "schema_ok schema" "collect_all (group_tag schema) names = Ok tags"
  shows "(\<forall>tag \<in> set tags. validate_group_tag schema tag = Ok ()) \<and>
    (\<forall>d \<in> set (ds_fields schema). fd_name d \<in> set names \<longrightarrow> fd_tag d \<in> set tags) \<and> (names = [] \<longleftrightarrow> tags = [])"
  using assms(2)
proof (induction names arbitrary: tags)
  case (Cons n names)
  from Cons.prems obtain tag rest where "group_tag schema n = Ok tag" "collect_all (group_tag schema) names = Ok rest"
    "tags = tag # rest" by (auto simp: and_then_Ok_iff)
  moreover then obtain d where "d \<in> set (ds_fields schema)" "fd_name d = n" "fd_value_kind d \<noteq> KStrList" "tag = fd_tag d"
    by (auto simp: and_then_Ok_iff group_tag_def field_in_iff [OF assms(1)] split: if_splits)
  ultimately have d: "d \<in> set (ds_fields schema)" "fd_name d = n" "fd_value_kind d \<noteq> KStrList"
    "collect_all (group_tag schema) names = Ok rest" "tags = fd_tag d # rest" by simp_all
  have "validate_group_tag schema (fd_tag d) = Ok ()"
    using kind_of_field [OF assms(1) d(1)] d(3) by (simp add: validate_group_tag_def split: value_kind.splits)
  moreover have "\<forall>e \<in> set (ds_fields schema). fd_name e = n \<longrightarrow> fd_tag e = fd_tag d"
    using name_inj [OF assms(1) _ d(1)] d(2) by auto
  ultimately show ?case using Cons.IH [OF d(4)] d(5) by auto
qed simp

lemma compile_aggregate_cases:
  assumes "schema_ok schema" "calls_ok (named_items q)"
  shows "(\<exists>e. compile_aggregate schema q = Err e \<and> client_side e) \<or>
    (\<exists>g f a plan. compile_aggregate schema q = Ok (Aggregate g f a (pq_limit q), plan) \<and>
       validate_aggregate schema g f a = Ok () \<and> (\<forall>col \<in> set plan. column_ok g (length a) col))"
proof (cases "compile_aggregate schema q")
  case (Inl e)
  have "client_side e" if "group_tag schema n = Err e" for n e
    using that field_in_Err by (auto simp: group_tag_def and_then_Err_iff client_side_def split: if_splits)
  then have tags: "client_side e" if "collect_all (group_tag schema) names = Err e" for names e
    using collect_all_Err [OF that] by blast
  have "client_side e"
  proof (cases "pq_columns q")
    case AllColumns
    with Inl show ?thesis by (auto simp: compile_aggregate_def client_side_def)
  next
    case (NamedColumns items)
    with Inl show ?thesis
      by (auto simp: compile_aggregate_def and_then_Err_iff dest: tags output_plan_Err resolve_filter_Err)
  qed
  with Inl show ?thesis by blast
next
  case (Inr r)
  then obtain items g specs plan f where c: "pq_columns q = NamedColumns items"
    "collect_all (group_tag schema) (pq_group_by q) = Ok g" "output_plan schema (pq_group_by q) items [] = Ok (specs, plan)"
    "resolve_filter_in schema (pq_conditions q) = Ok f" "r = (Aggregate g f specs (pq_limit q), plan)"
    by (auto simp: compile_aggregate_def and_then_Ok_iff split: parsed_columns.splits)
  have "calls_ok items" using assms(2) c(1) by (simp add: named_items_def)
  with output_plan_ok [OF assms(1) _ c(3), of g] group_tags_ok [OF assms(1) c(2)] filter_valid [OF assms(1) c(4)]
  have "validate_aggregate schema g f specs = Ok ()" "\<forall>col \<in> set plan. column_ok g (length specs) col"
    by (auto simp: validate_aggregate_def and_then_Ok_iff check_all_Ok_iff)
  with Inr c(5) show ?thesis by blast
qed

lemma group_key_has:
  assumes "row_ok schema fs" "tag \<in> set g" "validate_group_tag schema tag = Ok ()"
  shows "List.find (\<lambda>p. fst p = tag) (group_key g fs) \<noteq> None"
proof -
  from assms(3) obtain k where "kind_of schema tag = Some k" by (auto simp: validate_group_tag_def split: option.splits)
  with assms(1) obtain p where p: "List.find (\<lambda>p. fst p = tag) fs = Some p"
    by (auto dest!: row_okD simp: field_value_def)
  then have "fst p = tag" by (auto simp: find_Some_iff)
  moreover have "p \<in> set (group_key g fs)"
    using p assms(2) by (force simp: group_key_def List.map_filter_def)
  moreover note p
  ultimately have "p \<in> set (group_key g fs)" "fst p = tag" by simp_all
  then show ?thesis unfolding find_None_iff by blast
qed

lemma aggregate_output_total:
  assumes valid: "validate_aggregate schema g f a = Ok ()" and rows: "\<forall>(i, fs) \<in> set rows. row_ok schema fs"
    and plan: "\<forall>col \<in> set plan. column_ok g (length a) col"
  shows "\<exists>groups out. evaluate_aggregate rows g f a limit schema = Some groups \<and> output_rows plan groups = Some out"
proof -
  let ?m = "filter (\<lambda>fs. \<forall>p \<in> set f. predicate_matches fs p) (map snd rows)"
  from evaluate_validated [OF valid rows refl, of limit] obtain buckets groups where
    e: "evaluate_aggregate rows g f a limit schema = Some (truncated limit groups)"
    and keys: "fst ` set buckets = (if g = [] then {[]} else group_key g ` set ?m)"
    and gs: "list_all2 (\<lambda>b gr. gr_key gr = fst b \<and> (\<forall>p \<in> set (gr_key gr). \<not> is_str_list p) \<and>
        list_all2 (\<lambda>spec v. reduce spec (snd b) schema = Some v \<and> spec_kind schema spec v) a (gr_values gr)) buckets groups"
    by blast
  have tags: "\<forall>tag \<in> set g. validate_group_tag schema tag = Ok ()"
    using valid by (auto simp: validate_aggregate_def and_then_Ok_iff check_all_Ok_iff)
  have one: "output_value gr col \<noteq> None" if gr: "gr \<in> set groups" and col: "col \<in> set plan" for gr col
  proof -
    from gs gr have "\<exists>b \<in> set buckets. gr_key gr = fst b \<and> length a = length (gr_values gr)"
    proof (induction rule: list_all2_induct)
      case (Cons b bs g gs)
      then show ?case by (auto dest: list_all2_lengthD)
    qed simp
    then obtain b where b: "b \<in> set buckets" "gr_key gr = fst b" "length (gr_values gr) = length a" by auto
    show ?thesis
    proof (cases col)
      case (AggColumn label n)
      with plan col b(3) show ?thesis by (auto simp: output_value_def)
    next
      case (KeyColumn label tag)
      then have tag: "tag \<in> set g" using plan col by auto
      then have "g \<noteq> []" by auto
      with keys have "fst ` set buckets = group_key g ` set ?m" by (simp only: if_False)
      moreover have "fst b \<in> fst ` set buckets" using b(1) by (rule imageI)
      ultimately have "fst b \<in> group_key g ` set ?m" by (simp only:)
      then obtain fs where fs: "fs \<in> set ?m" "fst b = group_key g fs" by blast
      then have "row_ok schema fs" using rows by auto
      from group_key_has [OF this tag] tags tag b(2) fs(2) KeyColumn show ?thesis
        by (simp add: output_value_def)
    qed
  qed
  have "set (truncated limit groups) \<subseteq> set groups" by (cases limit) (auto simp: truncated_def dest: in_set_takeD)
  with one have "\<forall>gr \<in> set (truncated limit groups). those (map (output_value gr) plan) \<noteq> None"
    using those_Some [of plan] by (metis option.distinct(1) subsetD)
  then have "output_rows plan (truncated limit groups) \<noteq> None"
    unfolding output_rows_def using those_Some [of "truncated limit groups" "\<lambda>gr. those (map (output_value gr) plan)"]
    by (metis option.distinct(1))
  with e show ?thesis by blast
qed

section \<open>Every query is answered\<close>

lemma grammar_calls_ok: "parse s = Ok q \<Longrightarrow> calls_ok (named_items q)"
proof -
  assume "parse s = Ok q"
  then obtain ts where "g_query q ts" by (auto simp: parse_iff)
  then obtain cols where cols: "g_columns (pq_columns q) cols" unfolding g_query_def by blast
  have "calls_ok items" if "separated sep g_item items us" for sep items us
    using that by (induction rule: separated.induct) (auto simp: calls_ok_def)
  with cols show ?thesis
    by (cases "pq_columns q") (auto simp: named_items_def calls_ok_def)
qed

text \<open>The replies a query may get from a table with these rows.\<close>

definition query_reply :: "domain_schema \<Rightarrow> page_row list \<Rightarrow> response \<Rightarrow> bool" where
  "query_reply schema rows resp \<longleftrightarrow>
     (\<exists>sel flt limit. resp = RRows (evaluate_query rows sel flt limit)) \<or>
     (\<exists>g f a limit groups. evaluate_aggregate rows g f a limit schema = Some groups \<and> resp = RGroups groups)"

definition query_outcome :: "message_codec \<Rightarrow> client \<Rightarrow> page_row list \<Rightarrow> client_error + query_result \<Rightarrow> conn option \<Rightarrow> bool" where
  "query_outcome W k rows r c' \<longleftrightarrow>
     (case r of
        Inr _ \<Rightarrow> c' \<noteq> None
      | Inl e \<Rightarrow>
          c' \<noteq> None \<and> (client_side e \<or> (\<exists>req x. write_message (mc_request W) [] req = Err x \<and> e = CeFrame x)) \<or>
          c' = None \<and> e = CeFrame PeerClosed \<and>
            (\<exists>resp. query_reply (cl_schema k) rows resp \<and> \<not> frame_fits (mc_response W) resp))"

lemma query_answered:
  assumes W: "codec_ok W" and "on_served_table k c S rows" "\<And>q. parse sql = Ok q \<Longrightarrow> pq_join q = None"
  shows "\<exists>r c'. cl_query (served_wire W opts primary peer clock) sql (k, Some c, S) = Some (r, k, c', S) \<and>
    query_outcome W k rows r c'"
proof (cases "parse sql")
  case (Inl e)
  then show ?thesis by (simp add: cl_query_def call_bind_def call_result_def query_outcome_def client_side_def)
next
  case (Inr q)
  let ?wire = "served_wire W opts primary peer clock"
  from assms(2) obtain t where t: "t = ss_tables S ! cn_table c" "cs_describe (tb_store t) = cl_schema k"
    "cs_scan_all (tb_store t) (tb_state t) = Some rows"
    and c: "cn_authenticated c \<noteq> None" "11 \<le> cn_negotiated c" "cl_version k = cn_negotiated c" "schema_ok (cl_schema k)"
      "\<forall>(i, fs) \<in> set rows. row_ok (cl_schema k) fs"
    unfolding on_served_table_def by blast
  note calls = cl_query_def call_bind_def call_result_def needs_version_def call_client_def call_map_def
    call_option_def ask_def roundtrip_def reply_shape_def call_ok_def
  have join: "pq_join q = None" using assms(3) Inr .
  show ?thesis
  proof (cases "is_aggregate_query q")
    case True
    from compile_aggregate_cases [OF c(4) grammar_calls_ok [OF Inr]] show ?thesis
    proof
      assume "\<exists>e. compile_aggregate (cl_schema k) q = Err e \<and> client_side e"
      with Inr join True c(2,3) show ?thesis by (auto simp: calls query_aggregate_def query_outcome_def)
    next
      assume "\<exists>g f a plan. compile_aggregate (cl_schema k) q = Ok (Aggregate g f a (pq_limit q), plan) \<and>
       validate_aggregate (cl_schema k) g f a = Ok () \<and> (\<forall>col \<in> set plan. column_ok g (length a) col)"
      then obtain g f a plan where p: "compile_aggregate (cl_schema k) q = Ok (Aggregate g f a (pq_limit q), plan)"
        "validate_aggregate (cl_schema k) g f a = Ok ()" "\<forall>col \<in> set plan. column_ok g (length a) col" by blast
      from aggregate_output_total [OF p(2) c(5) p(3), of "pq_limit q"] obtain groups out where
        o1: "evaluate_aggregate rows g f a (pq_limit q) (cl_schema k) = Some groups" "output_rows plan groups = Some out"
        by blast
      then have reply: "query_reply (cl_schema k) rows (RGroups groups)" by (auto simp: query_reply_def)
      let ?req = "Aggregate g f a (pq_limit q)"
      have wire: "?wire ?req (Some c, S) =
          (case write_message (mc_request W) [] ?req of
             Inl x \<Rightarrow> (Err (CeFrame x), Some c, S)
           | Inr _ \<Rightarrow> if frame_fits (mc_response W) (RGroups groups)
                    then (Ok (RGroups groups), Some (c\<lparr>cn_first_frame := False\<rparr>), S)
                    else (Err (CeFrame PeerClosed), None, S))"
        using c(2) by (intro served_read [OF W c(1) _ _ _ t(1)]) (simp_all add: t(2,3) p(2) o1(1))
      show ?thesis
      proof (cases "write_message (mc_request W) [] ?req")
        case (Inl x)
        with Inr join True c(2,3) p(1) wire show ?thesis
          by (simp add: calls query_aggregate_def query_outcome_def) blast
      next
        case sent: (Inr frame)
        with Inr join True c(2,3) p(1) o1(2) wire reply show ?thesis
          by (cases "frame_fits (mc_response W) (RGroups groups)")
            (auto simp: calls query_aggregate_def query_outcome_def)
      qed
    qed
  next
    case False
    from compile_rows_cases [OF c(4) False] show ?thesis
    proof
      assume "\<exists>e. compile_rows (cl_schema k) q = Some (Err e) \<and> client_side e"
      with Inr join False c(2,3) show ?thesis by (auto simp: calls query_rows_def query_outcome_def)
    next
      assume typed: "query_typed (cl_schema k) q"
      from select_over_server [OF W assms(2) Inr join False typed, of opts primary peer clock] obtain sel flt where
        out: "cl_query ?wire sql (k, Some c, S) =
          Some (case write_message (mc_request W) [] (Query sel flt (pq_limit q)) of
              Inl x \<Rightarrow> (Err (CeFrame x), k, Some c, S)
            | Inr _ \<Rightarrow>
                if frame_fits (mc_response W) (RRows (evaluate_query rows sel flt (pq_limit q)))
                then (Ok (QueryRows (sql_rows (cl_schema k) q rows)), k, Some (c\<lparr>cn_first_frame := False\<rparr>), S)
                else (Err (CeFrame PeerClosed), k, None, S))" by blast
      have "query_reply (cl_schema k) rows (RRows (evaluate_query rows sel flt (pq_limit q)))"
        by (auto simp: query_reply_def)
      with out show ?thesis
        by (cases "write_message (mc_request W) [] (Query sel flt (pq_limit q))") (auto simp: query_outcome_def)
    qed
  qed
qed

end
