(* ===== verification/Client_Walk.thy ===== *)
theory Client_Walk
  imports Client
begin

text \<open>
  The bounded breadth-first walk of \<open>traverse\<close> against the hop distance of a graph. \<open>ball N i k\<close> are
  the ids at most \<open>k\<close> hops from \<open>i\<close>. The walk is first freed of the wire (\<open>walk_levels\<close>), then shown
  to find balls, one per depth.
\<close>

section \<open>Hop distance\<close>

fun ball :: "(record_id \<Rightarrow> record_id list) \<Rightarrow> record_id \<Rightarrow> nat \<Rightarrow> record_id set" where
  "ball N i 0 = {i}"
| "ball N i (Suc k) = ball N i k \<union> (\<Union>j \<in> ball N i k. set (N j))"

definition hop_distance :: "(record_id \<Rightarrow> record_id list) \<Rightarrow> record_id \<Rightarrow> record_id \<Rightarrow> nat \<Rightarrow> bool" where
  "hop_distance N i j d \<longleftrightarrow> j \<in> ball N i d \<and> (\<forall>m < d. j \<notin> ball N i m)"

lemma ball_mono: "m \<le> k \<Longrightarrow> ball N i m \<subseteq> ball N i k"
  by (induction k) (auto simp: le_Suc_eq)

lemma ball_finite: "finite (ball N i k)"
  by (induction k) auto

lemma hop_distance_unique: "hop_distance N i j d \<Longrightarrow> hop_distance N i j e \<Longrightarrow> d = e"
  unfolding hop_distance_def by (metis linorder_neqE_nat)

lemma hop_distance_exists: "j \<in> ball N i k \<Longrightarrow> \<exists>d \<le> k. hop_distance N i j d"
  unfolding hop_distance_def using exists_least_iff [of "\<lambda>d. j \<in> ball N i d"] by (metis not_le)

section \<open>The walk without the wire\<close>

fun grow_frontier :: "nat \<Rightarrow> nat \<Rightarrow> (record_id \<Rightarrow> record_id list) \<Rightarrow> record_id list \<Rightarrow> visited \<times> record_id list \<Rightarrow>
    visited \<times> record_id list" where
  "grow_frontier max_nodes depth N [] s = s"
| "grow_frontier max_nodes depth N (node # nodes) s =
     (if max_nodes \<le> length (fst s) then s
      else grow_frontier max_nodes depth N nodes (visit_all max_nodes depth (N node) s))"

fun walk_levels :: "nat \<Rightarrow> (record_id \<Rightarrow> record_id list) \<Rightarrow> nat list \<Rightarrow> visited \<Rightarrow> record_id list \<Rightarrow> visited" where
  "walk_levels max_nodes N [] visited frontier = visited"
| "walk_levels max_nodes N (depth # depths) visited frontier =
     (if max_nodes \<le> length visited then visited
      else case grow_frontier max_nodes depth N frontier (visited, []) of
             (visited, next_frontier) \<Rightarrow> walk_levels max_nodes N depths visited next_frontier)"

text \<open>Every hop is answered from the same graph.\<close>

definition answers_hops :: "'w wire \<Rightarrow> string option \<Rightarrow> client \<Rightarrow> (record_id \<Rightarrow> record_id list) \<Rightarrow> bool" where
  "answers_hops wire relation c N \<longleftrightarrow> (\<forall>n w. \<exists>w'. hop wire relation n (c, w) = Some (Ok (N n), c, w'))"

lemma call_bind_Some: "m s = Some (Ok a, s') \<Longrightarrow> call_bind m f s = f a s'"
  by (simp add: call_bind_def)

lemma visit_frontier_answered:
  assumes "answers_hops wire relation c N"
  shows "\<exists>w'. visit_frontier wire relation M k nodes s (c, w) = Some (Ok (grow_frontier M k N nodes s), c, w')"
proof (induction nodes arbitrary: s w)
  case (Cons node nodes)
  show ?case
  proof (cases "M \<le> length (fst s)")
    case False
    from assms obtain w1 where "hop wire relation node (c, w) = Some (Ok (N node), c, w1)"
      unfolding answers_hops_def by blast
    with Cons.IH [of "visit_all M k (N node) s" w1] False show ?thesis by (simp add: call_bind_Some)
  qed (simp add: call_ok_def)
qed (simp add: call_ok_def)

lemma walk_depths_answered:
  assumes "answers_hops wire relation c N"
  shows "\<exists>w'. walk_depths wire relation M ks vis front (c, w) = Some (Ok (walk_levels M N ks vis front), c, w')"
proof (induction ks arbitrary: vis front w)
  case (Cons k ks)
  show ?case
  proof (cases "M \<le> length vis")
    case False
    obtain vis' next' where g: "grow_frontier M k N front (vis, []) = (vis', next')" by fastforce
    obtain w1 where "visit_frontier wire relation M k front (vis, []) (c, w) = Some (Ok (vis', next'), c, w1)"
      using visit_frontier_answered [OF assms, of M k front "(vis, [])" w] g by auto
    with Cons.IH [of vis' next' w1] False g show ?thesis by (simp add: call_bind_Some)
  qed (simp add: call_ok_def)
qed (simp add: call_ok_def)

section \<open>One level\<close>

text \<open>What a step adds: new ids, of the next depth, out of \<open>source\<close>; all of it unless the bound is met.\<close>

definition extends :: "nat \<Rightarrow> nat \<Rightarrow> record_id set \<Rightarrow> visited \<times> record_id list \<Rightarrow> visited \<times> record_id list \<Rightarrow> bool" where
  "extends M k source s s' \<longleftrightarrow>
     (\<exists>new. s' = (fst s @ map (\<lambda>n. (n, Suc k)) new, snd s @ new) \<and> distinct new \<and>
        set new \<subseteq> source - fst ` set (fst s)) \<and>
     length (fst s') \<le> max (length (fst s)) M \<and>
     (length (fst s') < M \<longrightarrow> source \<subseteq> fst ` set (fst s'))"

lemma extends_refl: "source = {} \<or> M \<le> length (fst s) \<Longrightarrow> extends M k source s s"
  by (cases s) (auto simp: extends_def intro!: exI [of _ "[]"])

lemma extends_trans:
  assumes "extends M k A s t" "extends M k B t u"
  shows "extends M k (A \<union> B) s u"
proof -
  from assms(1) obtain a where a:
    "t = (fst s @ map (\<lambda>n. (n, Suc k)) a, snd s @ a)" "distinct a" "set a \<subseteq> A - fst ` set (fst s)"
    unfolding extends_def by (elim conjE exE)
  from assms(2) obtain b where b:
    "u = (fst t @ map (\<lambda>n. (n, Suc k)) b, snd t @ b)" "distinct b" "set b \<subseteq> B - fst ` set (fst t)"
    unfolding extends_def by (elim conjE exE)
  have "fst ` set (fst t) = fst ` set (fst s) \<union> set a" by (simp add: a(1) image_Un image_image)
  with a(2,3) b(2,3) have "distinct (a @ b)" "set (a @ b) \<subseteq> A \<union> B - fst ` set (fst s)" by auto
  moreover have "u = (fst s @ map (\<lambda>n. (n, Suc k)) (a @ b), snd s @ (a @ b))" by (simp add: a(1) b(1))
  ultimately have "\<exists>new. u = (fst s @ map (\<lambda>n. (n, Suc k)) new, snd s @ new) \<and> distinct new \<and>
      set new \<subseteq> A \<union> B - fst ` set (fst s)" by blast
  moreover have len: "length (fst t) \<le> max (length (fst s)) M" "length (fst u) \<le> max (length (fst t)) M"
    using assms unfolding extends_def by blast+
  then have "length (fst u) \<le> max (length (fst s)) M" by simp
  moreover have "A \<union> B \<subseteq> fst ` set (fst u)" if "length (fst u) < M"
  proof -
    have "length (fst t) < M" using that by (simp add: b(1))
    then have "A \<subseteq> fst ` set (fst t)" using assms(1) unfolding extends_def by blast
    moreover have "fst ` set (fst t) \<subseteq> fst ` set (fst u)" by (auto simp: b(1))
    moreover have "B \<subseteq> fst ` set (fst u)" using that assms(2) unfolding extends_def by blast
    ultimately show ?thesis by blast
  qed
  ultimately show ?thesis unfolding extends_def by blast
qed

lemma extends_one:
  "\<not> M \<le> length (fst s) \<Longrightarrow> n \<notin> fst ` set (fst s) \<Longrightarrow> extends M k {n} s (fst s @ [(n, Suc k)], snd s @ [n])"
  by (auto simp: extends_def intro!: exI [of _ "[n]"])

lemma extends_known: "n \<in> fst ` set (fst s) \<Longrightarrow> extends M k {n} s s"
  by (cases s) (auto simp: extends_def intro!: exI [of _ "[]"])

lemma visit_all_extends: "extends M k (set ns) s (visit_all M k ns s)"
proof (induction ns arbitrary: s)
  case Nil
  then show ?case by (cases s) (simp add: extends_refl)
next
  case (Cons n ns)
  obtain vis fr where s: "s = (vis, fr)" by fastforce
  consider "M \<le> length vis" | "\<not> M \<le> length vis" "n \<in> fst ` set vis" | "\<not> M \<le> length vis" "n \<notin> fst ` set vis" by blast
  then show ?case
  proof cases
    case 1
    then show ?thesis by (simp add: s extends_refl)
  next
    case 2
    with extends_trans [OF extends_known [of n s M k] Cons.IH [of s]] show ?thesis by (simp add: s)
  next
    case 3
    with extends_trans [OF extends_one [of M s n k] Cons.IH] show ?thesis by (simp add: s)
  qed
qed

lemma grow_frontier_extends: "extends M k (\<Union>n \<in> set nodes. set (N n)) s (grow_frontier M k N nodes s)"
proof (induction nodes arbitrary: s)
  case Nil
  then show ?case by (simp add: extends_refl)
next
  case (Cons n ns)
  then show ?case
    using extends_trans [OF visit_all_extends [of M k "N n" s] Cons.IH]
    by (auto intro: extends_refl)
qed

section \<open>All levels\<close>

text \<open>Before depth \<open>k\<close>: depths are hop distances, the frontier is depth \<open>k\<close>, and the ball is complete
  unless the bound is met.\<close>

definition level_ok :: "(record_id \<Rightarrow> record_id list) \<Rightarrow> record_id \<Rightarrow> nat \<Rightarrow> nat \<Rightarrow> visited \<Rightarrow> bool" where
  "level_ok N i M k vis \<longleftrightarrow>
     distinct (map fst vis) \<and> (i, 0) \<in> set vis \<and> length vis \<le> max 1 M \<and>
     (\<forall>(j, d) \<in> set vis. d \<le> k \<and> hop_distance N i j d) \<and>
     (length vis < M \<longrightarrow> fst ` set vis = ball N i k)"

lemma level_step:
  assumes ok: "level_ok N i M k vis" and front: "set front = {j. (j, k) \<in> set vis}" and less: "length vis < M"
    and ext: "extends M k (\<Union>n \<in> set front. set (N n)) (vis, []) (vis', front')"
  shows "level_ok N i M (Suc k) vis' \<and> set front' = {j. (j, Suc k) \<in> set vis'}"
proof -
  let ?src = "\<Union>n \<in> set front. set (N n)"
  from ext obtain new where new: "vis' = vis @ map (\<lambda>n. (n, Suc k)) new" "front' = new" "distinct new"
    "set new \<subseteq> ?src - fst ` set vis"
    and len: "length vis' \<le> max (length vis) M" and all: "length vis' < M \<Longrightarrow> ?src \<subseteq> fst ` set vis'"
    unfolding extends_def by auto
  have vis: "fst ` set vis = ball N i k" "\<And>j d. (j, d) \<in> set vis \<Longrightarrow> d \<le> k \<and> hop_distance N i j d"
    "distinct (map fst vis)" "(i, 0) \<in> set vis"
    using ok less by (auto simp: level_ok_def)
  have "set front \<subseteq> ball N i k" using front vis(1) by force
  then have src: "?src \<subseteq> ball N i (Suc k)" by auto
  have "hop_distance N i n (Suc k)" if "n \<in> set new" for n
  proof -
    have "n \<in> ball N i (Suc k)" "n \<notin> ball N i k" using that new(4) src vis(1) by auto
    then show ?thesis unfolding hop_distance_def using ball_mono [of _ k N i] by (auto simp: less_Suc_eq_le)
  qed
  then have "\<forall>(j, d) \<in> set vis'. d \<le> Suc k \<and> hop_distance N i j d"
    using vis(2) by (auto simp: new(1) le_SucI)
  moreover have "fst ` set vis' = ball N i (Suc k)" if "length vis' < M"
  proof
    show "fst ` set vis' \<subseteq> ball N i (Suc k)" proof -
      have "set new \<subseteq> ball N i (Suc k)" using new(4) src by blast
      then show ?thesis using vis(1) ball_mono [of k "Suc k" N i] by (auto simp: new(1) image_Un simp del: ball.simps)
    qed
    have "set (N j) \<subseteq> fst ` set vis'" if j: "j \<in> ball N i k" for j
    proof -
      from j vis(1) have "j \<in> fst ` set vis" by simp
      then obtain d where d: "(j, d) \<in> set vis" by force
      show ?thesis
      proof (cases "d = k")
        case True
        then have "set (N j) \<subseteq> ?src" using d front by auto
        then show ?thesis using all [OF \<open>length vis' < M\<close>] by blast
      next
        case False
        then have "Suc d \<le> k" "j \<in> ball N i d" using vis(2) [OF d] by (auto simp: hop_distance_def)
        then have "set (N j) \<subseteq> ball N i k" using ball_mono [of "Suc d" k N i] by auto
        then show ?thesis using vis(1) by (auto simp: new(1) image_Un)
      qed
    qed
    then show "ball N i (Suc k) \<subseteq> fst ` set vis'" using vis(1) by (auto simp: new(1) image_Un)
  qed
  moreover have "distinct (map fst vis')" using vis(3) new(3,4) by (auto simp: new(1) comp_def)
  moreover have "set front' = {j. (j, Suc k) \<in> set vis'}" using vis(2) by (fastforce simp: new(1,2))
  ultimately show ?thesis using len less vis(4) by (auto simp: level_ok_def new(1))
qed

lemma walk_levels_ok:
  assumes "level_ok N i M k vis" "set front = {j. (j, k) \<in> set vis}" "k \<le> D"
  shows "level_ok N i M D (walk_levels M N [k ..< D] vis front)"
  using assms
proof (induction "D - k" arbitrary: k vis front)
  case 0
  then show ?case by simp
next
  case (Suc n)
  then have range: "[k ..< D] = k # [Suc k ..< D]" by (simp add: upt_conv_Cons)
  show ?case
  proof (cases "M \<le> length vis")
    case True
    then have "level_ok N i M D vis" using Suc.prems by (auto simp: level_ok_def)
    with True show ?thesis by (simp add: range)
  next
    case False
    obtain vis' front' where g: "grow_frontier M k N front (vis, []) = (vis', front')" by fastforce
    with grow_frontier_extends [of M k N front "(vis, [])"] False Suc.prems(1,2)
    have "level_ok N i M (Suc k) vis'" "set front' = {j. (j, Suc k) \<in> set vis'}"
      using level_step [of N i M k vis front vis' front'] by auto
    with Suc.hyps Suc.prems(3) False g show ?thesis by (simp add: range)
  qed
qed

lemma level_ok_start: "level_ok N i M 0 [(i, 0)]"
  by (auto simp: level_ok_def hop_distance_def)

lemma traverse_answered:
  assumes "has_neighbors c" "answers_hops wire relation c N"
  shows "\<exists>w' vis. traverse wire i D M relation (c, w) = Some (Ok (sort_key snd vis), c, w') \<and> level_ok N i M D vis"
proof -
  obtain w' where "walk_depths wire relation M [0 ..< D] [(i, 0)] [i] (c, w) =
      Some (Ok (walk_levels M N [0 ..< D] [(i, 0)] [i]), c, w')"
    using walk_depths_answered [OF assms(2)] by blast
  moreover have "level_ok N i M D (walk_levels M N [0 ..< D] [(i, 0)] [i])"
    by (rule walk_levels_ok [OF level_ok_start]) auto
  ultimately show ?thesis
    using assms(1)
    by (intro exI [of _ w'] exI [of _ "walk_levels M N [0 ..< D] [(i, 0)] [i]"])
      (simp add: traverse_def require_def call_client_def call_bind_def call_ok_def)
qed

end
