(* ===== verification/Client_Write.thy ===== *)
theory Client_Write
  imports Client
begin

text \<open>
  The writing half of \<open>src/server/client.rs\<close>: single writes, batches, links, compaction and sessions.
\<close>

section \<open>Single writes\<close>

definition cl_update :: "'w wire \<Rightarrow> record_id \<Rightarrow> string \<Rightarrow> scan_value \<Rightarrow> ('w, bool) call" where
  "cl_update wire i name v =
     on_field name (\<lambda>d.
       if \<not> fc_update (fd_capabilities d) then call_result (Err (CeUnsupported ''update on this field''))
       else ask wire (UpdateField i (fd_tag d) v) ''Ok or NotFound''
              (\<lambda>resp. case resp of ROk \<Rightarrow> Some True | RNotFound \<Rightarrow> Some False | _ \<Rightarrow> None))"

definition with_tagged :: "(string \<times> scan_value) list \<Rightarrow> (row_fields \<Rightarrow> ('w, 'a) call) \<Rightarrow> ('w, 'a) call" where
  "with_tagged fs f = call_bind call_client (\<lambda>c. call_bind (call_result (tagged (cl_schema c) fs)) f)"

definition cl_insert :: "'w wire \<Rightarrow> record_id \<Rightarrow> (string \<times> scan_value) list \<Rightarrow> ('w, unit) call" where
  "cl_insert wire i fs =
     needs_version 13 ''insert'' (with_tagged fs (\<lambda>fs. ask wire (Insert i fs) ''Ok'' is_ok))"

fun replaced :: "response \<Rightarrow> bool option" where
  "replaced ROk = Some True"
| "replaced RNotFound = Some False"
| "replaced _ = None"

definition cl_replace :: "'w wire \<Rightarrow> record_id \<Rightarrow> (string \<times> scan_value) list \<Rightarrow> ('w, bool) call" where
  "cl_replace wire i fs =
     needs_version 15 ''replace'' (with_tagged fs (\<lambda>fs. ask wire (Replace i fs) ''Ok or NotFound'' replaced))"

text \<open>An insert, and on a duplicate a replace.\<close>

definition cl_upsert :: "'w wire \<Rightarrow> record_id \<Rightarrow> (string \<times> scan_value) list \<Rightarrow> ('w, bool) call" where
  "cl_upsert wire i fs =
     call_bind (call_try (cl_insert wire i fs)) (\<lambda>r.
       case r of
         Inr _ \<Rightarrow> call_ok True
       | Inl (CeServer EDuplicate _) \<Rightarrow>
           call_bind (cl_replace wire i fs) (\<lambda>ok.
             if ok then call_ok False else call_result (Err (CeUnexpectedResponse ''Ok after Duplicate'')))
       | Inl e \<Rightarrow> call_result (Err e))"

definition cl_delete :: "'w wire \<Rightarrow> record_id \<Rightarrow> ('w, bool) call" where
  "cl_delete wire i =
     needs_version 17 ''delete'' (ask wire (Delete i) ''Ok or NotFound'' replaced)"

datatype guarded_replace = GReplaced | GRefused | GNotFound

definition guard_predicate :: "domain_schema \<Rightarrow> string \<times> compare_op \<times> scan_value \<Rightarrow> client_error + predicate" where
  "guard_predicate schema guard =
     (case guard of (name, op, v) \<Rightarrow>
        and_then (field_in schema name) (\<lambda>d.
          if is_ordering op \<and> \<not> orderable_field d then Err (CeUnsupported ''ordering guard'')
          else Ok \<lparr>pr_field = fd_tag d, pr_op = op, pr_value = v\<rparr>))"

fun guard_outcome :: "response \<Rightarrow> guarded_replace option" where
  "guard_outcome ROk = Some GReplaced"
| "guard_outcome RNotFound = Some GNotFound"
| "guard_outcome (RErr GuardFailed _) = Some GRefused"
| "guard_outcome _ = None"

definition cl_replace_if :: "'w wire \<Rightarrow> record_id \<Rightarrow> (string \<times> scan_value) list \<Rightarrow> string \<times> compare_op \<times> scan_value \<Rightarrow>
    ('w, guarded_replace) call" where
  "cl_replace_if wire i fs guard =
     needs_version 19 ''replace_if'' (call_bind call_client (\<lambda>c.
       with_tagged fs (\<lambda>fs.
       call_bind (call_result (guard_predicate (cl_schema c) guard)) (\<lambda>guard.
         ask wire (ReplaceIf i fs guard) ''Ok, NotFound, or GuardFailed'' guard_outcome))))"

section \<open>Batches\<close>

datatype batch_op =
    BInsert record_id "(string \<times> scan_value) list"
  | BReplace record_id "(string \<times> scan_value) list"
  | BReplaceIf record_id "(string \<times> scan_value) list" "string \<times> compare_op \<times> scan_value"
  | BDelete record_id
  | BLink record_id record_id string

text \<open>A guarded replace resolves its guard before its fields, unlike the single-shot one.\<close>

definition to_wire_op :: "domain_schema \<Rightarrow> batch_op \<Rightarrow> client_error + write_op" where
  "to_wire_op schema op =
     (case op of
        BInsert i fs \<Rightarrow> map_ok (WInsert i) (tagged schema fs)
      | BReplace i fs \<Rightarrow> map_ok (WReplace i) (tagged schema fs)
      | BReplaceIf i fs guard \<Rightarrow>
          and_then (guard_predicate schema guard) (\<lambda>p. map_ok (\<lambda>fs. WReplaceIf i fs p) (tagged schema fs))
      | BDelete i \<Rightarrow> Ok (WDelete i)
      | BLink l r relation \<Rightarrow> Ok (WLink l r relation))"

text \<open>A match whose arms also take a failed transaction.\<close>

definition transaction_shape :: "string \<Rightarrow> (response \<Rightarrow> 'a option) \<Rightarrow> response \<Rightarrow> client_error + 'a" where
  "transaction_shape expected f resp =
     (case resp of
        RTransactionFailed n code message \<Rightarrow> Err (CeTransactionFailed n code message)
      | _ \<Rightarrow> reply_shape expected f resp)"

definition cl_write_batch :: "'w wire \<Rightarrow> batch_op list \<Rightarrow> bool \<Rightarrow> ('w, write_result list) call" where
  "cl_write_batch wire ops atomic =
     needs_version 22 ''write_batch'' (call_bind call_client (\<lambda>c.
       if MAX_BATCH_OPS < length ops then call_result (Err (CeUnsupported ''write_batch size''))
       else call_bind (call_result (collect_all (to_wire_op (cl_schema c)) ops)) (\<lambda>wire_ops.
            call_bind (roundtrip wire (WriteBatch wire_ops atomic)) (\<lambda>resp.
              call_result (transaction_shape ''BatchResults''
                (\<lambda>resp. case resp of RBatchResults rs \<Rightarrow> Some rs | _ \<Rightarrow> None) resp)))))"

section \<open>Compaction and links\<close>

definition cl_compact :: "'w wire \<Rightarrow> ('w, nat \<times> nat \<times> nat \<times> nat) call" where
  "cl_compact wire =
     needs_version 18 ''compact''
       (ask wire Compact ''Compacted'' (\<lambda>resp. case resp of RCompacted a b c d \<Rightarrow> Some (a, b, c, d) | _ \<Rightarrow> None))"

definition cl_link :: "'w wire \<Rightarrow> record_id \<Rightarrow> record_id \<Rightarrow> string \<Rightarrow> ('w, unit) call" where
  "cl_link wire l r relation =
     require has_neighbors ''Link on this domain'' (needs_version 14 ''link''
       (call_bind (ask wire (Link l r relation) ''Ok'' is_ok) (\<lambda>_.
        call_bind call_client (\<lambda>c.
          if list_ex (\<lambda>d. rd_name d = relation) (cl_relations c) then call_ok ()
          else call_bind (ask wire DescribeRelations ''Relations'' is_relations) (\<lambda>relations.
                 call_modify (\<lambda>c. c\<lparr>cl_relations := relations\<rparr>))))))"

section \<open>Sessions\<close>

record session_options =
  sn_read_your_writes :: bool
  sn_validate_on_stage :: bool
  sn_snapshot_isolation :: bool

definition session_flags :: "session_options \<Rightarrow> u32" where
  "session_flags o1 =
     (if sn_read_your_writes o1 then SESSION_READ_YOUR_WRITES else 0) OR
     (if sn_validate_on_stage o1 then SESSION_VALIDATE_ON_STAGE else 0) OR
     (if sn_snapshot_isolation o1 then SESSION_SNAPSHOT_ISOLATION else 0)"

definition required_version :: "session_options \<Rightarrow> nat" where
  "required_version o1 =
     (if sn_snapshot_isolation o1 then 7 else if sn_validate_on_stage o1 then 6
      else if sn_read_your_writes o1 then 5 else 3)"

text \<open>A session value is the options it was opened with; it is open until \<open>commit\<close> or \<open>rollback\<close>.\<close>

definition cl_begin_with :: "'w wire \<Rightarrow> session_options \<Rightarrow> ('w, session_options) call" where
  "cl_begin_with wire o1 =
     needs_version (required_version o1) ''session options''
       (call_bind (roundtrip wire (if session_flags o1 = 0 then Begin else BeginWith (session_flags o1))) (\<lambda>resp.
        call_bind (call_result (expect_ok resp)) (\<lambda>_. call_ok o1)))"

definition cl_begin :: "'w wire \<Rightarrow> ('w, session_options) call" where
  "cl_begin wire =
     needs_version 3 ''session''
       (call_bind (roundtrip wire Begin) (\<lambda>resp.
        call_bind (call_result (expect_ok resp)) (\<lambda>_.
          call_ok \<lparr>sn_read_your_writes = False, sn_validate_on_stage = False, sn_snapshot_isolation = False\<rparr>)))"

definition cl_begin_read_your_writes :: "'w wire \<Rightarrow> ('w, session_options) call" where
  "cl_begin_read_your_writes wire =
     needs_version 5 ''read-your-writes session''
       (call_bind (roundtrip wire (BeginWith SESSION_READ_YOUR_WRITES)) (\<lambda>resp.
        call_bind (call_result (expect_ok resp)) (\<lambda>_.
          call_ok \<lparr>sn_read_your_writes = True, sn_validate_on_stage = False, sn_snapshot_isolation = False\<rparr>)))"

definition session_update :: "'w wire \<Rightarrow> record_id \<Rightarrow> string \<Rightarrow> scan_value \<Rightarrow> ('w, u32) call" where
  "session_update wire i name v =
     on_field name (\<lambda>d.
       if \<not> fc_update (fd_capabilities d) then call_result (Err (CeUnsupported ''update on this field''))
       else ask wire (UpdateField i (fd_tag d) v) ''Staged''
              (\<lambda>resp. case resp of RStaged n \<Rightarrow> Some n | _ \<Rightarrow> None))"

definition cl_commit :: "'w wire \<Rightarrow> ('w, unit) call" where
  "cl_commit wire =
     call_bind (roundtrip wire Commit) (\<lambda>resp.
       call_result (transaction_shape ''Ok or TransactionFailed'' is_ok resp))"

definition cl_rollback :: "'w wire \<Rightarrow> ('w, unit) call" where
  "cl_rollback wire = call_bind (roundtrip wire Rollback) (\<lambda>resp. call_result (expect_ok resp))"

text \<open>\<open>Drop\<close> of an open session: a rollback whose outcome nobody sees.\<close>

definition drop_session :: "'w wire \<Rightarrow> ('w, unit) call" where
  "drop_session wire = call_bind (call_try (roundtrip wire Rollback)) (\<lambda>_. call_ok ())"

definition cl_authenticate :: "'w wire \<Rightarrow> string \<Rightarrow> ('w, unit) call" where
  "cl_authenticate wire token =
     call_bind (roundtrip wire (Authenticate token)) (\<lambda>resp. call_result (expect_ok resp))"

end
