(* ===== verification/Session_Laws.thy ===== *)
theory Session_Laws
  imports Server_Machine
begin

text \<open>
  A session against whatever the other connections do meanwhile: staging touches no table, and the
  commit does, on the tables as they then are, what one \<open>Transaction\<close> of the staged writes does.
\<close>

text \<open>
  The frames of one connection, each against the server state it finds; what the client sends after
  the server closed the connection is never read.
\<close>

fun conn_run :: "response_encoder \<Rightarrow> serve_options \<Rightarrow> nat \<Rightarrow> 'ip option \<Rightarrow> conn \<Rightarrow> ((nat \<times> nat) \<times> ('ip, 's) server_state \<times> request) list \<Rightarrow>
    ('ip, 's) frame_effect list option" where
  "conn_run enc opts primary peer c [] = Some []"
| "conn_run enc opts primary peer c ((clock, S, req) # frames) =
     (case handle_frame enc opts primary peer clock c S req of
        None \<Rightarrow> None
      | Some e \<Rightarrow>
          if fe_closed e then Some [e]
          else map_option (Cons e) (conn_run enc opts primary peer (fe_conn e) frames))"

text \<open>The two replies of a session in progress, a bare variant and one with a 32-bit index, fit a frame.\<close>

definition session_replies_fit :: "response_encoder \<Rightarrow> bool" where
  "session_replies_fit enc \<longleftrightarrow> frame_fits enc ROk \<and> (\<forall>n. frame_fits enc (RStaged n))"

definition update_frame :: "transaction_op \<Rightarrow> request" where
  "update_frame u = UpdateField (to_id u) (to_field u) (to_value u)"

definition writing :: "conn \<Rightarrow> bool" where
  "writing c \<longleftrightarrow> cn_authenticated c = Some ReadWrite \<and> 3 \<le> cn_negotiated c"

lemma begin_frame:
  assumes "writing c" "cn_session c = None" "session_replies_fit enc"
  shows "\<exists>e. handle_frame enc opts primary peer clock c S Begin = Some e \<and> fe_response e = ROk \<and> fe_server e = S \<and>
    \<not> fe_closed e \<and>
    fe_conn e = c\<lparr>cn_first_frame := False, cn_session := Some [], cn_read_your_writes := None,
      cn_validate_on_stage := False, cn_snapshot_reads := None\<rparr>"
  using assms
  by (simp add: handle_frame_def gated_frame_def writing_def gated_read_def keep_tables_def begin_session_def
      session_replies_fit_def send_response_iff)

lemma stage_frame:
  assumes "writing c" "cn_session c = Some staged" "\<not> cn_validate_on_stage c" "length staged < MAX_STAGED_OPS"
    and "session_replies_fit enc"
  shows "\<exists>e. handle_frame enc opts primary peer clock c S (update_frame u) = Some e \<and>
    fe_response e = RStaged (of_nat (length staged)) \<and> fe_server e = S \<and> \<not> fe_closed e \<and>
    fe_conn e = c\<lparr>cn_first_frame := False, cn_session := Some (staged @ [u])\<rparr>"
  using assms
  by (simp add: handle_frame_def gated_frame_def writing_def update_frame_def stage_update_def Let_def
      session_replies_fit_def send_response_iff)

lemma commit_frame:
  assumes "writing c" "cn_session c = Some batch" "cn_snapshot_reads c = None"
    and "writing d" "cn_session d = None" "cn_table d = cn_table c" "cn_negotiated d = cn_negotiated c"
    and "handle_frame enc opts primary peer clock d S (Transaction batch) = Some e"
  shows "\<exists>e'. handle_frame enc opts primary peer clock c S Commit = Some e' \<and> fe_response e' = fe_response e \<and>
    fe_server e' = fe_server e \<and> cn_session (fe_conn e') = None \<and> fe_closed e' = fe_closed e"
  using assms
  by (auto simp: handle_frame_def gated_frame_def writing_def gated_read_def commit_session_def read_set_entries_def
      dispatch_on_def keep_conn_def on_table_def answer_def close_session_def Let_def)

lemma stage_frames:
  assumes "writing c" "cn_session c = Some staged" "\<not> cn_validate_on_stage c" "cn_snapshot_reads c = None"
    and "length staged + length us \<le> MAX_STAGED_OPS" "session_replies_fit enc"
  shows "\<exists>es d. conn_run enc opts primary peer c (map (\<lambda>(u, clock, S). (clock, S, update_frame u)) us @ rest) =
      map_option ((@) es) (conn_run enc opts primary peer d rest) \<and>
    map fe_server es = map (snd \<circ> snd) us \<and>
    map fe_response es = map (\<lambda>n. RStaged (of_nat n)) [length staged ..< length staged + length us] \<and>
    writing d \<and> cn_session d = Some (staged @ map fst us) \<and> cn_snapshot_reads d = None \<and> cn_table d = cn_table c \<and>
    cn_negotiated d = cn_negotiated c"
  using assms
proof (induction us arbitrary: c staged)
  case Nil
  then show ?case by (intro exI [of _ "[]"] exI [of _ c]) (simp add: option.map_id0 [unfolded id_def])
next
  case (Cons x us)
  obtain u clock S where x: "x = (u, clock, S)" by (cases x)
  from Cons.prems have "length staged < MAX_STAGED_OPS" by simp
  from stage_frame [OF Cons.prems(1-3) this Cons.prems(6), of opts primary peer clock S u] obtain e where
    e: "handle_frame enc opts primary peer clock c S (update_frame u) = Some e" "fe_response e = RStaged (of_nat (length staged))"
      "fe_server e = S" "\<not> fe_closed e" "fe_conn e = c\<lparr>cn_first_frame := False, cn_session := Some (staged @ [u])\<rparr>"
    by blast
  let ?c = "c\<lparr>cn_first_frame := False, cn_session := Some (staged @ [u])\<rparr>"
  have "writing ?c" using Cons.prems(1) by (simp add: writing_def)
  from Cons.IH [OF this, of "staged @ [u]"] Cons.prems obtain es d where
    rec: "conn_run enc opts primary peer ?c (map (\<lambda>(u, clock, S). (clock, S, update_frame u)) us @ rest) =
      map_option ((@) es) (conn_run enc opts primary peer d rest)"
    "map fe_server es = map (snd \<circ> snd) us"
    "map fe_response es = map (\<lambda>n. RStaged (of_nat n)) [Suc (length staged) ..< Suc (length staged) + length us]"
    "writing d" "cn_session d = Some (staged @ u # map fst us)" "cn_snapshot_reads d = None" "cn_table d = cn_table c"
    "cn_negotiated d = cn_negotiated c"
    by auto
  have "[length staged ..< length staged + length (x # us)] = length staged # [Suc (length staged) ..< Suc (length staged) + length us]"
    using upt_conv_Cons [of "length staged" "length staged + length (x # us)"] by simp
  with rec(3) e(2) have
    "map fe_response (e # es) = map (\<lambda>n. RStaged (of_nat n)) [length staged ..< length staged + length (x # us)]"
    by (simp only: list.map)
  with rec e show ?case
    by (intro exI [of _ "e # es"] exI [of _ d]) (simp add: x option.map_comp comp_def del: upt_Suc)
qed

lemma session_commit:
  assumes "writing c" "cn_session c = None" "length us \<le> MAX_STAGED_OPS" "session_replies_fit enc"
    and "handle_frame enc opts primary peer clock c S (Transaction (map fst us)) = Some e"
  shows "\<exists>es e'. conn_run enc opts primary peer c
      ((clock0, S0, Begin) # map (\<lambda>(u, clock, S). (clock, S, update_frame u)) us @ [(clock, S, Commit)]) = Some (es @ [e']) \<and>
    map fe_server es = S0 # map (snd \<circ> snd) us \<and>
    map fe_response es = ROk # map (\<lambda>n. RStaged (of_nat n)) [0 ..< length us] \<and>
    fe_server e' = fe_server e \<and> fe_response e' = fe_response e \<and> cn_session (fe_conn e') = None \<and>
    fe_closed e' = fe_closed e"
proof -
  from begin_frame [OF assms(1,2,4), of opts primary peer clock0 S0] obtain b where
    b: "handle_frame enc opts primary peer clock0 c S0 Begin = Some b" "fe_response b = ROk" "fe_server b = S0" "\<not> fe_closed b"
      "fe_conn b = c\<lparr>cn_first_frame := False, cn_session := Some [], cn_read_your_writes := None,
        cn_validate_on_stage := False, cn_snapshot_reads := None\<rparr>" by blast
  let ?c = "fe_conn b"
  have "writing ?c" using assms(1) by (simp add: b writing_def)
  from stage_frames [OF this, of "[]" us enc opts primary peer "[(clock, S, Commit)]"] assms(3,4) b(5) obtain es d where
    st: "conn_run enc opts primary peer ?c (map (\<lambda>(u, clock, S). (clock, S, update_frame u)) us @ [(clock, S, Commit)]) =
      map_option ((@) es) (conn_run enc opts primary peer d [(clock, S, Commit)])"
    "map fe_server es = map (snd \<circ> snd) us" "map fe_response es = map (\<lambda>n. RStaged (of_nat n)) [0 ..< length us]"
    "writing d" "cn_session d = Some (map fst us)" "cn_snapshot_reads d = None" "cn_table d = cn_table c"
    "cn_negotiated d = cn_negotiated c"
    by auto
  from commit_frame [OF st(4-6) assms(1,2) _ _ assms(5)] st(7,8) obtain e' where
    "handle_frame enc opts primary peer clock d S Commit = Some e'" "fe_response e' = fe_response e"
    "fe_server e' = fe_server e" "cn_session (fe_conn e') = None" "fe_closed e' = fe_closed e" by auto
  with st b show ?thesis
    by (intro exI [of _ "b # es"] exI [of _ e']) simp
qed

end
