(* ===== verification/Server_Properties.thy ===== *)
theory Server_Properties
  imports Session_Laws
begin

text \<open>
  The properties of the query evaluator and of the frame handler, with the table the source's own
  tests serve (\<open>FixtureStore\<close> of \<open>src/server/serve.rs\<close>) as the concrete input.
\<close>

section \<open>A concrete table\<close>

definition fixture_schema :: domain_schema where
  "fixture_schema =
     \<lparr>ds_fields = [\<lparr>fd_tag = 0, fd_name = ''a'', fd_value_kind = KU32,
        fd_capabilities = \<lparr>fc_filter_eq = True, fc_scan = True, fc_update = True\<rparr>\<rparr>],
      ds_relations = \<lparr>rc_parent_children = True, rc_neighbors = False\<rparr>\<rparr>"

definition fixture_check :: "transaction_op \<Rightarrow> error_code + unit" where
  "fixture_check op =
     (if to_field op = 0
      then (case to_value op of VU32 _ \<Rightarrow> if to_id op = 1 then Ok () else Err RecordNotFound | _ \<Rightarrow> Err Malformed)
      else Err UnknownField)"

fun fixture_batch :: "nat \<Rightarrow> transaction_op list \<Rightarrow> (nat \<times> error_code) + unit" where
  "fixture_batch n [] = Ok ()"
| "fixture_batch n (op # ops) =
     (case fixture_check op of Inl code \<Rightarrow> Err (n, code) | Inr _ \<Rightarrow> fixture_batch (Suc n) ops)"

definition fixture_store :: "unit conn_store" where
  "fixture_store =
     \<lparr>cs_get = \<lambda>s i. Some (if i = 1 then Some [(0, VU32 7)] else None),
      cs_filter_eq = \<lambda>s f v. Some (if f = 0 then Ok [1] else Err UnknownField),
      cs_scan_field = \<lambda>s f. Some (if f = 0 then Ok [VU32 7] else Err UnknownField),
      cs_update_field = \<lambda>s i f v. Some
        (if f = 0 then (case v of VU32 _ \<Rightarrow> Ok (i = 1) | _ \<Rightarrow> Err Malformed) else Err UnknownField, s),
      cs_parent = \<lambda>s i. Some (Ok (if i = 1 then HasParent 100 else if i = 2 then NoParent else ChildNotFound)),
      cs_children = \<lambda>s i. Some (Ok [1]),
      cs_neighbors = \<lambda>s i. Some (Err Unsupported),
      cs_neighbors_by_relation = \<lambda>s i l. Some (Err Unsupported),
      cs_list_relation_kinds = \<lambda>s. [],
      cs_describe_relations = \<lambda>s. default_relation_descriptors fixture_schema [],
      cs_table_name = ''table'',
      cs_insert_record = \<lambda>s i fs. unsupported s,
      cs_link_records = \<lambda>s l r n. unsupported s,
      cs_replace_record = \<lambda>s i fs. unsupported s,
      cs_replace_record_if = \<lambda>s i fs g. unsupported s,
      cs_page = \<lambda>s order_by after limit. map_option Ok
        (page_by_scan (default_page_keys (Some [(1, [(0, VU32 7)])]) order_by)
          (\<lambda>i. Some (if i = 1 then Some [(0, VU32 7)] else None)) after limit),
      cs_count_edges = \<lambda>s l. Some (Err Unsupported),
      cs_write_batch = \<lambda>s ops atomic. Some
        (if ops \<noteq> [] \<and> atomic then Err (0, Unsupported) else Ok (map (\<lambda>_. WrFailed Unsupported) ops), s),
      cs_delete_record = \<lambda>s i. unsupported s,
      cs_detach_record = \<lambda>s l i. unsupported s,
      cs_compact = unsupported,
      cs_describe = fixture_schema,
      cs_validate_op = \<lambda>s op. Some (Ok ()),
      cs_scan_all = \<lambda>s. Some [(1, [(0, VU32 7)])],
      cs_apply_transaction = \<lambda>s ops reads. Some
        (and_then (fixture_batch 0 ops) (\<lambda>_.
           if \<forall>(i, f, v) \<in> set reads. i = 1 \<and> f = 0 \<and> v = VU32 7 then Ok () else Err (0, Conflict)), s)\<rparr>"

definition fixture_tables :: "unit table list" where
  "fixture_tables = [\<lparr>tb_name = ''table'', tb_store = fixture_store, tb_state = ()\<rparr>]"

section \<open>Pages\<close>

text \<open>C29. Walking the pages of an ordered table visits every row once, in order: the first page is
  the first \<open>limit\<close> rows of the table ranked by the ordering field (ties by id, all keys distinct),
  and the page after any row, asked for by that row's own value and id, starts at the next one.\<close>

theorem pages_tile_the_table:
  assumes "distinct (map fst rows)"
  shows "page_rows rows order_by None limit = take limit (ranked rows order_by) \<and>
     (\<forall>k i fs v. k < length (ranked rows order_by) \<and> ranked rows order_by ! k = (i, fs) \<and>
        field_value fs order_by = Some v \<and> page_key_value v \<noteq> None \<longrightarrow>
        page_rows rows order_by (Some (v, i)) limit = take limit (drop (Suc k) (ranked rows order_by))) \<and>
     sorted_wrt (\<lambda>r s. page_key (snd r) order_by (fst r) < page_key (snd s) order_by (fst s)) (ranked rows order_by) \<and>
     mset (ranked rows order_by) = mset rows"
proof (intro conjI allI impI)
  show "page_rows rows order_by None limit = take limit (ranked rows order_by)"
    by (simp add: page_rows_eq [OF assms] page_cursor_def)
  show "page_rows rows order_by (Some (v, i)) limit = take limit (drop (Suc k) (ranked rows order_by))"
    if "k < length (ranked rows order_by) \<and> ranked rows order_by ! k = (i, fs) \<and>
      field_value fs order_by = Some v \<and> page_key_value v \<noteq> None" for k i fs v
    using page_after_nth [OF assms] that by blast
  have "sorted_wrt (<) (map (\<lambda>(i, fs). page_key fs order_by i) (ranked rows order_by))"
    using ranked_strict [OF assms] by (metis strict_sorted_iff)
  then show "sorted_wrt (\<lambda>r s. page_key (snd r) order_by (fst r) < page_key (snd s) order_by (fst s)) (ranked rows order_by)"
    by (simp add: sorted_wrt_map case_prod_beta')
  show "mset (ranked rows order_by) = mset rows" by (simp add: ranked_def)
qed

lemma pages_tile_the_table_witness:
  "page_rows [(3, [(0, VU32 9)]), (2, [(0, VU32 9)]), (4, [(0, VU32 4)])] 0 (Some (VU32 9, 2)) 5 =
     drop 2 (ranked [(3, [(0, VU32 9)]), (2, [(0, VU32 9)]), (4, [(0, VU32 4)])] 0)"
proof -
  let ?rows = "[(3, [(0, VU32 9)]), (2, [(0, VU32 9)]), (4, [(0, VU32 4)])]"
  have ranked: "ranked ?rows 0 = [(4, [(0, VU32 4)]), (2, [(0, VU32 9)]), (3, [(0, VU32 9)])]"
    by (simp add: ranked_def page_key_def field_value_def)
  have "page_rows ?rows 0 (Some (VU32 9, 2)) 5 = take 5 (drop (Suc 1) (ranked ?rows 0))"
    by (rule pages_tile_the_table [of ?rows 0 5, THEN conjunct2, THEN conjunct1, rule_format, of 1 2 "[(0, VU32 9)]"])
      (simp_all add: ranked field_value_def)
  then show ?thesis by (simp add: ranked)
qed

section \<open>Aggregates\<close>

text \<open>C30. An aggregate that validation accepts never panics on rows of the schema and answers in the
  promised kinds: one group per distinct key (one in all when nothing is grouped by, even over no
  rows), made of exactly the matching rows with that key, each reduction of its own kind, and no
  list of strings in any key.\<close>

theorem validated_aggregate_total:
  assumes valid: "validate_aggregate schema group_by flt aggregates = Ok ()"
    and typed: "\<forall>(i, fs) \<in> set rows. row_ok schema fs"
    and matched: "matched = filter (\<lambda>fs. \<forall>p \<in> set flt. predicate_matches fs p) (map snd rows)"
  shows "\<exists>buckets groups. evaluate_aggregate rows group_by flt aggregates limit schema = Some (truncated limit groups) \<and>
     distinct (map fst buckets) \<and> (\<forall>(k, rs) \<in> set buckets. rs = filter (\<lambda>fs. group_key group_by fs = k) matched) \<and>
     fst ` set buckets = (if group_by = [] then {[]} else group_key group_by ` set matched) \<and>
     list_all2 (\<lambda>b g. gr_key g = fst b \<and> (\<forall>p \<in> set (gr_key g). \<not> is_str_list p) \<and>
        list_all2 (\<lambda>spec v. reduce spec (snd b) schema = Some v \<and> spec_kind schema spec v) aggregates (gr_values g))
       buckets groups"
  using assms by (rule evaluate_validated)

lemma validated_aggregate_total_witness:
  "\<exists>groups. evaluate_aggregate [(1, [(0, VU32 7)]), (2, [(0, VU32 5)])] [0] []
     [\<lparr>ag_func = AggMax, ag_field = Some 0\<rparr>] None fixture_schema = Some (truncated None groups)"
  using validated_aggregate_total [of fixture_schema "[0]" "[]" "[\<lparr>ag_func = AggMax, ag_field = Some 0\<rparr>]"
      "[(1, [(0, VU32 7)]), (2, [(0, VU32 5)])]" _ None, OF _ _ refl]
  by (simp add: fixture_schema_def validate_aggregate_def validate_group_tag_def kind_of_def validate_spec_def
      orderable_def row_ok_def field_value_def) blast

section \<open>Who can write\<close>

text \<open>C28. A server whose credentials grant reading only never writes: whatever connections come and go
  and whatever frames they interleave, every table stays as it was when the server started.\<close>

theorem read_only_server_never_writes:
  assumes "server_reaches enc opts primary peer_of (initial_world tables limit) W"
    and "is_configured opts" "so_read_write_token opts = None"
    and "\<forall>(der, cls) \<in> set (so_certificate_classes opts). cls = ReadOnly"
  shows "ss_tables (wd_server W) = tables"
  using no_writer_reaches [OF assms(1)] assms(2-4) by (fastforce simp: grants_write_def)

definition demo_options :: serve_options where
  "demo_options = \<lparr>so_read_only_token = Some ''r'', so_read_write_token = None, so_certificate_classes = []\<rparr>"

text \<open>An encoder for the concrete runs: every response as one byte.\<close>

definition any_payload :: response_encoder where
  "any_payload resp = Some [0]"

lemma any_payload_fits: "frame_fits any_payload resp"
  by (simp add: frame_fits_def any_payload_def)

lemma any_replies_fit: "session_replies_fit any_payload"
  by (simp add: session_replies_fit_def any_payload_fits)

definition demo_world :: "(nat, nat, unit) world" where
  "demo_world = \<lparr>wd_server = \<lparr>ss_tables = fixture_tables, ss_limits = None\<rparr>,
     wd_conns = [4 \<mapsto> (initial_conn demo_options None 0)\<lparr>cn_first_frame := False, cn_authenticated := Some ReadOnly\<rparr>]\<rparr>"

lemma demo_world_reached:
  "server_reaches any_payload demo_options 0 (\<lambda>_. Some 9) (initial_world fixture_tables None) demo_world"
proof -
  let ?W0 = "initial_world fixture_tables None :: (nat, nat, unit) world"
  let ?c = "initial_conn demo_options None 0"
  have "wd_conns ?W0 4 = None" by (simp add: initial_world_def)
  then have "server_step any_payload demo_options 0 (\<lambda>_. Some 9) ?W0
      (?W0\<lparr>wd_conns := (wd_conns ?W0)(4 \<mapsto> initial_conn demo_options (Option.bind None (class_for_certificate demo_options)) 0)\<rparr>)"
    by (rule server_step.accept)
  then have one: "server_reaches any_payload demo_options 0 (\<lambda>_. Some 9) ?W0 (?W0\<lparr>wd_conns := [4 \<mapsto> ?c]\<rparr>)"
    using server_reaches.more [OF server_reaches.start] by (simp add: initial_world_def)
  have h: "handle_frame any_payload demo_options 0 (Some 9) (0, 0) ?c (wd_server (?W0\<lparr>wd_conns := [4 \<mapsto> ?c]\<rparr>)) (Authenticate ''r'') =
      Some \<lparr>fe_response = ROk, fe_conn = ?c\<lparr>cn_first_frame := False, cn_authenticated := Some ReadOnly\<rparr>,
        fe_server = \<lparr>ss_tables = fixture_tables, ss_limits = None\<rparr>, fe_audit = [Authenticated ReadOnly], fe_access = [],
        fe_sent = True, fe_closed = False\<rparr>"
    by (simp add: handle_frame_def authenticate_def demo_options_def is_configured_def is_throttled_def check_token_def
        initial_world_def initial_conn_def MAX_AUTH_FAILURES_def any_payload_fits send_response_iff Let_def)
  have "server_step any_payload demo_options 0 (\<lambda>_. Some 9) (?W0\<lparr>wd_conns := [4 \<mapsto> ?c]\<rparr>) demo_world"
    using server_step.frame [where peer_of = "\<lambda>_. Some 9" and k = 4 and W = "?W0\<lparr>wd_conns := [4 \<mapsto> ?c]\<rparr>", OF _ h]
    by (simp add: demo_world_def)
  with one show ?thesis by (rule server_reaches.more)
qed

lemma read_only_server_never_writes_witness: "ss_tables (wd_server demo_world) = fixture_tables"
  by (rule read_only_server_never_writes [OF demo_world_reached]) (simp_all add: demo_options_def is_configured_def)

section \<open>Bounds\<close>

text \<open>C31. In every reachable world of a server, what its clients can make it hold is bounded: no
  connection buffers more than 4096 staged writes or tracks more than 4096 reads, none survives its
  fifth failed authentication, the failure table tracks at most 4096 peers; and every connection
  has a version the server speaks and a table that exists.\<close>

theorem server_stays_bounded:
  assumes "server_reaches enc opts primary peer_of (initial_world tables limit) W" "primary < length tables"
    and "wd_conns W k = Some c"
  shows "(\<forall>staged. cn_session c = Some staged \<longrightarrow> length staged \<le> 4096) \<and>
     (\<forall>reads. cn_snapshot_reads c = Some reads \<longrightarrow> length reads \<le> 4096) \<and>
     cn_failures c < 5 \<and> 1 \<le> cn_negotiated c \<and> cn_negotiated c \<le> 22 \<and>
     cn_table c < length (ss_tables (wd_server W)) \<and>
     (\<forall>T. ss_limits (wd_server W) = Some T \<longrightarrow> length (ft_peers T) \<le> 4096)"
proof -
  from server_reaches_ok [OF assms(1,2)] assms(3) have w: "same_shape tables (ss_tables (wd_server W))"
    "\<forall>T. ss_limits (wd_server W) = Some T \<longrightarrow> table_ok T" "conn_ok (length tables) c" "cn_failures c < MAX_AUTH_FAILURES"
    unfolding world_ok_def by blast+
  then show ?thesis
    by (auto simp: conn_ok_def table_ok_def same_shape_length MAX_STAGED_OPS_def MAX_TRACKED_READS_def PROTOCOL_VERSION_def
        MAX_AUTH_FAILURES_def MAX_TRACKED_PEERS_def)
qed

lemma server_stays_bounded_witness:
  "cn_table ((initial_conn demo_options None 0)\<lparr>cn_first_frame := False, cn_authenticated := Some ReadOnly\<rparr>) < length fixture_tables"
  using server_stays_bounded [OF demo_world_reached, of 4] by (simp add: demo_world_def fixture_tables_def)

section \<open>Sessions\<close>

text \<open>C27. A committed session is one transaction: whatever states the other connections leave the server
  in between its frames, a session's \<open>Begin\<close> and staged writes change no table and are answered with
  their positions, and its \<open>Commit\<close> does to the server exactly what a \<open>Transaction\<close> of the staged
  writes sent at that moment would do, with the same response, and closes the connection exactly if
  that would. The encoder of responses is any whose encodings of a bare \<open>Ok\<close> and of a staged
  write's index fit a frame.\<close>

theorem session_is_one_transaction:
  assumes "writing c" "cn_session c = None" "length us \<le> MAX_STAGED_OPS" "session_replies_fit enc"
    and "handle_frame enc opts primary peer clock c S (Transaction (map fst us)) = Some e"
  shows "\<exists>es e'. conn_run enc opts primary peer c
      ((clock0, S0, Begin) # map (\<lambda>(u, clock, S). (clock, S, update_frame u)) us @ [(clock, S, Commit)]) = Some (es @ [e']) \<and>
    map fe_server es = S0 # map (snd \<circ> snd) us \<and>
    map fe_response es = ROk # map (\<lambda>n. RStaged (of_nat n)) [0 ..< length us] \<and>
    fe_server e' = fe_server e \<and> fe_response e' = fe_response e \<and> cn_session (fe_conn e') = None \<and>
    fe_closed e' = fe_closed e"
  using assms by (rule session_commit)

definition demo_writer :: conn where
  "demo_writer = (initial_conn demo_options (Some ReadWrite) 0)\<lparr>cn_negotiated := 3\<rparr>"

lemma session_is_one_transaction_witness:
  "\<exists>es e'. conn_run any_payload demo_options 0 (Some (9 :: nat)) demo_writer
      [((0, 0), \<lparr>ss_tables = fixture_tables, ss_limits = None\<rparr>, Begin),
       ((1, 1), \<lparr>ss_tables = fixture_tables, ss_limits = None\<rparr>, UpdateField 5 0 (VU32 8)),
       ((2, 2), \<lparr>ss_tables = fixture_tables, ss_limits = None\<rparr>, Commit)] = Some (es @ [e']) \<and>
    fe_response e' = RTransactionFailed 0 RecordNotFound (error_message RecordNotFound)"
proof -
  let ?S = "\<lparr>ss_tables = fixture_tables, ss_limits = None\<rparr> :: (nat, unit) server_state"
  let ?u = "\<lparr>to_id = 5, to_field = 0, to_value = VU32 8\<rparr>"
  obtain e where e: "handle_frame any_payload demo_options 0 (Some 9) (2, 2) demo_writer ?S (Transaction (map fst [(?u, (1 :: nat, 1 :: nat), ?S)])) = Some e"
    "fe_response e = RTransactionFailed 0 RecordNotFound (error_message RecordNotFound)"
    by (simp add: handle_frame_def gated_frame_def demo_writer_def initial_conn_def initial_class_def dispatch_on_def
        keep_conn_def on_table_def answer_def fixture_tables_def fixture_store_def fixture_check_def batch_reply_def
        transaction_failed_def Let_def del: error_message.simps)
  have w: "writing demo_writer" "cn_session demo_writer = None"
    by (simp_all add: demo_writer_def writing_def initial_conn_def initial_class_def)
  from session_is_one_transaction [OF w _ any_replies_fit e(1), of "(0, 0)" ?S] e(2) show ?thesis
    by (auto simp: MAX_STAGED_OPS_def update_frame_def)
qed

section \<open>The failure budget\<close>

text \<open>C32. The failure table is sound, bounded and, below its bound, exact: after any run of failures in
  time order a peer is throttled only if it failed at least the configured number of times within
  the last window itself; the table never holds more than 4096 peers; and while at most that many
  peers have ever failed, what it holds for each is what that peer's failures alone make.\<close>

theorem throttled_for_own_failures:
  assumes "sorted (map fst es)" "\<forall>e \<in> set es. fst e \<le> now"
    and T: "T = fail_run (new_table limit) es"
  shows "(table_throttled T now p \<longrightarrow>
        rl_failures limit \<le> length (filter (\<lambda>t. now - t < rl_window limit) (times_of p es))) \<and>
     length (ft_peers T) \<le> 4096 \<and>
     (card (snd ` set es) \<le> 4096 \<longrightarrow> map_of (ft_peers T) p = peer_window (rl_window limit) (times_of p es))"
proof (intro conjI impI)
  have lim: "ft_limit T = limit" by (simp add: T new_table_def)
  assume "table_throttled T now p"
  then obtain w where w: "map_of (ft_peers T) p = Some w" "now - wn_started w < rl_window limit"
    "rl_failures limit \<le> unat (wn_failures w)"
    by (auto simp: table_throttled_def over_budget_def lim split: option.splits)
  have "unat (wn_failures w) \<le> length (filter (\<lambda>t. wn_started w \<le> t) (times_of p es))"
    using fail_run_counts [OF assms(1)] w(1) T by blast
  also have "\<dots> \<le> length (filter (\<lambda>t. now - t < rl_window limit) (times_of p es))"
  proof -
    have "filter (\<lambda>t. wn_started w \<le> t) (times_of p es) =
        filter (\<lambda>t. wn_started w \<le> t) (filter (\<lambda>t. now - t < rl_window limit) (times_of p es))"
      unfolding filter_filter using w(2) by (intro filter_cong) auto
    then show ?thesis by (metis length_filter_le)
  qed
  finally show "rl_failures limit \<le> length (filter (\<lambda>t. now - t < rl_window limit) (times_of p es))"
    using w(3) by simp
next
  show "length (ft_peers T) \<le> 4096"
    using fail_run_ok [OF new_table_ok, of limit es] by (simp add: T table_ok_def MAX_TRACKED_PEERS_def)
  show "map_of (ft_peers T) p = peer_window (rl_window limit) (times_of p es)" if "card (snd ` set es) \<le> 4096"
    using fail_run_exact [of es limit p] that by (simp add: T MAX_TRACKED_PEERS_def)
qed

lemma throttled_for_own_failures_witness:
  "map_of (ft_peers (fail_run (new_table \<lparr>rl_failures = 2, rl_window = 10\<rparr>) [(1, 7 :: nat), (2, 8), (4, 7)])) 7 =
     Some \<lparr>wn_started = 1, wn_failures = 2\<rparr>"
proof -
  have "card (snd ` set [(1 :: nat, 7 :: nat), (2, 8), (4, 7)]) \<le> 4096" by (simp add: card_insert_if)
  with throttled_for_own_failures [of "[(1, 7 :: nat), (2, 8), (4, 7)]" 5 _ "\<lparr>rl_failures = 2, rl_window = 10\<rparr>" 7, OF _ _ refl]
  show ?thesis by (simp add: times_of_def peer_window_def peer_step_def)
qed

end
