(* ===== verification/Client_Properties.thy ===== *)
theory Client_Properties
  imports Client_Server Client_Walk Client_Write Server_Properties
begin

text \<open>
  The properties of the client, several of them across the wire with the modelled server. The
  concrete inputs use the fixture table of \<open>Server_Properties\<close>.
\<close>

section \<open>\<open>SELECT\<close> end to end\<close>

text \<open>C3. A \<open>SELECT\<close> without a join or an aggregate, typed correctly against the table's schema, means
  what it says when it is sent through the client to the server, frame by frame: if the request
  and the reply fit a frame, the answer is the table's rows whose named fields satisfy every
  condition over the integers, booleans and strings of the text, cut to the named columns and the
  limit, and neither the client nor the server changes. A request that does not fit is refused by
  the client and nothing is sent; a reply that does not fit costs the client its connection, and
  the server's tables still do not change. The codec is any whose decoders read what its encoders
  write.\<close>

theorem sql_select_end_to_end:
  assumes "codec_ok W" and "on_served_table k c S rows" "parse sql = Ok q" "pq_join q = None" "\<not> is_aggregate_query q"
    and "query_typed (cl_schema k) q"
  shows "\<exists>sel flt. compile_rows (cl_schema k) q = Some (Ok (Query sel flt (pq_limit q))) \<and>
    cl_query (served_wire W opts primary peer clock) sql (k, Some c, S) =
      Some (case write_message (mc_request W) [] (Query sel flt (pq_limit q)) of
              Inl x \<Rightarrow> (Err (CeFrame x), k, Some c, S)
            | Inr _ \<Rightarrow>
                if frame_fits (mc_response W) (RRows (evaluate_query rows sel flt (pq_limit q)))
                then (Ok (QueryRows (sql_rows (cl_schema k) q rows)), k, Some (c\<lparr>cn_first_frame := False\<rparr>), S)
                else (Err (CeFrame PeerClosed), k, None, S))"
  using assms by (rule select_over_server)

definition demo_client :: client where
  "demo_client = \<lparr>cl_schema = fixture_schema, cl_relations = [], cl_version = 22, cl_current_table = None,
     cl_table_schemas = Map.empty\<rparr>"

definition demo_conn :: conn where
  "demo_conn = (initial_conn demo_options (Some ReadOnly) 0)\<lparr>cn_negotiated := 22\<rparr>"

definition demo_server :: "(nat, unit) server_state" where
  "demo_server = \<lparr>ss_tables = fixture_tables, ss_limits = None\<rparr>"

lemma demo_table:
  "cs_describe fixture_store = fixture_schema" "cs_scan_all fixture_store () = Some [(1, [(0, VU32 7)])]"
  by (simp_all only: fixture_store_def conn_store.simps)

lemma demo_schema:
  "schema_ok fixture_schema" "row_ok fixture_schema [(0, VU32 7)]" "described fixture_schema [(0, VU32 7)]"
  by (simp_all add: fixture_schema_def schema_ok_def row_ok_def field_value_def kind_of_def described_def)

lemma demo_served: "on_served_table demo_client demo_conn demo_server [(1, [(0, VU32 7)])]"
proof -
  have "cn_authenticated demo_conn \<noteq> None" "cn_negotiated demo_conn = 22" "cn_table demo_conn = 0"
    by (simp_all add: demo_conn_def initial_conn_def initial_class_def demo_options_def)
  then show ?thesis
    using demo_table demo_schema
    by (simp add: on_served_table_def demo_client_def demo_server_def fixture_tables_def)
qed

definition demo_query :: parsed_query where
  "demo_query = \<lparr>pq_columns = NamedColumns [Plain ''a''], pq_table = ''t'', pq_alias = None, pq_join = None,
     pq_conditions = [\<lparr>pc_qualifier = None, pc_name = ''a'', pc_op = OpGe, pc_value = LNumber 5\<rparr>],
     pq_group_by = [], pq_limit = None\<rparr>"

lemma demo_query_parsed: "parse ''SELECT a FROM t WHERE a >= 5'' = Ok demo_query"
  unfolding demo_query_def by code_simp

text \<open>A codec that knows this one query and its reply, as one byte or as one byte too many.\<close>

definition demo_request :: request where
  "demo_request = Query (SelectFields [0]) [\<lparr>pr_field = 0, pr_op = OpGe, pr_value = VU32 5\<rparr>] None"

definition demo_codec :: "nat \<Rightarrow> message_codec" where
  "demo_codec n =
     \<lparr>mc_request = \<lambda>req. if req = demo_request then Some [1] else None, mc_read_request = \<lambda>_. Some demo_request,
      mc_response = \<lambda>r. if r = RRows [(1, [(0, VU32 7)])] then Some (replicate n 1) else None,
      mc_read_response = \<lambda>_. Some (RRows [(1, [(0, VU32 7)])])\<rparr>"

lemma demo_codec_ok: "codec_ok (demo_codec n)"
  by (simp add: codec_ok_def decodes_def demo_codec_def)

lemma demo_request_sent: "\<exists>frame. write_message (mc_request (demo_codec n)) [] demo_request = Ok frame"
  by (simp add: write_message_ok_iff frame_fits_def demo_codec_def)

lemma demo_compiled: "compile_rows (cl_schema demo_client) demo_query = Some (Ok demo_request)"
  by (simp add: compile_rows_def compile_select_def demo_query_def demo_client_def fixture_schema_def demo_request_def
      field_in_def column_name_def resolve_filter_in_def resolve_condition_def orderable_field_def)

lemma demo_reply_fits: "frame_fits (mc_response (demo_codec n)) (RRows [(1, [(0, VU32 7)])]) \<longleftrightarrow> n \<le> 16777216"
  by (simp add: frame_fits_def demo_codec_def)

lemma sql_select_end_to_end_witness:
  "cl_query (served_wire (demo_codec 1) demo_options 0 (Some 9) (0, 0)) ''SELECT a FROM t WHERE a >= 5''
       (demo_client, Some demo_conn, demo_server) =
     Some (Ok (QueryRows [(1, [(''a'', VU32 7)])]), demo_client, Some (demo_conn\<lparr>cn_first_frame := False\<rparr>), demo_server) \<and>
   cl_query (served_wire (demo_codec 16777217) demo_options 0 (Some 9) (0, 0)) ''SELECT a FROM t WHERE a >= 5''
       (demo_client, Some demo_conn, demo_server) = Some (Err (CeFrame PeerClosed), demo_client, None, demo_server)"
proof -
  have typed: "query_typed (cl_schema demo_client) demo_query"
    by (simp add: query_typed_def demo_client_def fixture_schema_def demo_query_def named_items_def column_name_def
        condition_typed_def orderable_field_def)
  have out: "sql_rows (cl_schema demo_client) demo_query [(1, [(0, VU32 7)])] = [(1, [(''a'', VU32 7)])]"
    by (simp add: sql_rows_def truncated_def demo_query_def demo_client_def named_def field_name_def fixture_schema_def
        condition_holds_def column_selected_def named_items_def column_name_def)
  have plain: "pq_join demo_query = None" "\<not> is_aggregate_query demo_query"
    by (simp_all add: demo_query_def is_aggregate_query_def named_items_def)
  have run: "cl_query (served_wire (demo_codec m) demo_options 0 (Some 9) (0, 0)) ''SELECT a FROM t WHERE a >= 5''
       (demo_client, Some demo_conn, demo_server) =
     Some (if m \<le> 16777216
       then (Ok (QueryRows [(1, [(''a'', VU32 7)])]), demo_client, Some (demo_conn\<lparr>cn_first_frame := False\<rparr>), demo_server)
       else (Err (CeFrame PeerClosed), demo_client, None, demo_server))" for m
  proof -
    obtain sel flt where r: "compile_rows (cl_schema demo_client) demo_query = Some (Ok (Query sel flt (pq_limit demo_query)))"
      "cl_query (served_wire (demo_codec m) demo_options 0 (Some 9) (0, 0)) ''SELECT a FROM t WHERE a >= 5''
         (demo_client, Some demo_conn, demo_server) =
       Some (case write_message (mc_request (demo_codec m)) [] (Query sel flt (pq_limit demo_query)) of
              Inl x \<Rightarrow> (Err (CeFrame x), demo_client, Some demo_conn, demo_server)
            | Inr _ \<Rightarrow>
                if frame_fits (mc_response (demo_codec m)) (RRows (evaluate_query [(1, [(0, VU32 7)])] sel flt (pq_limit demo_query)))
                then (Ok (QueryRows [(1, [(''a'', VU32 7)])]), demo_client, Some (demo_conn\<lparr>cn_first_frame := False\<rparr>), demo_server)
                else (Err (CeFrame PeerClosed), demo_client, None, demo_server))"
      using sql_select_end_to_end [OF demo_codec_ok demo_served demo_query_parsed plain typed,
          where opts = demo_options and primary = 0 and peer = "Some 9" and clock = "(0, 0)"] unfolding out by blast
    from r(1) have req: "Query sel flt (pq_limit demo_query) = demo_request" by (simp add: demo_compiled)
    then have "evaluate_query [(1, [(0, VU32 7)])] sel flt (pq_limit demo_query) = [(1, [(0, VU32 7)])]"
      by (simp add: demo_request_def evaluate_query_def predicate_matches_def compare_values_def field_value_def
          select_fields_def truncated_def)
    with r(2) req demo_request_sent [of m] demo_reply_fits [of m] show ?thesis by auto
  qed
  from run [of 1] run [of 16777217] show ?thesis by simp
qed

section \<open>No query goes unanswered\<close>



section \<open>The graph walk\<close>

text \<open>C5. A bounded traversal returns, sorted by depth and each id once, ids with their true hop distance
  from the start, none deeper than the depth bound and no more of them than the node bound; when the
  node bound is not reached it returns every id within the depth bound. It always returns.\<close>

theorem traverse_is_breadth_first:
  assumes "has_neighbors c" "answers_hops wire relation c N"
  shows "\<exists>found w'. traverse wire i max_depth max_nodes relation (c, w) = Some (Ok found, c, w') \<and>
     sorted (map snd found) \<and> distinct (map fst found) \<and> (i, 0) \<in> set found \<and> length found \<le> max 1 max_nodes \<and>
     (\<forall>(j, d) \<in> set found. d \<le> max_depth \<and> hop_distance N i j d) \<and>
     (length found < max_nodes \<longrightarrow> fst ` set found = ball N i max_depth)"
proof -
  obtain w' vis where v: "traverse wire i max_depth max_nodes relation (c, w) = Some (Ok (sort_key snd vis), c, w')"
    "level_ok N i max_nodes max_depth vis" using traverse_answered [OF assms] by blast
  moreover have "distinct (map fst (sort_key snd vis)) \<longleftrightarrow> distinct (map fst vis)"
    by (metis mset_map mset_sort mset_eq_imp_distinct_iff)
  ultimately show ?thesis
    by (intro exI [of _ "sort_key snd vis"] exI [of _ w']) (auto simp: level_ok_def)
qed

definition line_graph :: "record_id \<Rightarrow> record_id list" where
  "line_graph n = (if n = 2 then [3, 4] else if n = 3 then [2] else [2])"

fun line_wire :: "nat wire" where
  "line_wire (Neighbors n) w = (Ok (RRecordList (line_graph n)), Suc w)"
| "line_wire req w = (Err (CeFrame PeerClosed), w)"

definition graph_client :: client where
  "graph_client = demo_client\<lparr>cl_schema := fixture_schema\<lparr>ds_relations := \<lparr>rc_parent_children = False, rc_neighbors = True\<rparr>\<rparr>\<rparr>"

lemma traverse_is_breadth_first_witness:
  "\<exists>found w'. traverse line_wire 3 2 9 None (graph_client, 0) = Some (Ok found, graph_client, w') \<and>
     (\<forall>(j, d) \<in> set found. d \<le> 2 \<and> hop_distance line_graph 3 j d)"
proof -
  have n: "has_neighbors graph_client" by (simp add: has_neighbors_def graph_client_def)
  then have "answers_hops line_wire None graph_client line_graph"
    by (simp add: answers_hops_def hop_def cl_neighbors_def require_def call_bind_def call_client_def ask_def
        roundtrip_def call_result_def reply_shape_def)
  from traverse_is_breadth_first [OF n this, of 3 2 9 0] show ?thesis by blast
qed

section \<open>Sessions\<close>

text \<open>C33. The client's version gate for a session's options is the server's own: a server answers the
  \<open>BeginWith\<close> of a set of options with success exactly when no session is open and the negotiated
  version is one the client would have sent it at.\<close>

theorem session_gate_agrees:
  "(\<exists>c'. serve_request primary c tables (BeginWith (session_flags o1)) = Some (ROk, c', tables)) \<longleftrightarrow>
     cn_session c = None \<and> max 5 (required_version o1) \<le> cn_negotiated c"
proof -
  have flags: "session_flags o1 AND NOT (known_flags n) = 0 \<longleftrightarrow>
      (sn_validate_on_stage o1 \<longrightarrow> 6 \<le> n) \<and> (sn_snapshot_isolation o1 \<longrightarrow> 7 \<le> n)" for n
    by (simp add: session_flags_def known_flags_def SESSION_READ_YOUR_WRITES_def SESSION_VALIDATE_ON_STAGE_def
        SESSION_SNAPSHOT_ISOLATION_def)
  show ?thesis
    by (auto simp: gated_read_def refuse_def keep_tables_def begin_with_def flags err_response_def required_version_def)
qed

section \<open>A join that reads the other side\<close>

lemma join_plan_item:
  assumes "join_plan left right la items = Some (Ok plan)" "Qualified a n \<in> set items"
  shows "\<exists>d. field_in (if is_left la a then left else right) n = Ok d \<and>
    ((if is_left la a then LeftSide else RightSide), fd_tag d, a @ ''.'' @ n) \<in> set plan"
  using assms
proof (induction items arbitrary: plan)
  case (Cons item items)
  obtain b m where item: "item = Qualified b m" using Cons.prems(1) by (cases item) auto
  let ?s = "if is_left la b then LeftSide else RightSide"
  obtain d rest where d: "field_in (if is_left la b then left else right) m = Ok d"
    and rest: "join_plan left right la items = Some (Ok rest)"
    and plan: "plan = (?s, fd_tag d, b @ ''.'' @ m) # rest"
    using Cons.prems(1) item by (auto simp: Let_def map_ok_Ok_iff split: sum.splits if_splits)
  show ?case
  proof (cases "Qualified a n = item")
    case True
    with item d plan show ?thesis by simp
  next
    case False
    with Cons.prems(2) have "Qualified a n \<in> set items" by simp
    from Cons.IH [OF rest this] plan show ?thesis by auto
  qed
qed simp

text \<open>C34. In a join across tables whose left table has an alias other than its name, and whose right
  side bears neither name nor alias equal to that name, a column written with the left table's own
  name is read from the right table: the parser, which has accepted the text, takes the name as
  naming the left side, and the client, which compares qualifiers with the alias alone, compiles the
  column against the right table's schema and labels the right record's value with the left table's
  name. (Where the right side does bear the name the parser refuses the qualifier as ambiguous.)\<close>

theorem aliased_table_name_reads_right:
  assumes "parse sql = Ok q" "pq_join q = Some j" "pq_alias q = Some a" "\<not> eq_ignore_case (pq_table q) a"
    and "\<not> names_it (right_names q) (pq_table q)" "Qualified (pq_table q) n \<in> set (named_items q)"
    and "compile_join left right relation right_table q j = Some (Ok (req, plan))"
  shows "check_qualifier q (pq_table q) = Ok () \<and> names_it (left_names q) (pq_table q) \<and>
    (\<exists>d. field_in right n = Ok d \<and> (RightSide, fd_tag d, pq_table q @ ''.'' @ n) \<in> set plan)"
proof -
  obtain items where items: "pq_columns q = NamedColumns items" "Qualified (pq_table q) n \<in> set items"
    using assms(6) by (cases "pq_columns q") (auto simp: named_items_def)
  obtain z where z: "join_plan left right a items = Some z"
    using assms(3,7) items(1) by (auto simp: compile_join_def Let_def)
  with assms(3,7) items(1) have "join_plan left right a items = Some (Ok plan)"
    by (cases z) (auto simp: compile_join_def Let_def map_ok_Ok_iff and_then_Ok_iff split: sum.splits)
  from join_plan_item [OF this items(2)] assms(4)
  have "\<exists>d. field_in right n = Ok d \<and> (RightSide, fd_tag d, pq_table q @ ''.'' @ n) \<in> set plan"
    by (simp add: is_left_def)
  moreover have "names_it (left_names q) (pq_table q)" by (simp add: names_it_def left_names_def)
  ultimately show ?thesis using assms(5) by (simp add: check_qualifier_def)
qed

definition mixed_join :: parsed_query where
  "mixed_join = \<lparr>pq_columns = NamedColumns [Qualified ''t'' ''a''], pq_table = ''t'', pq_alias = Some ''x'',
     pq_join = Some \<lparr>pj_table = ''u'', pj_alias = None, pj_relation = ''r''\<rparr>, pq_conditions = [],
     pq_group_by = [], pq_limit = None\<rparr>"

lemma aliased_table_name_reads_right_witness:
  "parse ''SELECT t.a FROM t x JOIN u ON r'' = Ok mixed_join \<and>
   (\<exists>req. compile_join fixture_schema fixture_schema JoinParent (Some ''u'') mixed_join
       \<lparr>pj_table = ''u'', pj_alias = None, pj_relation = ''r''\<rparr> = Some (Ok (req, [(RightSide, 0, ''t.a'')])))"
proof -
  have p: "parse ''SELECT t.a FROM t x JOIN u ON r'' = Ok mixed_join" unfolding mixed_join_def by code_simp
  let ?j = "\<lparr>pj_table = ''u'', pj_alias = None, pj_relation = ''r''\<rparr>"
  obtain req where c: "compile_join fixture_schema fixture_schema JoinParent (Some ''u'') mixed_join ?j =
      Some (Ok (req, [(RightSide, 0, ''t.a'')]))"
    by (simp add: compile_join_def mixed_join_def is_left_def eq_ignore_case_def ascii_upper_def field_in_def
        fixture_schema_def resolve_filter_in_def)
  have "\<exists>d. field_in fixture_schema ''a'' = Ok d \<and> (RightSide, fd_tag d, pq_table mixed_join @ ''.'' @ ''a'') \<in>
      set [(RightSide, 0 :: field_ref, ''t.a'')]"
    by (rule aliased_table_name_reads_right [OF p _ _ _ _ _ c, of "''x''", THEN conjunct2, THEN conjunct2])
      (simp_all add: mixed_join_def eq_ignore_case_def ascii_upper_def names_it_def right_names_def named_items_def)
  with p c show ?thesis by blast
qed

end
