(* ===== verification/Spec2Isabelle.thy ===== *)
theory Spec2Isabelle
  imports Dog_Canonical Wal_Store Format_Properties Instances Sql_Properties Client_Properties
begin

text \<open>
  A model of \<open>rusty_multimodal_db\<close>: record stores with secondary indexes and relations, their files,
  a query server in front of them, and its client. File names are under \<open>src/src/\<close>.

  \<^bold>\<open>The program.\<close> A table is a stack of layers over one store (\<open>generic/store.rs\<close>): \<open>GenericMmapStore\<close>
  (\<open>generic/mmap_store.rs\<close>) keeps the records in memory and, on disk, a memory-mapped slot file, a
  record blob and an insert log; \<open>MultiSymmetric\<close> or \<open>Symmetric\<close> adds relations with an edge blob and
  an edge log each; \<open>Ordered\<close>, \<open>NameIndex\<close>, \<open>Reversed\<close>, \<open>Indexed\<close> and \<open>Scanned\<close> add reads. The server
  (\<open>server/serve.rs\<close>) reaches a table through the trait \<open>ConnectionStore\<close>, reads one frame
  (\<open>server/framing.rs\<close>) of a connection at a time, gates it by the connection's class, session and
  protocol version, and answers it. The client (\<open>server/client.rs\<close>) fetches the schema, compiles
  \<open>SELECT\<close> texts (\<open>server/sql.rs\<close>) to requests, and translates replies back to names. The \<open>Dog\<close> line
  (\<open>record.rs\<close>, \<open>store/\<close>, \<open>durability/\<close>) is an older family of stores of one record type with four
  in-memory backends and a write-ahead log.

  \<^bold>\<open>The theories,\<close> from the bottom:
    \<^item> \<open>Prelude\<close>: machine types, \<open>Result\<close> as a sum, hash maps whose order shows, multimaps; the
      collections of rewrite rules. \<open>Bytes\<close>: little-endian codecs and \<open>generic/mmap_field.rs\<close>.
    \<^item> \<open>Dog_Spec\<close>, \<open>Dog_Rows\<close>, \<open>Dog_Canonical\<close>: \<open>record.rs\<close> and the backends \<open>store/aos.rs\<close>, \<open>soa.rs\<close>,
      \<open>canonical.rs\<close>, \<open>canonical_cached.rs\<close>, each an interpretation of the locale of a Dog store.
      \<open>Durability\<close>, \<open>Wal_Store\<close>: \<open>durability/mod.rs\<close>, \<open>durability/wal_fsync.rs\<close>.
    \<^item> \<open>Blob\<close>, \<open>Insert_Log\<close>, \<open>Slot_File\<close>: the file formats of \<open>durability/record_blob.rs\<close>,
      \<open>generic/record_blob.rs\<close>, \<open>edge_blob.rs\<close>, \<open>insert_log.rs\<close> and \<open>slot_file.rs\<close> on their bytes;
      properties in \<open>Format_Properties\<close>.
    \<^item> \<open>Record_Env\<close>: the record traits (\<open>generic/traits.rs\<close>) and \<open>reminder.rs\<close>, \<open>order_customer.rs\<close>.
      \<open>Mmap_Store\<close>: \<open>GenericMmapStore\<close>; \<open>Mmap_Laws\<close>, \<open>Mmap_Writes\<close>, \<open>Mmap_Recovery\<close>, \<open>Mmap_Theorems\<close>,
      \<open>Mmap_Crash\<close>: its invariant, what each write and each reopen does to it; \<open>Mmap_Properties\<close>.
    \<^item> \<open>Layer_Spec\<close>: the query traits as a record of operations, the locale \<open>record_store\<close> of what every
      layer promises, and \<open>wrapping_layer\<close> for a layer that forwards to an inner store. \<open>Layer_Memory\<close>,
      \<open>Layer_Mmap\<close>, \<open>Layer_Reversed\<close>, \<open>Layer_Ordered\<close>, \<open>Layer_Names\<close>, \<open>Layer_Symmetric\<close>,
      \<open>Layer_Multi\<close>: one theory per layer; \<open>Edge_Lists\<close>, \<open>Edge_Files\<close>, \<open>Multi_Files\<close>: adjacency maps
      and edge files. \<open>Graph_Store\<close>, \<open>Relation_Store\<close>: the contracts of a whole stack.
    \<^item> \<open>Domains\<close>, \<open>Stacks\<close>, \<open>Employee_Stack\<close>: \<open>generic/entity.rs\<close>, \<open>memory.rs\<close>, \<open>relation.rs\<close>,
      \<open>generic_spike/employee_impl.rs\<close> and their stacks; \<open>Stack_Runs\<close>, \<open>Stack_Properties\<close>,
      \<open>Stack_Reopen\<close>, \<open>Employee_Properties\<close>; \<open>Instances\<close> and \<open>Wire_Codec\<close>, \<open>Order_Codec\<close> apply every
      contract to the program's stacks with concrete serialisers.
    \<^item> \<open>Protocol\<close>: \<open>server/protocol.rs\<close>. \<open>Query_Engine\<close>, \<open>Aggregates\<close>, \<open>Conn_Store\<close>, \<open>Dispatch\<close>,
      \<open>Rate_Limit\<close>, \<open>Audit_Log\<close>, \<open>Framing\<close>, \<open>Connection\<close>, \<open>Server_Machine\<close>: \<open>server/serve.rs\<close>,
      \<open>audit.rs\<close>, \<open>access.rs\<close>, \<open>framing.rs\<close>, one frame of \<open>handle_connection\<close> as the function
      \<open>handle_frame\<close> and the whole server as the step relation \<open>server_step\<close>; \<open>Query_Laws\<close>,
      \<open>Aggregate_Laws\<close>, \<open>Rate_Laws\<close>, \<open>Connection_Laws\<close>, \<open>Session_Laws\<close>, \<open>Server_Properties\<close>.
    \<^item> \<open>Sql\<close>, \<open>Sql_Lexer\<close>, \<open>Sql_Grammar\<close>, \<open>Sql_Properties\<close>: the tokenizer and the parser, and a
      declarative lexer and grammar they are equivalent to. \<open>Client\<close>, \<open>Client_Sql\<close>, \<open>Client_Write\<close>:
      the client's operations; \<open>Client_Laws\<close>: a semantics of \<open>SELECT\<close> by name; \<open>Client_Server\<close>: the client
      and the server joined by frames of bytes; \<open>Client_Walk\<close>, \<open>Client_Properties\<close>.

  \<^bold>\<open>What the lemmas show.\<close> The layer theorems are functional refinements: any run of calls on a stack
  is answered, refusals included, as the same calls on a map of records beside a graph, and the
  stack's files alone reopen to it. The format theorems are round trips and what damaged files do.
  The server theorems are invariants of every reachable world (bounds, authorisation), the
  equivalence of a session with one transaction, and the totality of validated queries. The client
  theorems compose parser, client, frames and server. A few properties state where the code does
  not do what its text says.

  \<^bold>\<open>Conventions.\<close> A panic is \<open>None\<close>; \<open>Result\<close> is a sum with \<open>Err\<close> and \<open>Ok\<close>. Integers keep their
  width. Every operation is a total HOL function, so no fuel is needed; loops that are not
  structural have termination proofs. A hash map whose iteration order shows is an association list
  in that order, any other is a map. The serialiser (\<open>codec.rs\<close> over \<open>bincode\<close>) is a parameter: an
  encoder and a decoder, lawful where a theorem says so. Strings are lists of 8-bit characters
  (Latin-1): Unicode white space, letters and lower case beyond it are outside the model, in the
  tokenizer as in name normalisation, which folds the case of ASCII letters only. The sums of
  \<open>SUM\<close> and \<open>AVG\<close> wrap, as in a release build; with overflow checks they panic. The clock and
  the peer's address are arguments. File writes take effect at once and completely, except where a
  theorem cuts them short. A frame handled is one step of the server: every table operation takes
  that table's lock. The reopening theorems of the stacks are for files whose freshness hashes
  (64-bit FNV) do not collide.

  \<^bold>\<open>Not modelled.\<close> Sockets, TLS, PEM files and threads (\<open>server/pem.rs\<close>, \<open>generic/production.rs\<close>,
  \<open>production.rs\<close>, \<open>concurrency/\<close>): I/O and scheduling around the modelled steps. The batch journal and
  the served domain adapters (\<open>server/journal.rs\<close>, \<open>server/entity.rs\<close>, \<open>memory.rs\<close> and the others): the
  server theorems hold of any table that is a \<open>conn_store\<close>, and the adapters' own translations of
  fields are not translated here. \<open>durability/wal_buffered.rs\<close>: \<open>WalFsyncStore\<close> without the sync. The
  experimental Dog stores and spikes over crates that are not in the repository, benchmarks,
  generators and binaries. Display texts and log rendering.
\<close>

section \<open>The four in-memory backends are interchangeable\<close>

text \<open>C18. Every in-memory backend of the Dog line, built from the same records and edges (distinct ids,
  no self-loop) and sent the same age updates, refused ones included, answers the same: the same
  record or miss for every id, the same ages up to order, the same same-breed list and the same
  littermate list in edge order. The records are the ones last written, and the cached store's
  parallel vectors never run out of step, so its two indexings never panic.\<close>

theorem dog_backends_agree:
  fixes us :: "(uuid \<times> u32) list"
  assumes "input_ok rs es" and v: "v = spec_run (mk_view rs es) us"
  shows "(aos_get (aos.run (aos_new rs es) us) i = v_dogs v i \<and> soa_get (soa.run (soa_new rs es) us) i = v_dogs v i \<and>
      can_get (can.run (can_new rs es) us) i = v_dogs v i \<and> cc_get (cc.run (cc_new rs es) us) i = v_dogs v i) \<and>
     (mset (aos_scan_ages (aos.run (aos_new rs es) us)) = spec_scan v \<and>
      mset (soa_scan_ages (soa.run (soa_new rs es) us)) = spec_scan v \<and>
      mset (can_scan_ages (can.run (can_new rs es) us)) = spec_scan v \<and>
      mset (cc_scan_ages (cc.run (cc_new rs es) us)) = spec_scan v) \<and>
     (aos_same_breed (aos.run (aos_new rs es) us) i = spec_same_breed v i \<and>
      soa_same_breed (soa.run (soa_new rs es) us) i = spec_same_breed v i \<and>
      can_same_breed (can.run (can_new rs es) us) i = spec_same_breed v i \<and>
      cc_same_breed (cc.run (cc_new rs es) us) i = spec_same_breed v i) \<and>
     (aos_neighbors (aos.run (aos_new rs es) us) i = edge_nbrs es i \<and>
      soa_neighbors (soa.run (soa_new rs es) us) i = edge_nbrs es i \<and>
      can_neighbors (can.run (can_new rs es) us) i = edge_nbrs es i \<and>
      cc_neighbors (cc.run (cc_new rs es) us) i = edge_nbrs es i) \<and>
     map_option age (v_dogs v i) =
       map_option (\<lambda>d. last (age d # map snd (filter (\<lambda>u. fst u = i) us))) (keyed dog_id rs i) \<and>
     cc_update_age (cc.run (cc_new rs es) us) i a \<noteq> None"
proof -
  have aos: "aos_invar (aos_new rs es)" "aos_view (aos_new rs es) = mk_view rs es"
    using aos_new_ok [OF assms(1)] by simp_all
  have soa: "soa_invar (soa_new rs es)" "soa_view (soa_new rs es) = mk_view rs es"
    using soa_new_ok [OF assms(1)] by simp_all
  have nbrs: "v_nbrs (spec_run (mk_view rs es) us) i = edge_nbrs es i"
    by (simp add: spec_run_frame) (simp add: mk_view_def)
  have ages: "map_option age (v_dogs (spec_run (mk_view rs es) us) i) =
      map_option (\<lambda>d. last (age d # map snd (filter (\<lambda>u. fst u = i) us))) (keyed dog_id rs i)"
    by (simp only: spec_run_age) (simp add: mk_view_def split: option.splits)
  have cc: "cc_update_age (cc.run (cc_new rs es) us) i a \<noteq> None"
    by (intro cc_update_never_panics cc.run_invar cc_new_ok [OF assms(1)])
  show ?thesis
    using aos.observe_run [OF aos, of us] soa.observe_run [OF soa, of us]
      can.observe_run [OF can_new_ok [OF assms(1)], of us] cc.observe_run [OF cc_new_ok [OF assms(1)], of us]
      nbrs ages cc
    by (simp only: v) blast
qed

definition demo_dogs :: "dog list" where
  "demo_dogs = [\<lparr>dog_id = 1, breed = ''Lab'', age = 3\<rparr>, \<lparr>dog_id = 2, breed = ''Pug'', age = 5\<rparr>,
     \<lparr>dog_id = 3, breed = ''Lab'', age = 7\<rparr>]"

theorem dog_backends_agree_witness:
  "cc_get (cc.run (cc_new demo_dogs [(1, 3), (2, 1)]) [(1, 9), (8, 4), (1, 4)]) 1 =
       v_dogs (spec_run (mk_view demo_dogs [(1, 3), (2, 1)]) [(1, 9), (8, 4), (1, 4)]) 1 \<and>
     can_neighbors (can.run (can_new demo_dogs [(1, 3), (2, 1)]) [(1, 9), (8, 4), (1, 4)]) 1 = [3, 2] \<and>
     map_option age (v_dogs (spec_run (mk_view demo_dogs [(1, 3), (2, 1)]) [(1, 9), (8, 4), (1, 4)]) 1) = Some 4"
proof -
  have "input_ok demo_dogs [(1, 3), (2, 1)]"
    by (simp add: input_ok_def demo_dogs_def)
  from dog_backends_agree [OF this refl, of "[(1, 9), (8, 4), (1, 4)]" 1 0]
  show ?thesis
    by (simp add: edge_nbrs_def List.map_filter_def demo_dogs_def)
qed

end
